(* ===== verification/Prelude.thy ===== *)
theory Prelude
  imports Main "HOL-Library.Word"
begin

text \<open>
  Shared vocabulary of the development: bytes and byte strings, Go strings, errors as
  values, the big-endian length headers every transport uses, and the generic list and
  word lemmas the component theories rest on.

  Go's \<open>error\<close> values are kept as data: a leaf (an I/O error, an error of the Noise
  library, a formatted message) or a wrapped error (\<open>fmt.Errorf("...: %w", err)\<close>), so that
  \<open>errors.Is\<close> is a function on them. A run-time panic is a leaf too, so that an
  out-of-range index of the source is a branch of the model and not a silent default.
\<close>

unbundle bit_operations_syntax

type_synonym byte = "8 word"
type_synonym bytes = "8 word list"

text \<open>The collections the component theories add to and simplify with.\<close>

named_theorems wire_simps \<open>length headers and frames\<close>
named_theorems net_simps \<open>reads, writes and closes of the underlying connection\<close>

section \<open>Errors\<close>

datatype io_err = EOF | UnexpectedEOF | ErrClosed | ErrTimeout | IoErr string

datatype noise_err = ErrMaxNonce | NoiseErr string

datatype farg = AStr string | AInt int

datatype err =
    Io io_err
  | Noise noise_err
  | Errorf string "farg list"
  | Wrapf string "farg list" err
  | Panic string

abbreviation New :: "string \<Rightarrow> err" where
  "New s \<equiv> Errorf s []"

type_synonym 'a res = "err + 'a"

text \<open>\<open>errors.Is\<close> for the two sentinel errors the code compares with.\<close>

fun is_max_nonce :: "err \<Rightarrow> bool" where
  "is_max_nonce (Noise e) = (e = ErrMaxNonce)"
| "is_max_nonce (Wrapf _ _ e) = is_max_nonce e"
| "is_max_nonce _ = False"

fun is_io :: "io_err \<Rightarrow> err \<Rightarrow> bool" where
  "is_io x (Io e) = (e = x)"
| "is_io x (Wrapf _ _ e) = is_io x e"
| "is_io x _ = False"

text \<open>Sequencing of fallible computations: the \<open>if err != nil \{ return err \}\<close> of Go.\<close>

fun attempt :: "'e + 'a \<Rightarrow> ('a \<Rightarrow> 'e + 'b) \<Rightarrow> 'e + 'b" where
  "attempt (Inl e) f = Inl e"
| "attempt (Inr x) f = f x"

lemma try_eq_Inr [simp]: "attempt m f = Inr y \<longleftrightarrow> (\<exists>x. m = Inr x \<and> f x = Inr y)"
  by (cases m) auto

lemma try_cong [fundef_cong]:
  "m = m' \<Longrightarrow> (\<And>x. m' = Inr x \<Longrightarrow> f x = f' x) \<Longrightarrow> attempt m f = attempt m' f'"
  by (cases m') auto

fun wrap :: "string \<Rightarrow> farg list \<Rightarrow> 'a res \<Rightarrow> 'a res" where
  "wrap s as (Inl e) = Inl (Wrapf s as e)"
| "wrap s as (Inr x) = Inr x"

lemma wrap_eq_Inr [simp]: "wrap s as m = Inr x \<longleftrightarrow> m = Inr x"
  by (cases m) auto

text \<open>A statement \<open>if !c \{ return errors.New(s) \}\<close>.\<close>

definition guard :: "bool \<Rightarrow> err \<Rightarrow> unit res" where
  "guard c e = (if c then Inr () else Inl e)"

lemma guard_eq_Inr [simp]: "guard c e = Inr u \<longleftrightarrow> c"
  by (simp add: guard_def)

lemma try_guard_True [simp]: "attempt (guard True e) f = f ()"
  by (simp add: guard_def)

lemma try_guard_False [simp]: "attempt (guard False e) f = Inl e"
  by (simp add: guard_def)

lemma if_Inl_Inr: "(if b then Inl e else m) = Inr z \<longleftrightarrow> \<not> b \<and> m = Inr z"
  by simp

lemma ex_unit: "(\<exists>u :: unit. P u) \<longleftrightarrow> P ()"
  by (metis (full_types) unit.exhaust)

lemma pair_same: "x = (a, b) \<Longrightarrow> x = (a', b') \<Longrightarrow> a' = a \<and> b = b'"
  by simp

section \<open>Strings and bytes\<close>

text \<open>
  A Go string is a sequence of bytes and Isabelle's \<open>char\<close> is a byte, so the conversions
  \<open>[]byte(s)\<close> and \<open>string(b)\<close> are bijections.
\<close>

definition str_bytes :: "string \<Rightarrow> bytes" where
  "str_bytes s = map (\<lambda>c. word_of_nat (of_char c)) s"

definition bytes_str :: "bytes \<Rightarrow> string" where
  "bytes_str bs = map (\<lambda>b. char_of (unat b)) bs"

lemma bytes_str_str_bytes [simp]: "bytes_str (str_bytes s) = s"
proof -
  have "char_of (unat (word_of_nat (of_char c) :: 8 word)) = c" for c
  proof -
    have "(of_char c :: nat) < 256" by simp
    then have "unat (word_of_nat (of_char c) :: 8 word) = of_char c"
      by (simp add: unat_of_nat take_bit_nat_eq_self)
    then show ?thesis by simp
  qed
  then show ?thesis
    by (simp add: bytes_str_def str_bytes_def comp_def)
qed

lemma str_bytes_inj [simp]: "str_bytes s = str_bytes t \<longleftrightarrow> s = t"
  by (metis bytes_str_str_bytes)

lemma str_bytes_append [simp]: "str_bytes (s @ t) = str_bytes s @ str_bytes t"
  by (simp add: str_bytes_def)

lemma length_str_bytes [simp]: "length (str_bytes s) = length s"
  by (simp add: str_bytes_def)

lemma str_bytes_Nil [simp]: "str_bytes s = [] \<longleftrightarrow> s = []" "str_bytes [] = []"
  by (simp_all add: str_bytes_def)

section \<open>Length headers\<close>

text \<open>
  \<open>put16\<close> is the two-byte big-endian header of a length after its conversion to
  \<open>uint16\<close>; \<open>get16\<close> is \<open>int(h[0])<<8 | int(h[1])\<close>. \<open>put24\<close> and \<open>get24\<close> are the
  three-byte variants of the WhatsApp framing.
\<close>

definition put16 :: "nat \<Rightarrow> bytes" where
  "put16 n = (let v = (word_of_nat n :: 16 word) in [ucast (drop_bit 8 v), ucast (v AND 0xFF)])"

definition get16 :: "byte \<Rightarrow> byte \<Rightarrow> nat" where
  "get16 a b = (push_bit 8 (unat a) OR unat b)"

definition put24 :: "nat \<Rightarrow> bytes" where
  "put24 n = [word_of_nat (drop_bit 16 n), word_of_nat (drop_bit 8 n), word_of_nat n]"

definition get24 :: "byte \<Rightarrow> byte \<Rightarrow> byte \<Rightarrow> nat" where
  "get24 a b c = (push_bit 16 (unat a) OR push_bit 8 (unat b) OR unat c)"

lemma unat_byte_less [simp]: "unat (b :: byte) < 256"
  by (rule order_less_le_trans [OF unsigned_less]) simp

lemma or_push_bit_add:
  assumes "(y::nat) < 2 ^ k"
  shows "push_bit k x OR y = x * 2 ^ k + y"
proof -
  have "push_bit k x OR y = push_bit k x + y"
  proof (rule disjunctive_add_eq_or [symmetric])
    have "\<not> (bit (push_bit k x) n \<and> bit y n)" for n
      using assms by (auto simp: bit_simps) (metis bit_take_bit_iff leD take_bit_nat_eq_self)
    then show "push_bit k x AND y = 0"
      by (intro bit_eqI) (simp add: bit_and_iff)
  qed
  then show ?thesis by (simp add: push_bit_eq_mult)
qed

lemma get16_eq: "get16 a b = unat a * 256 + unat b"
  using or_push_bit_add [of "unat b" 8 "unat a"] by (simp add: get16_def)

lemma get24_eq: "get24 a b c = unat a * 65536 + unat b * 256 + unat c"
proof -
  have "push_bit 16 (unat a) OR push_bit 8 (unat b) = push_bit 8 (push_bit 8 (unat a) OR unat b)"
    by (simp add: push_bit_or)
  then have "get24 a b c = push_bit 8 (push_bit 8 (unat a) OR unat b) OR unat c"
    by (simp add: get24_def flip: or.assoc)
  also have "\<dots> = (unat a * 256 + unat b) * 256 + unat c"
    using or_push_bit_add [of "unat b" 8 "unat a"]
      or_push_bit_add [of "unat c" 8 "push_bit 8 (unat a) OR unat b"] by simp
  finally show ?thesis by simp
qed

lemma put16_eq: "put16 n = [word_of_nat (n div 256), word_of_nat n]"
proof -
  let ?v = "word_of_nat n :: 16 word"
  have hi: "(ucast (drop_bit 8 ?v) :: byte) = word_of_nat (n div 256)"
    by (rule bit_word_eqI) (auto simp: bit_simps simp flip: drop_bit_eq_div [of 8, simplified])
  have lo: "(ucast (?v AND 0xFF) :: byte) = word_of_nat n"
  proof -
    have "(?v AND 0xFF) = ?v AND mask 8" by (simp add: mask_numeral)
    then show ?thesis
      by (auto intro!: bit_word_eqI simp: bit_simps)
  qed
  show ?thesis by (simp add: put16_def Let_def hi lo)
qed

lemma length_put16 [simp, wire_simps]: "length (put16 n) = 2"
  by (simp add: put16_eq)

lemma length_put24 [simp, wire_simps]: "length (put24 n) = 3"
  by (simp add: put24_def)

lemma put16_cases:
  obtains a b where "put16 n = [a, b]" "get16 a b = n mod 65536"
proof -
  have "unat (word_of_nat (n div 256) :: byte) = n div 256 mod 256"
    "unat (word_of_nat n :: byte) = n mod 256"
    by (simp_all add: unat_of_nat take_bit_eq_mod)
  then have "get16 (word_of_nat (n div 256)) (word_of_nat n) = n mod 65536"
    using mod_mult2_eq [of n 256 256] by (simp add: get16_eq)
  with that show ?thesis by (simp add: put16_eq)
qed

lemma get16_put16 [wire_simps]: "n < 65536 \<Longrightarrow> get16 (put16 n ! 0) (put16 n ! 1) = n"
  by (rule put16_cases [of n]) simp

lemma get16_bound [simp]: "get16 a b \<le> 65535"
  unfolding get16_eq using unat_byte_less [of a] unat_byte_less [of b] by linarith

lemma put16_get16 [simp]: "put16 (get16 a b) = [a, b]"
proof -
  have "(unat a * 256 + unat b) div 256 = unat a" by simp
  moreover have "(word_of_nat (unat a * 256 + unat b) :: byte) = b"
  proof -
    have "(256 :: byte) = 0" by (rule word_unat_eq_iff [THEN iffD2]) simp
    then have "a * 256 = 0" by (simp only: mult_zero_right)
    then show ?thesis by simp
  qed
  ultimately show ?thesis by (simp add: put16_eq get16_eq)
qed

lemma put24_cases:
  assumes "n < 16777216"
  obtains a b c where "put24 n = [a, b, c]" "get24 a b c = n"
proof -
  have "unat (word_of_nat (n div 65536) :: byte) = n div 65536 mod 256"
    "unat (word_of_nat (n div 256) :: byte) = n div 256 mod 256"
    "unat (word_of_nat n :: byte) = n mod 256"
    by (simp_all add: unat_of_nat take_bit_eq_mod)
  moreover have "n div 65536 mod 256 = n div 65536" using assms by simp
  moreover have "n div 65536 * 65536 + n div 256 mod 256 * 256 + n mod 256 = n"
    using mod_mult2_eq [of n 256 256] div_mult_mod_eq [of n 65536] by simp
  ultimately have "get24 (word_of_nat (n div 65536)) (word_of_nat (n div 256)) (word_of_nat n) = n"
    by (simp only: get24_eq)
  with that show ?thesis by (simp add: put24_def drop_bit_eq_div)
qed

lemma get24_bound [simp]: "get24 a b c \<le> 16777215"
  unfolding get24_eq
  using unat_byte_less [of a] unat_byte_less [of b] unat_byte_less [of c] by linarith

lemma two: "Suc (Suc 0) = 2"
  by simp

lemma length2_cases:
  assumes "length xs = 2"
  obtains a b where "xs = [a, b]"
  using assms that by (cases xs; cases "tl xs") auto

lemma take_split3: "w = take i w @ take j (drop i w) @ drop (i + j) w"
  by (metis append_take_drop_id drop_drop add.commute)

lemma ex_triple [simp]: "\<exists>a b c. x = (a, b, c)"
  by (cases x) auto

section \<open>Fragmenting\<close>

text \<open>
  The write loops of all four transports cut their argument into pieces of at most a fixed
  size; \<open>chunks\<close> is that cutting on its own, the reference the loops are compared with.
\<close>

function chunks :: "nat \<Rightarrow> 'a list \<Rightarrow> 'a list list" where
  "chunks m xs = (if xs = [] \<or> m = 0 then [] else take m xs # chunks m (drop m xs))"
  by pat_completeness auto
termination
  by (relation "measure (\<lambda>(m, xs). length xs)") auto

declare chunks.simps [simp del]

lemma chunks_Nil [simp]: "chunks m [] = []"
  by (simp add: chunks.simps)

lemma chunks_step: "xs \<noteq> [] \<Longrightarrow> 0 < m \<Longrightarrow> chunks m xs = take m xs # chunks m (drop m xs)"
  by (simp add: chunks.simps [of m xs])

lemma concat_chunks [simp]: "0 < m \<Longrightarrow> concat (chunks m xs) = xs"
proof (induction m xs rule: chunks.induct)
  case (1 m xs)
  then show ?case by (cases "xs = []") (simp_all add: chunks_step)
qed

lemma chunks_sizes: "c \<in> set (chunks m xs) \<Longrightarrow> c \<noteq> [] \<and> length c \<le> m"
proof (induction m xs rule: chunks.induct)
  case (1 m xs)
  then show ?case
    by (cases "xs = [] \<or> m = 0") (auto simp: chunks.simps [of m xs])
qed

lemma chunks_take:
  assumes "xs \<noteq> []" "0 < m"
  shows "chunks m (take (length (take m xs) + j) xs) = take m xs # chunks m (take j (drop m xs))"
proof (cases "length xs \<le> m")
  case True
  with assms show ?thesis by (simp add: chunks_step)
next
  case False
  with assms have "take (length (take m xs) + j) xs \<noteq> []" by auto
  from chunks_step [OF this assms(2)] False show ?thesis by (simp add: drop_take min_def)
qed

end
