(* ===== verification/Net_IO.thy ===== *)
theory Net_IO
  imports Prelude
begin

text \<open>
  The connection below a transport (Go's \<open>net.Conn\<close>) as explicit state, and the two ways
  the code reads an exact number of bytes from it: \<open>readBytes\<close> of
  pkg/transport/raw/conn.go and the standard library's \<open>io.ReadFull\<close>.

  The state of a connection is the script of what the environment does to it: the chunks
  (or errors) its coming reads deliver, in any sizes, and the failures of its coming
  writes. A read of \<open>k\<close> bytes gets at most \<open>k\<close> bytes of the first chunk; an exhausted
  script is the end of the stream. Every write is recorded as one entry of \<open>tx\<close>, because
  over a websocket or a datagram the boundary of a write is visible.

  The locale \<open>exact_reader\<close> is the contract of an exact reader; both readers are
  interpretations of it, and what the transports need of reading is proved in it once.
\<close>

section \<open>The underlying connection\<close>

datatype read_event = Data bytes | Fail io_err

record net =
  rx :: "read_event list"
  tx :: "bytes list"
  wr_fail :: "(nat \<times> io_err) option list"
  net_closed :: bool
  half_close :: bool
  wr_shut :: bool

text \<open>A fresh connection with a given read script, as a dialer or a listener returns it.\<close>

definition fresh_net :: "read_event list \<Rightarrow> net" where
  "fresh_net es = \<lparr>rx = es, tx = [], wr_fail = [], net_closed = False, half_close = True,
     wr_shut = False\<rparr>"

text \<open>\<open>net.Conn.Read\<close> with a buffer of \<open>k\<close> bytes.\<close>

definition conn_read :: "nat \<Rightarrow> net \<Rightarrow> net \<times> (io_err + bytes)" where
  "conn_read k n =
     (if net_closed n then (n, Inl ErrClosed)
      else if k = 0 then (n, Inr [])
      else case rx n of
        [] \<Rightarrow> (n, Inl EOF)
      | Data d # es \<Rightarrow>
          if length d \<le> k then (n\<lparr>rx := es\<rparr>, Inr d)
          else (n\<lparr>rx := Data (drop k d) # es\<rparr>, Inr (take k d))
      | Fail e # es \<Rightarrow> (n\<lparr>rx := es\<rparr>, Inl e))"

text \<open>\<open>net.Conn.Write\<close>: a failing write may have sent a proper prefix (by the contract of \<open>io.Writer\<close> an error says
  that the write stopped early).\<close>

definition conn_write :: "bytes \<Rightarrow> net \<Rightarrow> net \<times> io_err option" where
  "conn_write b n =
     (if net_closed n then (n, Some ErrClosed)
      else if wr_shut n then (n, Some (IoErr ''broken pipe''))
      else case wr_fail n of
        [] \<Rightarrow> (n\<lparr>tx := tx n @ [b]\<rparr>, None)
      | None # ws \<Rightarrow> (n\<lparr>tx := tx n @ [b], wr_fail := ws\<rparr>, None)
      | Some (k, e) # ws \<Rightarrow> (n\<lparr>tx := tx n @ [take k (butlast b)], wr_fail := ws\<rparr>, Some e))"

definition conn_close :: "net \<Rightarrow> net \<times> io_err option" where
  "conn_close n = (if net_closed n then (n, Some ErrClosed) else (n\<lparr>net_closed := True\<rparr>, None))"

text \<open>
  \<open>CloseWrite\<close> of a connection that supports the TCP half-close. The four transports share
  the code of their own \<open>CloseWrite\<close>: the half-close where the connection has it, a full
  close otherwise.
\<close>

definition conn_close_write :: "net \<Rightarrow> net \<times> io_err option" where
  "conn_close_write n =
     (if net_closed n then (n, Some ErrClosed) else (n\<lparr>wr_shut := True\<rparr>, None))"

definition close_write :: "net \<Rightarrow> net \<times> io_err option" where
  "close_write n = (if half_close n then conn_close_write n else conn_close n)"

lemma conn_write_rx [net_simps]:
  "conn_write b n = (n', e) \<Longrightarrow> rx n' = rx n \<and> net_closed n' = net_closed n"
  by (auto simp: conn_write_def split: if_splits list.splits option.splits)

text \<open>A write that fails puts a proper beginning of its bytes on the wire, or nothing.\<close>

lemma conn_write_cut:
  assumes "conn_write b n = (n', Some e)"
  shows "\<exists>t. concat (tx n') = concat (tx n) @ t \<and> (t = [] \<or> (\<exists>u. b = t @ u \<and> u \<noteq> []))"
proof -
  have "take k (butlast b) = [] \<or> (\<exists>u. b = take k (butlast b) @ u \<and> u \<noteq> [])" for k
  proof (cases "b = []")
    case False
    then have "b = take k (butlast b) @ (drop k (butlast b) @ [last b])"
      by (metis append.assoc append_butlast_last_id append_take_drop_id)
    then show ?thesis by blast
  qed simp
  with assms show ?thesis by (auto simp: conn_write_def split: if_splits list.splits option.splits)
qed

lemma conn_close_same: "rx (fst (conn_close n)) = rx n \<and> tx (fst (conn_close n)) = tx n"
  by (simp add: conn_close_def)

lemma conn_write_ok:
  "conn_write b n = (n', None) \<Longrightarrow> tx n' = tx n @ [b] \<and> \<not> net_closed n"
  by (auto simp: conn_write_def split: if_splits list.splits option.splits)

text \<open>A connection no write of which fails.\<close>

definition net_ok :: "net \<Rightarrow> bool" where
  "net_ok n \<longleftrightarrow> \<not> net_closed n \<and> \<not> wr_shut n \<and> wr_fail n = []"

lemma net_ok_write [simp]: "net_ok n \<Longrightarrow> conn_write b n = (n\<lparr>tx := tx n @ [b]\<rparr>, None)"
  by (simp add: net_ok_def conn_write_def)

lemma net_ok_open [simp]: "net_ok n \<Longrightarrow> \<not> net_closed n"
  by (simp add: net_ok_def)

lemma net_ok_upd [simp]: "net_ok (n\<lparr>tx := t\<rparr>) = net_ok n" "net_ok (n\<lparr>rx := r\<rparr>) = net_ok n"
  by (simp_all add: net_ok_def)

lemma net_ok_fresh [simp]: "net_ok (fresh_net es)"
  by (simp add: net_ok_def fresh_net_def)

lemma close_write_keeps_reading:
  "half_close n \<Longrightarrow> conn_read k (fst (close_write n)) = apfst (\<lambda>m. m\<lparr>wr_shut := wr_shut (fst (close_write n))\<rparr>) (conn_read k n)"
  by (auto simp: close_write_def conn_close_write_def conn_read_def split: list.splits read_event.splits)

section \<open>What a script delivers\<close>

text \<open>\<open>avail\<close>: the bytes ahead of the first failure. \<open>advance k\<close>: the script after \<open>k\<close> of them.\<close>

fun avail :: "read_event list \<Rightarrow> bytes" where
  "avail [] = []"
| "avail (Data d # es) = d @ avail es"
| "avail (Fail e # es) = []"

fun advance :: "nat \<Rightarrow> read_event list \<Rightarrow> read_event list" where
  "advance k [] = []"
| "advance k (Fail e # es) = Fail e # es"
| "advance k (Data d # es) =
     (if k = 0 then Data d # es
      else if length d \<le> k then advance (k - length d) es
      else Data (drop k d) # es)"

lemma advance_0 [simp]: "advance 0 es = es"
  by (cases "(0::nat, es)" rule: advance.cases) simp_all

lemma avail_advance [simp]: "avail (advance k es) = drop k (avail es)"
  by (induction k es rule: advance.induct) auto

fun weight :: "read_event list \<Rightarrow> nat" where
  "weight [] = 0"
| "weight (Data d # es) = Suc (length d) + weight es"
| "weight (Fail e # es) = Suc (weight es)"

lemma conn_read_Inr:
  assumes "conn_read k n = (n', Inr d)"
  shows "length d \<le> k" "0 < k \<Longrightarrow> weight (rx n') < weight (rx n)"
    "\<exists>es. n' = n\<lparr>rx := es\<rparr>" "\<not> net_closed n" "k = 0 \<Longrightarrow> n' = n"
  using assms
  by (auto simp: conn_read_def split: if_splits list.splits read_event.splits intro: exI [of _ "rx n"])

lemma conn_read_weight:
  assumes "conn_read k n = (n', Inr d)" "length d \<noteq> k"
  shows "weight (rx n') < weight (rx n)"
  using conn_read_Inr(1,2) [OF assms(1)] assms(2) by linarith

lemma conn_read_Inl:
  "conn_read k n = (n', Inl e) \<Longrightarrow> \<exists>es. n' = n\<lparr>rx := es\<rparr>"
  by (auto simp: conn_read_def split: if_splits list.splits read_event.splits intro: exI [of _ "rx n"])

section \<open>The two exact readers\<close>

text \<open>
  \<open>readBytes\<close> (pkg/transport/raw/conn.go): the loop reads into the rest of the buffer until
  it is full; the argument \<open>k\<close> is what is left of the buffer. It calls \<open>Read\<close> once even
  for an empty buffer.
\<close>

function readBytes_loop :: "nat \<Rightarrow> net \<Rightarrow> bytes \<Rightarrow> net \<times> (io_err + bytes)" where
  "readBytes_loop k n acc =
     (case conn_read k n of
        (n', Inl e) \<Rightarrow> (n', Inl e)
      | (n', Inr m) \<Rightarrow>
          if length m = k then (n', Inr (acc @ m))
          else readBytes_loop (k - length m) n' (acc @ m))"
  by pat_completeness auto
termination
  by (relation "measure (\<lambda>(k, n, acc). weight (rx n))") (auto dest: conn_read_weight [OF sym])

definition readBytes :: "nat \<Rightarrow> net \<Rightarrow> net \<times> (io_err + bytes)" where
  "readBytes k n = readBytes_loop k n []"

text \<open>
  \<open>io.ReadFull\<close> of the standard library: no call for an empty buffer, and the end of the
  stream after a partial read is \<open>io.ErrUnexpectedEOF\<close>.
\<close>

function readFull_loop :: "nat \<Rightarrow> net \<Rightarrow> bytes \<Rightarrow> net \<times> (io_err + bytes)" where
  "readFull_loop k n acc =
     (if k = 0 then (n, Inr acc)
      else case conn_read k n of
        (n', Inl e) \<Rightarrow> (n', Inl (if acc \<noteq> [] \<and> e = EOF then UnexpectedEOF else e))
      | (n', Inr m) \<Rightarrow> readFull_loop (k - length m) n' (acc @ m))"
  by pat_completeness auto
termination
  by (relation "measure (\<lambda>(k, n, acc). weight (rx n))") (auto dest: conn_read_Inr(2) [OF sym])

definition readFull :: "nat \<Rightarrow> net \<Rightarrow> net \<times> (io_err + bytes)" where
  "readFull k n = readFull_loop k n []"

declare readBytes_loop.simps [simp del] readFull_loop.simps [simp del]

section \<open>The contract of an exact reader\<close>

locale exact_reader =
  fixes rd :: "nat \<Rightarrow> net \<Rightarrow> net \<times> (io_err + bytes)"
  assumes rd_exact: "\<not> net_closed n \<Longrightarrow> k \<le> length (avail (rx n)) \<Longrightarrow>
      rd k n = (n\<lparr>rx := advance k (rx n)\<rparr>, Inr (take k (avail (rx n))))"
    and rd_short: "\<not> net_closed n \<Longrightarrow> length (avail (rx n)) < k \<Longrightarrow> \<exists>es e. rd k n = (n\<lparr>rx := es\<rparr>, Inl e)"
    and rd_closed: "net_closed n \<Longrightarrow>
      snd (rd k n) = Inl ErrClosed \<or> k = 0 \<and> snd (rd k n) = Inr []"
    and rd_frame: "\<exists>es. fst (rd k n) = n\<lparr>rx := es\<rparr>"
begin

text \<open>A reader never returns a wrong number of bytes, whatever the chunking.\<close>

lemma rd_open:
  assumes "rd k n = (n', Inr d)" "\<not> net_closed n"
  shows "k \<le> length (avail (rx n)) \<and> d = take k (avail (rx n)) \<and> n' = n\<lparr>rx := advance k (rx n)\<rparr>"
  using rd_exact [OF assms(2), of k] rd_short [OF assms(2), of k] assms(1)
  by (cases "k \<le> length (avail (rx n))") auto

lemma rd_length:
  assumes "rd k n = (n', Inr d)"
  shows "length d = k"
  using rd_open [OF assms] rd_closed [of n k] assms by (cases "net_closed n") auto

text \<open>Reading a given prefix of what is available.\<close>

lemma rd_prefix:
  assumes "\<not> net_closed n" "avail (rx n) = x @ rest" "length x = k"
  shows "rd k n = (n\<lparr>rx := advance k (rx n)\<rparr>, Inr x)"
  using rd_exact [of n k] assms by auto

text \<open>Any chunking of the same bytes gives the same result.\<close>

lemma rd_chunking:
  assumes "\<not> net_closed n" "\<not> net_closed m" "avail (rx n) = avail (rx m)" "k \<le> length (avail (rx n))"
  shows "snd (rd k n) = snd (rd k m)"
    and "avail (rx (fst (rd k n))) = avail (rx (fst (rd k m)))"
  using rd_exact [of n k] rd_exact [of m k] assms by simp_all

lemma rd_same: "fst (rd k n) = n' \<Longrightarrow> tx n' = tx n \<and> net_closed n' = net_closed n"
  using rd_frame [of k n] by auto

lemma rd_tx: "rd k n = (n', r) \<Longrightarrow> tx n' = tx n \<and> net_closed n' = net_closed n"
  using rd_same [of k n n'] by simp

lemma rd_closed_Inr: "rd k n = (n', Inr d) \<Longrightarrow> net_closed n \<Longrightarrow> k = 0"
  using rd_closed [of n k] by auto

end

section \<open>Both readers meet the contract\<close>

lemma conn_read_exact:
  assumes "conn_read k n = (n', Inr m)" "0 < k"
  shows "m = take (length m) (avail (rx n))" "length m \<le> length (avail (rx n))"
    "n' = n\<lparr>rx := rx n'\<rparr>" "avail (rx n') = drop (length m) (avail (rx n))"
    "0 < length m + j \<Longrightarrow> advance j (rx n') = advance (length m + j) (rx n)"
  using assms
  by (auto simp: conn_read_def le_diff_conv add.commute split: if_splits list.splits read_event.splits)

lemma conn_read_progress:
  assumes "\<not> net_closed n" "k \<le> length (avail (rx n))"
  obtains n' m where "conn_read k n = (n', Inr m)"
proof (cases "rx n" rule: avail.cases)
  case (2 d es)
  with assms that show ?thesis by (cases "k = 0"; cases "length d \<le> k") (auto simp: conn_read_def)
qed (use assms that in \<open>auto simp: conn_read_def\<close>)

lemma readFull_loop_exact:
  "\<not> net_closed n \<Longrightarrow> k \<le> length (avail (rx n)) \<Longrightarrow>
   readFull_loop k n acc = (n\<lparr>rx := advance k (rx n)\<rparr>, Inr (acc @ take k (avail (rx n))))"
proof (induction k n acc rule: readFull_loop.induct)
  case (1 k n acc)
  show ?case
  proof (cases "k = 0")
    case True
    then show ?thesis by (simp add: readFull_loop.simps)
  next
    case False
    from "1.prems" False obtain n' m where c: "conn_read k n = (n', Inr m)"
      by (blast elim: conn_read_progress)
    from False have k: "0 < k" by simp
    note e = conn_read_exact [OF c k]
    have len: "length m \<le> k" by (rule conn_read_Inr(1) [OF c])
    have "\<not> net_closed n'" by (subst e(3)) (simp add: "1.prems")
    moreover have "k - length m \<le> length (avail (rx n'))"
      using "1.prems"(2) by (simp add: e(4))
    ultimately have IH: "readFull_loop (k - length m) n' (acc @ m) =
        (n'\<lparr>rx := advance (k - length m) (rx n')\<rparr>, Inr ((acc @ m) @ take (k - length m) (avail (rx n'))))"
      by (rule "1.IH" [OF False c [symmetric] refl])
    have a: "advance (k - length m) (rx n') = advance k (rx n)"
      using e(5) [of "k - length m"] len k by simp
    have n: "n'\<lparr>rx := advance (k - length m) (rx n')\<rparr> = n\<lparr>rx := advance k (rx n)\<rparr>"
      by (subst e(3)) (simp add: a)
    have "m @ take (k - length m) (avail (rx n')) = take k (avail (rx n))"
      by (subst (1) e(1)) (simp add: e(4) take_add [symmetric] len)
    with False c IH n show ?thesis
      by (simp add: readFull_loop.simps [of k n acc])
  qed
qed

text \<open>
  The two readers move the connection in the same way and agree on every result but the
  error value: \<open>readBytes\<close> reports a plain end of stream after a partial read.
\<close>

lemma readBytes_loop_readFull:
  "\<not> net_closed n \<Longrightarrow>
   (case readFull_loop k n acc of
      (n', Inr d) \<Rightarrow> readBytes_loop k n acc = (n', Inr d)
    | (n', Inl e) \<Rightarrow> \<exists>e'. readBytes_loop k n acc = (n', Inl e') \<and> (e' = e \<or> e = UnexpectedEOF \<and> e' = EOF))"
proof (induction k n acc rule: readBytes_loop.induct)
  case (1 k n acc)
  show ?case
  proof (cases "conn_read k n")
    case (Pair n' r)
    show ?thesis
    proof (cases r)
      case (Inl e)
      then have "k \<noteq> 0" using Pair "1.prems" by (auto simp: conn_read_def split: if_splits)
      with Inl Pair show ?thesis
        by (simp add: readFull_loop.simps [of k n acc] readBytes_loop.simps [of k n acc])
    next
      case (Inr m)
      with Pair have c: "conn_read k n = (n', Inr m)" by simp
      have "\<not> net_closed n'" using conn_read_Inr(3,4) [OF c] by auto
      show ?thesis
      proof (cases "length m = k")
        case True
        with c have "readFull_loop k n acc = (n', Inr (acc @ m))"
          using conn_read_Inr(5) [OF c]
          by (cases "k = 0") (simp_all add: readFull_loop.simps [of k n acc] readFull_loop.simps [of 0])
        moreover from True c have "readBytes_loop k n acc = (n', Inr (acc @ m))"
          by (subst readBytes_loop.simps) simp
        ultimately show ?thesis by simp
      next
        case False
        then have k: "k \<noteq> 0" using conn_read_Inr(1) [OF c] by linarith
        with c have e1: "readFull_loop k n acc = readFull_loop (k - length m) n' (acc @ m)"
          by (subst readFull_loop.simps) simp
        from False c have e2: "readBytes_loop k n acc = readBytes_loop (k - length m) n' (acc @ m)"
          by (subst readBytes_loop.simps) simp
        show ?thesis
          unfolding e1 e2 by (rule "1.IH" [OF c [symmetric] refl False \<open>\<not> net_closed n'\<close>])
      qed
    qed
  qed
qed

lemma readFull_loop_frame: "\<exists>es. fst (readFull_loop k n acc) = n\<lparr>rx := es\<rparr>"
proof (induction k n acc rule: readFull_loop.induct)
  case (1 k n acc)
  show ?case
  proof (cases "k = 0")
    case True
    then have "fst (readFull_loop k n acc) = n\<lparr>rx := rx n\<rparr>" by (simp add: readFull_loop.simps)
    then show ?thesis by blast
  next
    case False
    show ?thesis
    proof (cases "conn_read k n")
      case (Pair n' r)
      show ?thesis
      proof (cases r)
        case (Inl e)
        with Pair False show ?thesis
          using conn_read_Inl [of k n n' e] by (simp add: readFull_loop.simps [of k n acc])
      next
        case (Inr m)
        with Pair have c: "conn_read k n = (n', Inr m)" by simp
        from conn_read_Inr(3) [OF c] obtain es where "n' = n\<lparr>rx := es\<rparr>" by blast
        with "1.IH" [OF False c [symmetric] refl] c False show ?thesis
          by (auto simp: readFull_loop.simps [of k n acc])
      qed
    qed
  qed
qed

lemma readFull_loop_closed:
  "net_closed n \<Longrightarrow> readFull_loop k n [] = (if k = 0 then (n, Inr []) else (n, Inl ErrClosed))"
  by (simp add: readFull_loop.simps conn_read_def)

lemma readBytes_loop_closed: "net_closed n \<Longrightarrow> readBytes_loop k n acc = (n, Inl ErrClosed)"
  by (simp add: readBytes_loop.simps conn_read_def)

text \<open>A short stream never makes a successful read.\<close>

lemma readFull_loop_Inr:
  "readFull_loop k n acc = (n', Inr d) \<Longrightarrow> \<not> net_closed n \<Longrightarrow> k \<le> length (avail (rx n))"
proof (induction k n acc rule: readFull_loop.induct)
  case (1 k n acc)
  show ?case
  proof (cases "k = 0")
    case False
    with "1.prems" obtain n'' m where c: "conn_read k n = (n'', Inr m)"
      and rest: "readFull_loop (k - length m) n'' (acc @ m) = (n', Inr d)"
      by (auto simp: readFull_loop.simps [of k n acc] split: prod.splits sum.splits)
    from False have k: "0 < k" by simp
    have "\<not> net_closed n''" using conn_read_Inr(3) [OF c] "1.prems"(2) by auto
    with "1.IH" [OF False c [symmetric] refl rest] conn_read_exact(2,4) [OF c k]
      conn_read_Inr(1) [OF c] show ?thesis by simp
  qed simp
qed

interpretation full: exact_reader readFull
proof
  fix n :: net and k :: nat
  show "readFull k n = (n\<lparr>rx := advance k (rx n)\<rparr>, Inr (take k (avail (rx n))))"
    if "\<not> net_closed n" "k \<le> length (avail (rx n))"
    using readFull_loop_exact [OF that, of "[]"] by (simp add: readFull_def)
  show "\<exists>es e. readFull k n = (n\<lparr>rx := es\<rparr>, Inl e)"
    if "\<not> net_closed n" "length (avail (rx n)) < k"
  proof (cases "readFull k n")
    case (Pair n' r)
    with that readFull_loop_Inr [of k n "[]" n'] obtain e where "r = Inl e"
      by (cases r) (auto simp: readFull_def)
    with Pair readFull_loop_frame [of k n "[]"] show ?thesis by (auto simp: readFull_def)
  qed
  show "snd (readFull k n) = Inl ErrClosed \<or> k = 0 \<and> snd (readFull k n) = Inr []" if "net_closed n"
    using that by (simp add: readFull_def readFull_loop_closed)
  show "\<exists>es. fst (readFull k n) = n\<lparr>rx := es\<rparr>"
    using readFull_loop_frame [of k n "[]"] by (simp add: readFull_def)
qed

interpretation rawrd: exact_reader readBytes
proof
  fix n :: net and k :: nat
  note sim = readBytes_loop_readFull [of n k "[]", folded readFull_def readBytes_def]
  show "readBytes k n = (n\<lparr>rx := advance k (rx n)\<rparr>, Inr (take k (avail (rx n))))"
    if "\<not> net_closed n" "k \<le> length (avail (rx n))"
    using sim full.rd_exact [OF that] that by simp
  show "\<exists>es e. readBytes k n = (n\<lparr>rx := es\<rparr>, Inl e)"
    if "\<not> net_closed n" "length (avail (rx n)) < k"
  proof -
    from full.rd_short [OF that] obtain es e where "readFull k n = (n\<lparr>rx := es\<rparr>, Inl e)" by blast
    with sim that(1) obtain e' where "readBytes k n = (n\<lparr>rx := es\<rparr>, Inl e')" by auto
    then show ?thesis by blast
  qed
  show "snd (readBytes k n) = Inl ErrClosed \<or> k = 0 \<and> snd (readBytes k n) = Inr []" if "net_closed n"
    using that by (simp add: readBytes_def readBytes_loop_closed)
  show "\<exists>es. fst (readBytes k n) = n\<lparr>rx := es\<rparr>"
  proof (cases "net_closed n")
    case True
    then have "fst (readBytes k n) = n\<lparr>rx := rx n\<rparr>" by (simp add: readBytes_def readBytes_loop_closed)
    then show ?thesis by blast
  next
    case False
    with sim full.rd_frame [of k n] show ?thesis by (auto split: prod.splits sum.splits)
  qed
qed

end
