(* ===== verification/Noise_Lib.thy ===== *)
theory Noise_Lib
  imports Prelude
begin

text \<open>
  The interface of the third-party Noise library (github.com/flynn/noise) as the code uses
  it. The library is not part of the repository, so it is a parameter: a record of
  functions that every definition using it takes as an argument. What the code relies on
  is stated as named predicates over that record, which are hypotheses of the properties:
  \<^item> \<open>cipher_pair L R\<close>: what one end encrypts the other end decrypts, as long as the two
    cipher states are related by \<open>R\<close>, and the ciphertext is 16 bytes longer;
  \<^item> \<open>handshake_pair L R P\<close>: two handshake states related by \<open>P\<close> exchange the remaining
    messages of the pattern and end with related cipher states, the first one for the
    initiator's direction.

  The library's randomness is the operating system's: a run of the program is modelled for
  a fixed outcome of it, so that the library's functions are functions of their arguments.
  Within one connection every handshake attempt has a different configuration (the prologue
  grows), so no two attempts are forced to draw the same values.
\<close>

record hs_pattern =
  pat_name :: string
  pat_messages :: nat

record dh_key =
  dh_private :: bytes
  dh_public :: bytes

text \<open>\<open>noise.Config\<close>, the fields the repository sets. A cipher suite is the three library
  objects it was made of, by their names; \<open>None\<close> is a nil interface.\<close>

record noise_config =
  cipher_suite :: "string option \<times> string option \<times> string option"
  cfg_pattern :: hs_pattern
  cfg_initiator :: bool
  cfg_prologue :: bytes
  preshared_key :: bytes
  psk_placement :: int
  static_keypair :: dh_key
  peer_static :: "bytes option"

definition empty_dh_key :: dh_key where
  "empty_dh_key = \<lparr>dh_private = [], dh_public = []\<rparr>"

text \<open>The zero value of \<open>noise.Config\<close>.\<close>

definition zero_noise_config :: noise_config where
  "zero_noise_config = \<lparr>cipher_suite = (None, None, None), cfg_pattern = \<lparr>pat_name = [], pat_messages = 0\<rparr>,
     cfg_initiator = False, cfg_prologue = [], preshared_key = [], psk_placement = 0,
     static_keypair = empty_dh_key, peer_static = None\<rparr>"

text \<open>\<open>noise.MaxMsgLen\<close>.\<close>

definition max_msg_len :: nat where
  "max_msg_len = 65535"

record ('hs, 'cs) noise_lib =
  new_handshake :: "noise_config \<Rightarrow> noise_err + 'hs"
  hs_write :: "'hs \<Rightarrow> 'hs \<times> (noise_err + bytes \<times> ('cs \<times> 'cs) option)"
  hs_read :: "'hs \<Rightarrow> bytes \<Rightarrow> 'hs \<times> (noise_err + ('cs \<times> 'cs) option)"
  channel_binding :: "'hs \<Rightarrow> bytes"
  cs_encrypt :: "'cs \<Rightarrow> bytes \<Rightarrow> 'cs \<times> (noise_err + bytes)"
  cs_decrypt :: "'cs \<Rightarrow> bytes \<Rightarrow> 'cs \<times> (noise_err + bytes)"

section \<open>What the code relies on\<close>

definition cipher_pair :: "('hs, 'cs) noise_lib \<Rightarrow> ('cs \<Rightarrow> 'cs \<Rightarrow> bool) \<Rightarrow> bool" where
  "cipher_pair L R \<longleftrightarrow>
     (\<forall>co ci p co' c. R co ci \<longrightarrow> cs_encrypt L co p = (co', Inr c) \<longrightarrow>
        length c = length p + 16 \<and> (\<exists>ci'. cs_decrypt L ci c = (ci', Inr p) \<and> R co' ci'))"

lemma cipher_pairD:
  assumes "cipher_pair L R" "R co ci" "cs_encrypt L co p = (co', Inr c)"
  obtains ci' where "length c = length p + 16" "cs_decrypt L ci c = (ci', Inr p)" "R co' ci'"
  using assms unfolding cipher_pair_def by blast

text \<open>
  \<open>P k w r\<close> relates the states of the peer that writes next and of the peer that reads next
  when \<open>k\<close> messages are left.
\<close>

definition handshake_pair ::
  "('hs, 'cs) noise_lib \<Rightarrow> ('cs \<Rightarrow> 'cs \<Rightarrow> bool) \<Rightarrow> (nat \<Rightarrow> 'hs \<Rightarrow> 'hs \<Rightarrow> bool) \<Rightarrow> bool" where
  "handshake_pair L R P \<longleftrightarrow>
     (\<forall>k w r. P (Suc k) w r \<longrightarrow>
        (\<exists>w' msg cs r' cs'. hs_write L w = (w', Inr (msg, cs)) \<and> hs_read L r msg = (r', Inr cs') \<and>
           msg \<noteq> [] \<and> length msg \<le> max_msg_len \<and>
           (if k = 0 then (\<exists>a1 a2 b1 b2. cs = Some (a1, a2) \<and> cs' = Some (b1, b2) \<and>
                 R a1 b1 \<and> R b1 a1 \<and> R a2 b2 \<and> R b2 a2 \<and> channel_binding L w' = channel_binding L r')
            else cs = None \<and> cs' = None \<and> P k r' w')))"

text \<open>
  The messages two related handshake states exchange, the writer's first: \<open>evens\<close> of them are
  written by the peer that starts, \<open>odds\<close> by the other.
\<close>

fun honest :: "('hs, 'cs) noise_lib \<Rightarrow> nat \<Rightarrow> 'hs \<Rightarrow> 'hs \<Rightarrow> bytes list" where
  "honest L 0 w r = []"
| "honest L (Suc k) w r = (case hs_write L w of
     (w', Inr (msg, cs)) \<Rightarrow> msg # honest L k (fst (hs_read L r msg)) w'
   | (w', Inl e) \<Rightarrow> [])"

fun evens :: "'a list \<Rightarrow> 'a list" and odds :: "'a list \<Rightarrow> 'a list" where
  "evens [] = []"
| "evens (x # xs) = x # odds xs"
| "odds [] = []"
| "odds (x # xs) = evens xs"

lemma handshake_pairD:
  assumes "handshake_pair L R P" "P (Suc k) w r"
  obtains w' msg cs r' cs' where "hs_write L w = (w', Inr (msg, cs))" "hs_read L r msg = (r', Inr cs')"
    "msg \<noteq> []" "length msg \<le> max_msg_len"
    "honest L (Suc k) w r = msg # honest L k r' w'"
    "k = 0 \<Longrightarrow> \<exists>a1 a2 b1 b2. cs = Some (a1, a2) \<and> cs' = Some (b1, b2) \<and> R a1 b1 \<and> R b1 a1 \<and>
       R a2 b2 \<and> R b2 a2 \<and> channel_binding L w' = channel_binding L r'"
    "k \<noteq> 0 \<Longrightarrow> cs = None \<and> cs' = None \<and> P k r' w'"
proof -
  from assms obtain w' msg cs r' cs' where h: "hs_write L w = (w', Inr (msg, cs))"
    "hs_read L r msg = (r', Inr cs')" "msg \<noteq> []" "length msg \<le> max_msg_len"
    "if k = 0 then (\<exists>a1 a2 b1 b2. cs = Some (a1, a2) \<and> cs' = Some (b1, b2) \<and>
       R a1 b1 \<and> R b1 a1 \<and> R a2 b2 \<and> R b2 a2 \<and> channel_binding L w' = channel_binding L r')
     else cs = None \<and> cs' = None \<and> P k r' w'"
    unfolding handshake_pair_def by blast
  then show ?thesis by (intro that [of w' msg cs r' cs']) auto
qed

end
