(* ===== verification/Channel.thy ===== *)
theory Channel
  imports Net_IO "HOL-Library.Sublist"
begin

text \<open>
  What the four transports have in common once their handshake is done: a byte stream cut
  into fragments, every fragment sealed into one frame, frames opened one at a time into a
  read buffer.

  \<^item> \<open>duplex\<close> is a full-duplex session of two connections: either end writes or reads, in any
    order, and what a write puts on the wire reaches the other end in chunks of any sizes.
  \<^item> The locale \<open>stream_conn\<close> is the contract of a connection as a stream; its theorem is that
    what was read is always a prefix of what was written, in both directions.
  \<^item> The locale \<open>framed_conn\<close> is the contract of a transport's record layer (its frame encoder
    and decoder, and how its Write and Read use them, when they succeed and when they fail); it is a \<open>stream_conn\<close>.
  \<^item> The locale \<open>live_conn\<close> adds that a read makes progress while there is something to
    deliver; in it everything that was written is read.

  The locale \<open>fragment_writer\<close> is the loop inside every Write. Each transport's own Write and Read
  interpret these locales.
\<close>

section \<open>Scripts without failures\<close>

definition all_data :: "read_event list \<Rightarrow> bool" where
  "all_data es \<longleftrightarrow> (\<forall>e \<in> set es. case e of Data _ \<Rightarrow> True | Fail _ \<Rightarrow> False)"

lemma all_data_simps [simp]:
  "all_data []" "all_data (Data d # es) = all_data es" "\<not> all_data (Fail e # es)"
  "all_data (es @ fs) \<longleftrightarrow> all_data es \<and> all_data fs"
  by (auto simp: all_data_def)

lemma avail_append [simp]: "all_data es \<Longrightarrow> avail (es @ fs) = avail es @ avail fs"
  by (induction es rule: avail.induct) auto

lemma all_data_advance [simp]: "all_data es \<Longrightarrow> all_data (advance k es)"
  by (induction k es rule: advance.induct) auto

context exact_reader begin

lemma rd_all_data:
  "rd k n = (n', Inr d) \<Longrightarrow> \<not> net_closed n \<Longrightarrow> all_data (rx n) \<Longrightarrow> all_data (rx n') \<and> \<not> net_closed n'"
  using rd_open [of k n n' d] by simp

end

definition feed_net :: "read_event list \<Rightarrow> net \<Rightarrow> net" where
  "feed_net es n = n\<lparr>rx := rx n @ es\<rparr>"

lemma feed_net_simps [simp]:
  "rx (feed_net es n) = rx n @ es" "tx (feed_net es n) = tx n"
  "net_closed (feed_net es n) = net_closed n"
  by (simp_all add: feed_net_def)

section \<open>Sessions\<close>

inductive duplex ::
  "(bytes \<Rightarrow> 'c \<Rightarrow> 'c \<times> nat \<times> err option) \<Rightarrow> (nat \<Rightarrow> 'c \<Rightarrow> 'c \<times> bytes res) \<Rightarrow>
   ('c \<Rightarrow> net) \<Rightarrow> (read_event list \<Rightarrow> 'c \<Rightarrow> 'c) \<Rightarrow> 'c \<Rightarrow> 'c \<Rightarrow>
   'c \<Rightarrow> 'c \<Rightarrow> bytes \<Rightarrow> bytes \<Rightarrow> bytes \<Rightarrow> bytes \<Rightarrow> bool"
  for wr rd netof feed a0 b0 where
  start: "duplex wr rd netof feed a0 b0 a0 b0 [] [] [] []"
| a_writes: "duplex wr rd netof feed a0 b0 a b wa gb wb ga \<Longrightarrow> wr p a = (a', n, None) \<Longrightarrow>
    concat (tx (netof a')) = concat (tx (netof a)) @ avail es \<Longrightarrow> all_data es \<Longrightarrow>
    duplex wr rd netof feed a0 b0 a' (feed es b) (wa @ p) gb wb ga"
| b_writes: "duplex wr rd netof feed a0 b0 a b wa gb wb ga \<Longrightarrow> wr p b = (b', n, None) \<Longrightarrow>
    concat (tx (netof b')) = concat (tx (netof b)) @ avail es \<Longrightarrow> all_data es \<Longrightarrow>
    duplex wr rd netof feed a0 b0 (feed es a) b' wa gb (wb @ p) ga"
| a_reads: "duplex wr rd netof feed a0 b0 a b wa gb wb ga \<Longrightarrow> rd k a = (a', Inr d) \<Longrightarrow>
    duplex wr rd netof feed a0 b0 a' b wa gb wb (ga @ d)"
| b_reads: "duplex wr rd netof feed a0 b0 a b wa gb wb ga \<Longrightarrow> rd k b = (b', Inr d) \<Longrightarrow>
    duplex wr rd netof feed a0 b0 a b' wa (gb @ d) wb ga"

text \<open>
  In a state \<open>duplex \<dots> a b wa gb wb ga\<close>: \<open>wa\<close> is what the first end wrote so far and \<open>gb\<close>
  what the second end read of it; \<open>wb\<close> and \<open>ga\<close> are the opposite direction.
\<close>

locale stream_conn =
  fixes wr :: "bytes \<Rightarrow> 'c \<Rightarrow> 'c \<times> nat \<times> err option"
    and rd :: "nat \<Rightarrow> 'c \<Rightarrow> 'c \<times> bytes res"
    and netof :: "'c \<Rightarrow> net"
    and feed :: "read_event list \<Rightarrow> 'c \<Rightarrow> 'c"
    and link :: "'c \<Rightarrow> 'c \<Rightarrow> bytes \<Rightarrow> bool"
  assumes wr_link: "link a b q \<Longrightarrow> wr p a = (a', n, None) \<Longrightarrow>
        concat (tx (netof a')) = concat (tx (netof a)) @ avail es \<Longrightarrow> all_data es \<Longrightarrow>
        link a' (feed es b) (q @ p)"
    and wr_other: "link b a q \<Longrightarrow> wr p a = (a', n, None) \<Longrightarrow> link b a' q"
    and rd_link: "link a b q \<Longrightarrow> rd k b = (b', Inr d) \<Longrightarrow> \<exists>q'. q = d @ q' \<and> link a b' q'"
    and rd_other: "link b a q \<Longrightarrow> link a b q' \<Longrightarrow> rd k b = (b', Inr d) \<Longrightarrow> link b' a q"
    and feed_other: "link b a q \<Longrightarrow> link (feed es b) a q"
begin

lemma duplex_linked:
  assumes "duplex wr rd netof feed a0 b0 a b wa gb wb ga" "link a0 b0 []" "link b0 a0 []"
  shows "\<exists>q q'. wa = gb @ q \<and> link a b q \<and> wb = ga @ q' \<and> link b a q'"
  using assms
proof (induction rule: duplex.induct)
  case start
  then show ?case by simp
next
  case (a_writes a b wa gb wb ga p a' n es)
  then obtain q q' where "wa = gb @ q" "link a b q" "wb = ga @ q'" "link b a q'" by blast
  with a_writes wr_link [of a b q p a' n es] wr_other [of b a q' p a' n] feed_other [of b a' q' es]
  show ?case by auto
next
  case (b_writes a b wa gb wb ga p b' n es)
  then obtain q q' where "wa = gb @ q" "link a b q" "wb = ga @ q'" "link b a q'" by blast
  with b_writes wr_link [of b a q' p b' n es] wr_other [of a b q p b' n] feed_other [of a b' q es]
  show ?case by auto
next
  case (a_reads a b wa gb wb ga k a' d)
  then obtain q q' where "wa = gb @ q" "link a b q" "wb = ga @ q'" "link b a q'" by blast
  with a_reads.hyps rd_link [of b a q' k a' d] rd_other [of a b q q' k a' d]
  show ?case by auto
next
  case (b_reads a b wa gb wb ga k b' d)
  then obtain q q' where "wa = gb @ q" "link a b q" "wb = ga @ q'" "link b a q'" by blast
  with b_reads.hyps rd_link [of a b q k b' d] rd_other [of b a q' q k b' d]
  show ?case by auto
qed

theorem delivered_in_order:
  assumes "duplex wr rd netof feed a0 b0 a b wa gb wb ga" "link a0 b0 []" "link b0 a0 []"
  shows "prefix gb wa \<and> prefix ga wb"
  using duplex_linked [OF assms] by (auto simp: prefix_def)

end

text \<open>Reading repeatedly with a buffer of \<open>k\<close> bytes, until the read fails or the fuel ends.\<close>

fun read_all :: "(nat \<Rightarrow> 'c \<Rightarrow> 'c \<times> bytes res) \<Rightarrow> nat \<Rightarrow> nat \<Rightarrow> 'c \<Rightarrow> bytes" where
  "read_all rd k 0 c = []"
| "read_all rd k (Suc f) c = (case rd k c of (c', Inr d) \<Rightarrow> d @ read_all rd k f c' | (c', Inl e) \<Rightarrow> [])"

locale live_conn = stream_conn +
  assumes rd_progress: "link a b q \<Longrightarrow> q \<noteq> [] \<Longrightarrow> 0 < k \<Longrightarrow> \<exists>b' d. rd k b = (b', Inr d) \<and> d \<noteq> []"
begin

lemma read_all_prefix: "link a b q \<Longrightarrow> prefix (read_all rd k f b) q"
proof (induction f arbitrary: b q)
  case (Suc f)
  show ?case
  proof (cases "rd k b")
    case (Pair b' r)
    show ?thesis
    proof (cases r)
      case (Inr d)
      with Pair Suc.prems rd_link obtain q' where "q = d @ q'" "link a b' q'" by blast
      with Suc.IH Inr Pair show ?thesis by simp
    qed (simp add: Pair)
  qed
qed simp

theorem everything_delivered:
  "link a b q \<Longrightarrow> 0 < k \<Longrightarrow> length q \<le> f \<Longrightarrow> read_all rd k f b = q"
proof (induction f arbitrary: b q)
  case (Suc f)
  show ?case
  proof (cases "q = []")
    case True
    with read_all_prefix [OF Suc.prems(1), of k "Suc f"] show ?thesis by simp
  next
    case False
    with rd_progress Suc.prems obtain b' d where d: "rd k b = (b', Inr d)" "d \<noteq> []" by blast
    with rd_link Suc.prems obtain q' where "q = d @ q'" "link a b' q'" by blast
    with Suc d show ?thesis by (cases d) auto
  qed
qed simp

end

section \<open>Record layers\<close>

text \<open>\<open>encs\<close>: the frames of a list of fragments, threading the sender's cipher state.\<close>

fun encs :: "('k \<Rightarrow> bytes \<Rightarrow> ('k \<times> bytes) option) \<Rightarrow> 'k \<Rightarrow> bytes list \<Rightarrow> ('k \<times> bytes list) option" where
  "encs enc k [] = Some (k, [])"
| "encs enc k (p # ps) = (case enc k p of None \<Rightarrow> None
     | Some (k', w) \<Rightarrow> map_option (apsnd (Cons w)) (encs enc k' ps))"

lemma encs_Cons:
  "enc k p = Some (k1, w) \<Longrightarrow> encs enc k1 ps = Some (k', fs) \<Longrightarrow> encs enc k (p # ps) = Some (k', w # fs)"
  by simp

text \<open>\<open>pends dec d w ps d'\<close>: the bytes \<open>w\<close> are the frames of \<open>ps\<close> for the receiver state \<open>d\<close>.\<close>

inductive pends :: "('d \<Rightarrow> bytes \<Rightarrow> ('d \<times> bytes \<times> bytes) option) \<Rightarrow>
    'd \<Rightarrow> bytes \<Rightarrow> bytes list \<Rightarrow> 'd \<Rightarrow> bool" for dec where
  nil: "pends dec d [] [] d"
| cons: "dec d w = Some (d1, p, rest) \<Longrightarrow> p \<noteq> [] \<Longrightarrow> pends dec d1 rest ps d' \<Longrightarrow>
    pends dec d w (p # ps) d'"

text \<open>\<open>cut_frame enc maxp k t\<close>: what a failed write leaves behind - nothing, or a frame that is cut off.\<close>

definition cut_frame :: "('k \<Rightarrow> bytes \<Rightarrow> ('k \<times> bytes) option) \<Rightarrow> nat \<Rightarrow> 'k \<Rightarrow> bytes \<Rightarrow> bool" where
  "cut_frame enc maxp k t \<longleftrightarrow>
     t = [] \<or> (\<exists>q k' u. q \<noteq> [] \<and> length q \<le> maxp \<and> enc k q = Some (k', t @ u) \<and> u \<noteq> [])"

lemma cut_frame_Nil [simp]: "cut_frame enc maxp k []"
  by (simp add: cut_frame_def)

lemma cut_frame_write:
  assumes "conn_write b n = (n', Some e)" "q \<noteq> []" "length q \<le> maxp" "enc k q = Some (k', b)"
  shows "\<exists>t. concat (tx n') = concat (tx n) @ t \<and> cut_frame enc maxp k t"
  using conn_write_cut [OF assms(1)] assms(2-4) by (auto simp: cut_frame_def)

inductive_cases pends_NilE: "pends dec d w [] d'"
inductive_cases pends_ConsE: "pends dec d w (p # ps) d'"

definition channel_link ::
  "('d \<Rightarrow> bytes \<Rightarrow> ('d \<times> bytes \<times> bytes) option) \<Rightarrow> ('k \<Rightarrow> 'd \<Rightarrow> bool) \<Rightarrow> ('c \<Rightarrow> bool) \<Rightarrow> ('c \<Rightarrow> 'k) \<Rightarrow>
   ('c \<Rightarrow> 'd) \<Rightarrow> ('c \<Rightarrow> bytes) \<Rightarrow> ('c \<Rightarrow> net) \<Rightarrow> 'c \<Rightarrow> 'c \<Rightarrow> bytes \<Rightarrow> bool" where
  "channel_link dec sync live okey ikey buf netof a b q \<longleftrightarrow>
     live a \<and> live b \<and> \<not> net_closed (netof b) \<and> all_data (rx (netof b)) \<and>
     (\<exists>ps d. pends dec (ikey b) (avail (rx (netof b))) ps d \<and> sync (okey a) d \<and> q = buf b @ concat ps)"

text \<open>
  How every transport writes: a loop that cuts the bytes into fragments and sends one frame for each. \<open>step\<close>
  is the body of the loop, \<open>keeps\<close> what it does not touch. The count that a failing Write returns is exact:
  the frames of the bytes counted are on the wire, and behind them at most a frame that is cut off.
\<close>

locale fragment_writer =
  fixes loop :: "nat \<Rightarrow> bytes \<Rightarrow> 'c \<Rightarrow> 'c \<times> nat \<times> err option"
    and step :: "bytes \<Rightarrow> 'c \<Rightarrow> 'c \<times> err option"
    and enc :: "'k \<Rightarrow> bytes \<Rightarrow> ('k \<times> bytes) option"
    and maxp :: nat
    and live :: "'c \<Rightarrow> bool"
    and okey :: "'c \<Rightarrow> 'k"
    and keeps :: "'c \<Rightarrow> 'r"
    and netof :: "'c \<Rightarrow> net"
  assumes frag_pos: "0 < maxp"
    and loop_step: "loop n p c = (if p = [] then (c, n, None) else case step (take maxp p) c of
        (c', Some e) \<Rightarrow> (c', n, Some e) | (c', None) \<Rightarrow> loop (n + length (take maxp p)) (drop maxp p) c')"
    and step_ok: "live c \<Longrightarrow> p \<noteq> [] \<Longrightarrow> length p \<le> maxp \<Longrightarrow> step p c = (c', None) \<Longrightarrow>
        live c' \<and> keeps c' = keeps c \<and> net_closed (netof c') = net_closed (netof c) \<and>
        (\<exists>f. enc (okey c) p = Some (okey c', f) \<and> concat (tx (netof c')) = concat (tx (netof c)) @ f)"
    and step_stop: "live c \<Longrightarrow> p \<noteq> [] \<Longrightarrow> length p \<le> maxp \<Longrightarrow> step p c = (c', Some e) \<Longrightarrow>
        live c' \<and> keeps c' = keeps c \<and>
        (\<exists>t. concat (tx (netof c')) = concat (tx (netof c)) @ t \<and> cut_frame enc maxp (okey c) t)"
begin

lemma loop_written:
  assumes "live c" "loop n p c = (c', m, r)"
  shows "live c' \<and> keeps c' = keeps c \<and> (\<exists>j k fs t. m = n + j \<and> j \<le> length p \<and>
    encs enc (okey c) (chunks maxp (take j p)) = Some (k, fs) \<and> concat (tx (netof c')) = concat (tx (netof c)) @ concat fs @ t \<and>
    (case r of None \<Rightarrow> j = length p \<and> k = okey c' \<and> t = [] \<and> net_closed (netof c') = net_closed (netof c)
     | Some e \<Rightarrow> cut_frame enc maxp k t))"
  using assms
proof (induction "length p" arbitrary: n p c rule: less_induct)
  case less
  show ?case
  proof (cases "p = []")
    case True
    with less.prems loop_step [of n p c] show ?thesis by auto
  next
    case False
    let ?p = "take maxp p"
    have p: "?p \<noteq> []" "length ?p \<le> maxp" using False frag_pos by auto
    obtain c1 x where st: "step ?p c = (c1, x)" by (metis surj_pair)
    show ?thesis
    proof (cases x)
      case (Some e)
      with less.prems(2) False st have "c' = c1" "m = n" "r = Some e" by (simp_all add: loop_step [of n p c])
      with step_stop [OF less.prems(1) p, of c1 e] st Some show ?thesis
        by (auto intro!: exI [of _ "0 :: nat"])
    next
      case None
      with less.prems(2) False st have l: "loop (n + length ?p) (drop maxp p) c1 = (c', m, r)" by (simp add: loop_step [of n p c])
      from step_ok [OF less.prems(1) p, of c1] st None obtain f where c1: "live c1" "keeps c1 = keeps c"
        "net_closed (netof c1) = net_closed (netof c)" and f: "enc (okey c) ?p = Some (okey c1, f)"
        "concat (tx (netof c1)) = concat (tx (netof c)) @ f" by auto
      have "length (drop maxp p) < length p" using False frag_pos by simp
      from less.hyps [OF this c1(1) l] obtain j k fs t where ih: "live c'" "keeps c' = keeps c1" "m = n + length ?p + j"
        "j \<le> length (drop maxp p)" "encs enc (okey c1) (chunks maxp (take j (drop maxp p))) = Some (k, fs)"
        "concat (tx (netof c')) = concat (tx (netof c1)) @ concat fs @ t"
        "case r of None \<Rightarrow> j = length (drop maxp p) \<and> k = okey c' \<and> t = [] \<and> net_closed (netof c') = net_closed (netof c1)
          | Some e \<Rightarrow> cut_frame enc maxp k t" by blast
      have "encs enc (okey c) (chunks maxp (take (length ?p + j) p)) = Some (k, f # fs)"
        unfolding chunks_take [OF False frag_pos] by (rule encs_Cons [OF f(1) ih(5)])
      moreover have "length ?p + j \<le> length p" using ih(4) by auto
      moreover have "m = n + (length ?p + j)" "concat (tx (netof c')) = concat (tx (netof c)) @ concat (f # fs) @ t"
        using ih(3,6) f(2) by simp_all
      moreover have "case r of None \<Rightarrow> length ?p + j = length p \<and> k = okey c' \<and> t = [] \<and> net_closed (netof c') = net_closed (netof c)
          | Some e \<Rightarrow> cut_frame enc maxp k t" using ih(7) c1(3) by (auto split: option.splits)
      ultimately show ?thesis using ih(1,2) c1(2) by metis
    qed
  qed
qed

text \<open>The two outcomes of a Write that starts the loop.\<close>

lemma loop_complete:
  assumes "live c" "loop 0 p c = (c', m, None)"
  shows "m = length p \<and> live c' \<and> keeps c' = keeps c \<and> net_closed (netof c') = net_closed (netof c) \<and>
    (\<exists>fs. encs enc (okey c) (chunks maxp p) = Some (okey c', fs) \<and> concat (tx (netof c')) = concat (tx (netof c)) @ concat fs)"
  using loop_written [OF assms] by auto

lemma loop_stopped:
  assumes "live c" "loop 0 p c = (c', m, Some e)"
  shows "m \<le> length p \<and> live c' \<and> keeps c' = keeps c \<and>
    (\<exists>k fs t. encs enc (okey c) (chunks maxp (take m p)) = Some (k, fs) \<and>
      concat (tx (netof c')) = concat (tx (netof c)) @ concat fs @ t \<and> cut_frame enc maxp k t)"
  using loop_written [OF assms] by auto

end

text \<open>
  The contract of a transport's record layer. \<open>live\<close> holds of a connection whose handshake is
  complete; \<open>okey\<close> and \<open>ikey\<close> are the cipher states of its two directions and \<open>buf\<close> its read
  buffer.
\<close>

locale framed_conn =
  fixes wr :: "bytes \<Rightarrow> 'c \<Rightarrow> 'c \<times> nat \<times> err option"
    and rd :: "nat \<Rightarrow> 'c \<Rightarrow> 'c \<times> bytes res"
    and netof :: "'c \<Rightarrow> net"
    and feed :: "read_event list \<Rightarrow> 'c \<Rightarrow> 'c"
    and enc :: "'k \<Rightarrow> bytes \<Rightarrow> ('k \<times> bytes) option"
    and dec :: "'d \<Rightarrow> bytes \<Rightarrow> ('d \<times> bytes \<times> bytes) option"
    and sync :: "'k \<Rightarrow> 'd \<Rightarrow> bool"
    and maxp :: nat
    and live :: "'c \<Rightarrow> bool"
    and okey :: "'c \<Rightarrow> 'k"
    and ikey :: "'c \<Rightarrow> 'd"
    and buf :: "'c \<Rightarrow> bytes"
  assumes maxp_pos: "0 < maxp"
    and dec_enc: "sync k d \<Longrightarrow> p \<noteq> [] \<Longrightarrow> length p \<le> maxp \<Longrightarrow> enc k p = Some (k', w) \<Longrightarrow>
        \<exists>d'. dec d w = Some (d', p, []) \<and> sync k' d'"
    and dec_append: "dec d w = Some (d', p, rest) \<Longrightarrow> dec d (w @ x) = Some (d', p, rest @ x)"
    and dec_Nil: "dec d [] = None"
    and wr_spec: "live a \<Longrightarrow> wr p a = (a', n, None) \<Longrightarrow>
        n = length p \<and> live a' \<and> ikey a' = ikey a \<and> buf a' = buf a \<and> rx (netof a') = rx (netof a) \<and>
        net_closed (netof a') = net_closed (netof a) \<and>
        (\<exists>fs. encs enc (okey a) (chunks maxp p) = Some (okey a', fs) \<and>
           concat (tx (netof a')) = concat (tx (netof a)) @ concat fs)"
    and rd_spec: "live b \<Longrightarrow> \<not> net_closed (netof b) \<Longrightarrow> rd sz b = (b', Inr dat) \<Longrightarrow>
        live b' \<and> okey b' = okey b \<and> \<not> net_closed (netof b') \<and> (all_data (rx (netof b)) \<longrightarrow> all_data (rx (netof b'))) \<and>
        concat (tx (netof b')) = concat (tx (netof b)) \<and>
        (ikey b' = ikey b \<and> avail (rx (netof b')) = avail (rx (netof b)) \<and> buf b = dat @ buf b' \<or>
         (\<exists>p. dec (ikey b) (avail (rx (netof b))) = Some (ikey b', p, avail (rx (netof b'))) \<and>
              buf b @ p = dat @ buf b'))"
    and wr_stop: "live a \<Longrightarrow> wr p a = (a', n, Some e) \<Longrightarrow>
        n \<le> length p \<and> live a' \<and> ikey a' = ikey a \<and> buf a' = buf a \<and> rx (netof a') = rx (netof a) \<and>
        (\<exists>k fs t. encs enc (okey a) (chunks maxp (take n p)) = Some (k, fs) \<and>
           concat (tx (netof a')) = concat (tx (netof a)) @ concat fs @ t \<and> cut_frame enc maxp k t)"
    and rd_stop: "live b \<Longrightarrow> rd sz b = (b', Inl e) \<Longrightarrow>
        live b' \<and> okey b' = okey b \<and> concat (tx (netof b')) = concat (tx (netof b))"
    and rd_closed: "live b \<Longrightarrow> net_closed (netof b) \<Longrightarrow> rd sz b = (b', Inr dat) \<Longrightarrow>
        live b' \<and> okey b' = okey b \<and> ikey b' = ikey b \<and> netof b' = netof b \<and> buf b = dat @ buf b'"
    and feed_spec: "live (feed es a) = live a \<and> okey (feed es a) = okey a \<and> ikey (feed es a) = ikey a \<and>
        buf (feed es a) = buf a \<and> netof (feed es a) = feed_net es (netof a)"
begin

abbreviation lnk :: "'c \<Rightarrow> 'c \<Rightarrow> bytes \<Rightarrow> bool" where
  "lnk \<equiv> channel_link dec sync live okey ikey buf netof"

lemma pends_append:
  "pends dec d w ps d1 \<Longrightarrow> pends dec d1 x qs d2 \<Longrightarrow> pends dec d (w @ x) (ps @ qs) d2"
proof (induction rule: pends.induct)
  case (cons d w d1 p rest ps d')
  then show ?case using dec_append [of d w d1 p rest x] by (auto intro: pends.cons)
qed simp

lemma pends_encs:
  assumes "sync k d" "\<forall>p \<in> set ps. p \<noteq> [] \<and> length p \<le> maxp" "encs enc k ps = Some (k', fs)"
  shows "\<exists>d'. pends dec d (concat fs) ps d' \<and> sync k' d'"
  using assms
proof (induction ps arbitrary: k d fs)
  case Nil
  then show ?case by (auto intro: pends.nil)
next
  case (Cons p ps)
  from Cons.prems(3) obtain k1 w fs' where e: "enc k p = Some (k1, w)"
    and es: "encs enc k1 ps = Some (k', fs')" and fs: "fs = w # fs'"
    by (auto split: option.splits)
  from dec_enc [of k d p k1 w] Cons.prems e obtain d1 where d: "dec d w = Some (d1, p, [])" "sync k1 d1"
    by auto
  with Cons.IH [of k1 d1 fs'] Cons.prems es obtain d' where "pends dec d1 (concat fs') ps d'" "sync k' d'"
    by auto
  with fs dec_append [OF d(1), of "concat fs'"] Cons.prems show ?case
    by (auto intro: pends.cons)
qed

lemma pends_step:
  assumes "pends dec d w ps d'" "dec d w = Some (d1, p, rest)"
  shows "\<exists>qs. ps = p # qs \<and> p \<noteq> [] \<and> pends dec d1 rest qs d'"
  using assms by (cases rule: pends.cases) (auto simp: dec_Nil)

lemma link_write:
  assumes "lnk a b q" "wr p a = (a', n, None)"
    "concat (tx (netof a')) = concat (tx (netof a)) @ avail es" "all_data es"
  shows "lnk a' (feed es b) (q @ p)"
proof -
  from assms(1) obtain ps d where l: "pends dec (ikey b) (avail (rx (netof b))) ps d" "sync (okey a) d"
    "q = buf b @ concat ps" "live a" "live b" "\<not> net_closed (netof b)" "all_data (rx (netof b))"
    by (auto simp: channel_link_def)
  from wr_spec [OF l(4) assms(2)] obtain fs where f: "encs enc (okey a) (chunks maxp p) = Some (okey a', fs)"
    "concat (tx (netof a')) = concat (tx (netof a)) @ concat fs" "live a'" by blast
  from f(2) assms(3) have "concat fs = avail es" by simp
  moreover from pends_encs [OF l(2) _ f(1)] obtain d' where
    "pends dec d (concat fs) (chunks maxp p) d'" "sync (okey a') d'"
    using chunks_sizes by blast
  ultimately show ?thesis
    using pends_append [OF l(1), of "avail es"] l assms(4) f(3) maxp_pos
    by (auto simp: channel_link_def feed_spec intro!: exI [of _ "ps @ chunks maxp p"] exI [of _ d'])
qed

lemma link_read:
  assumes "lnk a b q" "rd sz b = (b', Inr dat)"
  shows "\<exists>q'. q = dat @ q' \<and> lnk a b' q'"
proof -
  from assms(1) obtain ps e where l: "pends dec (ikey b) (avail (rx (netof b))) ps e" "sync (okey a) e"
    "q = buf b @ concat ps" "live a" "live b" "\<not> net_closed (netof b)" "all_data (rx (netof b))"
    by (auto simp: channel_link_def)
  note r = rd_spec [OF l(5,6) assms(2)]
  from r show ?thesis
  proof (elim conjE disjE exE)
    assume "ikey b' = ikey b" "avail (rx (netof b')) = avail (rx (netof b))" "buf b = dat @ buf b'"
    with r l show ?thesis by (auto simp: channel_link_def)
  next
    fix p
    assume p: "dec (ikey b) (avail (rx (netof b))) = Some (ikey b', p, avail (rx (netof b')))"
      and bp: "buf b @ p = dat @ buf b'"
    from pends_step [OF l(1) p] obtain qs where
      qs: "ps = p # qs" "pends dec (ikey b') (avail (rx (netof b'))) qs e" by blast
    have "q = dat @ (buf b' @ concat qs)" using l(3) qs(1) bp by (metis append.assoc concat.simps(2))
    with r l qs show ?thesis by (auto simp: channel_link_def)
  qed
qed

lemma link_parts:
  assumes "live b'" "ikey b' = ikey b" "buf b' = buf b" "rx (netof b') = rx (netof b)"
    "net_closed (netof b') = net_closed (netof b)" "lnk a b q"
  shows "lnk a b' q"
  using assms by (auto simp: channel_link_def)

sublocale stream_conn wr rd netof feed lnk
proof
  fix a b a' b' p n es q q' sz dat
  show "lnk a' (feed es b) (q @ p)" if "lnk a b q" "wr p a = (a', n, None)"
    "concat (tx (netof a')) = concat (tx (netof a)) @ avail es" "all_data es"
    by (rule link_write [OF that])
  show "lnk b a' q" if "lnk b a q" "wr p a = (a', n, None)"
  proof -
    have "live a" using that(1) by (simp add: channel_link_def)
    from wr_spec [OF this that(2)] show ?thesis by (intro link_parts [OF _ _ _ _ _ that(1)]) auto
  qed
  show "\<exists>q'. q = dat @ q' \<and> lnk a b' q'" if "lnk a b q" "rd sz b = (b', Inr dat)"
    by (rule link_read [OF that])
  show "lnk b' a q" if "lnk b a q" "lnk a b q'" "rd sz b = (b', Inr dat)"
    using that(1,2) rd_spec [OF _ _ that(3)] by (auto simp: channel_link_def)
  show "lnk (feed es b) a q" if "lnk b a q"
    using that by (auto simp: channel_link_def feed_spec)
qed

end

text \<open>
  A record layer whose reads hand out what is buffered first and open one frame only when the
  buffer is empty: it never blocks or fails while there is something to deliver.
\<close>

locale live_framed_conn = framed_conn +
  assumes rd_zero: "live b \<Longrightarrow> \<exists>b'. rd 0 b = (b', Inr [])"
    and rd_buffered: "live b \<Longrightarrow> 0 < sz \<Longrightarrow> buf b \<noteq> [] \<Longrightarrow> \<exists>b'. rd sz b = (b', Inr (take sz (buf b)))"
    and rd_next: "live b \<Longrightarrow> \<not> net_closed (netof b) \<Longrightarrow> 0 < sz \<Longrightarrow> buf b = [] \<Longrightarrow>
        dec (ikey b) (avail (rx (netof b))) = Some (dk, p, rest) \<Longrightarrow> \<exists>b'. rd sz b = (b', Inr (take sz p))"
begin

sublocale live_conn wr rd netof feed lnk
proof
  fix a b q and k :: nat
  assume l: "lnk a b q" "q \<noteq> []" "0 < k"
  show "\<exists>b' d. rd k b = (b', Inr d) \<and> d \<noteq> []"
  proof (cases "buf b = []")
    case False
    with rd_buffered [of b k] l show ?thesis by (auto simp: channel_link_def)
  next
    case True
    with l obtain ps d where ps: "pends dec (ikey b) (avail (rx (netof b))) ps d" "concat ps \<noteq> []"
      and b: "live b" "\<not> net_closed (netof b)"
      by (auto simp: channel_link_def)
    from ps obtain p dk rest where "dec (ikey b) (avail (rx (netof b))) = Some (dk, p, rest)" "p \<noteq> []"
      by (cases rule: pends.cases) auto
    with rd_next [OF b l(3) True] l(3) show ?thesis by fastforce
  qed
qed

end

end
