(* ===== verification/Calls.thy ===== *)
theory Calls
  imports Channel
begin

text \<open>
  What a program does with one end of a connection, seen from that end alone: a sequence of calls of Write
  and Read, in any order. Where \<open>duplex\<close> interleaves the calls of the two ends and feeds one end what the
  other has just sent, here each end has its own script of what it will ever receive, and the network is a
  condition between the two ends: the bytes one end receives are the beginning of the bytes the other
  sends. So a script may hold the peer's handshake and its data, cut into chunks that straddle the two,
  which is what a connection whose handshake is still deferred receives. Calls may fail: one direction of a
  connection goes on after the other has ended.
\<close>

section \<open>Runs of calls\<close>

datatype call = CallWrite bytes | CallRead nat

text \<open>
  The connection after the calls; whether its Writes and whether its Reads still work; what was written and
  what was read. As \<open>io.Copy\<close> does, a direction stops at its first error: calls that come later in the
  list are not made. A Write that fails has written as many bytes as it says.
\<close>

fun run_calls :: "(bytes \<Rightarrow> 'c \<Rightarrow> 'c \<times> nat \<times> err option) \<Rightarrow> (nat \<Rightarrow> 'c \<Rightarrow> 'c \<times> bytes res) \<Rightarrow>
    call list \<Rightarrow> bool \<Rightarrow> bool \<Rightarrow> 'c \<Rightarrow> 'c \<times> (bool \<times> bool) \<times> bytes \<times> bytes" where
  "run_calls wr rd [] wok rok c = (c, (wok, rok), [], [])"
| "run_calls wr rd (CallWrite p # cs) wok rok c =
     (if \<not> wok then run_calls wr rd cs wok rok c
      else case wr p c of
        (c', n, e) \<Rightarrow> apsnd (apsnd (apfst (append (take n p)))) (run_calls wr rd cs (e = None) rok c'))"
| "run_calls wr rd (CallRead k # cs) wok rok c =
     (if \<not> rok then run_calls wr rd cs wok rok c
      else case rd k c of
        (c', Inl e) \<Rightarrow> run_calls wr rd cs wok False c'
      | (c', Inr d) \<Rightarrow> apsnd (apsnd (apsnd (append d))) (run_calls wr rd cs wok rok c'))"

text \<open>
  A program that goes on after errors: all the calls are made, whatever the earlier ones returned.
  \<open>call_bytes\<close> is the number of bytes that the Writes are asked to write.
\<close>

fun all_calls :: "(bytes \<Rightarrow> 'c \<Rightarrow> 'c \<times> nat \<times> err option) \<Rightarrow> (nat \<Rightarrow> 'c \<Rightarrow> 'c \<times> bytes res) \<Rightarrow> call list \<Rightarrow> 'c \<Rightarrow> 'c" where
  "all_calls wr rd [] c = c"
| "all_calls wr rd (CallWrite p # cs) c = all_calls wr rd cs (fst (wr p c))"
| "all_calls wr rd (CallRead k # cs) c = all_calls wr rd cs (fst (rd k c))"

fun call_bytes :: "call list \<Rightarrow> nat" where
  "call_bytes [] = 0"
| "call_bytes (CallWrite p # cs) = length p + call_bytes cs"
| "call_bytes (CallRead k # cs) = call_bytes cs"

text \<open>The first call of a run, as a rule for each of its outcomes.\<close>

lemma run_calls_Write:
  assumes "run_calls wr rd (CallWrite p # cs) True rok c = (c', f, w, g)"
  obtains c1 n e w1 where "wr p c = (c1, n, e)" "run_calls wr rd cs (e = None) rok c1 = (c', f, w1, g)" "w = take n p @ w1"
proof -
  obtain c1 n e where "wr p c = (c1, n, e)" by (metis surj_pair)
  moreover obtain c2 f2 w1 g1 where "run_calls wr rd cs (e = None) rok c1 = (c2, f2, w1, g1)" by (metis surj_pair)
  ultimately show ?thesis using that assms by simp
qed

lemma run_calls_Read:
  assumes "run_calls wr rd (CallRead k # cs) wok True c = (c', f, w, g)"
  obtains (fails) c1 e where "rd k c = (c1, Inl e)" "run_calls wr rd cs wok False c1 = (c', f, w, g)"
    | (reads) c1 d g1 where "rd k c = (c1, Inr d)" "run_calls wr rd cs wok True c1 = (c', f, w, g1)" "g = d @ g1"
proof -
  obtain c1 r where r: "rd k c = (c1, r)" by (metis surj_pair)
  show ?thesis
  proof (cases r)
    case (Inl e)
    with assms r fails show ?thesis by simp
  next
    case (Inr d)
    obtain c2 f2 w1 g1 where "run_calls wr rd cs wok True c1 = (c2, f2, w1, g1)" by (metis surj_pair)
    with assms r Inr reads show ?thesis by simp
  qed
qed

lemma no_more_reads: "run_calls wr rd cs wok False c = (c', (wok', rok'), w, g) \<Longrightarrow> g = [] \<and> \<not> rok'"
proof (induction cs arbitrary: wok c w g)
  case (Cons x cs)
  show ?case
  proof (cases x)
    case (CallWrite p)
    show ?thesis
    proof (cases wok)
      case True
      with Cons.prems CallWrite have "run_calls wr rd (CallWrite p # cs) True False c = (c', (wok', rok'), w, g)" by simp
      then obtain c1 n e w1 where "wr p c = (c1, n, e)" "run_calls wr rd cs (e = None) False c1 = (c', (wok', rok'), w1, g)"
        "w = take n p @ w1" by (rule run_calls_Write)
      then show ?thesis using Cons.IH by blast
    next
      case False
      with Cons.prems CallWrite show ?thesis by (auto dest: Cons.IH)
    qed
  next
    case (CallRead k)
    with Cons.prems show ?thesis by (auto dest: Cons.IH)
  qed
qed simp

lemma append_id: "append [] = id"
  by auto

text \<open>
  Calls on a connection that has still to do its handshake are calls on the connection after it, because
  each call runs the handshake first - but for a read of no bytes, which may return before it, and a write
  that is refused before it.
\<close>

lemma run_calls_deferred:
  assumes wr: "\<And>p. wr p c0 = wr p c \<or> (\<exists>e. wr p c0 = (c0, 0, Some e) \<and> wr p c = (c, 0, Some e))"
    and rd: "\<And>k. rd k c0 = rd k c \<or> rd k c0 = (c0, Inr []) \<and> rd k c = (c, Inr [])"
    and run: "run_calls wr rd cs wok rok c0 = (c', f, w, g)"
  shows "\<exists>c1. run_calls wr rd cs wok rok c = (c1, f, w, g) \<and> (c1 = c' \<or> c1 = c \<and> c' = c0)"
  using run
proof (induction cs arbitrary: wok rok w g)
  case (Cons x cs)
  show ?case
  proof (cases x)
    case (CallWrite p)
    show ?thesis
    proof (cases "wok \<and> wr p c0 \<noteq> wr p c")
      case True
      with wr [of p] obtain e where "wr p c0 = (c0, 0, Some e)" "wr p c = (c, 0, Some e)" by blast
      with Cons.prems CallWrite True Cons.IH [of False rok w g] \<open>wr p c = (c, 0, Some e)\<close> show ?thesis by (auto simp: append_id)
    next
      case False
      with Cons CallWrite show ?thesis by (cases wok) auto
    qed
  next
    case (CallRead k)
    show ?thesis
    proof (cases "rok \<and> rd k c0 \<noteq> rd k c")
      case True
      with rd [of k] have "rd k c0 = (c0, Inr [])" "rd k c = (c, Inr [])" by blast+
      with Cons.prems CallRead True Cons.IH [of wok True w g] show ?thesis by (auto simp: append_id)
    next
      case False
      with Cons CallRead show ?thesis by (cases rok) auto
    qed
  qed
qed simp

section \<open>Two ends after the handshake\<close>

text \<open>
  Both ends are ready for data, their cipher states match and no data has been read; what is left to
  receive is not restricted, and receiving may fail at any point.
\<close>

definition ends_joined ::
  "('k \<Rightarrow> 'd \<Rightarrow> bool) \<Rightarrow> ('c \<Rightarrow> bool) \<Rightarrow> ('c \<Rightarrow> 'k) \<Rightarrow> ('c \<Rightarrow> 'd) \<Rightarrow> ('c \<Rightarrow> bytes) \<Rightarrow> ('c \<Rightarrow> net) \<Rightarrow> 'c \<Rightarrow> 'c \<Rightarrow> bool" where
  "ends_joined sync live okey ikey buf netof a b \<longleftrightarrow>
     live a \<and> live b \<and> sync (okey a) (ikey b) \<and> sync (okey b) (ikey a) \<and> buf a = [] \<and> buf b = [] \<and>
     \<not> net_closed (netof a) \<and> \<not> net_closed (netof b)"

lemma encs_append:
  "encs enc k ps = Some (k1, fs) \<Longrightarrow> encs enc k1 qs = Some (k2, gs) \<Longrightarrow> encs enc k (ps @ qs) = Some (k2, fs @ gs)"
  by (induction ps arbitrary: k fs) (auto split: option.splits)

text \<open>\<open>pops dec d x ps d' x'\<close>: opening frame after frame of \<open>x\<close> gives \<open>ps\<close> and leaves \<open>x'\<close>.\<close>

inductive pops :: "('d \<Rightarrow> bytes \<Rightarrow> ('d \<times> bytes \<times> bytes) option) \<Rightarrow>
    'd \<Rightarrow> bytes \<Rightarrow> bytes list \<Rightarrow> 'd \<Rightarrow> bytes \<Rightarrow> bool" for dec where
  stop: "pops dec d x [] d x"
| pop: "dec d x = Some (d1, p, x1) \<Longrightarrow> pops dec d1 x1 ps d' x' \<Longrightarrow> pops dec d x (p # ps) d' x'"

context framed_conn begin

lemma rd_keeps:
  assumes "live b" "rd k b = (b', Inr d)"
  shows "live b' \<and> okey b' = okey b \<and> concat (tx (netof b')) = concat (tx (netof b))"
  using rd_spec [OF assms(1) _ assms(2)] rd_closed [OF assms(1) _ assms(2)] by (cases "net_closed (netof b)") auto

text \<open>After a failed Write nothing more is sent.\<close>

lemma no_more_writes:
  assumes "run_calls wr rd cs False rok a = (a', (wok', rok'), w, g)" "live a"
  shows "w = [] \<and> \<not> wok' \<and> concat (tx (netof a')) = concat (tx (netof a))"
  using assms
proof (induction cs arbitrary: rok a g)
  case (Cons x cs)
  show ?case
  proof (cases "\<exists>k. x = CallRead k \<and> rok")
    case False
    with Cons show ?thesis by (cases x) auto
  next
    case True
    then obtain k where k: "x = CallRead k" "rok" by blast
    with Cons.prems(1) have "run_calls wr rd (CallRead k # cs) False True a = (a', (wok', rok'), w, g)" by simp
    then show ?thesis
    proof (cases rule: run_calls_Read)
      case (fails a1 e)
      from rd_stop [OF Cons.prems(2) fails(1)] Cons.IH [OF fails(2)] show ?thesis by simp
    next
      case (reads a1 d g1)
      from rd_keeps [OF Cons.prems(2) reads(1)] Cons.IH [OF reads(2)] show ?thesis by simp
    qed
  qed
qed simp

text \<open>The sending half of a run: everything written, cut into fragments, frame by frame, and behind them what
  a failed Write left.\<close>

lemma calls_sent:
  assumes "run_calls wr rd cs True rok a = (a', (wok', rok'), w, g)" "live a"
  shows "\<exists>ps k fs t. encs enc (okey a) ps = Some (k, fs) \<and> (\<forall>p \<in> set ps. p \<noteq> [] \<and> length p \<le> maxp) \<and>
    concat ps = w \<and> concat (tx (netof a')) = concat (tx (netof a)) @ concat fs @ t \<and> cut_frame enc maxp k t \<and> (wok' \<longrightarrow> t = [])"
  using assms
proof (induction cs arbitrary: rok a w g)
  case Nil
  then show ?case by (intro exI [of _ "[]"]) simp
next
  case (Cons x cs)
  show ?case
  proof (cases x)
    case (CallWrite p)
    from Cons.prems(1) [unfolded CallWrite] obtain a1 n e w1 where
      w: "wr p a = (a1, n, e)" "run_calls wr rd cs (e = None) rok a1 = (a', (wok', rok'), w1, g)" "w = take n p @ w1"
      by (rule run_calls_Write)
    show ?thesis
    proof (cases e)
      case None
      from wr_spec [OF Cons.prems(2) w(1) [unfolded None]] obtain fs where a1: "n = length p" "live a1" "rx (netof a1) = rx (netof a)"
        and f: "encs enc (okey a) (chunks maxp p) = Some (okey a1, fs)"
        "concat (tx (netof a1)) = concat (tx (netof a)) @ concat fs" by blast
      from Cons.IH [of rok a1 w1 g] w(2) None a1 obtain ps k fs' t where r: "encs enc (okey a1) ps = Some (k, fs')"
        "\<forall>p \<in> set ps. p \<noteq> [] \<and> length p \<le> maxp" "concat ps = w1" "concat (tx (netof a')) = concat (tx (netof a1)) @ concat fs' @ t"
        "cut_frame enc maxp k t" "wok' \<longrightarrow> t = []" by auto
      have "encs enc (okey a) (chunks maxp p @ ps) = Some (k, fs @ fs')" by (rule encs_append [OF f(1) r(1)])
      moreover have "\<forall>q \<in> set (chunks maxp p @ ps). q \<noteq> [] \<and> length q \<le> maxp" using r(2) chunks_sizes by (metis Un_iff set_append)
      ultimately show ?thesis
        using w(3) a1(1) r(3-6) f(2) maxp_pos
        by (intro exI [of _ "chunks maxp p @ ps"] exI [of _ k] exI [of _ "fs @ fs'"] exI [of _ t]) simp
    next
      case (Some y)
      from wr_stop [OF Cons.prems(2) w(1) [unfolded Some]] obtain k fs t where s: "live a1" "rx (netof a1) = rx (netof a)"
        "encs enc (okey a) (chunks maxp (take n p)) = Some (k, fs)" "concat (tx (netof a1)) = concat (tx (netof a)) @ concat fs @ t"
        "cut_frame enc maxp k t" by blast
      from w(2) Some have "run_calls wr rd cs False rok a1 = (a', (wok', rok'), w1, g)" by simp
      from no_more_writes [OF this s(1)] s(2) have "w1 = []" "\<not> wok'" "concat (tx (netof a')) = concat (tx (netof a1))" by auto
      moreover have "\<forall>q \<in> set (chunks maxp (take n p)). q \<noteq> [] \<and> length q \<le> maxp" using chunks_sizes by metis
      ultimately show ?thesis
        using s w(3) maxp_pos by (intro exI [of _ "chunks maxp (take n p)"] exI [of _ k] exI [of _ fs] exI [of _ t]) simp
    qed
  next
    case (CallRead k)
    show ?thesis
    proof (cases rok)
      case False
      with Cons CallRead show ?thesis by simp
    next
      case True
      with Cons.prems(1) CallRead have "run_calls wr rd (CallRead k # cs) True True a = (a', (wok', rok'), w, g)" by simp
      then show ?thesis
      proof (cases rule: run_calls_Read)
        case (fails a1 e)
        from rd_stop [OF Cons.prems(2) fails(1)] Cons.IH [OF fails(2)] show ?thesis by simp
      next
        case (reads a1 d g1)
        from rd_keeps [OF Cons.prems(2) reads(1)] Cons.IH [OF reads(2)] show ?thesis by simp
      qed
    qed
  qed
qed

text \<open>The receiving half: what the reads hand out is the beginning of what the frames opened so far hold.\<close>

lemma calls_received:
  assumes "run_calls wr rd cs wok True b = (b', f, w, g)" "live b"
  shows "\<exists>ps d x r. pops dec (ikey b) (avail (rx (netof b))) ps d x \<and> buf b @ concat ps = g @ r"
  using assms
proof (induction cs arbitrary: wok b w g)
  case Nil
  then show ?case using pops.stop by fastforce
next
  case (Cons x cs)
  show ?case
  proof (cases x)
    case (CallWrite p)
    show ?thesis
    proof (cases wok)
      case False
      with Cons CallWrite show ?thesis by simp
    next
      case True
      with Cons.prems(1) CallWrite have "run_calls wr rd (CallWrite p # cs) True True b = (b', f, w, g)" by simp
      then obtain b1 n e w1 where
        w: "wr p b = (b1, n, e)" "run_calls wr rd cs (e = None) True b1 = (b', f, w1, g)" "w = take n p @ w1" by (rule run_calls_Write)
      have "live b1 \<and> ikey b1 = ikey b \<and> buf b1 = buf b \<and> rx (netof b1) = rx (netof b)"
        using wr_spec [OF Cons.prems(2), of p b1 n] wr_stop [OF Cons.prems(2), of p b1 n] w(1) by (cases e) auto
      with Cons.IH [OF w(2)] show ?thesis by simp
    qed
  next
    case (CallRead k)
    from Cons.prems(1) [unfolded CallRead] show ?thesis
    proof (cases rule: run_calls_Read)
      case (fails b1 e)
      obtain u v where "f = (u, v)" by (cases f)
      with no_more_reads fails(2) have "g = []" by metis
      then show ?thesis using pops.stop by fastforce
    next
      case (reads b1 d g1)
      from rd_keeps [OF Cons.prems(2) reads(1)] Cons.IH [OF reads(2)] obtain ps d1 x1 r where
        b1: "pops dec (ikey b1) (avail (rx (netof b1))) ps d1 x1" "buf b1 @ concat ps = g1 @ r" by blast
      have "ikey b1 = ikey b \<and> avail (rx (netof b1)) = avail (rx (netof b)) \<and> buf b = d @ buf b1 \<or>
          (\<exists>p. dec (ikey b) (avail (rx (netof b))) = Some (ikey b1, p, avail (rx (netof b1))) \<and> buf b @ p = d @ buf b1)"
        using rd_spec [OF Cons.prems(2) _ reads(1)] rd_closed [OF Cons.prems(2) _ reads(1)]
        by (cases "net_closed (netof b)") auto
      then consider "ikey b1 = ikey b" "avail (rx (netof b1)) = avail (rx (netof b))" "buf b = d @ buf b1"
        | p where "dec (ikey b) (avail (rx (netof b))) = Some (ikey b1, p, avail (rx (netof b1)))" "buf b @ p = d @ buf b1" by blast
      then show ?thesis
      proof cases
        case 1
        with b1 reads(3) show ?thesis by auto
      next
        case 2
        have "buf b @ concat (p # ps) = g @ r" using 2(2) b1(2) reads(3) by (metis append.assoc concat.simps(2))
        with pops.pop [OF 2(1) b1(1)] show ?thesis by blast
      qed
    qed
  qed
qed

text \<open>Opening a part of the frames that were made gives the first of the fragments.\<close>

lemma pops_pends:
  assumes "pops dec d x qs d1 x1" "pends dec d (x @ z) ps d'"
  shows "\<exists>rs. ps = qs @ rs \<and> pends dec d1 (x1 @ z) rs d'"
  using assms
proof (induction arbitrary: ps rule: pops.induct)
  case (pop d x d1 p x1 qs d2 x2)
  from pends_step [OF pop.prems dec_append [OF pop.hyps(1)]] obtain ps' where
    ps': "ps = p # ps'" "pends dec d1 (x1 @ z) ps' d'" by blast
  with pop.IH show ?case by auto
qed simp

text \<open>The frames that were made, with the one that was cut off completed.\<close>

lemma pends_cut:
  assumes "sync k d" "\<forall>p \<in> set ps. p \<noteq> [] \<and> length p \<le> maxp" "encs enc k ps = Some (k1, fs)" "cut_frame enc maxp k1 t"
  obtains u rs d2 where "pends dec d (concat fs @ t @ u) (ps @ rs) d2" "t = [] \<and> u = [] \<and> rs = [] \<or> u \<noteq> [] \<and> (\<exists>q. rs = [q])"
proof -
  from pends_encs [OF assms(1-3)] obtain d1 where d1: "pends dec d (concat fs) ps d1" "sync k1 d1" by blast
  show ?thesis
  proof (cases "t = []")
    case True
    with that [of "[]" "[]" d1] d1 show ?thesis by simp
  next
    case False
    with assms(4) obtain q k2 u where q: "q \<noteq> []" "length q \<le> maxp" "enc k1 q = Some (k2, t @ u)" "u \<noteq> []" by (auto simp: cut_frame_def)
    from dec_enc [OF d1(2) q(1-3)] obtain d2 where "dec d1 (t @ u) = Some (d2, q, [])" by blast
    then have "pends dec d1 (t @ u) [q] d2" using q(1) by (auto intro: pends.intros)
    from that [OF pends_append [OF d1(1) this]] q(4) show ?thesis by blast
  qed
qed

text \<open>
  One direction: what an end receives is the beginning \<open>x\<close> of what the other sends. What it has read is
  the beginning of what the other has written: a frame that is cut off is never opened.
\<close>

lemma frames_opened:
  assumes "sync k d" "\<forall>p \<in> set ps. p \<noteq> [] \<and> length p \<le> maxp" "encs enc k ps = Some (k1, fs)" "cut_frame enc maxp k1 t"
    and "pops dec d x qs d1 x1" "concat fs @ t = x @ z"
  obtains rs where "ps = qs @ rs" "t = [] \<Longrightarrow> \<exists>d2. pends dec d1 (x1 @ z) rs d2"
proof -
  from pends_cut [OF assms(1-4)] obtain u rs d2 where p: "pends dec d (concat fs @ t @ u) (ps @ rs) d2"
    "t = [] \<and> u = [] \<and> rs = [] \<or> u \<noteq> [] \<and> (\<exists>q. rs = [q])" by blast
  have "concat fs @ t @ u = x @ z @ u" using assms(6) by (metis append.assoc)
  with pops_pends [OF assms(5), of "z @ u" "ps @ rs" d2] p(1) obtain rs' where
    r: "ps @ rs = qs @ rs'" "pends dec d1 (x1 @ z @ u) rs' d2" by auto
  show ?thesis
  proof (cases "u = []")
    case True
    with p(2) r that show ?thesis by auto
  next
    case False
    then have "rs' \<noteq> []" using r(2) by (auto elim: pends_NilE)
    moreover obtain q where "rs = [q]" using p(2) False by blast
    ultimately have "ps = qs @ butlast rs'" using r(1) by (metis butlast_append butlast_snoc)
    moreover have "\<exists>d2. pends dec d1 (x1 @ z) rs'' d2" if "t = []" "ps = qs @ rs''" for rs''
    proof -
      from pends_encs [OF assms(1-3)] assms(6) that(1) obtain d3 where "pends dec d (x @ z) ps d3" by auto
      from pops_pends [OF assms(5) this] that(2) show ?thesis by auto
    qed
    ultimately show ?thesis using that by blast
  qed
qed

lemma calls_prefix:
  assumes "run_calls wr rd ca True True a = (a', fa, wa, ga)" "run_calls wr rd cb True True b = (b', fb, wb, gb)"
    and "ends_joined sync live okey ikey buf netof a b"
    and "concat (tx (netof a')) = concat (tx (netof a)) @ s" "prefix (avail (rx (netof b))) s"
  shows "prefix gb wa"
proof -
  obtain wok rok where fa: "fa = (wok, rok)" by (cases fa)
  from assms(3) have j: "live a" "live b" "sync (okey a) (ikey b)" "buf b = []"
    by (simp_all add: ends_joined_def)
  from calls_sent [OF assms(1) [unfolded fa] j(1)] obtain ps k fs t where s: "encs enc (okey a) ps = Some (k, fs)"
    "\<forall>p \<in> set ps. p \<noteq> [] \<and> length p \<le> maxp" "concat ps = wa" "concat (tx (netof a')) = concat (tx (netof a)) @ concat fs @ t"
    "cut_frame enc maxp k t" by blast
  from assms(4,5) s(4) obtain z where z: "concat fs @ t = avail (rx (netof b)) @ z" by (auto simp: prefix_def)
  from calls_received [OF assms(2) j(2)] j(4) obtain qs d1 x1 r where
    r: "pops dec (ikey b) (avail (rx (netof b))) qs d1 x1" "concat qs = gb @ r" by auto
  from frames_opened [OF j(3) s(2,1,5) r(1) z] obtain rs where "ps = qs @ rs" by blast
  with s(3) r(2) show ?thesis by auto
qed

end

context live_framed_conn begin

text \<open>A run whose Reads have ended in a failure, and whose Writes have not failed, has opened all it could.\<close>

lemma calls_drained:
  assumes "run_calls wr rd cs True True b = (b', (True, False), w, g)" "live b" "\<not> net_closed (netof b)"
  shows "\<exists>ps d x. pops dec (ikey b) (avail (rx (netof b))) ps d x \<and> buf b @ concat ps = g \<and> dec d x = None"
  using assms
proof (induction cs arbitrary: b w g)
  case Nil
  then show ?case by simp
next
  case (Cons x cs)
  show ?case
  proof (cases x)
    case (CallWrite p)
    from Cons.prems(1) [unfolded CallWrite] obtain b1 n e w1 where
      w: "wr p b = (b1, n, e)" "run_calls wr rd cs (e = None) True b1 = (b', (True, False), w1, g)" by (rule run_calls_Write)
    have e: "e = None"
    proof (rule ccontr)
      assume "e \<noteq> None"
      then obtain y where y: "e = Some y" by blast
      from wr_stop [OF Cons.prems(2) w(1) [unfolded y]] have "live b1" "rx (netof b1) = rx (netof b)" by blast+
      moreover from w(2) y have "run_calls wr rd cs False True b1 = (b', (True, False), w1, g)" by simp
      ultimately show False using no_more_writes by metis
    qed
    from wr_spec [OF Cons.prems(2) w(1) [unfolded e]] have "live b1 \<and> ikey b1 = ikey b \<and> buf b1 = buf b \<and> rx (netof b1) = rx (netof b) \<and>
      net_closed (netof b1) = net_closed (netof b)" by blast
    with Cons.IH [of b1 w1 g] w(2) e Cons.prems(3) show ?thesis by simp
  next
    case (CallRead k)
    from Cons.prems(1) [unfolded CallRead] show ?thesis
    proof (cases rule: run_calls_Read)
      case (fails b1 e)
      from rd_zero [OF Cons.prems(2)] fails(1) have k: "0 < k" by (cases k) auto
      from rd_buffered [OF Cons.prems(2) k] fails(1) have n: "buf b = []" by auto
      have "dec (ikey b) (avail (rx (netof b))) = None"
        using rd_next [OF Cons.prems(2,3) k n] fails(1) by (cases "dec (ikey b) (avail (rx (netof b)))") auto
      moreover have "g = []" using no_more_reads [OF fails(2)] by simp
      ultimately show ?thesis using n using pops.stop by fastforce
    next
      case (reads b1 d g1)
      note s = rd_spec [OF Cons.prems(2,3) reads(1)]
      from Cons.IH [OF reads(2)] s obtain ps d1 x1 where
        b1: "pops dec (ikey b1) (avail (rx (netof b1))) ps d1 x1" "buf b1 @ concat ps = g1" "dec d1 x1 = None" by blast
      from s consider "ikey b1 = ikey b" "avail (rx (netof b1)) = avail (rx (netof b))" "buf b = d @ buf b1"
        | p where "dec (ikey b) (avail (rx (netof b))) = Some (ikey b1, p, avail (rx (netof b1)))" "buf b @ p = d @ buf b1" by blast
      then show ?thesis
      proof cases
        case 1
        with b1 reads(3) show ?thesis by auto
      next
        case 2
        have "buf b @ concat (p # ps) = g" using 2(2) b1(2) reads(3) by (metis append.assoc concat.simps(2))
        with pops.pop [OF 2(1) b1(1)] b1(3) show ?thesis by blast
      qed
    qed
  qed
qed

text \<open>When everything has arrived, reading can only fail when everything has been read.\<close>

lemma calls_complete:
  assumes "run_calls wr rd ca True True a = (a', (True, ra), wa, ga)" "run_calls wr rd cb True True b = (b', (True, False), wb, gb)"
    and "ends_joined sync live okey ikey buf netof a b"
    and "concat (tx (netof a')) = concat (tx (netof a)) @ avail (rx (netof b))"
  shows "gb = wa"
proof -
  from assms(3) have j: "live a" "live b" "\<not> net_closed (netof b)"
    "sync (okey a) (ikey b)" "buf b = []" by (simp_all add: ends_joined_def)
  from calls_sent [OF assms(1) j(1)] obtain ps k fs where s: "encs enc (okey a) ps = Some (k, fs)"
    "\<forall>p \<in> set ps. p \<noteq> [] \<and> length p \<le> maxp" "concat ps = wa" "concat (tx (netof a')) = concat (tx (netof a)) @ concat fs" by auto
  with assms(4) have z: "concat fs @ [] = avail (rx (netof b)) @ []" by simp
  from calls_drained [OF assms(2) j(2,3)] j(5) obtain qs d1 x1 where
    r: "pops dec (ikey b) (avail (rx (netof b))) qs d1 x1" "concat qs = gb" "dec d1 x1 = None" by auto
  from frames_opened [OF j(4) s(2,1) cut_frame_Nil r(1) z] obtain rs where
    rs: "ps = qs @ rs" "\<exists>d2. pends dec d1 (x1 @ []) rs d2" by blast
  then obtain d2 where "pends dec d1 x1 rs d2" by auto
  then have "rs = []"
  proof cases
    case (cons d3 p rest ps')
    with r(3) show ?thesis by simp
  qed simp
  with s(3) r(2) rs(1) show ?thesis by simp
qed

end

end
