(* ===== verification/Example_Lib.thy ===== *)
theory Example_Lib
  imports Noise_Lib
begin

text \<open>
  A concrete library, used only to show that the hypotheses on the Noise library can hold:
  a cipher state is its nonce, a ciphertext is a 16-byte tag made of the nonce followed by the
  plaintext, and a handshake of \<open>k\<close> messages counts down, each message being one byte.
  The nonce limit is real: at \<open>2 ^ 64 - 1\<close> both directions report \<open>ErrMaxNonce\<close>.
\<close>

definition ex_tag :: "nat \<Rightarrow> bytes" where
  "ex_tag n = replicate 16 (word_of_nat n)"

definition ex_max_nonce :: nat where
  "ex_max_nonce = 2 ^ 64 - 1"

definition ex_encrypt :: "nat \<Rightarrow> bytes \<Rightarrow> nat \<times> (noise_err + bytes)" where
  "ex_encrypt n p = (if ex_max_nonce \<le> n then (n, Inl ErrMaxNonce) else (Suc n, Inr (ex_tag n @ p)))"

definition ex_decrypt :: "nat \<Rightarrow> bytes \<Rightarrow> nat \<times> (noise_err + bytes)" where
  "ex_decrypt n c =
     (if ex_max_nonce \<le> n then (n, Inl ErrMaxNonce)
      else if take 16 c = ex_tag n then (Suc n, Inr (drop 16 c))
      else (n, Inl (NoiseErr ''authentication failed'')))"

definition ex_lib :: "(nat, nat) noise_lib" where
  "ex_lib = \<lparr>
     new_handshake = (\<lambda>cfg. Inr (pat_messages (cfg_pattern cfg))),
     hs_write = (\<lambda>k. (k - 1, Inr ([1], if k = 1 then Some (0, 0) else None))),
     hs_read = (\<lambda>k m. (k - 1, Inr (if k = 1 then Some (0, 0) else None))),
     channel_binding = (\<lambda>k. replicate 32 7),
     cs_encrypt = ex_encrypt,
     cs_decrypt = ex_decrypt\<rparr>"

definition ex_pair :: "nat \<Rightarrow> nat \<Rightarrow> nat \<Rightarrow> bool" where
  "ex_pair k w r \<longleftrightarrow> w = k \<and> r = k"

lemma ex_cipher_pair: "cipher_pair ex_lib (=)"
  by (auto simp: cipher_pair_def ex_lib_def ex_encrypt_def ex_decrypt_def ex_tag_def split: if_splits)

lemma ex_handshake_pair: "handshake_pair ex_lib (=) ex_pair"
  by (auto simp: handshake_pair_def ex_lib_def ex_pair_def max_msg_len_def)

definition ex_config :: "bool \<Rightarrow> noise_config" where
  "ex_config initiator = zero_noise_config\<lparr>cfg_pattern := \<lparr>pat_name = ''NN'', pat_messages = 2\<rparr>,
     cfg_initiator := initiator\<rparr>"

end
