(* ===== verification/Raw.thy ===== *)
theory Raw
  imports Noise_Lib Calls Example_Lib
begin

text \<open>
  The raw transport (pkg/transport/raw/conn.go, raw.go): a two-byte big-endian length in front
  of every Noise message. The record \<open>raw_conn\<close> is the struct \<open>Conn\<close>; its mutexes make each
  operation atomic on the half of the state it uses, so an operation is one function from the
  state to the state. A nil cipher state is \<open>None\<close>, and using one is a panic.
\<close>

section \<open>State\<close>

record ('hs, 'cs) raw_conn =
  r_net :: net
  r_client :: bool
  r_config :: noise_config
  r_hs :: "'hs option"
  r_complete :: bool
  r_remote_auth :: bool
  r_in :: "'cs option"
  r_out :: "'cs option"
  r_buf :: bytes

definition raw_new :: "bool \<Rightarrow> net \<Rightarrow> noise_config \<Rightarrow> ('hs, 'cs) raw_conn" where
  "raw_new client n cfg = \<lparr>r_net = n, r_client = client, r_config = cfg, r_hs = None,
     r_complete = False, r_remote_auth = False, r_in = None, r_out = None, r_buf = []\<rparr>"

definition raw_Server :: "net \<Rightarrow> noise_config \<Rightarrow> ('hs, 'cs) raw_conn" where
  "raw_Server n cfg = raw_new False n cfg"

definition raw_Client :: "net \<Rightarrow> noise_config \<Rightarrow> ('hs, 'cs) raw_conn" where
  "raw_Client n cfg = raw_new True n cfg"

section \<open>Handshake\<close>

text \<open>The length-prefixed message both the handshake and the data phase put on the wire.\<close>

definition raw_frame :: "bytes \<Rightarrow> bytes" where
  "raw_frame m = put16 (length m) @ m"

text \<open>
  The loop over the messages of the pattern: \<open>w\<close> is the variable \<open>state\<close> (our turn to
  write) and \<open>cs\<close> the cipher states the last message returned.
\<close>

fun raw_hs_loop :: "('hs, 'cs) noise_lib \<Rightarrow> nat \<Rightarrow> bool \<Rightarrow> net \<Rightarrow> 'hs \<Rightarrow> ('cs \<times> 'cs) option \<Rightarrow>
    net \<times> 'hs \<times> ('cs \<times> 'cs) option res" where
  "raw_hs_loop L 0 w n hs cs = (n, hs, Inr cs)"
| "raw_hs_loop L (Suc m) w n hs cs =
     (if w then
        (case hs_write L hs of
           (hs', Inl e) \<Rightarrow> (n, hs', Inl (Noise e))
         | (hs', Inr (msg, cs')) \<Rightarrow>
             if 0xFFFF < length msg
             then (n, hs', Inl (New ''noise: handshake message exceeds 16-bit length frame''))
             else (case conn_write (raw_frame msg) n of
                 (n', Some e) \<Rightarrow> (n', hs', Inl (Io e))
               | (n', None) \<Rightarrow> raw_hs_loop L m (\<not> w) n' hs' cs'))
      else
        (case readBytes 2 n of
           (n', Inl e) \<Rightarrow> (n', hs, Inl (Io e))
         | (n', Inr h) \<Rightarrow>
             let len = get16 (h ! 0) (h ! 1) in
             if max_msg_len < len
             then (n', hs, Inl (New ''noise: handshake message exceeds MaxMsgLen''))
             else (case readBytes len n' of
                 (n'', Inl e) \<Rightarrow> (n'', hs, Inl (Io e))
               | (n'', Inr msg) \<Rightarrow>
                   (case hs_read L hs msg of
                      (hs', Inl e) \<Rightarrow> (n'', hs', Inl (Noise e))
                    | (hs', Inr cs') \<Rightarrow> raw_hs_loop L m (\<not> w) n'' hs' cs'))))"

definition raw_Handshake :: "('hs, 'cs) noise_lib \<Rightarrow> ('hs, 'cs) raw_conn \<Rightarrow>
    ('hs, 'cs) raw_conn \<times> err option" where
  "raw_Handshake L c =
     (if r_complete c then (c, None)
      else if (case peer_static (r_config c) of None \<Rightarrow> False | Some k \<Rightarrow> length k \<noteq> 32)
      then (c, Some (New ''noise: the provided remote key is not 32 bytes''))
      else case new_handshake L (r_config c) of
        Inl e \<Rightarrow> (c\<lparr>r_hs := None\<rparr>, Some (Noise e))
      | Inr hs \<Rightarrow>
          (case raw_hs_loop L (pat_messages (cfg_pattern (r_config c))) (r_client c) (r_net c) hs None of
             (n, hs', Inl e) \<Rightarrow> (c\<lparr>r_net := n, r_hs := Some hs'\<rparr>, Some e)
           | (n, hs', Inr cs) \<Rightarrow>
               let c1 = map_option fst cs; c2 = map_option snd cs in
               (c\<lparr>r_net := n, r_hs := Some hs',
                  r_out := (if r_client c then c1 else c2),
                  r_in := (if r_client c then c2 else c1),
                  r_complete := True\<rparr>, None)))"

text \<open>\<open>Fingerprint\<close>: the first 32 bytes of the handshake hash, zeroes before the end.\<close>

definition copy32 :: "bytes \<Rightarrow> bytes" where
  "copy32 h = take 32 h @ replicate (32 - length h) 0"

definition raw_Fingerprint :: "('hs, 'cs) noise_lib \<Rightarrow> ('hs, 'cs) raw_conn \<Rightarrow> bytes" where
  "raw_Fingerprint L c =
     (if \<not> r_complete c then copy32 []
      else case r_hs c of None \<Rightarrow> copy32 [] | Some hs \<Rightarrow> copy32 (channel_binding L hs))"

definition raw_IsRemoteAuthenticated :: "('hs, 'cs) raw_conn \<Rightarrow> bool" where
  "raw_IsRemoteAuthenticated c = r_remote_auth c"

section \<open>Write\<close>

definition raw_frag :: nat where
  "raw_frag = max_msg_len - 16"

lemma raw_frag_pos: "0 < raw_frag"
  by (simp add: raw_frag_def max_msg_len_def)

function raw_write_loop :: "('hs, 'cs) noise_lib \<Rightarrow> nat \<Rightarrow> bytes \<Rightarrow> ('hs, 'cs) raw_conn \<Rightarrow>
    ('hs, 'cs) raw_conn \<times> nat \<times> err option" where
  "raw_write_loop L n data c =
     (if data = [] then (c, n, None)
      else case r_out c of
        None \<Rightarrow> (c, n, Some (Panic ''nil CipherState''))
      | Some cs \<Rightarrow>
          (let m = (if raw_frag < length data then raw_frag else length data) in
           case cs_encrypt L cs (take m data) of
             (cs', Inl e) \<Rightarrow>
               (c\<lparr>r_out := Some cs',
                  r_net := (if e = ErrMaxNonce then fst (conn_close (r_net c)) else r_net c)\<rparr>,
                n, Some (Noise e))
           | (cs', Inr ct) \<Rightarrow>
               if 0xFFFF < length ct
               then (c\<lparr>r_out := Some cs'\<rparr>, n,
                     Some (New ''noise: ciphertext exceeds 16-bit length frame''))
               else (case conn_write (raw_frame ct) (r_net c) of
                   (n', Some e) \<Rightarrow> (c\<lparr>r_out := Some cs', r_net := n'\<rparr>, n, Some (Io e))
                 | (n', None) \<Rightarrow>
                     raw_write_loop L (n + m) (drop m data) (c\<lparr>r_out := Some cs', r_net := n'\<rparr>))))"
  by pat_completeness auto
termination
  by (relation "measure (\<lambda>(L, n, data, c). length data)") (auto simp: raw_frag_pos split: if_splits)

declare raw_write_loop.simps [simp del]

definition raw_Write :: "('hs, 'cs) noise_lib \<Rightarrow> bytes \<Rightarrow> ('hs, 'cs) raw_conn \<Rightarrow>
    ('hs, 'cs) raw_conn \<times> nat \<times> err option" where
  "raw_Write L b c =
     (if \<not> r_client c \<and> pat_messages (cfg_pattern (r_config c)) < 2
      then (c, 0, Some (New ''noise: server cannot write on a one-way pattern''))
      else case raw_Handshake L c of
        (c', Some e) \<Rightarrow> (c', 0, Some e)
      | (c', None) \<Rightarrow> raw_write_loop L 0 b c')"

section \<open>Read\<close>

text \<open>
  \<open>raw_fill\<close> is the part of \<open>Read\<close> after the read buffer has been handed out (\<open>sofar\<close>): one
  more frame is read from the connection. On any failure the code returns a count of 0, so
  the bytes in \<open>sofar\<close> are not delivered.
\<close>

definition raw_fill :: "('hs, 'cs) noise_lib \<Rightarrow> nat \<Rightarrow> bytes \<Rightarrow> ('hs, 'cs) raw_conn \<Rightarrow>
    ('hs, 'cs) raw_conn \<times> bytes res" where
  "raw_fill L k sofar c =
     (case readBytes 2 (r_net c) of
        (n, Inl e) \<Rightarrow> (c\<lparr>r_net := n\<rparr>, Inl (Io e))
      | (n, Inr h) \<Rightarrow>
          let len = get16 (h ! 0) (h ! 1) in
          if max_msg_len < len
          then (c\<lparr>r_net := n\<rparr>, Inl (New ''noise: received message exceeds MaxMsgLen''))
          else (case readBytes len n of
              (n', Inl e) \<Rightarrow> (c\<lparr>r_net := n'\<rparr>, Inl (Io e))
            | (n', Inr msg) \<Rightarrow>
                (case r_in c of
                   None \<Rightarrow> (c\<lparr>r_net := n'\<rparr>, Inl (Panic ''nil CipherState''))
                 | Some cs \<Rightarrow>
                     (case cs_decrypt L cs msg of
                        (cs', Inl e) \<Rightarrow>
                          (c\<lparr>r_in := Some cs',
                             r_net := (if e = ErrMaxNonce then fst (conn_close n') else n')\<rparr>,
                           Inl (Noise e))
                      | (cs', Inr pt) \<Rightarrow>
                          let ib = r_buf c @ pt; rest = k - length sofar in
                          if rest \<le> length ib
                          then (c\<lparr>r_in := Some cs', r_net := n', r_buf := drop rest ib\<rparr>,
                                Inr (sofar @ take rest ib))
                          else (c\<lparr>r_in := Some cs', r_net := n', r_buf := []\<rparr>, Inr (sofar @ ib))))))"

definition raw_Read :: "('hs, 'cs) noise_lib \<Rightarrow> nat \<Rightarrow> ('hs, 'cs) raw_conn \<Rightarrow>
    ('hs, 'cs) raw_conn \<times> bytes res" where
  "raw_Read L k c0 =
     (case raw_Handshake L c0 of
        (c, Some e) \<Rightarrow> (c, Inl e)
      | (c, None) \<Rightarrow>
          if k = 0 then (c, Inr [])
          else if \<not> r_client c \<and> pat_messages (cfg_pattern (r_config c)) < 2
          then (c, Inl (New ''noise: client cannot read on a one-way pattern''))
          else if r_buf c \<noteq> [] \<and> k \<le> length (r_buf c)
          then (c\<lparr>r_buf := drop k (r_buf c)\<rparr>, Inr (take k (r_buf c)))
          else raw_fill L k (r_buf c) (c\<lparr>r_buf := []\<rparr>))"

definition raw_Close :: "('hs, 'cs) raw_conn \<Rightarrow> ('hs, 'cs) raw_conn \<times> io_err option" where
  "raw_Close c = (let (n, e) = conn_close (r_net c) in (c\<lparr>r_net := n\<rparr>, e))"

definition raw_CloseWrite :: "('hs, 'cs) raw_conn \<Rightarrow> ('hs, 'cs) raw_conn \<times> io_err option" where
  "raw_CloseWrite c = (let (n, e) = close_write (r_net c) in (c\<lparr>r_net := n\<rparr>, e))"

section \<open>The record layer\<close>

definition raw_enc :: "('hs, 'cs) noise_lib \<Rightarrow> 'cs \<Rightarrow> bytes \<Rightarrow> ('cs \<times> bytes) option" where
  "raw_enc L cs p = (case cs_encrypt L cs p of
     (cs', Inr c) \<Rightarrow> if 0xFFFF < length c then None else Some (cs', raw_frame c)
   | (cs', Inl e) \<Rightarrow> None)"

definition raw_dec :: "('hs, 'cs) noise_lib \<Rightarrow> 'cs \<Rightarrow> bytes \<Rightarrow> ('cs \<times> bytes \<times> bytes) option" where
  "raw_dec L cs w = (case w of
     a # b # r \<Rightarrow>
       if length r < get16 a b then None
       else (case cs_decrypt L cs (take (get16 a b) r) of
          (cs', Inr p) \<Rightarrow> Some (cs', p, drop (get16 a b) r)
        | (cs', Inl e) \<Rightarrow> None)
   | _ \<Rightarrow> None)"

definition raw_sync :: "('hs, 'cs) noise_lib \<Rightarrow> ('cs \<Rightarrow> 'cs \<Rightarrow> bool) \<Rightarrow> 'cs \<Rightarrow> 'cs \<Rightarrow> bool" where
  "raw_sync L R co ci \<longleftrightarrow> cipher_pair L R \<and> R co ci"

definition raw_live :: "('hs, 'cs) raw_conn \<Rightarrow> bool" where
  "raw_live c \<longleftrightarrow> r_complete c \<and> r_out c \<noteq> None \<and> r_in c \<noteq> None"

definition raw_feed :: "read_event list \<Rightarrow> ('hs, 'cs) raw_conn \<Rightarrow> ('hs, 'cs) raw_conn" where
  "raw_feed es c = c\<lparr>r_net := feed_net es (r_net c)\<rparr>"

lemma raw_dec_frame:
  assumes "length c \<le> 65535" "cs_decrypt L cs c = (cs', Inr p)"
  shows "raw_dec L cs (raw_frame c @ rest) = Some (cs', p, rest)"
proof -
  obtain a b where "put16 (length c) = [a, b]" "get16 a b = length c mod 65536" by (rule put16_cases)
  with assms show ?thesis by (simp add: raw_dec_def raw_frame_def)
qed

lemma raw_dec_append:
  "raw_dec L cs w = Some (cs', p, rest) \<Longrightarrow> raw_dec L cs (w @ x) = Some (cs', p, rest @ x)"
  by (auto simp: raw_dec_def split: list.splits if_splits prod.splits sum.splits)

lemma raw_dec_enc:
  assumes "raw_sync L R k d" "raw_enc L k p = Some (k', w)"
  shows "\<exists>d'. raw_dec L d w = Some (d', p, []) \<and> raw_sync L R k' d'"
proof -
  from assms(2) obtain c where c: "cs_encrypt L k p = (k', Inr c)" "length c \<le> 65535" "w = raw_frame c"
    by (auto simp: raw_enc_def split: prod.splits sum.splits if_splits)
  from assms(1) have "cipher_pair L R" "R k d" by (simp_all add: raw_sync_def)
  from cipher_pairD [OF this c(1)] obtain d' where "cs_decrypt L d c = (d', Inr p)" "R k' d'" by metis
  with raw_dec_frame [OF c(2), of L d d' p "[]"] c(3) \<open>cipher_pair L R\<close> show ?thesis
    by (auto simp: raw_sync_def)
qed

text \<open>Write is the reference fragmentation, frame by frame.\<close>

text \<open>The body of the loop in \<open>Write\<close>: one fragment, one frame.\<close>

definition raw_step :: "('hs, 'cs) noise_lib \<Rightarrow> bytes \<Rightarrow> ('hs, 'cs) raw_conn \<Rightarrow> ('hs, 'cs) raw_conn \<times> err option" where
  "raw_step L p c =
     (case r_out c of
        None \<Rightarrow> (c, Some (Panic ''nil CipherState''))
      | Some cs \<Rightarrow>
          (case cs_encrypt L cs p of
             (cs', Inl e) \<Rightarrow>
               (c\<lparr>r_out := Some cs', r_net := (if e = ErrMaxNonce then fst (conn_close (r_net c)) else r_net c)\<rparr>, Some (Noise e))
           | (cs', Inr ct) \<Rightarrow>
               if 0xFFFF < length ct
               then (c\<lparr>r_out := Some cs'\<rparr>, Some (New ''noise: ciphertext exceeds 16-bit length frame''))
               else (case conn_write (raw_frame ct) (r_net c) of
                   (n', e) \<Rightarrow> (c\<lparr>r_out := Some cs', r_net := n'\<rparr>, map_option Io e))))"

abbreviation raw_keeps :: "('hs, 'cs) raw_conn \<Rightarrow> 'cs \<times> bytes \<times> read_event list" where
  "raw_keeps c \<equiv> (the (r_in c), r_buf c, rx (r_net c))"

interpretation raww: fragment_writer "raw_write_loop L" "raw_step L" "raw_enc L" raw_frag raw_live "\<lambda>c. the (r_out c)" raw_keeps r_net for L
proof (unfold_locales, goal_cases)
  case 1
  show ?case by (rule raw_frag_pos)
next
  case (2 n p c)
  have "take (if raw_frag < length p then raw_frag else length p) p = take raw_frag p"
    "drop (if raw_frag < length p then raw_frag else length p) p = drop raw_frag p"
    "(if raw_frag < length p then raw_frag else length p) = length (take raw_frag p)" by auto
  then show ?case
    by (subst raw_write_loop.simps, simp only:)
      (auto simp: raw_step_def Let_def split: prod.splits sum.splits option.splits)
next
  case (3 c p c')
  then obtain cs cs' ct n' where "r_out c = Some cs" "cs_encrypt L cs p = (cs', Inr ct)" "\<not> 0xFFFF < length ct"
    "conn_write (raw_frame ct) (r_net c) = (n', None)" "c' = c\<lparr>r_out := Some cs', r_net := n'\<rparr>"
    by (auto simp: raw_step_def split: option.splits prod.splits sum.splits if_splits)
  with 3(1) conn_write_ok conn_write_rx show ?case by (fastforce simp: raw_live_def raw_enc_def)
next
  case (4 c p c' e)
  then obtain cs where cs: "r_out c = Some cs" by (auto simp: raw_live_def)
  obtain cs' r where r: "cs_encrypt L cs p = (cs', r)" by fastforce
  show ?case
  proof (cases "\<exists>ct. r = Inr ct \<and> \<not> 0xFFFF < length ct")
    case True
    then obtain ct n' x where w: "r = Inr ct" "\<not> 0xFFFF < length ct" "conn_write (raw_frame ct) (r_net c) = (n', Some x)"
      and c': "c' = c\<lparr>r_out := Some cs', r_net := n'\<rparr>"
      using 4(4) cs r by (auto simp: raw_step_def split: prod.splits)
    have "raw_enc L (the (r_out c)) p = Some (cs', raw_frame ct)" using cs r w by (simp add: raw_enc_def)
    from cut_frame_write [of "raw_frame ct" "r_net c" n' x p raw_frag "raw_enc L", OF w(3) 4(2,3) this] 4(1) c' conn_write_rx [OF w(3)]
    show ?thesis by (auto simp: raw_live_def)
  next
    case False
    with 4(1,4) cs r show ?thesis
      by (auto simp: raw_step_def raw_live_def conn_close_same split: sum.splits if_splits intro!: exI [of _ "[]"])
  qed
qed

lemma raw_Write_loop: "raw_live a \<Longrightarrow> raw_Write L p a =
    (if \<not> r_client a \<and> pat_messages (cfg_pattern (r_config a)) < 2
     then (a, 0, Some (New ''noise: server cannot write on a one-way pattern'')) else raw_write_loop L 0 p a)"
  by (simp add: raw_Write_def raw_Handshake_def raw_live_def)

lemma raw_Write_spec:
  assumes "raw_live a" "raw_Write L p a = (a', n, None)"
  shows "n = length p \<and> raw_live a' \<and> the (r_in a') = the (r_in a) \<and> r_buf a' = r_buf a \<and>
    rx (r_net a') = rx (r_net a) \<and> net_closed (r_net a') = net_closed (r_net a) \<and>
    (\<exists>fs. encs (raw_enc L) (the (r_out a)) (chunks raw_frag p) = Some (the (r_out a'), fs) \<and>
       concat (tx (r_net a')) = concat (tx (r_net a)) @ concat fs)"
  using raww.loop_complete [OF assms(1), of L p a' n] assms by (simp add: raw_Write_loop split: if_splits)

lemma raw_Write_stop:
  assumes "raw_live a" "raw_Write L p a = (a', n, Some e)"
  shows "n \<le> length p \<and> raw_live a' \<and> the (r_in a') = the (r_in a) \<and> r_buf a' = r_buf a \<and> rx (r_net a') = rx (r_net a) \<and>
    (\<exists>k fs t. encs (raw_enc L) (the (r_out a)) (chunks raw_frag (take n p)) = Some (k, fs) \<and>
       concat (tx (r_net a')) = concat (tx (r_net a)) @ concat fs @ t \<and> cut_frame (raw_enc L) raw_frag k t)"
proof (cases "raw_write_loop L 0 p a = (a', n, Some e)")
  case True
  with raww.loop_stopped [OF assms(1) this] show ?thesis by simp
next
  case False
  with assms show ?thesis by (auto simp: raw_Write_loop split: if_splits)
qed

lemma raw_Read_spec:
  assumes "raw_live b" "\<not> net_closed (r_net b)" "raw_Read L k b = (b', Inr d)"
  shows "raw_live b' \<and> the (r_out b') = the (r_out b) \<and> \<not> net_closed (r_net b') \<and>
    (all_data (rx (r_net b)) \<longrightarrow> all_data (rx (r_net b'))) \<and> concat (tx (r_net b')) = concat (tx (r_net b)) \<and>
    (the (r_in b') = the (r_in b) \<and> avail (rx (r_net b')) = avail (rx (r_net b)) \<and> r_buf b = d @ r_buf b' \<or>
     (\<exists>p. raw_dec L (the (r_in b)) (avail (rx (r_net b))) =
            Some (the (r_in b'), p, avail (rx (r_net b'))) \<and> r_buf b @ p = d @ r_buf b'))"
proof (cases "k = 0 \<or> r_buf b \<noteq> [] \<and> k \<le> length (r_buf b)")
  case True
  with assms show ?thesis
    by (auto simp: raw_Read_def raw_Handshake_def raw_live_def split: if_splits)
next
  case False
  with assms have fill: "raw_fill L k (r_buf b) (b\<lparr>r_buf := []\<rparr>) = (b', Inr d)"
    by (auto simp: raw_Read_def raw_Handshake_def raw_live_def split: if_splits)
  from assms(1) obtain cs where cs: "r_in b = Some cs" by (auto simp: raw_live_def)
  from fill cs obtain n1 h n2 msg cs' pt where
    rd: "readBytes 2 (r_net b) = (n1, Inr h)" "readBytes (get16 (h ! 0) (h ! 1)) n1 = (n2, Inr msg)"
    and dec: "cs_decrypt L cs msg = (cs', Inr pt)"
    and b': "b' = b\<lparr>r_in := Some cs', r_net := n2, r_buf := drop (k - length (r_buf b)) pt\<rparr>"
    and d: "d = r_buf b @ take (k - length (r_buf b)) pt"
    by (auto simp: raw_fill_def Let_def split: prod.splits sum.splits if_splits)
  note o1 = rawrd.rd_open [OF rd(1) assms(2)]
  then have open1: "\<not> net_closed n1" using assms(2) by auto
  note o2 = rawrd.rd_open [OF rd(2) open1]
  from rawrd.rd_length [OF rd(1)] obtain x y where h: "h = [x, y]" by (rule length2_cases)
  let ?w = "avail (rx (r_net b))"
  from o1 h have w: "?w = x # y # drop 2 ?w" "avail (rx n1) = drop 2 ?w"
    by (metis append_Cons append_Nil append_take_drop_id) (use o1 in simp)
  from o2 h w(2) have m: "get16 x y \<le> length (drop 2 ?w)" "msg = take (get16 x y) (drop 2 ?w)"
    "avail (rx n2) = drop (get16 x y) (drop 2 ?w)" by auto
  have "raw_dec L cs ?w = Some (cs', pt, avail (rx n2))"
    using m dec by (subst w(1)) (simp add: raw_dec_def)
  moreover have "all_data (rx (r_net b)) \<Longrightarrow> all_data (rx n2)" "tx n2 = tx (r_net b)" "\<not> net_closed n2"
    using o1 o2 assms(2) by auto
  ultimately show ?thesis
    using assms(1) b' d cs by (auto simp: raw_live_def)
qed

lemma raw_Read_stop:
  assumes "raw_live b" "raw_Read L k b = (b', Inl e)"
  shows "raw_live b' \<and> the (r_out b') = the (r_out b) \<and> concat (tx (r_net b')) = concat (tx (r_net b))"
  using assms
  by (auto simp: raw_Read_def raw_Handshake_def raw_live_def raw_fill_def Let_def conn_close_same
      dest!: rawrd.rd_tx split: if_splits prod.splits sum.splits option.splits)

lemma raw_Read_closed:
  assumes "raw_live b" "net_closed (r_net b)" "raw_Read L k b = (b', Inr d)"
  shows "raw_live b' \<and> the (r_out b') = the (r_out b) \<and> the (r_in b') = the (r_in b) \<and> r_net b' = r_net b \<and> r_buf b = d @ r_buf b'"
  using assms
  by (auto simp: raw_Read_def raw_Handshake_def raw_live_def raw_fill_def Let_def dest!: rawrd.rd_closed_Inr split: if_splits prod.splits sum.splits option.splits)

interpretation raw: framed_conn "raw_Write L" "raw_Read L" r_net raw_feed "raw_enc L" "raw_dec L"
    "raw_sync L R" raw_frag raw_live "\<lambda>c. the (r_out c)" "\<lambda>c. the (r_in c)" r_buf for L R
proof
  show "0 < raw_frag" by (rule raw_frag_pos)
next
  fix k d p k' w assume "raw_sync L R k d" "raw_enc L k p = Some (k', w)"
  then show "\<exists>d'. raw_dec L d w = Some (d', p, []) \<and> raw_sync L R k' d'" by (rule raw_dec_enc)
next
  fix d w d' p rest x assume "raw_dec L d w = Some (d', p, rest)"
  then show "raw_dec L d (w @ x) = Some (d', p, rest @ x)" by (rule raw_dec_append)
next
  fix d show "raw_dec L d [] = None" by (simp add: raw_dec_def)
next
  fix a a' p n assume "raw_live a" "raw_Write L p a = (a', n, None)"
  then show "n = length p \<and> raw_live a' \<and> the (r_in a') = the (r_in a) \<and> r_buf a' = r_buf a \<and>
    rx (r_net a') = rx (r_net a) \<and> net_closed (r_net a') = net_closed (r_net a) \<and>
    (\<exists>fs. encs (raw_enc L) (the (r_out a)) (chunks raw_frag p) = Some (the (r_out a'), fs) \<and>
       concat (tx (r_net a')) = concat (tx (r_net a)) @ concat fs)" by (rule raw_Write_spec)
next
  fix b sz b' dat
  assume "raw_live b" "\<not> net_closed (r_net b)" "raw_Read L sz b = (b', Inr dat)"
  then show "raw_live b' \<and> the (r_out b') = the (r_out b) \<and> \<not> net_closed (r_net b') \<and>
    (all_data (rx (r_net b)) \<longrightarrow> all_data (rx (r_net b'))) \<and> concat (tx (r_net b')) = concat (tx (r_net b)) \<and>
    (the (r_in b') = the (r_in b) \<and> avail (rx (r_net b')) = avail (rx (r_net b)) \<and> r_buf b = dat @ r_buf b' \<or>
     (\<exists>p. raw_dec L (the (r_in b)) (avail (rx (r_net b))) =
            Some (the (r_in b'), p, avail (rx (r_net b'))) \<and> r_buf b @ p = dat @ r_buf b'))"
    by (rule raw_Read_spec)
next
  fix a p a' n e assume "raw_live a" "raw_Write L p a = (a', n, Some e)"
  then show "n \<le> length p \<and> raw_live a' \<and> the (r_in a') = the (r_in a) \<and> r_buf a' = r_buf a \<and> rx (r_net a') = rx (r_net a) \<and>
    (\<exists>k fs t. encs (raw_enc L) (the (r_out a)) (chunks raw_frag (take n p)) = Some (k, fs) \<and>
       concat (tx (r_net a')) = concat (tx (r_net a)) @ concat fs @ t \<and> cut_frame (raw_enc L) raw_frag k t)"
    by (rule raw_Write_stop)
next
  fix b sz b' e assume "raw_live b" "raw_Read L sz b = (b', Inl e)"
  then show "raw_live b' \<and> the (r_out b') = the (r_out b) \<and> concat (tx (r_net b')) = concat (tx (r_net b))"
    by (rule raw_Read_stop)
next
  fix b sz b' dat assume "raw_live b" "net_closed (r_net b)" "raw_Read L sz b = (b', Inr dat)"
  then show "raw_live b' \<and> the (r_out b') = the (r_out b) \<and> the (r_in b') = the (r_in b) \<and> r_net b' = r_net b \<and> r_buf b = dat @ r_buf b'"
    by (rule raw_Read_closed)
next
  fix es a
  show "raw_live (raw_feed es a) = raw_live a \<and> the (r_out (raw_feed es a)) = the (r_out a) \<and>
    the (r_in (raw_feed es a)) = the (r_in a) \<and> r_buf (raw_feed es a) = r_buf a \<and>
    r_net (raw_feed es a) = feed_net es (r_net a)"
    by (simp add: raw_feed_def raw_live_def)
qed

section \<open>Both ends of the handshake\<close>

text \<open>Reading one frame: the header, then the message.\<close>

lemma raw_read_frame:
  assumes "\<not> net_closed n" "avail (rx n) = raw_frame m @ rest" "length m \<le> max_msg_len"
  obtains h n1 n2 where "readBytes 2 n = (n1, Inr h)" "get16 (h ! 0) (h ! 1) = length m"
    "readBytes (length m) n1 = (n2, Inr m)" "n2 = n\<lparr>rx := rx n2\<rparr>" "avail (rx n2) = rest"
proof -
  obtain a b where ab: "put16 (length m) = [a, b]" "get16 a b = length m mod 65536" by (rule put16_cases)
  let ?n1 = "n\<lparr>rx := advance 2 (rx n)\<rparr>"
  let ?n2 = "?n1\<lparr>rx := advance (length m) (rx ?n1)\<rparr>"
  have 1: "readBytes 2 n = (?n1, Inr [a, b])"
    by (rule rawrd.rd_prefix [of n _ "m @ rest"]) (use assms ab in \<open>simp_all add: raw_frame_def\<close>)
  have 2: "readBytes (length m) ?n1 = (?n2, Inr m)"
    by (rule rawrd.rd_prefix [of _ _ rest]) (use assms ab in \<open>simp_all add: raw_frame_def\<close>)
  show ?thesis
    by (rule that [OF 1 _ 2]) (use assms ab in \<open>simp_all add: raw_frame_def max_msg_len_def\<close>)
qed

lemma raw_hs_loop_write:
  assumes "net_ok n" "hs_write L hs = (hs', Inr (msg, cs'))" "length msg \<le> max_msg_len"
  shows "raw_hs_loop L (Suc m) True n hs cs =
    raw_hs_loop L m False (n\<lparr>tx := tx n @ [raw_frame msg]\<rparr>) hs' cs'"
  using assms by (simp add: max_msg_len_def)

lemma raw_hs_loop_read:
  assumes "net_ok n" "avail (rx n) = raw_frame msg @ rest" "length msg \<le> max_msg_len"
    "hs_read L hs msg = (hs', Inr cs')"
  obtains n' where "raw_hs_loop L (Suc m) False n hs cs = raw_hs_loop L m True n' hs' cs'"
    "net_ok n'" "tx n' = tx n" "avail (rx n') = rest"
proof -
  from assms(1) have "\<not> net_closed n" by simp
  from raw_read_frame [OF this assms(2,3)] obtain h n1 n2 where
    "readBytes 2 n = (n1, Inr h)" "get16 (h ! 0) (h ! 1) = length msg"
    "readBytes (length msg) n1 = (n2, Inr msg)" and n2: "n2 = n\<lparr>rx := rx n2\<rparr>" "avail (rx n2) = rest"
    by metis
  then have loop: "raw_hs_loop L (Suc m) False n hs cs = raw_hs_loop L m True n2 hs' cs'"
    using assms by (simp add: Let_def)
  show ?thesis
    by (rule that [OF loop]) (subst n2(1), simp add: assms(1), subst n2(1), simp, rule n2(2))
qed

text \<open>
  The peer that starts and the peer that answers, run over each other's messages, both
  finish, with related cipher states and the same handshake hash; each has consumed exactly
  the other's frames.
\<close>

lemma raw_hs_loop_pair:
  assumes "handshake_pair L R P" "P (Suc k) w r" "net_ok nw" "net_ok nr"
    "avail (rx nw) = concat (map raw_frame (odds (honest L (Suc k) w r))) @ restw"
    "avail (rx nr) = concat (map raw_frame (evens (honest L (Suc k) w r))) @ restr"
  shows "\<exists>nw' w' a1 a2 nr' r' b1 b2.
    raw_hs_loop L (Suc k) True nw w cw = (nw', w', Inr (Some (a1, a2))) \<and>
    raw_hs_loop L (Suc k) False nr r cr = (nr', r', Inr (Some (b1, b2))) \<and>
    R a1 b1 \<and> R b1 a1 \<and> R a2 b2 \<and> R b2 a2 \<and> channel_binding L w' = channel_binding L r' \<and>
    net_ok nw' \<and> net_ok nr' \<and> avail (rx nw') = restw \<and> avail (rx nr') = restr \<and>
    tx nw' = tx nw @ map raw_frame (evens (honest L (Suc k) w r)) \<and>
    tx nr' = tx nr @ map raw_frame (odds (honest L (Suc k) w r))"
  using assms(2-)
proof (induction k arbitrary: w r nw nr cw cr restw restr)
  case 0
  from handshake_pairD [OF assms(1) "0.prems"(1)] obtain w' msg cs r' cs' where
    h: "hs_write L w = (w', Inr (msg, cs))" "hs_read L r msg = (r', Inr cs')" "length msg \<le> max_msg_len"
      "honest L (Suc 0) w r = [msg]"
    and fin: "\<exists>a1 a2 b1 b2. cs = Some (a1, a2) \<and> cs' = Some (b1, b2) \<and> R a1 b1 \<and> R b1 a1 \<and>
       R a2 b2 \<and> R b2 a2 \<and> channel_binding L w' = channel_binding L r'"
    by (metis honest.simps(1))
  have "avail (rx nr) = raw_frame msg @ restr" using "0.prems"(5) h(4) by simp
  from raw_hs_loop_read [OF "0.prems"(3) this h(3) h(2), where m = 0 and cs = cr] obtain nr' where
    rd: "raw_hs_loop L (Suc 0) False nr r cr = raw_hs_loop L 0 True nr' r' cs'"
      "net_ok nr'" "tx nr' = tx nr" "avail (rx nr') = restr" by metis
  from fin rd raw_hs_loop_write [OF "0.prems"(2) h(1,3), of 0 cw] "0.prems"(2,4) h(4)
  show ?case by (auto simp del: raw_hs_loop.simps(2) One_nat_def)
next
  case (Suc k)
  from handshake_pairD [OF assms(1) Suc.prems(1)] obtain w' msg cs r' cs' where
    h: "hs_write L w = (w', Inr (msg, cs))" "hs_read L r msg = (r', Inr cs')" "length msg \<le> max_msg_len"
      "honest L (Suc (Suc k)) w r = msg # honest L (Suc k) r' w'"
    and P: "P (Suc k) r' w'"
    by (metis nat.distinct(1))
  let ?ms = "honest L (Suc k) r' w'"
  have "avail (rx nr) = raw_frame msg @ (concat (map raw_frame (odds ?ms)) @ restr)"
    using Suc.prems(5) unfolding h(4) by simp
  from raw_hs_loop_read [OF Suc.prems(3) this h(3) h(2), where m = "Suc k" and cs = cr] obtain nr' where
    rd: "raw_hs_loop L (Suc (Suc k)) False nr r cr = raw_hs_loop L (Suc k) True nr' r' cs'"
      "net_ok nr'" "tx nr' = tx nr" "avail (rx nr') = concat (map raw_frame (odds ?ms)) @ restr" by metis
  let ?nw = "nw\<lparr>tx := tx nw @ [raw_frame msg]\<rparr>"
  have wr: "raw_hs_loop L (Suc (Suc k)) True nw w cw = raw_hs_loop L (Suc k) False ?nw w' cs"
    by (rule raw_hs_loop_write [OF Suc.prems(2) h(1,3)])
  have "net_ok ?nw" "avail (rx ?nw) = concat (map raw_frame (evens ?ms)) @ restw"
    using Suc.prems(2,4) unfolding h(4) by simp_all
  from Suc.IH [OF P rd(2) this(1) rd(4) this(2), of cs' cs]
  obtain nx x a1 a2 ny y b1 b2 where
    "raw_hs_loop L (Suc k) True nr' r' cs' = (nx, x, Inr (Some (a1, a2)))"
    "raw_hs_loop L (Suc k) False ?nw w' cs = (ny, y, Inr (Some (b1, b2)))"
    "R a1 b1" "R b1 a1" "R a2 b2" "R b2 a2" "channel_binding L x = channel_binding L y"
    "net_ok nx" "net_ok ny" "avail (rx nx) = restr" "avail (rx ny) = restw"
    "tx nx = tx nr' @ map raw_frame (evens ?ms)" "tx ny = tx ?nw @ map raw_frame (odds ?ms)"
    by blast
  then show ?case
    unfolding rd(1) wr h(4)
    by (intro exI [of _ ny] exI [of _ y] exI [of _ b1] exI [of _ b2] exI [of _ nx] exI [of _ x]
        exI [of _ a1] exI [of _ a2]) (simp add: rd(3) del: raw_hs_loop.simps)
qed

section \<open>Properties\<close>

text \<open>
  Two ends whose handshake is done: the writing direction of each is in step with the reading
  direction of the other, nothing is buffered, and what is left to receive is \<open>x\<close> and \<open>y\<close> - for
  \<open>raw_peers\<close> nothing.
\<close>

definition raw_peers_at :: "('hs, 'cs) noise_lib \<Rightarrow> ('cs \<Rightarrow> 'cs \<Rightarrow> bool) \<Rightarrow> bytes \<Rightarrow> bytes \<Rightarrow>
    ('hs, 'cs) raw_conn \<Rightarrow> ('hs, 'cs) raw_conn \<Rightarrow> bool" where
  "raw_peers_at L R x y a b \<longleftrightarrow> raw_live a \<and> raw_live b \<and> cipher_pair L R \<and>
     R (the (r_out a)) (the (r_in b)) \<and> R (the (r_out b)) (the (r_in a)) \<and>
     r_buf a = [] \<and> r_buf b = [] \<and> avail (rx (r_net a)) = x \<and> all_data (rx (r_net a)) \<and>
     avail (rx (r_net b)) = y \<and> all_data (rx (r_net b)) \<and> \<not> net_closed (r_net a) \<and> \<not> net_closed (r_net b)"

abbreviation raw_peers :: "('hs, 'cs) noise_lib \<Rightarrow> ('cs \<Rightarrow> 'cs \<Rightarrow> bool) \<Rightarrow>
    ('hs, 'cs) raw_conn \<Rightarrow> ('hs, 'cs) raw_conn \<Rightarrow> bool" where
  "raw_peers L R \<equiv> raw_peers_at L R [] []"

lemma raw_peers_link:
  assumes "raw_peers L R a b"
  shows "channel_link (raw_dec L) (raw_sync L R) raw_live (\<lambda>c. the (r_out c)) (\<lambda>c. the (r_in c))
      r_buf r_net a b []"
    and "channel_link (raw_dec L) (raw_sync L R) raw_live (\<lambda>c. the (r_out c)) (\<lambda>c. the (r_in c))
      r_buf r_net b a []"
  using assms
  by (auto simp: raw_peers_at_def channel_link_def raw_sync_def intro!: exI [of _ "[]"] pends.nil)

text \<open>
  The same of two ends that nothing is known about what they will receive: each has its own script of chunks and
  failures.
\<close>

definition raw_in_step :: "('hs, 'cs) noise_lib \<Rightarrow> ('cs \<Rightarrow> 'cs \<Rightarrow> bool) \<Rightarrow> ('hs, 'cs) raw_conn \<Rightarrow> ('hs, 'cs) raw_conn \<Rightarrow> bool" where
  "raw_in_step L R a b \<longleftrightarrow> raw_live a \<and> raw_live b \<and> cipher_pair L R \<and>
     R (the (r_out a)) (the (r_in b)) \<and> R (the (r_out b)) (the (r_in a)) \<and>
     r_buf a = [] \<and> r_buf b = [] \<and> \<not> net_closed (r_net a) \<and> \<not> net_closed (r_net b)"

lemma raw_in_step_joined:
  "raw_in_step L R a b \<Longrightarrow> ends_joined (raw_sync L R) raw_live (\<lambda>c. the (r_out c)) (\<lambda>c. the (r_in c)) r_buf r_net a b \<and>
     ends_joined (raw_sync L R) raw_live (\<lambda>c. the (r_out c)) (\<lambda>c. the (r_in c)) r_buf r_net b a"
  by (simp add: raw_in_step_def ends_joined_def raw_sync_def)

text \<open>
  C9. The raw transport after the handshake. Each end makes any sequence of Write and Read calls with buffers of
  any sizes, each of the two directions until its first failing call (that call included; a failed Write counts
  with the number of bytes that it returned). The network may cut the bytes into any chunks and fail at any point;
  what reaches an end is a beginning of what the other end has put on the wire. Then the bytes an end
  has read are a prefix of the bytes the other has written, in both directions. (Not beyond a failed Read: that one
  may have thrown away bytes, \<open>raw_read_drops_buffer_at_eof\<close>.)
\<close>

theorem raw_stream_in_order:
  assumes "raw_in_step L R a b"
    and "run_calls (raw_Write L) (raw_Read L) ca True True a = (a', fa, wa, ga)"
    and "run_calls (raw_Write L) (raw_Read L) cb True True b = (b', fb, wb, gb)"
    and "concat (tx (r_net a')) = concat (tx (r_net a)) @ sa" "prefix (avail (rx (r_net b))) sa"
    and "concat (tx (r_net b')) = concat (tx (r_net b)) @ sb" "prefix (avail (rx (r_net a))) sb"
  shows "prefix gb wa \<and> prefix ga wb"
  using raw.calls_prefix [OF assms(2,3) _ assms(4,5)] raw.calls_prefix [OF assms(3,2) _ assms(6,7)]
    raw_in_step_joined [OF assms(1)] by blast

definition ex_raw :: "bool \<Rightarrow> (nat, nat) raw_conn" where
  "ex_raw client = (raw_new client (fresh_net []) (ex_config client))\<lparr>r_complete := True,
     r_in := Some 0, r_out := Some 0\<rparr>"

lemma ex_raw_step: "raw_in_step ex_lib (=) (ex_raw True) ((ex_raw False)\<lparr>r_net := fresh_net es\<rparr>)"
  by (simp add: raw_in_step_def raw_live_def ex_raw_def raw_new_def ex_cipher_pair fresh_net_def)

lemma ex_raw_write:
  "raw_Write ex_lib [1, 2, 3] (ex_raw True) =
    ((ex_raw True)\<lparr>r_out := Some 1, r_net := (fresh_net [])\<lparr>tx := [raw_frame (ex_tag 0 @ [1, 2, 3])]\<rparr>\<rparr>, 3, None)"
  by (simp add: raw_Write_def raw_Handshake_def ex_raw_def raw_new_def raw_write_loop.simps ex_lib_def
      ex_encrypt_def ex_max_nonce_def fresh_net_def conn_write_def raw_frag_def max_msg_len_def ex_tag_def Let_def)

text \<open>The frame comes in two chunks, then the connection fails; the second Read fails and loses the third byte.\<close>

definition ex_raw_script :: "read_event list" where
  "ex_raw_script = [Data (take 5 (raw_frame (ex_tag 0 @ [1, 2, 3]))), Data (drop 5 (raw_frame (ex_tag 0 @ [1, 2, 3]))),
     Fail ErrTimeout]"

lemma ex_raw_reads:
  "\<exists>b'. run_calls (raw_Write ex_lib) (raw_Read ex_lib) [CallRead 2, CallRead 4, CallRead 1] True True
     ((ex_raw False)\<lparr>r_net := fresh_net ex_raw_script\<rparr>) = (b', (True, False), [], [1, 2]) \<and> tx (r_net b') = []"
proof -
  let ?b = "(ex_raw False)\<lparr>r_net := fresh_net ex_raw_script\<rparr>" and ?m = "ex_tag 0 @ [1, 2, 3 :: byte]"
  have m: "length ?m = 19" by (simp add: ex_tag_def)
  have w: "raw_frame ?m = [0, 19] @ ?m" unfolding raw_frame_def m by (simp add: put16_eq)
  have scr: "ex_raw_script = [Data ([0, 19] @ take 3 ?m), Data (drop 3 ?m), Fail ErrTimeout]"
    unfolding ex_raw_script_def w by (simp add: numeral_eq_Suc)
  let ?n1 = "(fresh_net ex_raw_script)\<lparr>rx := [Data (take 3 ?m), Data (drop 3 ?m), Fail ErrTimeout]\<rparr>"
  let ?n2 = "(fresh_net ex_raw_script)\<lparr>rx := [Fail ErrTimeout]\<rparr>"
  have "readBytes 2 (fresh_net ex_raw_script) = (?n1, Inr [0, 19])"
    using rawrd.rd_prefix [of "fresh_net ex_raw_script" "[0, 19]" ?m 2]
    by (simp add: fresh_net_def scr ex_tag_def numeral_eq_Suc)
  moreover have "readBytes 19 ?n1 = (?n2, Inr ?m)"
    using rawrd.rd_prefix [of ?n1 ?m "[]" 19] m by (simp add: fresh_net_def ex_tag_def numeral_eq_Suc)
  ultimately have 1: "raw_Read ex_lib 2 ?b = (?b\<lparr>r_in := Some 1, r_net := ?n2, r_buf := [3]\<rparr>, Inr [1, 2])"
    by (simp add: raw_Read_def raw_Handshake_def raw_fill_def ex_raw_def raw_new_def ex_config_def ex_lib_def ex_decrypt_def
        ex_max_nonce_def ex_tag_def max_msg_len_def get16_eq Let_def)
  have "readBytes 2 ?n2 = (?n2\<lparr>rx := []\<rparr>, Inl ErrTimeout)"
    by (simp add: readBytes_def readBytes_loop.simps conn_read_def fresh_net_def)
  then have 2: "raw_Read ex_lib 4 (?b\<lparr>r_in := Some 1, r_net := ?n2, r_buf := [3]\<rparr>) =
      (?b\<lparr>r_in := Some 1, r_net := ?n2\<lparr>rx := []\<rparr>, r_buf := []\<rparr>, Inl (Io ErrTimeout))"
    by (simp add: raw_Read_def raw_Handshake_def raw_fill_def ex_raw_def raw_new_def ex_config_def)
  have "tx ?n2 = []" by (simp add: fresh_net_def)
  with 1 2 show ?thesis by simp
qed

theorem raw_stream_in_order_witness:
  "\<exists>a' b'. run_calls (raw_Write ex_lib) (raw_Read ex_lib) [CallWrite [1, 2, 3]] True True (ex_raw True) =
      (a', (True, True), [1, 2, 3], []) \<and>
    run_calls (raw_Write ex_lib) (raw_Read ex_lib) [CallRead 2, CallRead 4, CallRead 1] True True
      ((ex_raw False)\<lparr>r_net := fresh_net ex_raw_script\<rparr>) = (b', (True, False), [], [1, 2]) \<and>
    prefix [1, 2] ([1, 2, 3] :: bytes)"
proof -
  obtain b' where b: "run_calls (raw_Write ex_lib) (raw_Read ex_lib) [CallRead 2, CallRead 4, CallRead 1] True True
      ((ex_raw False)\<lparr>r_net := fresh_net ex_raw_script\<rparr>) = (b', (True, False), [], [1, 2])" "tx (r_net b') = []"
    using ex_raw_reads by blast
  let ?a = "(ex_raw True)\<lparr>r_out := Some 1, r_net := (fresh_net [])\<lparr>tx := [raw_frame (ex_tag 0 @ [1, 2, 3])]\<rparr>\<rparr>"
  have a: "run_calls (raw_Write ex_lib) (raw_Read ex_lib) [CallWrite [1, 2, 3]] True True (ex_raw True) = (?a, (True, True), [1, 2, 3], [])"
    by (simp add: ex_raw_write)
  have "avail (rx (fresh_net ex_raw_script)) = raw_frame (ex_tag 0 @ [1, 2, 3])"
    by (simp add: ex_raw_script_def fresh_net_def)
  with raw_stream_in_order [OF ex_raw_step a b(1), of "raw_frame (ex_tag 0 @ [1, 2, 3])" "[]"] b(2)
  have "prefix [1, 2] ([1, 2, 3] :: bytes)" by (simp add: ex_raw_def raw_new_def fresh_net_def)
  with a b show ?thesis by blast
qed

lemma raw_hs_loop_all_data:
  "raw_hs_loop L m w n hs cs = (n', hs', Inr x) \<Longrightarrow> \<not> net_closed n \<Longrightarrow> all_data (rx n) \<Longrightarrow>
    all_data (rx n') \<and> \<not> net_closed n'"
proof (induction L m w n hs cs rule: raw_hs_loop.induct)
  case (2 L m w n hs cs)
  show ?case
  proof (cases w)
    case True
    with "2.prems"(1) obtain h1 msg cs' n1 where l: "hs_write L hs = (h1, Inr (msg, cs'))" "\<not> 0xFFFF < length msg"
      "conn_write (raw_frame msg) n = (n1, None)" "raw_hs_loop L m (\<not> w) n1 h1 cs' = (n', hs', Inr x)"
      by (auto split: prod.splits sum.splits if_splits option.splits)
    from conn_write_rx [OF l(3)] "2.prems"(2,3) have "\<not> net_closed n1" "all_data (rx n1)" by simp_all
    from "2.IH"(1) [OF True l(1) [symmetric] refl refl l(2) l(3) [symmetric] refl l(4) this] show ?thesis by simp
  next
    case False
    with "2.prems"(1) obtain n1 h n2 msg h1 cs' where l: "readBytes 2 n = (n1, Inr h)"
      "\<not> max_msg_len < get16 (h ! 0) (h ! 1)" "readBytes (get16 (h ! 0) (h ! 1)) n1 = (n2, Inr msg)"
      "hs_read L hs msg = (h1, Inr cs')" "raw_hs_loop L m (\<not> w) n2 h1 cs' = (n', hs', Inr x)"
      by (auto simp: Let_def split: prod.splits sum.splits if_splits)
    from rawrd.rd_all_data [OF l(1) "2.prems"(2,3)] rawrd.rd_all_data [OF l(3)]
    have "\<not> net_closed n2" "all_data (rx n2)" by simp_all
    from "2.IH"(2) [OF False l(1) [symmetric] refl refl l(2) l(3) [symmetric] refl l(4) [symmetric] refl l(5) this] show ?thesis .
  qed
qed simp

lemma raw_handshake_both:
  assumes "handshake_pair L R P" "cipher_pair L R"
    and "new_handshake L cfgc = Inr hc" "new_handshake L cfgs = Inr hs" "P (Suc k) hc hs"
    and "pat_messages (cfg_pattern cfgc) = Suc k" "pat_messages (cfg_pattern cfgs) = Suc k"
    and "peer_static cfgc = None \<or> (\<exists>x. peer_static cfgc = Some x \<and> length x = 32)"
    and "peer_static cfgs = None \<or> (\<exists>x. peer_static cfgs = Some x \<and> length x = 32)"
    and "all_data ec" "avail ec = concat (map raw_frame (odds (honest L (Suc k) hc hs))) @ x"
    and "all_data es" "avail es = concat (map raw_frame (evens (honest L (Suc k) hc hs))) @ y"
  shows "\<exists>c s. raw_Handshake L (raw_Client (fresh_net ec) cfgc) = (c, None) \<and>
    raw_Handshake L (raw_Server (fresh_net es) cfgs) = (s, None) \<and>
    tx (r_net c) = map raw_frame (evens (honest L (Suc k) hc hs)) \<and>
    tx (r_net s) = map raw_frame (odds (honest L (Suc k) hc hs)) \<and>
    raw_peers_at L R x y c s \<and> r_complete c \<and> r_complete s \<and>
    raw_Fingerprint L c = raw_Fingerprint L s"
proof -
  have net: "rx (fresh_net x) = x" "tx (fresh_net x) = []" for x by (simp_all add: fresh_net_def)
  from raw_hs_loop_pair [OF assms(1,5) net_ok_fresh net_ok_fresh, of ec x es y None None] assms(11,13)
  obtain nc hc' a1 a2 ns hs' b1 b2 where
    "raw_hs_loop L (Suc k) True (fresh_net ec) hc None = (nc, hc', Inr (Some (a1, a2)))"
    "raw_hs_loop L (Suc k) False (fresh_net es) hs None = (ns, hs', Inr (Some (b1, b2)))"
    "R a1 b1" "R b2 a2" "channel_binding L hc' = channel_binding L hs'"
    "avail (rx nc) = x" "avail (rx ns) = y"
    "tx nc = map raw_frame (evens (honest L (Suc k) hc hs))"
    "tx ns = map raw_frame (odds (honest L (Suc k) hc hs))"
    unfolding net by (simp only: append_Nil) blast
  moreover from raw_hs_loop_all_data [OF this(1)] raw_hs_loop_all_data [OF this(2)] assms(10,12)
  have "all_data (rx nc) \<and> \<not> net_closed nc" "all_data (rx ns) \<and> \<not> net_closed ns" by (simp_all add: fresh_net_def)
  ultimately show ?thesis using assms
    by (auto simp: raw_Handshake_def raw_Client_def raw_Server_def raw_new_def raw_Fingerprint_def raw_peers_at_def raw_live_def
        Let_def simp del: raw_hs_loop.simps honest.simps)
qed

text \<open>
  Two raw ends that run the handshake over each other's messages both complete it; they end
  as peers (cipher states in step in both directions, nothing buffered or in flight), with the
  same fingerprint, each having written exactly the frames the other consumed.
\<close>

theorem raw_handshake_agreement:
  assumes "handshake_pair L R P" "cipher_pair L R"
    and "new_handshake L cfgc = Inr hc" "new_handshake L cfgs = Inr hs" "P (Suc k) hc hs"
    and "pat_messages (cfg_pattern cfgc) = Suc k" "pat_messages (cfg_pattern cfgs) = Suc k"
    and "peer_static cfgc = None \<or> (\<exists>x. peer_static cfgc = Some x \<and> length x = 32)"
    and "peer_static cfgs = None \<or> (\<exists>x. peer_static cfgs = Some x \<and> length x = 32)"
    and "all_data ec" "avail ec = concat (map raw_frame (odds (honest L (Suc k) hc hs)))"
    and "all_data es" "avail es = concat (map raw_frame (evens (honest L (Suc k) hc hs)))"
  shows "\<exists>c s. raw_Handshake L (raw_Client (fresh_net ec) cfgc) = (c, None) \<and>
    raw_Handshake L (raw_Server (fresh_net es) cfgs) = (s, None) \<and>
    tx (r_net c) = map raw_frame (evens (honest L (Suc k) hc hs)) \<and>
    tx (r_net s) = map raw_frame (odds (honest L (Suc k) hc hs)) \<and>
    raw_peers L R c s \<and> r_complete c \<and> r_complete s \<and>
    raw_Fingerprint L c = raw_Fingerprint L s"
  by (rule raw_handshake_both [OF assms(1-10) _ assms(12)]) (simp_all only: assms append_Nil2)

lemma ex_honest: "honest ex_lib (Suc 1) 2 2 = [[1], [1]]"
  by (simp add: ex_lib_def numeral_2_eq_2)

theorem raw_handshake_agreement_witness:
  "\<exists>c s. raw_Handshake ex_lib (raw_Client (fresh_net [Data [0], Data [1, 1]]) (ex_config True)) = (c, None) \<and>
    raw_Handshake ex_lib (raw_Server (fresh_net [Data [0, 1], Data [1]]) (ex_config False)) = (s, None) \<and>
    tx (r_net c) = [[0, 1, 1]] \<and> r_out c = r_in s"
proof -
  have f: "raw_frame [1] = [0, 1, 1]" by (simp add: raw_frame_def put16_eq)
  have 1: "new_handshake ex_lib (ex_config i) = Inr 2" "peer_static (ex_config i) = None"
    "pat_messages (cfg_pattern (ex_config i)) = Suc 1" for i
    by (simp_all add: ex_lib_def ex_config_def zero_noise_config_def)
  have 2: "ex_pair (Suc 1) 2 2" by (simp add: ex_pair_def)
  from raw_handshake_agreement [OF ex_handshake_pair ex_cipher_pair 1(1) 1(1) 2 1(3) 1(3),
      of True False "[Data [0], Data [1, 1]]" "[Data [0, 1], Data [1]]", unfolded ex_honest]
  show ?thesis by (auto simp: 1 f raw_peers_at_def raw_live_def)
qed

text \<open>
  A Write that fails has told the truth about its count: the frames of exactly the first
  \<open>n\<close> bytes were put on the wire, completely and in order, before anything else.
\<close>

theorem raw_write_count_exact:
  assumes "raw_live a" "raw_Write L p a = (a', n, e)"
  shows "n \<le> length p \<and> (e = None \<longrightarrow> n = length p) \<and>
    (\<exists>k fs w. encs (raw_enc L) (the (r_out a)) (chunks raw_frag (take n p)) = Some (k, fs) \<and>
       concat (tx (r_net a')) = concat (tx (r_net a)) @ concat fs @ w)"
proof (cases e)
  case None
  with raw_Write_spec [OF assms(1), of L p a' n] assms(2) show ?thesis by force
next
  case (Some x)
  with raw_Write_stop [OF assms(1), of L p a' n x] assms(2) show ?thesis by blast
qed

definition ex_raw_broken :: "(nat, nat) raw_conn" where
  "ex_raw_broken = (ex_raw True)\<lparr>r_net := (fresh_net [])\<lparr>wr_fail := [Some (4, ErrTimeout)]\<rparr>\<rparr>"

theorem raw_write_count_exact_witness:
  "snd (raw_Write ex_lib [1, 2, 3] ex_raw_broken) = (0, Some (Io ErrTimeout)) \<and>
   (\<exists>k fs w. encs (raw_enc ex_lib) 0 (chunks raw_frag (take 0 [1, 2, 3])) = Some (k :: nat, fs) \<and>
     concat (tx (r_net (fst (raw_Write ex_lib [1, 2, 3] ex_raw_broken)))) = concat fs @ w)"
proof -
  have 1: "snd (raw_Write ex_lib [1, 2, 3] ex_raw_broken) = (0, Some (Io ErrTimeout))"
    by (simp add: raw_Write_def raw_Handshake_def ex_raw_broken_def ex_raw_def raw_new_def
        raw_write_loop.simps ex_lib_def ex_encrypt_def ex_max_nonce_def fresh_net_def conn_write_def
        raw_frag_def max_msg_len_def ex_tag_def Let_def)
  have 2: "raw_live ex_raw_broken" "the (r_out ex_raw_broken) = 0" "tx (r_net ex_raw_broken) = []"
    by (simp_all add: raw_live_def ex_raw_broken_def ex_raw_def raw_new_def fresh_net_def)
  from raw_write_count_exact [OF 2(1), of ex_lib "[1, 2, 3]" "fst (raw_Write ex_lib [1, 2, 3] ex_raw_broken)"
      0 "Some (Io ErrTimeout)"] 1 2 show ?thesis by (metis append_Nil concat.simps(1) prod.collapse)
qed

text \<open>
  Data loss at the end of a stream: when the read buffer holds fewer bytes than the caller
  asked for and the peer has closed, Read reports the end of the stream with a count of zero
  and the buffered bytes are gone, although they had been received and decrypted.
\<close>

theorem raw_read_drops_buffer_at_eof:
  assumes "raw_live c" "r_client c" "length (r_buf c) < k" "rx (r_net c) = []" "\<not> net_closed (r_net c)"
  shows "raw_Read L k c = (c\<lparr>r_buf := []\<rparr>, Inl (Io EOF))"
proof -
  have "readBytes 2 (r_net c) = (r_net c, Inl EOF)"
    using assms by (simp add: readBytes_def readBytes_loop.simps conn_read_def)
  with assms show ?thesis
    by (simp add: raw_Read_def raw_Handshake_def raw_live_def raw_fill_def)
qed

theorem raw_read_drops_buffer_at_eof_witness:
  "raw_Read ex_lib 6 ((ex_raw True)\<lparr>r_buf := [7, 8, 9, 10]\<rparr>) = ((ex_raw True)\<lparr>r_buf := []\<rparr>, Inl (Io EOF))"
  using raw_read_drops_buffer_at_eof [of "(ex_raw True)\<lparr>r_buf := [7, 8, 9, 10]\<rparr>" 6 ex_lib]
  by (simp add: raw_live_def ex_raw_def raw_new_def fresh_net_def)

text \<open>
  With a one-way pattern (one message) the responder, the only side that is meant to
  receive, can never read: Read refuses it before looking at the connection, whatever is pending.
\<close>

theorem raw_oneway_responder_never_reads:
  assumes "raw_live c" "\<not> r_client c" "pat_messages (cfg_pattern (r_config c)) < 2" "0 < k"
  shows "raw_Read L k c = (c, Inl (New ''noise: client cannot read on a one-way pattern''))"
  using assms by (simp add: raw_Read_def raw_Handshake_def raw_live_def)

theorem raw_oneway_responder_never_reads_witness:
  "raw_Read ex_lib 5 ((ex_raw False)\<lparr>r_config := zero_noise_config, r_buf := [1]\<rparr>) =
    ((ex_raw False)\<lparr>r_config := zero_noise_config, r_buf := [1]\<rparr>,
     Inl (New ''noise: client cannot read on a one-way pattern''))"
  by (rule raw_oneway_responder_never_reads)
    (simp_all add: raw_live_def ex_raw_def raw_new_def zero_noise_config_def)

text \<open>
  Nonce exhaustion terminates the session: when the cipher reports \<open>ErrMaxNonce\<close> on the next
  fragment, Write sends nothing, closes the connection and reports the error with a count of 0.
\<close>

theorem raw_write_max_nonce_closes:
  assumes "raw_live a" "r_client a" "p \<noteq> []" "r_out a = Some cs"
    and "cs_encrypt L cs (take raw_frag p) = (cs', Inl ErrMaxNonce)"
  shows "raw_Write L p a =
      (a\<lparr>r_out := Some cs', r_net := fst (conn_close (r_net a))\<rparr>, 0, Some (Noise ErrMaxNonce)) \<and>
    net_closed (r_net (fst (raw_Write L p a))) \<and> tx (r_net (fst (raw_Write L p a))) = tx (r_net a)"
proof -
  have "take (if raw_frag < length p then raw_frag else length p) p = take raw_frag p" by auto
  with assms have "raw_Write L p a =
    (a\<lparr>r_out := Some cs', r_net := fst (conn_close (r_net a))\<rparr>, 0, Some (Noise ErrMaxNonce))"
    by (simp add: raw_Write_def raw_Handshake_def raw_live_def raw_write_loop.simps Let_def)
  then show ?thesis by (simp add: conn_close_def)
qed

theorem raw_write_max_nonce_closes_witness:
  "net_closed (r_net (fst (raw_Write ex_lib [1] ((ex_raw True)\<lparr>r_out := Some ex_max_nonce\<rparr>))))"
  by (rule raw_write_max_nonce_closes [where cs = ex_max_nonce and cs' = ex_max_nonce, THEN conjunct2, THEN conjunct1])
    (simp_all add: raw_live_def ex_raw_def raw_new_def ex_lib_def ex_encrypt_def)

end
