(* ===== verification/Noisesocket.thy ===== *)
theory Noisesocket
  imports Noise_Lib Calls Example_Lib
begin

text \<open>
  The NoiseSocket transport without negotiation (pkg/transport/noisesocket/conn.go): handshake
  frames with a negotiation field, the prologue formula, transport messages with an inner body
  length. A nil byte slice and an empty one are both \<open>[]\<close>: the only place where the code tells
  them apart is \<open>driveFrom\<close>, whose argument comes from \<open>readLengthPrefixed\<close>, which returns nil
  for an empty field and never an empty non-nil slice.

  The record \<open>negotiation\<close> is \<open>transport.Negotiation\<close> (pkg/transport/transport.go).
\<close>

section \<open>Framing helpers\<close>

definition MaxMessageLen :: nat where
  "MaxMessageLen = 0xFFFF"

definition prologueMagic :: string where
  "prologueMagic = ''NoiseSocketInit1''"

definition putUint16 :: "bytes \<Rightarrow> nat \<Rightarrow> bytes" where
  "putUint16 dst n = dst @ put16 n"

definition buildPrologue :: "bytes \<Rightarrow> bytes \<Rightarrow> bytes" where
  "buildPrologue neg app = putUint16 (str_bytes prologueMagic) (length neg) @ neg @ app"

definition frameBytes :: "bytes \<Rightarrow> bytes \<Rightarrow> bytes" where
  "frameBytes neg msg = putUint16 (putUint16 [] (length neg) @ neg) (length msg) @ msg"

definition writeHandshakeFrame :: "bytes \<Rightarrow> bytes \<Rightarrow> net \<Rightarrow> net \<times> err option" where
  "writeHandshakeFrame neg msg n =
     (if MaxMessageLen < length neg
      then (n, Some (New ''noisesocket: negotiation_data exceeds 16-bit length''))
      else if MaxMessageLen < length msg
      then (n, Some (New ''noisesocket: noise_message exceeds 16-bit length''))
      else (case conn_write (putUint16 (putUint16 [] (length neg) @ neg) (length msg) @ msg) n of
          (n', Some e) \<Rightarrow> (n', Some (Io e))
        | (n', None) \<Rightarrow> (n', None)))"

definition readLengthPrefixed :: "net \<Rightarrow> net \<times> bytes res" where
  "readLengthPrefixed n =
     (case readFull 2 n of
        (n', Inl e) \<Rightarrow> (n', Inl (Io e))
      | (n', Inr h) \<Rightarrow>
          let len = get16 (h ! 0) (h ! 1) in
          if len = 0 then (n', Inr [])
          else (case readFull len n' of
              (n'', Inl e) \<Rightarrow> (n'', Inl (Io e))
            | (n'', Inr buf) \<Rightarrow> (n'', Inr buf)))"

definition readHandshakeFrame :: "net \<Rightarrow> net \<times> (bytes \<times> bytes) res" where
  "readHandshakeFrame n =
     (case readLengthPrefixed n of
        (n', Inl e) \<Rightarrow> (n', Inl e)
      | (n', Inr neg) \<Rightarrow>
          (case readLengthPrefixed n' of
             (n'', Inl e) \<Rightarrow> (n'', Inl e)
           | (n'', Inr msg) \<Rightarrow> (n'', Inr (neg, msg))))"

definition writeLengthPrefixed :: "bytes \<Rightarrow> net \<Rightarrow> net \<times> err option" where
  "writeLengthPrefixed payload n =
     (if MaxMessageLen < length payload
      then (n, Some (New ''noisesocket: payload exceeds 16-bit length frame''))
      else (case conn_write (putUint16 [] (length payload) @ payload) n of
          (n', Some e) \<Rightarrow> (n', Some (Io e))
        | (n', None) \<Rightarrow> (n', None)))"

text \<open>\<open>bytesEqual\<close>: the length test, then the loop over the indices.\<close>

fun bytesEqual_loop :: "bytes \<Rightarrow> bytes \<Rightarrow> bool" where
  "bytesEqual_loop (x # xs) (y # ys) = (if x \<noteq> y then False else bytesEqual_loop xs ys)"
| "bytesEqual_loop _ _ = True"

definition bytesEqual :: "bytes \<Rightarrow> bytes \<Rightarrow> bool" where
  "bytesEqual a b = (if length a \<noteq> length b then False else bytesEqual_loop a b)"

lemma bytesEqual_iff [simp]: "bytesEqual a b \<longleftrightarrow> a = b"
proof -
  have "length a = length b \<Longrightarrow> bytesEqual_loop a b \<longleftrightarrow> a = b"
    by (induction a b rule: bytesEqual_loop.induct) auto
  then show ?thesis by (auto simp: bytesEqual_def)
qed

section \<open>State\<close>

record negotiation =
  build_config :: "string \<Rightarrow> bool \<Rightarrow> noise_config res"
  app_data :: bytes
  proposed :: string
  fallback :: "string list"
  supported :: "string list"
  policy :: string

record ('hs, 'cs) ns_conn =
  s_net :: net
  s_client :: bool
  s_cfg :: "noise_config option"
  s_neg_data :: bytes
  s_prologue :: bytes
  s_hs :: "'hs option"
  s_done :: bool
  s_neg :: "negotiation option"
  s_in :: "'cs option"
  s_out :: "'cs option"
  s_buf :: bytes

definition ns_new :: "bool \<Rightarrow> net \<Rightarrow> noise_config option \<Rightarrow> negotiation option \<Rightarrow> bytes \<Rightarrow> bytes \<Rightarrow>
    ('hs, 'cs) ns_conn" where
  "ns_new client n cfg neg nd app = \<lparr>s_net = n, s_client = client, s_cfg = cfg, s_neg_data = nd,
     s_prologue = app, s_hs = None, s_done = False, s_neg = neg, s_in = None, s_out = None, s_buf = []\<rparr>"

definition ns_Server :: "net \<Rightarrow> noise_config \<Rightarrow> bytes \<Rightarrow> bytes \<Rightarrow> ('hs, 'cs) ns_conn" where
  "ns_Server n cfg nd app = ns_new False n (Some cfg) None nd app"

definition ns_Client :: "net \<Rightarrow> noise_config \<Rightarrow> bytes \<Rightarrow> bytes \<Rightarrow> ('hs, 'cs) ns_conn" where
  "ns_Client n cfg nd app = ns_new True n (Some cfg) None nd app"

definition ClientWithNegotiation :: "net \<Rightarrow> negotiation \<Rightarrow> bytes \<Rightarrow> ('hs, 'cs) ns_conn" where
  "ClientWithNegotiation n neg app = ns_new True n None (Some neg) [] app"

definition ServerWithNegotiation :: "net \<Rightarrow> negotiation \<Rightarrow> bytes \<Rightarrow> ('hs, 'cs) ns_conn" where
  "ServerWithNegotiation n neg app = ns_new False n None (Some neg) [] app"

definition assignCipherStates :: "('cs \<times> 'cs) \<Rightarrow> ('hs, 'cs) ns_conn \<Rightarrow> ('hs, 'cs) ns_conn" where
  "assignCipherStates cs c =
     (if s_client c then c\<lparr>s_out := Some (fst cs), s_in := Some (snd cs)\<rparr>
      else c\<lparr>s_out := Some (snd cs), s_in := Some (fst cs)\<rparr>)"

text \<open>The \<open>if cs1 != nil \{ c.assignCipherStates(cs1, cs2) \}\<close> after every message.\<close>

definition assign_opt :: "('cs \<times> 'cs) option \<Rightarrow> ('hs, 'cs) ns_conn \<Rightarrow> ('hs, 'cs) ns_conn" where
  "assign_opt cs c = (case cs of None \<Rightarrow> c | Some x \<Rightarrow> assignCipherStates x c)"

section \<open>The Accept-only handshake\<close>

text \<open>The loop over the messages; \<open>w\<close> is \<open>state\<close> (our turn to write), \<open>hs\<close> is \<open>c.hs\<close>.\<close>

fun ns_hs_loop :: "('hs, 'cs) noise_lib \<Rightarrow> nat \<Rightarrow> bool \<Rightarrow> bool \<Rightarrow> 'hs \<Rightarrow> ('hs, 'cs) ns_conn \<Rightarrow>
    ('hs, 'cs) ns_conn \<times> err option" where
  "ns_hs_loop L 0 w first hs c = (c\<lparr>s_hs := Some hs\<rparr>, None)"
| "ns_hs_loop L (Suc m) w first hs c =
     (if w then
        (let negData = (if first \<and> s_client c then s_neg_data c else []) in
         case hs_write L hs of
           (hs', Inl e) \<Rightarrow> (c\<lparr>s_hs := Some hs'\<rparr>, Some (Wrapf ''noisesocket: WriteMessage: %w'' [] (Noise e)))
         | (hs', Inr (msg, cs)) \<Rightarrow>
             (case writeHandshakeFrame negData msg (s_net c) of
                (n, Some e) \<Rightarrow> (c\<lparr>s_hs := Some hs', s_net := n\<rparr>, Some e)
              | (n, None) \<Rightarrow> ns_hs_loop L m (\<not> w) False hs' (assign_opt cs (c\<lparr>s_net := n\<rparr>))))
      else
        (case readHandshakeFrame (s_net c) of
           (n, Inl e) \<Rightarrow> (c\<lparr>s_hs := Some hs, s_net := n\<rparr>, Some e)
         | (n, Inr (negData, msg)) \<Rightarrow>
             if first \<and> \<not> s_client c \<and> \<not> bytesEqual negData (s_neg_data c)
             then (c\<lparr>s_hs := Some hs, s_net := n\<rparr>,
                   Some (New ''noisesocket: negotiation_data does not match expected''))
             else (case hs_read L hs msg of
                 (hs', Inl e) \<Rightarrow>
                   (c\<lparr>s_hs := Some hs', s_net := n\<rparr>, Some (Wrapf ''noisesocket: ReadMessage: %w'' [] (Noise e)))
               | (hs', Inr cs) \<Rightarrow> ns_hs_loop L m (\<not> w) False hs' (assign_opt cs (c\<lparr>s_net := n\<rparr>)))))"

definition ns_handshake_accept :: "('hs, 'cs) noise_lib \<Rightarrow> noise_config \<Rightarrow> ('hs, 'cs) ns_conn \<Rightarrow>
    ('hs, 'cs) ns_conn \<times> err option" where
  "ns_handshake_accept L cfg0 c =
     (let cfg = cfg0\<lparr>cfg_prologue := buildPrologue (s_neg_data c) (s_prologue c)\<rparr> in
      case new_handshake L cfg of
        Inl e \<Rightarrow> (c, Some (Wrapf ''noisesocket: NewHandshakeState: %w'' [] (Noise e)))
      | Inr hs \<Rightarrow>
          (case ns_hs_loop L (pat_messages (cfg_pattern cfg)) (s_client c) True hs c of
             (c', Some e) \<Rightarrow> (c', Some e)
           | (c', None) \<Rightarrow> (c'\<lparr>s_done := True\<rparr>, None)))"

section \<open>Data phase\<close>

definition ns_maxBody :: nat where
  "ns_maxBody = MaxMessageLen - 2 - 16"

lemma ns_maxBody_pos: "0 < ns_maxBody"
  by (simp add: ns_maxBody_def MaxMessageLen_def)

text \<open>The loop of \<open>Write\<close>.\<close>

function ns_write_loop :: "('hs, 'cs) noise_lib \<Rightarrow> nat \<Rightarrow> bytes \<Rightarrow> ('hs, 'cs) ns_conn \<Rightarrow>
    ('hs, 'cs) ns_conn \<times> nat \<times> err option" where
  "ns_write_loop L sent p c =
     (if p = [] then (c, sent, None)
      else case s_out c of
        None \<Rightarrow> (c, sent, Some (Panic ''nil CipherState''))
      | Some cs \<Rightarrow>
          (let n = (if ns_maxBody < length p then ns_maxBody else length p);
               plaintext = putUint16 [] n @ take n p in
           case cs_encrypt L cs plaintext of
             (cs', Inl e) \<Rightarrow>
               (c\<lparr>s_out := Some cs',
                  s_net := (if e = ErrMaxNonce then fst (conn_close (s_net c)) else s_net c)\<rparr>,
                sent, Some (Wrapf ''noisesocket: Encrypt: %w'' [] (Noise e)))
           | (cs', Inr ct) \<Rightarrow>
               (case writeLengthPrefixed ct (s_net c) of
                  (n', Some e) \<Rightarrow> (c\<lparr>s_out := Some cs', s_net := n'\<rparr>, sent, Some e)
                | (n', None) \<Rightarrow>
                    ns_write_loop L (sent + n) (drop n p) (c\<lparr>s_out := Some cs', s_net := n'\<rparr>))))"
  by pat_completeness auto
termination
  by (relation "measure (\<lambda>(L, sent, p, c). length p)") (auto simp: ns_maxBody_pos Let_def split: if_splits)

declare ns_write_loop.simps [simp del]

text \<open>
  \<open>Read\<close> after the handshake and with a non-empty argument: the buffered bytes first, else one
  transport message. \<open>plaintext[2 : 2+bodyLen]\<close> is the body, anything behind it is padding.
\<close>

definition ns_read_frame :: "('hs, 'cs) noise_lib \<Rightarrow> nat \<Rightarrow> ('hs, 'cs) ns_conn \<Rightarrow>
    ('hs, 'cs) ns_conn \<times> bytes res" where
  "ns_read_frame L k c =
     (if s_buf c \<noteq> [] then (c\<lparr>s_buf := drop k (s_buf c)\<rparr>, Inr (take k (s_buf c)))
      else case readLengthPrefixed (s_net c) of
        (n, Inl e) \<Rightarrow> (c\<lparr>s_net := n\<rparr>, Inl e)
      | (n, Inr ct) \<Rightarrow>
          (case s_in c of
             None \<Rightarrow> (c\<lparr>s_net := n\<rparr>, Inl (Panic ''nil CipherState''))
           | Some cs \<Rightarrow>
               (case cs_decrypt L cs ct of
                  (cs', Inl e) \<Rightarrow>
                    (c\<lparr>s_in := Some cs', s_net := (if e = ErrMaxNonce then fst (conn_close n) else n)\<rparr>,
                     Inl (Wrapf ''noisesocket: Decrypt: %w'' [] (Noise e)))
                | (cs', Inr pt) \<Rightarrow>
                    let c' = c\<lparr>s_in := Some cs', s_net := n\<rparr> in
                    if length pt < 2
                    then (c', Inl (New ''noisesocket: payload too short for body_len header''))
                    else
                      let bodyLen = get16 (pt ! 0) (pt ! 1) in
                      if length pt < 2 + bodyLen
                      then (c', Inl (New ''noisesocket: body_len exceeds payload''))
                      else
                        let body = take bodyLen (drop 2 pt) in
                        (c'\<lparr>s_buf := drop k body\<rparr>, Inr (take k body)))))"

end
