(* ===== verification/Go_Strings.thy ===== *)
theory Go_Strings
  imports Prelude
begin

text \<open>
  What the code uses of Go's standard library on strings: \<open>strings.Split\<close>, \<open>strings.Cut\<close>,
  \<open>strings.TrimSpace\<close>, the standard Base64 encoding, \<open>strconv.Atoi\<close>, and the \<open>host:port\<close>
  functions of package net. A Go string is a sequence of bytes, here a \<open>string\<close>. Go's
  \<open>TrimSpace\<close> also trims two two-byte code points (U+0085, U+00A0) and a few longer ones;
  only the ASCII white space is modelled.
\<close>

section \<open>Splitting\<close>

fun split_on :: "char \<Rightarrow> string \<Rightarrow> string list" where
  "split_on s [] = [[]]"
| "split_on s (c # cs) =
     (if c = s then [] # split_on s cs
      else case split_on s cs of [] \<Rightarrow> [[c]] | p # ps \<Rightarrow> (c # p) # ps)"

fun cut :: "char \<Rightarrow> string \<Rightarrow> (string \<times> string) option" where
  "cut s [] = None"
| "cut s (c # cs) = (if c = s then Some ([], cs) else map_option (apfst (Cons c)) (cut s cs))"

fun join_with :: "char \<Rightarrow> string list \<Rightarrow> string" where
  "join_with s [] = []"
| "join_with s [p] = p"
| "join_with s (p # q # ps) = p @ s # join_with s (q # ps)"

lemma split_on_ne [simp]: "split_on s cs \<noteq> []"
  by (induction s cs rule: split_on.induct) (auto split: list.splits)

lemma split_on_none: "s \<notin> set p \<Longrightarrow> split_on s p = [p]"
  by (induction p) auto

lemma split_on_append: "s \<notin> set p \<Longrightarrow> split_on s (p @ s # cs) = p # split_on s cs"
  by (induction p) auto

lemma split_join:
  "ps \<noteq> [] \<Longrightarrow> \<forall>p \<in> set ps. s \<notin> set p \<Longrightarrow> split_on s (join_with s ps) = ps"
  by (induction s ps rule: join_with.induct) (auto simp: split_on_none split_on_append)

lemma join_split: "join_with s (split_on s cs) = cs"
proof (induction s cs rule: split_on.induct)
  case (2 s c cs)
  show ?case
  proof (cases "c = s")
    case True
    with 2 show ?thesis by (cases "split_on s cs") simp_all
  next
    case False
    with 2 show ?thesis
      by (cases "split_on s cs"; cases "tl (split_on s cs)") auto
  qed
qed simp

lemma split_on_pieces: "p \<in> set (split_on s cs) \<Longrightarrow> s \<notin> set p"
  by (induction s cs arbitrary: p rule: split_on.induct) (auto split: if_splits list.splits)

lemma cut_append: "s \<notin> set k \<Longrightarrow> cut s (k @ s # v) = Some (k, v)"
  by (induction k) auto

lemma cut_Some: "cut s f = Some (k, v) \<Longrightarrow> f = k @ s # v \<and> s \<notin> set k"
  by (induction f arbitrary: k) (auto split: if_splits)

definition is_space :: "char \<Rightarrow> bool" where
  "is_space c \<longleftrightarrow> (let n = (of_char c :: nat) in n = 32 \<or> 9 \<le> n \<and> n \<le> 13)"

definition TrimSpace :: "string \<Rightarrow> string" where
  "TrimSpace s = rev (dropWhile is_space (rev (dropWhile is_space s)))"

section \<open>Base64\<close>

definition b64_chars :: string where
  "b64_chars = ''ABCDEFGHIJKLMNOPQRSTUVWXYZabcdefghijklmnopqrstuvwxyz0123456789+/''"

definition b64_val :: "char \<Rightarrow> nat option" where
  "b64_val c = (let n = of_char c in
     if 65 \<le> n \<and> n \<le> 90 then Some (n - 65)
     else if 97 \<le> n \<and> n \<le> 122 then Some (n - 71)
     else if 48 \<le> n \<and> n \<le> 57 then Some (n + 4)
     else if n = 43 then Some 62
     else if n = 47 then Some 63
     else None)"

definition b64_quad :: "nat \<Rightarrow> string" where
  "b64_quad v = map (\<lambda>k. b64_chars ! (v div 64 ^ k mod 64)) [3, 2, 1, 0]"

fun b64_encode :: "bytes \<Rightarrow> string" where
  "b64_encode [] = []"
| "b64_encode [a] = take 2 (b64_quad (get24 a 0 0)) @ ''==''"
| "b64_encode [a, b] = take 3 (b64_quad (get24 a b 0)) @ ''=''"
| "b64_encode (a # b # c # bs) = b64_quad (get24 a b c) @ b64_encode bs"

definition b64_join :: "nat \<Rightarrow> nat \<Rightarrow> nat \<Rightarrow> nat \<Rightarrow> nat" where
  "b64_join a b c d = ((a * 64 + b) * 64 + c) * 64 + d"

fun b64_groups :: "string \<Rightarrow> bytes option" where
  "b64_groups [] = Some []"
| "b64_groups (p # q # r # s # cs) =
     (if cs = [] \<and> r = CHR ''='' \<and> s = CHR ''='' then
        (case (b64_val p, b64_val q) of
           (Some a, Some b) \<Rightarrow> Some (take 1 (put24 (b64_join a b 0 0)))
         | _ \<Rightarrow> None)
      else if cs = [] \<and> s = CHR ''='' then
        (case (b64_val p, b64_val q, b64_val r) of
           (Some a, Some b, Some c) \<Rightarrow> Some (take 2 (put24 (b64_join a b c 0)))
         | _ \<Rightarrow> None)
      else
        (case (b64_val p, b64_val q, b64_val r, b64_val s, b64_groups cs) of
           (Some a, Some b, Some c, Some d, Some bs) \<Rightarrow> Some (put24 (b64_join a b c d) @ bs)
         | _ \<Rightarrow> None))"
| "b64_groups _ = None"

text \<open>\<open>StdEncoding.DecodeString\<close>: line breaks are skipped, the padding is required.\<close>

definition b64_decode :: "string \<Rightarrow> bytes res" where
  "b64_decode s = (case b64_groups (filter (\<lambda>c. c \<noteq> CHR 0x0A \<and> c \<noteq> CHR 0x0D) s) of
     None \<Rightarrow> Inl (New ''illegal base64 data'') | Some bs \<Rightarrow> Inr bs)"

lemma b64_alphabet:
  "list_all (\<lambda>v. b64_val (b64_chars ! v) = Some v \<and> b64_chars ! v \<noteq> CHR 0x0A \<and> b64_chars ! v \<noteq> CHR 0x0D \<and>
     b64_chars ! v \<noteq> CHR '';'' \<and> b64_chars ! v \<noteq> CHR ''='') [0..<64]"
  by (simp add: b64_chars_def b64_val_def upt_conv_Cons)

lemma b64_char [simp]:
  assumes "v < 64"
  shows "b64_val (b64_chars ! v) = Some v" "b64_chars ! v \<noteq> CHR 0x0A" "b64_chars ! v \<noteq> CHR 0x0D"
    "b64_chars ! v \<noteq> CHR '';''" "b64_chars ! v \<noteq> CHR ''=''"
  using b64_alphabet assms by (simp_all add: list_all_iff)

lemma b64_quad_eq:
  "b64_quad v = [b64_chars ! (v div 262144 mod 64), b64_chars ! (v div 4096 mod 64),
     b64_chars ! (v div 64 mod 64), b64_chars ! (v mod 64)]"
  by (simp add: b64_quad_def)

lemma get24_less [simp]: "get24 a b c < 16777216"
  using get24_bound [of a b c] by linarith

lemma b64_digits:
  fixes v :: nat
  assumes "v < 16777216"
  shows "b64_join (v div 262144 mod 64) (v div 4096 mod 64) (v div 64 mod 64) (v mod 64) = v"
proof -
  have "v div 262144 mod 64 = v div 262144" using assms by simp
  moreover have "v = (v div 64) * 64 + v mod 64" "v div 64 = (v div 4096) * 64 + v div 64 mod 64"
    "v div 4096 = (v div 262144) * 64 + v div 4096 mod 64"
    by (simp_all add: div_mult2_eq [of v 64 64, simplified] div_mult2_eq [of v 4096 64, simplified])
  ultimately show ?thesis unfolding b64_join_def by presburger
qed

lemma put24_get24 [simp]: "put24 (get24 a b c) = [a, b, c]"
proof -
  have d: "(unat a * 65536 + unat b * 256 + unat c) div 65536 = unat a"
    "(unat a * 65536 + unat b * 256 + unat c) div 256 = unat a * 256 + unat b"
    using unat_byte_less [of b] unat_byte_less [of c] by linarith+
  have "(256 :: byte) = 0" "(65536 :: byte) = 0" by (rule word_unat_eq_iff [THEN iffD2], simp)+
  then have z: "x * 256 = 0" "x * 65536 = 0" for x :: byte by (simp_all only: mult_zero_right)
  show ?thesis by (simp add: put24_def drop_bit_eq_div get24_eq d z)
qed

lemma b64_groups_encode: "b64_groups (b64_encode bs) = Some bs"
proof (induction bs rule: b64_encode.induct)
  case (2 a)
  have "get24 a 0 0 div 64 mod 64 = 0" "get24 a 0 0 mod 64 = 0"
    by (simp_all add: get24_eq)
  with b64_digits [of "get24 a 0 0"] show ?case by (simp add: b64_quad_eq)
next
  case (3 a b)
  have "get24 a b 0 mod 64 = 0" by (simp add: get24_eq)
  with b64_digits [of "get24 a b 0"] show ?case by (simp add: b64_quad_eq)
next
  case (4 a b c bs)
  then show ?case by (simp add: b64_quad_eq b64_digits)
qed simp

lemma b64_encode_chars:
  "c \<in> set (b64_encode bs) \<Longrightarrow> c \<noteq> CHR 0x0A \<and> c \<noteq> CHR 0x0D \<and> c \<noteq> CHR '';''"
  by (induction bs rule: b64_encode.induct) (auto simp: b64_quad_eq)

lemma b64_encode_Nil [simp]: "b64_encode bs = [] \<longleftrightarrow> bs = []"
  by (cases bs rule: b64_encode.cases) (simp_all add: b64_quad_def)

lemma b64_decode_encode [simp]: "b64_decode (b64_encode bs) = Inr bs"
proof -
  have "filter (\<lambda>c. c \<noteq> CHR 0x0A \<and> c \<noteq> CHR 0x0D) (b64_encode bs) = b64_encode bs"
    using b64_encode_chars by (auto intro!: filter_True)
  then show ?thesis by (simp add: b64_decode_def b64_groups_encode)
qed

section \<open>Quoting\<close>

text \<open>
  The verb \<open>%q\<close> (\<open>strconv.Quote\<close>) on bytes: printable ASCII as it is, the two special
  characters and the control characters escaped, every other byte as \<open>\xNN\<close>. (Go keeps a valid
  multi-byte UTF-8 sequence of a printable code point; that case is not modelled.)
\<close>

definition hex_digit :: "nat \<Rightarrow> char" where
  "hex_digit d = (if d < 10 then char_of (48 + d) else char_of (87 + d))"

definition quote_char :: "char \<Rightarrow> string" where
  "quote_char c = (let n = (of_char c :: nat); bs = CHR 0x5C in
     if n = 0x22 \<or> n = 0x5C then [bs, c]
     else if 32 \<le> n \<and> n \<le> 126 then [c]
     else if n = 7 then [bs, CHR ''a'']
     else if n = 8 then [bs, CHR ''b'']
     else if n = 12 then [bs, CHR ''f'']
     else if n = 10 then [bs, CHR ''n'']
     else if n = 13 then [bs, CHR ''r'']
     else if n = 9 then [bs, CHR ''t'']
     else if n = 11 then [bs, CHR ''v'']
     else [bs, CHR ''x'', hex_digit (n div 16), hex_digit (n mod 16)])"

definition quote :: "string \<Rightarrow> string" where
  "quote s = [CHR 0x22] @ concat (map quote_char s) @ [CHR 0x22]"

lemma hex_digit_no_semicolon: "d < 16 \<Longrightarrow> hex_digit d \<noteq> CHR '';''"
proof -
  assume "d < 16"
  then have "of_char (hex_digit d) \<noteq> (59 :: nat)"
    by (auto simp: hex_digit_def)
  then show ?thesis by auto
qed

lemma quote_char_no_semicolon:
  assumes "c \<noteq> CHR '';''"
  shows "CHR '';'' \<notin> set (quote_char c)"
proof -
  have "(of_char c :: nat) < 256" by simp
  then have "(of_char c :: nat) div 16 < 16" by linarith
  then have "CHR '';'' \<noteq> hex_digit (of_char c div 16)" using hex_digit_no_semicolon by metis
  moreover have "CHR '';'' \<noteq> hex_digit (of_char c mod 16)"
    using hex_digit_no_semicolon [of "of_char c mod 16"] by fastforce
  ultimately show ?thesis
    unfolding quote_char_def Let_def using assms by simp
qed

lemma quote_no_semicolon:
  assumes "CHR '';'' \<notin> set s"
  shows "CHR '';'' \<notin> set (quote s)"
proof -
  from assms have "CHR '';'' \<notin> set (concat (map quote_char s))"
  proof (induction s)
    case (Cons c s)
    then have "c \<noteq> CHR '';''" by (metis list.set_intros(1))
    from quote_char_no_semicolon [OF this] Cons show ?case by simp
  qed simp
  then show ?thesis by (simp add: quote_def)
qed

end
