(* ===== verification/Negotiation.thy ===== *)
theory Negotiation
  imports Go_Strings
begin

text \<open>
  The noisecat v1 negotiation_data text (pkg/transport/noisesocket/negotiation.go):
  semicolon-separated \<open>key=value\<close> fields, the initiator's proposal and the responder's
  actions, and the two membership tests of the negotiation. The lemmas show that parsing
  inverts encoding and that what parses is well-formed.
\<close>

definition maxNegAttempts :: nat where
  "maxNegAttempts = 4"

definition negVersion :: string where
  "negVersion = ''1''"

record neg_msg =
  Action :: string
  Proto :: string
  Reason :: string
  Data_ :: bytes

definition zero_neg_msg :: neg_msg where
  "zero_neg_msg = \<lparr>Action = [], Proto = [], Reason = [], Data_ = []\<rparr>"

definition actReject :: string where "actReject = ''reject''"

definition actRetry :: string where "actRetry = ''retry''"

definition actSwitch :: string where "actSwitch = ''switch''"

lemmas act_defs = actReject_def actRetry_def actSwitch_def

definition encodeProposal :: "string \<Rightarrow> bytes \<Rightarrow> bytes" where
  "encodeProposal proto appData = str_bytes
     (''ns='' @ negVersion @ '';proto='' @ proto @
      (if appData \<noteq> [] then '';data='' @ b64_encode appData else []))"

definition encodeResponse :: "string \<Rightarrow> string \<Rightarrow> string \<Rightarrow> bytes" where
  "encodeResponse action proto reason = str_bytes
     (''ns='' @ negVersion @ '';action='' @ action @
      (if proto \<noteq> [] then '';proto='' @ proto else []) @
      (if reason \<noteq> [] then '';reason='' @ reason else []))"

text \<open>The body of the loop over the fields: one \<open>key=value\<close> of the payload.\<close>

definition parse_field :: "string \<Rightarrow> string \<Rightarrow> neg_msg \<times> bool \<Rightarrow> (neg_msg \<times> bool) res" where
  "parse_field k v = (\<lambda>(m, seen).
     if k = ''ns'' then
       (if v \<noteq> negVersion
        then Inl (Errorf ''noisesocket: unsupported negotiation version %q'' [AStr v])
        else Inr (m, True))
     else if k = ''action'' then
       (if v = actReject \<or> v = actRetry \<or> v = actSwitch then Inr (m\<lparr>Action := v\<rparr>, seen)
        else Inl (Errorf ''noisesocket: unknown negotiation action %q'' [AStr v]))
     else if k = ''proto'' then Inr (m\<lparr>Proto := v\<rparr>, seen)
     else if k = ''reason'' then Inr (m\<lparr>Reason := v\<rparr>, seen)
     else if k = ''data'' then
       attempt (wrap ''noisesocket: invalid data field: %w'' [] (b64_decode v))
         (\<lambda>d. Inr (m\<lparr>Data_ := d\<rparr>, seen))
     else Inr (m, seen))"

fun parse_fields :: "string list \<Rightarrow> neg_msg \<times> bool \<Rightarrow> (neg_msg \<times> bool) res" where
  "parse_fields [] st = Inr st"
| "parse_fields (field # fs) st =
     (if field = [] then parse_fields fs st
      else case cut (CHR ''='') field of
        None \<Rightarrow> Inl (Errorf ''noisesocket: malformed negotiation field %q'' [AStr field])
      | Some (k, v) \<Rightarrow> attempt (parse_field k v st) (parse_fields fs))"

definition parseNeg :: "bytes \<Rightarrow> neg_msg res" where
  "parseNeg raw =
     (if raw = [] then Inl (New ''noisesocket: empty negotiation_data'')
      else attempt (parse_fields (split_on (CHR '';'') (bytes_str raw)) (zero_neg_msg, False))
        (\<lambda>(m, seen).
           if \<not> seen then Inl (New ''noisesocket: negotiation_data missing ns= version'')
           else if Action m = [] \<and> Proto m = []
           then Inl (New ''noisesocket: proposal missing proto='')
           else if (Action m = actRetry \<or> Action m = actSwitch) \<and> Proto m = []
           then Inl (Errorf ''noisesocket: %s action missing proto='' [AStr (Action m)])
           else Inr m))"

definition allowedProtocol :: "string \<Rightarrow> string \<Rightarrow> string list \<Rightarrow> bool" where
  "allowedProtocol name prop fb \<longleftrightarrow> name = prop \<or> name \<in> set fb"

definition supports :: "string \<Rightarrow> string list \<Rightarrow> bool" where
  "supports name ps \<longleftrightarrow> name \<in> set ps"

section \<open>Parsing inverts encoding\<close>

text \<open>A payload as the join of its fields, none of which contains a semicolon.\<close>

lemma parse_joined:
  assumes "fs \<noteq> []" "\<forall>f \<in> set fs. CHR '';'' \<notin> set f"
  shows "split_on (CHR '';'') (bytes_str (str_bytes (join_with (CHR '';'') fs))) = fs"
  using split_join [OF assms] by simp

lemma b64_no_semicolon [simp]: "CHR '';'' \<notin> set (b64_encode d)"
  using b64_encode_chars by blast

text \<open>One field of the payload, as the encoders write it.\<close>

lemma parse_fields_Cons:
  assumes "CHR ''='' \<notin> set k" "parse_field k v st = Inr st'"
  shows "parse_fields ((k @ CHR ''='' # v) # fs) st = parse_fields fs st'"
  using assms by (simp add: cut_append)

text \<open>
  A proposal parses back to the protocol and the application data it was made of, for
  every protocol name without a semicolon and every application data.
\<close>

lemma parse_proposal:
  assumes "CHR '';'' \<notin> set proto" "proto \<noteq> []"
  shows "parseNeg (encodeProposal proto d) = Inr \<lparr>Action = [], Proto = proto, Reason = [], Data_ = d\<rparr>"
proof -
  let ?fs = "[''ns=1'', ''proto='' @ proto] @ (if d \<noteq> [] then [''data='' @ b64_encode d] else [])"
  have enc: "encodeProposal proto d = str_bytes (join_with (CHR '';'') ?fs)"
    by (simp add: encodeProposal_def negVersion_def)
  have split: "split_on (CHR '';'') (bytes_str (encodeProposal proto d)) = ?fs"
    unfolding enc by (rule parse_joined) (use assms in auto)
  have fields: "parse_fields ?fs (zero_neg_msg, False) =
      Inr (zero_neg_msg\<lparr>Proto := proto, Data_ := d\<rparr>, True)"
    using parse_fields_Cons [of "''proto''" proto "(zero_neg_msg, True)"]
      parse_fields_Cons [of "''data''" "b64_encode d" "(zero_neg_msg\<lparr>Proto := proto\<rparr>, True)"]
    by (simp add: parse_field_def negVersion_def zero_neg_msg_def)
  have "encodeProposal proto d \<noteq> []" by (simp add: encodeProposal_def str_bytes_def)
  then show ?thesis
    unfolding parseNeg_def split fields by (simp add: zero_neg_msg_def assms act_defs)
qed

text \<open>
  A response parses back to its action, protocol and reason; for retry and switch the
  protocol has to be named.
\<close>

lemma parse_response:
  assumes "act = actReject \<or> (act = actRetry \<or> act = actSwitch) \<and> proto \<noteq> []"
    and "CHR '';'' \<notin> set proto" "CHR '';'' \<notin> set reason"
  shows "parseNeg (encodeResponse act proto reason) =
    Inr \<lparr>Action = act, Proto = proto, Reason = reason, Data_ = []\<rparr>"
proof -
  let ?fs = "[''ns=1'', ''action='' @ act] @ (if proto \<noteq> [] then [''proto='' @ proto] else []) @
    (if reason \<noteq> [] then [''reason='' @ reason] else [])"
  have act: "CHR '';'' \<notin> set act" "act \<noteq> []" using assms(1) by (auto simp: act_defs)
  have enc: "encodeResponse act proto reason = str_bytes (join_with (CHR '';'') ?fs)"
    by (simp add: encodeResponse_def negVersion_def)
  have split: "split_on (CHR '';'') (bytes_str (encodeResponse act proto reason)) = ?fs"
    unfolding enc by (rule parse_joined) (use assms act in auto)
  have fields: "parse_fields ?fs (zero_neg_msg, False) =
      Inr (zero_neg_msg\<lparr>Action := act, Proto := proto, Reason := reason\<rparr>, True)"
    using parse_fields_Cons [of "''action''" act "(zero_neg_msg, True)"]
      parse_fields_Cons [of "''proto''" proto "(zero_neg_msg\<lparr>Action := act\<rparr>, True)"]
      parse_fields_Cons [of "''reason''" reason "(zero_neg_msg\<lparr>Action := act, Proto := proto\<rparr>, True)"]
      parse_fields_Cons [of "''reason''" reason "(zero_neg_msg\<lparr>Action := act\<rparr>, True)"] assms(1)
    by (auto simp: parse_field_def negVersion_def zero_neg_msg_def)
  have "encodeResponse act proto reason \<noteq> []" by (simp add: encodeResponse_def str_bytes_def)
  then show ?thesis
    unfolding parseNeg_def split fields using act assms(1) by (auto simp: zero_neg_msg_def act_defs)
qed

text \<open>
  C13. The two kinds of negotiation message parse back to what they were made of: a proposal to its
  protocol and application data, a response to its action, protocol and reason, for protocols and
  reasons without a semicolon; only a rejection may name no protocol.
\<close>

theorem negotiation_messages_roundtrip:
  assumes "CHR '';'' \<notin> set proto" "CHR '';'' \<notin> set reason"
  shows "(proto \<noteq> [] \<longrightarrow> parseNeg (encodeProposal proto d) = Inr \<lparr>Action = [], Proto = proto, Reason = [], Data_ = d\<rparr>) \<and>
    (act = actReject \<or> (act = actRetry \<or> act = actSwitch) \<and> proto \<noteq> [] \<longrightarrow>
      parseNeg (encodeResponse act proto reason) = Inr \<lparr>Action = act, Proto = proto, Reason = reason, Data_ = []\<rparr>)"
  using parse_proposal [of proto d] parse_response [of act proto reason] assms by blast

theorem negotiation_messages_roundtrip_witness:
  "parseNeg (encodeProposal ''Noise_XX_25519_AESGCM_SHA256'' [1, 255]) =
     Inr \<lparr>Action = [], Proto = ''Noise_XX_25519_AESGCM_SHA256'', Reason = [], Data_ = [1, 255]\<rparr> \<and>
   parseNeg (encodeResponse actRetry ''Noise_XX_25519_AESGCM_SHA256'' []) =
     Inr \<lparr>Action = actRetry, Proto = ''Noise_XX_25519_AESGCM_SHA256'', Reason = [], Data_ = []\<rparr>"
  using negotiation_messages_roundtrip [of "''Noise_XX_25519_AESGCM_SHA256''" "[]" "[1, 255]" actRetry] by simp

section \<open>What parses is well-formed\<close>

lemma parse_fields_inv:
  assumes "parse_fields fs (m, seen) = Inr (m', seen')"
    "Action m \<in> {[], actReject, actRetry, actSwitch}"
  shows "Action m' \<in> {[], actReject, actRetry, actSwitch} \<and>
    (seen' \<longrightarrow> seen \<or> ''ns=1'' \<in> set fs) \<and>
    (\<forall>f \<in> set fs. \<forall>v. f = ''ns='' @ v \<longrightarrow> v = negVersion)"
  using assms
proof (induction fs arbitrary: m seen)
  case (Cons f fs)
  show ?case
  proof (cases "f = []")
    case True
    with Cons show ?thesis by auto
  next
    case False
    with Cons.prems obtain k v m1 s1 where c: "cut (CHR ''='') f = Some (k, v)"
      and p: "parse_field k v (m, seen) = Inr (m1, s1)" and r: "parse_fields fs (m1, s1) = Inr (m', seen')"
      by (auto split: option.splits)
    from cut_Some [OF c] have f: "f = k @ CHR ''='' # v" "CHR ''='' \<notin> set k" by auto
    have "Action m1 \<in> {[], actReject, actRetry, actSwitch}" "s1 \<longrightarrow> seen \<or> f = ''ns=1''"
      using p Cons.prems(2) f by (auto simp: parse_field_def negVersion_def split: if_splits)
    moreover have "v' = negVersion" if "f = ''ns='' @ v'" for v'
    proof -
      from that have "cut (CHR ''='') f = Some (''ns'', v')" by simp
      with c p show ?thesis by (auto simp: parse_field_def split: if_splits)
    qed
    ultimately show ?thesis using Cons.IH [OF r] by auto
  qed
qed simp

text \<open>
  Whatever bytes a peer sends as negotiation_data: if they parse, they carry the version
  field \<open>ns=1\<close> and no other version, the action is empty or one of the three known ones, and a
  proposal, a retry and a switch name a protocol.
\<close>

theorem parseNeg_wellformed:
  assumes "parseNeg raw = Inr m"
  shows "''ns=1'' \<in> set (split_on (CHR '';'') (bytes_str raw)) \<and>
    (\<forall>v. ''ns='' @ v \<in> set (split_on (CHR '';'') (bytes_str raw)) \<longrightarrow> v = negVersion) \<and>
    Action m \<in> {[], actReject, actRetry, actSwitch} \<and>
    (Action m \<noteq> actReject \<longrightarrow> Proto m \<noteq> [])"
proof -
  from assms have "parse_fields (split_on (CHR '';'') (bytes_str raw)) (zero_neg_msg, False) = Inr (m, True)"
    and rest: "\<not> (Action m = [] \<and> Proto m = [])" "\<not> ((Action m = actRetry \<or> Action m = actSwitch) \<and> Proto m = [])"
    by (auto simp: parseNeg_def split: if_splits)
  from parse_fields_inv [OF this(1)] rest show ?thesis by (auto simp: zero_neg_msg_def)
qed

theorem parseNeg_wellformed_witness:
  "Proto \<lparr>Action = [], Proto = ''P'', Reason = [], Data_ = []\<rparr> \<noteq> [] \<and>
   ''ns=1'' \<in> set (split_on (CHR '';'') (bytes_str (encodeProposal ''P'' [])))"
proof -
  have "parseNeg (encodeProposal ''P'' []) = Inr \<lparr>Action = [], Proto = ''P'', Reason = [], Data_ = []\<rparr>"
    by (simp add: parseNeg_def encodeProposal_def negVersion_def parse_field_def zero_neg_msg_def)
  from parseNeg_wellformed [OF this] show ?thesis by (simp add: act_defs)
qed

end
