(* ===== verification/NS_Handshake.thy ===== *)
theory NS_Handshake
  imports Noisesocket Negotiation
begin

text \<open>
  The negotiation layer of the NoiseSocket transport (pkg/transport/noisesocket/handshake_neg.go):
  the initiator's and the responder's loops over at most \<open>maxNegAttempts\<close> attempts, the
  transcript that every attempt's prologue is chained to, and the shared loop \<open>driveFrom\<close> over
  the remaining handshake messages; then Handshake, Write and Read of the connection, which
  choose between the Accept-only path and this one. The first argument of the two loops is the
  number of attempts left.

  A policy of retry or switch indexes the first supported protocol; with an empty list that is
  a run-time panic, which the model keeps as the error \<open>Panic\<close>.
\<close>

section \<open>Helpers\<close>

definition newHS :: "('hs, 'cs) noise_lib \<Rightarrow> noise_config \<Rightarrow> bytes \<Rightarrow> 'hs res" where
  "newHS L cfg prologue = (case new_handshake L (cfg\<lparr>cfg_prologue := prologue\<rparr>) of
     Inl e \<Rightarrow> Inl (Wrapf ''noisesocket: NewHandshakeState: %w'' [] (Noise e))
   | Inr hs \<Rightarrow> Inr hs)"

definition writeFrameAndRecord :: "bytes \<Rightarrow> bytes \<Rightarrow> ('hs, 'cs) ns_conn \<Rightarrow>
    ('hs, 'cs) ns_conn \<times> bytes res" where
  "writeFrameAndRecord neg msg c =
     (if MaxMessageLen < length neg
      then (c, Inl (New ''noisesocket: negotiation_data exceeds 16-bit length''))
      else if MaxMessageLen < length msg
      then (c, Inl (New ''noisesocket: noise_message exceeds 16-bit length''))
      else
        let fb = frameBytes neg msg in
        case conn_write fb (s_net c) of
          (n, Some e) \<Rightarrow> (c\<lparr>s_net := n\<rparr>, Inl (Io e))
        | (n, None) \<Rightarrow> (c\<lparr>s_net := n\<rparr>, Inr fb))"

definition prologueWith :: "('hs, 'cs) ns_conn \<Rightarrow> bytes \<Rightarrow> bytes \<Rightarrow> bytes" where
  "prologueWith c initNeg transcript = buildPrologue initNeg (s_prologue c) @ transcript"

text \<open>
  \<open>driveFrom\<close>: the messages from index \<open>i\<close> on, \<open>m\<close> of them. The initiator writes the messages
  of even index. \<open>pending\<close> is nil (\<open>[]\<close>) or a message already received.
\<close>

fun driveFrom_loop :: "('hs, 'cs) noise_lib \<Rightarrow> nat \<Rightarrow> nat \<Rightarrow> bool \<Rightarrow> 'hs \<Rightarrow> bytes \<Rightarrow> ('hs, 'cs) ns_conn \<Rightarrow>
    ('hs, 'cs) ns_conn \<times> err option" where
  "driveFrom_loop L 0 i initiator hs pending c = (c\<lparr>s_hs := Some hs, s_done := True\<rparr>, None)"
| "driveFrom_loop L (Suc m) i initiator hs pending c =
     (if (i mod 2 = 0) = initiator then
        (case hs_write L hs of
           (hs', Inl e) \<Rightarrow> (c\<lparr>s_hs := Some hs'\<rparr>, Some (Wrapf ''noisesocket: WriteMessage: %w'' [] (Noise e)))
         | (hs', Inr (msg, cs)) \<Rightarrow>
             (case writeFrameAndRecord [] msg c of
                (c', Inl e) \<Rightarrow> (c'\<lparr>s_hs := Some hs'\<rparr>, Some e)
              | (c', Inr fb) \<Rightarrow> driveFrom_loop L m (Suc i) initiator hs' pending (assign_opt cs c')))
      else
        (case (if pending \<noteq> [] then (s_net c, Inr ([], pending)) else readHandshakeFrame (s_net c)) of
           (n, Inl e) \<Rightarrow> (c\<lparr>s_hs := Some hs, s_net := n\<rparr>, Some e)
         | (n, Inr (ignored, msg)) \<Rightarrow>
             (case hs_read L hs msg of
                (hs', Inl e) \<Rightarrow>
                  (c\<lparr>s_hs := Some hs', s_net := n\<rparr>, Some (Wrapf ''noisesocket: ReadMessage: %w'' [] (Noise e)))
              | (hs', Inr cs) \<Rightarrow>
                  driveFrom_loop L m (Suc i) initiator hs' [] (assign_opt cs (c\<lparr>s_net := n\<rparr>)))))"

definition driveFrom :: "('hs, 'cs) noise_lib \<Rightarrow> 'hs \<Rightarrow> nat \<Rightarrow> bool \<Rightarrow> nat \<Rightarrow> bytes \<Rightarrow> ('hs, 'cs) ns_conn \<Rightarrow>
    ('hs, 'cs) ns_conn \<times> err option" where
  "driveFrom L hs total_msgs initiator startIndex pending c =
     driveFrom_loop L (total_msgs - startIndex) startIndex initiator hs pending c"

section \<open>The initiator\<close>

definition BuildConfig :: "negotiation \<Rightarrow> string \<Rightarrow> bool \<Rightarrow> noise_config res" where
  "BuildConfig neg proto initiator =
     wrap ''noisesocket: build config for %q: %w'' [AStr proto] (build_config neg proto initiator)"

text \<open>The part of one attempt after the responder's frame (\<open>rneg\<close>, \<open>rmsg\<close>) has been read:
  \<open>Inl\<close> is a final outcome, \<open>Inr\<close> the protocol and the transcript of the next attempt.\<close>

definition init_react :: "('hs, 'cs) noise_lib \<Rightarrow> negotiation \<Rightarrow> nat \<Rightarrow> 'hs \<Rightarrow> bytes \<Rightarrow> bytes \<Rightarrow> bytes \<Rightarrow> bytes \<Rightarrow>
    ('hs, 'cs) ns_conn \<Rightarrow> (('hs, 'cs) ns_conn \<times> err option) + (string \<times> bytes)" where
  "init_react L neg nmsgs hs sentFrame rneg rmsg transcript c =
     (if rneg = [] then Inl (driveFrom L hs nmsgs True 1 rmsg c)
      else case parseNeg rneg of
        Inl e \<Rightarrow> Inl (c, Some e)
      | Inr resp \<Rightarrow>
          if Action resp = actReject
          then Inl (c, Some (Errorf ''noisesocket: peer rejected negotiation: %s'' [AStr (Reason resp)]))
          else if Action resp = actRetry then
            (if \<not> allowedProtocol (Proto resp) (proposed neg) (fallback neg)
             then Inl (c, Some (Errorf ''noisesocket: responder asked to retry with disallowed protocol %q'' [AStr (Proto resp)]))
             else Inr (Proto resp, transcript @ sentFrame @ frameBytes rneg rmsg))
          else if Action resp = actSwitch then
            (if \<not> allowedProtocol (Proto resp) (proposed neg) (fallback neg)
             then Inl (c, Some (Errorf ''noisesocket: responder asked to switch to disallowed protocol %q'' [AStr (Proto resp)]))
             else
               (case BuildConfig neg (Proto resp) False of
                  Inl e \<Rightarrow> Inl (c, Some e)
                | Inr scfg \<Rightarrow>
                    (case newHS L scfg (prologueWith c rneg (transcript @ sentFrame)) of
                       Inl e \<Rightarrow> Inl (c, Some e)
                     | Inr hs2 \<Rightarrow> Inl (driveFrom L hs2 (pat_messages (cfg_pattern scfg)) False 0 rmsg c))))
          else Inl (c, Some (Errorf ''noisesocket: unexpected action %q in response'' [AStr (Action resp)])))"

fun negotiateInitiator_loop :: "('hs, 'cs) noise_lib \<Rightarrow> negotiation \<Rightarrow> nat \<Rightarrow> string \<Rightarrow> bytes \<Rightarrow>
    ('hs, 'cs) ns_conn \<Rightarrow> ('hs, 'cs) ns_conn \<times> err option" where
  "negotiateInitiator_loop L neg 0 proto transcript c =
     (c, Some (New ''noisesocket: negotiation exceeded maximum attempts''))"
| "negotiateInitiator_loop L neg (Suc attempts) proto transcript c =
     (case BuildConfig neg proto True of
        Inl e \<Rightarrow> (c, Some e)
      | Inr cfg \<Rightarrow>
          let initNeg = encodeProposal proto (app_data neg) in
          case newHS L cfg (prologueWith c initNeg transcript) of
            Inl e \<Rightarrow> (c, Some e)
          | Inr hs \<Rightarrow>
              (case hs_write L hs of
                 (hs', Inl e) \<Rightarrow> (c, Some (Wrapf ''noisesocket: WriteMessage: %w'' [] (Noise e)))
               | (hs', Inr (msg1, Some cs)) \<Rightarrow>
                   (c, Some (New ''noisesocket: negotiation unsupported for single-message patterns''))
               | (hs', Inr (msg1, None)) \<Rightarrow>
                   (case writeFrameAndRecord initNeg msg1 c of
                      (c', Inl e) \<Rightarrow> (c', Some e)
                    | (c', Inr sentFrame) \<Rightarrow>
                        (case readHandshakeFrame (s_net c') of
                           (n, Inl e) \<Rightarrow> (c'\<lparr>s_net := n\<rparr>, Some e)
                         | (n, Inr (rneg, rmsg)) \<Rightarrow>
                             (case init_react L neg (pat_messages (cfg_pattern cfg)) hs' sentFrame rneg rmsg
                                     transcript (c'\<lparr>s_net := n\<rparr>) of
                                Inl done \<Rightarrow> done
                              | Inr (proto', transcript') \<Rightarrow>
                                  negotiateInitiator_loop L neg attempts proto' transcript' (c'\<lparr>s_net := n\<rparr>))))))"

definition negotiateInitiator :: "('hs, 'cs) noise_lib \<Rightarrow> negotiation \<Rightarrow> ('hs, 'cs) ns_conn \<Rightarrow>
    ('hs, 'cs) ns_conn \<times> err option" where
  "negotiateInitiator L neg c = negotiateInitiator_loop L neg maxNegAttempts (proposed neg) [] c"

section \<open>The responder\<close>

text \<open>\<open>c.neg.Supported[0]\<close>.\<close>

definition supported0 :: "negotiation \<Rightarrow> string res" where
  "supported0 neg = (case supported neg of
     [] \<Rightarrow> Inl (Panic ''index out of range [0] with length 0'') | p # ps \<Rightarrow> Inr p)"

definition reject_reason :: "string \<Rightarrow> string" where
  "reject_reason proto = ''protocol '' @ quote proto @ '' not supported''"

text \<open>The policy branch for an unsupported proposal; the result is as for \<open>init_react\<close>, the
  next attempt's transcript on \<open>Inr\<close>.\<close>

definition resp_policy :: "('hs, 'cs) noise_lib \<Rightarrow> negotiation \<Rightarrow> string \<Rightarrow> bytes \<Rightarrow> bytes \<Rightarrow>
    ('hs, 'cs) ns_conn \<Rightarrow> (('hs, 'cs) ns_conn \<times> err option) + (('hs, 'cs) ns_conn \<times> bytes)" where
  "resp_policy L neg proto recvFrame transcript c =
     (let pol = (if policy neg = [] then ''reject'' else policy neg) in
      if pol = ''reject'' then
        (case writeFrameAndRecord (encodeResponse actReject [] (reject_reason proto)) [] c of
           (c', Inl e) \<Rightarrow> Inl (c', Some e)
         | (c', Inr fb) \<Rightarrow>
             Inl (c', Some (Errorf ''noisesocket: rejected initiator: %s'' [AStr (reject_reason proto)])))
      else if pol = ''retry'' then
        (case supported0 neg of
           Inl e \<Rightarrow> Inl (c, Some e)
         | Inr target \<Rightarrow>
             (case writeFrameAndRecord (encodeResponse actRetry target []) [] c of
                (c', Inl e) \<Rightarrow> Inl (c', Some e)
              | (c', Inr sentFrame) \<Rightarrow> Inr (c', transcript @ recvFrame @ sentFrame)))
      else if pol = ''switch'' then
        (case supported0 neg of
           Inl e \<Rightarrow> Inl (c, Some e)
         | Inr target \<Rightarrow>
             (case BuildConfig neg target True of
                Inl e \<Rightarrow> Inl (c, Some e)
              | Inr cfg \<Rightarrow>
                  let switchNeg = encodeResponse actSwitch target [] in
                  case newHS L cfg (prologueWith c switchNeg (transcript @ recvFrame)) of
                    Inl e \<Rightarrow> Inl (c, Some e)
                  | Inr hs \<Rightarrow>
                      (case hs_write L hs of
                         (hs', Inl e) \<Rightarrow> Inl (c, Some (Wrapf ''noisesocket: WriteMessage: %w'' [] (Noise e)))
                       | (hs', Inr (msg0, Some cs)) \<Rightarrow>
                           Inl (c, Some (New ''noisesocket: switch unsupported for single-message patterns''))
                       | (hs', Inr (msg0, None)) \<Rightarrow>
                           (case writeFrameAndRecord switchNeg msg0 c of
                              (c', Inl e) \<Rightarrow> Inl (c', Some e)
                            | (c', Inr fb) \<Rightarrow>
                                Inl (driveFrom L hs' (pat_messages (cfg_pattern cfg)) True 1 [] c')))))
      else Inl (c, Some (Errorf ''noisesocket: unknown negotiation policy %q'' [AStr pol])))"

fun negotiateResponder_loop :: "('hs, 'cs) noise_lib \<Rightarrow> negotiation \<Rightarrow> nat \<Rightarrow> bytes \<Rightarrow>
    ('hs, 'cs) ns_conn \<Rightarrow> ('hs, 'cs) ns_conn \<times> err option" where
  "negotiateResponder_loop L neg 0 transcript c =
     (c, Some (New ''noisesocket: negotiation exceeded maximum attempts''))"
| "negotiateResponder_loop L neg (Suc attempts) transcript c0 =
     (case readHandshakeFrame (s_net c0) of
        (n, Inl e) \<Rightarrow> (c0\<lparr>s_net := n\<rparr>, Some e)
      | (n, Inr (ineg, imsg)) \<Rightarrow>
          let c = c0\<lparr>s_net := n\<rparr>; recvFrame = frameBytes ineg imsg in
          case parseNeg ineg of
            Inl e \<Rightarrow> (c, Some e)
          | Inr prop \<Rightarrow>
              if Action prop \<noteq> []
              then (c, Some (Errorf ''noisesocket: initiator sent unexpected action %q'' [AStr (Action prop)]))
              else if supports (Proto prop) (supported neg) then
                (case BuildConfig neg (Proto prop) False of
                   Inl e \<Rightarrow> (c, Some e)
                 | Inr cfg \<Rightarrow>
                     (case newHS L cfg (prologueWith c ineg transcript) of
                        Inl e \<Rightarrow> (c, Some e)
                      | Inr hs \<Rightarrow> driveFrom L hs (pat_messages (cfg_pattern cfg)) False 0 imsg c))
              else
                (case resp_policy L neg (Proto prop) recvFrame transcript c of
                   Inl done \<Rightarrow> done
                 | Inr (c', transcript') \<Rightarrow> negotiateResponder_loop L neg attempts transcript' c'))"

definition negotiateResponder :: "('hs, 'cs) noise_lib \<Rightarrow> negotiation \<Rightarrow> ('hs, 'cs) ns_conn \<Rightarrow>
    ('hs, 'cs) ns_conn \<times> err option" where
  "negotiateResponder L neg c = negotiateResponder_loop L neg maxNegAttempts [] c"

definition handshakeNegotiated :: "('hs, 'cs) noise_lib \<Rightarrow> negotiation \<Rightarrow> ('hs, 'cs) ns_conn \<Rightarrow>
    ('hs, 'cs) ns_conn \<times> err option" where
  "handshakeNegotiated L neg c =
     (if s_client c then negotiateInitiator L neg c else negotiateResponder L neg c)"

section \<open>Handshake, Write and Read\<close>

definition ns_Handshake :: "('hs, 'cs) noise_lib \<Rightarrow> ('hs, 'cs) ns_conn \<Rightarrow> ('hs, 'cs) ns_conn \<times> err option" where
  "ns_Handshake L c =
     (if s_done c then (c, None)
      else case s_neg c of
        Some neg \<Rightarrow> handshakeNegotiated L neg c
      | None \<Rightarrow>
          (case s_cfg c of
             None \<Rightarrow> (c, Some (Panic ''nil noise.Config''))
           | Some cfg \<Rightarrow> ns_handshake_accept L cfg c))"

definition ns_Write :: "('hs, 'cs) noise_lib \<Rightarrow> bytes \<Rightarrow> ('hs, 'cs) ns_conn \<Rightarrow>
    ('hs, 'cs) ns_conn \<times> nat \<times> err option" where
  "ns_Write L p c =
     (case ns_Handshake L c of
        (c', Some e) \<Rightarrow> (c', 0, Some e)
      | (c', None) \<Rightarrow> ns_write_loop L 0 p c')"

definition ns_Read :: "('hs, 'cs) noise_lib \<Rightarrow> nat \<Rightarrow> ('hs, 'cs) ns_conn \<Rightarrow> ('hs, 'cs) ns_conn \<times> bytes res" where
  "ns_Read L k c =
     (case ns_Handshake L c of
        (c', Some e) \<Rightarrow> (c', Inl e)
      | (c', None) \<Rightarrow> if k = 0 then (c', Inr []) else ns_read_frame L k c')"

definition ns_Fingerprint :: "('hs, 'cs) noise_lib \<Rightarrow> ('hs, 'cs) ns_conn \<Rightarrow> bytes" where
  "ns_Fingerprint L c =
     (if \<not> s_done c then replicate 32 0
      else case s_hs c of None \<Rightarrow> replicate 32 0
      | Some hs \<Rightarrow> take 32 (channel_binding L hs) @ replicate (32 - length (channel_binding L hs)) 0)"

definition ns_Close :: "('hs, 'cs) ns_conn \<Rightarrow> ('hs, 'cs) ns_conn \<times> io_err option" where
  "ns_Close c = (let (n, e) = conn_close (s_net c) in (c\<lparr>s_net := n\<rparr>, e))"

definition ns_CloseWrite :: "('hs, 'cs) ns_conn \<Rightarrow> ('hs, 'cs) ns_conn \<times> io_err option" where
  "ns_CloseWrite c = (let (n, e) = close_write (s_net c) in (c\<lparr>s_net := n\<rparr>, e))"

end
