(* ===== verification/NS_Conn.thy ===== *)
theory NS_Conn
  imports NS_Handshake
begin

text \<open>
  The NoiseSocket connection as a stream: its record layer (length frame, inner body length,
  padding ignored) interprets \<open>live_framed_conn\<close>.
\<close>

section \<open>Frames\<close>

definition ns_enc :: "('hs, 'cs) noise_lib \<Rightarrow> 'cs \<Rightarrow> bytes \<Rightarrow> ('cs \<times> bytes) option" where
  "ns_enc L cs p = (case cs_encrypt L cs (put16 (length p) @ p) of
     (cs', Inr c) \<Rightarrow> if MaxMessageLen < length c then None else Some (cs', put16 (length c) @ c)
   | (cs', Inl e) \<Rightarrow> None)"

definition ns_body :: "bytes \<Rightarrow> bytes option" where
  "ns_body pt = (case pt of
     a # b # r \<Rightarrow> if length r < get16 a b then None else Some (take (get16 a b) r)
   | _ \<Rightarrow> None)"

definition ns_dec :: "('hs, 'cs) noise_lib \<Rightarrow> 'cs \<Rightarrow> bytes \<Rightarrow> ('cs \<times> bytes \<times> bytes) option" where
  "ns_dec L cs w = (case w of
     a # b # r \<Rightarrow>
       if length r < get16 a b then None
       else (case cs_decrypt L cs (take (get16 a b) r) of
          (cs', Inr pt) \<Rightarrow> map_option (\<lambda>p. (cs', p, drop (get16 a b) r)) (ns_body pt)
        | (cs', Inl e) \<Rightarrow> None)
   | _ \<Rightarrow> None)"

definition ns_sync :: "('hs, 'cs) noise_lib \<Rightarrow> ('cs \<Rightarrow> 'cs \<Rightarrow> bool) \<Rightarrow> 'cs \<Rightarrow> 'cs \<Rightarrow> bool" where
  "ns_sync L R co ci \<longleftrightarrow> cipher_pair L R \<and> R co ci"

definition ns_live :: "('hs, 'cs) ns_conn \<Rightarrow> bool" where
  "ns_live c \<longleftrightarrow> s_done c \<and> s_out c \<noteq> None \<and> s_in c \<noteq> None"

definition ns_feed :: "read_event list \<Rightarrow> ('hs, 'cs) ns_conn \<Rightarrow> ('hs, 'cs) ns_conn" where
  "ns_feed es c = c\<lparr>s_net := feed_net es (s_net c)\<rparr>"

lemma ns_body_frame: "length p \<le> 65535 \<Longrightarrow> ns_body (put16 (length p) @ p @ pad) = Some p"
  by (rule put16_cases [of "length p"]) (simp add: ns_body_def)

lemma ns_dec_frame:
  assumes "length c \<le> 65535" "cs_decrypt L cs c = (cs', Inr pt)" "ns_body pt = Some p"
  shows "ns_dec L cs ((put16 (length c) @ c) @ rest) = Some (cs', p, rest)"
proof -
  obtain a b where "put16 (length c) = [a, b]" "get16 a b = length c mod 65536" by (rule put16_cases)
  with assms show ?thesis by (simp add: ns_dec_def)
qed

lemma ns_dec_append:
  "ns_dec L cs w = Some (cs', p, rest) \<Longrightarrow> ns_dec L cs (w @ x) = Some (cs', p, rest @ x)"
  by (auto simp: ns_dec_def split: list.splits if_splits prod.splits sum.splits)

lemma ns_dec_enc:
  assumes "ns_sync L R k d" "length p \<le> ns_maxBody" "ns_enc L k p = Some (k', w)"
  shows "\<exists>d'. ns_dec L d w = Some (d', p, []) \<and> ns_sync L R k' d'"
proof -
  from assms(3) obtain c where c: "cs_encrypt L k (put16 (length p) @ p) = (k', Inr c)"
    "length c \<le> 65535" "w = put16 (length c) @ c"
    by (auto simp: ns_enc_def MaxMessageLen_def split: prod.splits sum.splits if_splits)
  from assms(1) have R: "cipher_pair L R" "R k d" by (simp_all add: ns_sync_def)
  from cipher_pairD [OF R c(1)] obtain d' where
    d: "cs_decrypt L d c = (d', Inr (put16 (length p) @ p))" "R k' d'" by metis
  have "ns_body (put16 (length p) @ p) = Some p"
    using ns_body_frame [of p "[]"] assms(2) by (simp add: ns_maxBody_def MaxMessageLen_def)
  from ns_dec_frame [OF c(2) d(1) this, of "[]"] d(2) R(1) c(3) show ?thesis
    by (auto simp: ns_sync_def)
qed

section \<open>Write\<close>

text \<open>The body of the loop in \<open>Write\<close>: one fragment, one frame.\<close>

definition ns_step :: "('hs, 'cs) noise_lib \<Rightarrow> bytes \<Rightarrow> ('hs, 'cs) ns_conn \<Rightarrow> ('hs, 'cs) ns_conn \<times> err option" where
  "ns_step L p c =
     (case s_out c of
        None \<Rightarrow> (c, Some (Panic ''nil CipherState''))
      | Some cs \<Rightarrow>
          (case cs_encrypt L cs (putUint16 [] (length p) @ p) of
             (cs', Inl e) \<Rightarrow>
               (c\<lparr>s_out := Some cs', s_net := (if e = ErrMaxNonce then fst (conn_close (s_net c)) else s_net c)\<rparr>,
                Some (Wrapf ''noisesocket: Encrypt: %w'' [] (Noise e)))
           | (cs', Inr ct) \<Rightarrow>
               (case writeLengthPrefixed ct (s_net c) of (n', e) \<Rightarrow> (c\<lparr>s_out := Some cs', s_net := n'\<rparr>, e))))"

abbreviation ns_keeps :: "('hs, 'cs) ns_conn \<Rightarrow> 'cs \<times> bytes \<times> read_event list" where
  "ns_keeps c \<equiv> (the (s_in c), s_buf c, rx (s_net c))"

interpretation nsw: fragment_writer "ns_write_loop L" "ns_step L" "ns_enc L" ns_maxBody ns_live "\<lambda>c. the (s_out c)" ns_keeps s_net for L
proof (unfold_locales, goal_cases)
  case 1
  show ?case by (rule ns_maxBody_pos)
next
  case (2 n p c)
  have "take (if ns_maxBody < length p then ns_maxBody else length p) p = take ns_maxBody p"
    "drop (if ns_maxBody < length p then ns_maxBody else length p) p = drop ns_maxBody p"
    "(if ns_maxBody < length p then ns_maxBody else length p) = length (take ns_maxBody p)" by auto
  then show ?case
    by (subst ns_write_loop.simps, simp only:)
      (auto simp: ns_step_def Let_def split: prod.splits sum.splits option.splits)
next
  case (3 c p c')
  then obtain cs cs' ct n' where "s_out c = Some cs" "cs_encrypt L cs (put16 (length p) @ p) = (cs', Inr ct)"
    "length ct \<le> MaxMessageLen" "conn_write (put16 (length ct) @ ct) (s_net c) = (n', None)" "c' = c\<lparr>s_out := Some cs', s_net := n'\<rparr>"
    by (auto simp: ns_step_def writeLengthPrefixed_def putUint16_def split: option.splits prod.splits sum.splits if_splits)
  with 3(1) conn_write_ok conn_write_rx show ?case by (fastforce simp: ns_live_def ns_enc_def)
next
  case (4 c p c' e)
  then obtain cs where cs: "s_out c = Some cs" by (auto simp: ns_live_def)
  obtain cs' r where r: "cs_encrypt L cs (put16 (length p) @ p) = (cs', r)" by fastforce
  show ?case
  proof (cases "\<exists>ct. r = Inr ct \<and> length ct \<le> MaxMessageLen")
    case True
    then obtain ct n' x where w: "r = Inr ct" "length ct \<le> MaxMessageLen" "conn_write (put16 (length ct) @ ct) (s_net c) = (n', Some x)"
      and c': "c' = c\<lparr>s_out := Some cs', s_net := n'\<rparr>"
      using 4(4) cs r by (auto simp: ns_step_def writeLengthPrefixed_def putUint16_def split: prod.splits option.splits)
    have "ns_enc L (the (s_out c)) p = Some (cs', put16 (length ct) @ ct)" using cs r w by (simp add: ns_enc_def)
    from cut_frame_write [of "put16 (length ct) @ ct" "s_net c" n' x p ns_maxBody "ns_enc L", OF w(3) 4(2,3) this] 4(1) c' conn_write_rx [OF w(3)]
    show ?thesis by (auto simp: ns_live_def)
  next
    case False
    with 4(1,4) cs r show ?thesis
      by (auto simp: ns_step_def ns_live_def putUint16_def writeLengthPrefixed_def conn_close_same
          split: sum.splits if_splits prod.splits option.splits intro!: exI [of _ "[]"])
  qed
qed

lemma ns_Write_loop: "ns_live a \<Longrightarrow> ns_Write L p a = ns_write_loop L 0 p a"
  by (simp add: ns_Write_def ns_Handshake_def ns_live_def)

lemma ns_Write_spec:
  assumes "ns_live a" "ns_Write L p a = (a', n, None)"
  shows "n = length p \<and> ns_live a' \<and> the (s_in a') = the (s_in a) \<and> s_buf a' = s_buf a \<and>
    rx (s_net a') = rx (s_net a) \<and> net_closed (s_net a') = net_closed (s_net a) \<and>
    (\<exists>fs. encs (ns_enc L) (the (s_out a)) (chunks ns_maxBody p) = Some (the (s_out a'), fs) \<and>
       concat (tx (s_net a')) = concat (tx (s_net a)) @ concat fs)"
  using nsw.loop_complete [OF assms(1), of L p a' n] assms by (simp add: ns_Write_loop)

lemma ns_Write_stop:
  assumes "ns_live a" "ns_Write L p a = (a', n, Some e)"
  shows "n \<le> length p \<and> ns_live a' \<and> the (s_in a') = the (s_in a) \<and> s_buf a' = s_buf a \<and> rx (s_net a') = rx (s_net a) \<and>
    (\<exists>k fs t. encs (ns_enc L) (the (s_out a)) (chunks ns_maxBody (take n p)) = Some (k, fs) \<and>
       concat (tx (s_net a')) = concat (tx (s_net a)) @ concat fs @ t \<and> cut_frame (ns_enc L) ns_maxBody k t)"
  using nsw.loop_stopped [OF assms(1), of L p a' n e] assms by (simp add: ns_Write_loop)

section \<open>Read\<close>

text \<open>Reading one length-prefixed field, in both directions.\<close>

lemma readLengthPrefixed_Inr:
  assumes "readLengthPrefixed n = (n', Inr d)" "\<not> net_closed n"
  obtains a b r where "avail (rx n) = a # b # r" "get16 a b \<le> length r" "d = take (get16 a b) r"
    "avail (rx n') = drop (get16 a b) r" "\<exists>es. n' = n\<lparr>rx := es\<rparr>" "all_data (rx n) \<Longrightarrow> all_data (rx n')"
proof -
  from assms obtain n1 h where h: "readFull 2 n = (n1, Inr h)"
    by (auto simp: readLengthPrefixed_def split: prod.splits sum.splits)
  note o1 = full.rd_open [OF h assms(2)]
  from full.rd_length [OF h] obtain x y where xy: "h = [x, y]" by (rule length2_cases)
  let ?w = "avail (rx n)"
  from o1 xy have w: "?w = x # y # drop 2 ?w"
    by (metis append_Cons append_Nil append_take_drop_id)
  from o1 have n1: "avail (rx n1) = drop 2 ?w" "\<not> net_closed n1" "n1 = n\<lparr>rx := rx n1\<rparr>"
    "all_data (rx n) \<Longrightarrow> all_data (rx n1)" using assms(2) by auto
  show ?thesis
  proof (cases "get16 x y = 0")
    case True
    with assms h xy have "n' = n1" "d = []" by (auto simp: readLengthPrefixed_def)
    with True n1 show ?thesis by (intro that [OF w]) (auto intro: exI [of _ "rx n1"])
  next
    case False
    with assms h xy obtain n2 where "readFull (get16 x y) n1 = (n2, Inr d)" "n' = n2"
      by (auto simp: readLengthPrefixed_def Let_def split: prod.splits sum.splits)
    with full.rd_open [of "get16 x y" n1 n2 d] n1 have o2: "get16 x y \<le> length (avail (rx n1))"
      "d = take (get16 x y) (avail (rx n1))" "n' = n1\<lparr>rx := advance (get16 x y) (rx n1)\<rparr>" by simp_all
    have "n' = n\<lparr>rx := advance (get16 x y) (rx n1)\<rparr>" unfolding o2(3) using o1 by simp
    with o2(1,2) n1(1,2,4) show ?thesis by (intro that [OF w]) (simp_all, blast)
  qed
qed

lemma readLengthPrefixed_ok:
  assumes "\<not> net_closed n" "avail (rx n) = a # b # r" "get16 a b \<le> length r"
  obtains n' where "readLengthPrefixed n = (n', Inr (take (get16 a b) r))"
    "avail (rx n') = drop (get16 a b) r" "n' = n\<lparr>rx := rx n'\<rparr>"
proof -
  let ?n1 = "n\<lparr>rx := advance 2 (rx n)\<rparr>"
  let ?n2 = "?n1\<lparr>rx := advance (get16 a b) (rx ?n1)\<rparr>"
  have 1: "readFull 2 n = (?n1, Inr [a, b])"
    by (rule full.rd_prefix [of n _ r]) (use assms in simp_all)
  have 2: "readFull (get16 a b) ?n1 = (?n2, Inr (take (get16 a b) r))"
    by (rule full.rd_prefix [of _ _ "drop (get16 a b) r"]) (use assms in simp_all)
  show ?thesis
  proof (cases "get16 a b = 0")
    case True
    with 1 show ?thesis
      by (intro that [of ?n1]) (use assms in \<open>simp_all add: readLengthPrefixed_def\<close>)
  next
    case False
    with 1 2 show ?thesis
      by (intro that [of ?n2]) (use assms in \<open>simp_all add: readLengthPrefixed_def Let_def\<close>)
  qed
qed

lemma ns_body_Some:
  "ns_body pt = Some p \<longleftrightarrow> \<not> length pt < 2 \<and> \<not> length pt < 2 + get16 (pt ! 0) (pt ! 1) \<and>
     p = take (get16 (pt ! 0) (pt ! 1)) (drop 2 pt)"
  by (auto simp: ns_body_def split: list.splits)

lemma ns_Read_spec:
  assumes "ns_live b" "\<not> net_closed (s_net b)" "ns_Read L k b = (b', Inr d)"
  shows "ns_live b' \<and> the (s_out b') = the (s_out b) \<and> \<not> net_closed (s_net b') \<and>
    (all_data (rx (s_net b)) \<longrightarrow> all_data (rx (s_net b'))) \<and> concat (tx (s_net b')) = concat (tx (s_net b)) \<and>
    (the (s_in b') = the (s_in b) \<and> avail (rx (s_net b')) = avail (rx (s_net b)) \<and> s_buf b = d @ s_buf b' \<or>
     (\<exists>p. ns_dec L (the (s_in b)) (avail (rx (s_net b))) =
            Some (the (s_in b'), p, avail (rx (s_net b'))) \<and> s_buf b @ p = d @ s_buf b'))"
proof (cases "k = 0 \<or> s_buf b \<noteq> []")
  case True
  with assms show ?thesis
    by (auto simp: ns_Read_def ns_Handshake_def ns_live_def ns_read_frame_def split: if_splits)
next
  case False
  with assms have fr: "ns_read_frame L k b = (b', Inr d)"
    by (auto simp: ns_Read_def ns_Handshake_def ns_live_def split: if_splits)
  from assms(1) obtain cs where cs: "s_in b = Some cs" by (auto simp: ns_live_def)
  from fr cs False obtain n1 ct cs' pt where rd: "readLengthPrefixed (s_net b) = (n1, Inr ct)"
    and dec: "cs_decrypt L cs ct = (cs', Inr pt)" and len: "\<not> length pt < 2"
      "\<not> length pt < 2 + get16 (pt ! 0) (pt ! 1)"
    and b': "b' = b\<lparr>s_in := Some cs', s_net := n1, s_buf := drop k (take (get16 (pt ! 0) (pt ! 1)) (drop 2 pt))\<rparr>"
    and d: "d = take k (take (get16 (pt ! 0) (pt ! 1)) (drop 2 pt))"
    by (auto simp: ns_read_frame_def Let_def split: prod.splits sum.splits if_splits)
  from readLengthPrefixed_Inr [OF rd assms(2)] obtain x y r where
    w: "avail (rx (s_net b)) = x # y # r" "get16 x y \<le> length r" "ct = take (get16 x y) r"
      "avail (rx n1) = drop (get16 x y) r" "\<exists>es. n1 = (s_net b)\<lparr>rx := es\<rparr>" "all_data (rx (s_net b)) \<Longrightarrow> all_data (rx n1)"
    by metis
  have "ns_body pt = Some (d @ s_buf b')"
    unfolding ns_body_Some using len d b' by (simp del: take_take)
  with w dec have "ns_dec L cs (avail (rx (s_net b))) = Some (cs', d @ s_buf b', avail (rx n1))"
    by (simp add: ns_dec_def)
  moreover have "tx n1 = tx (s_net b)" "\<not> net_closed n1" using w(5) assms(2) by auto
  ultimately show ?thesis
    using assms(1) b' cs w(6) False by (auto simp: ns_live_def)
qed

lemma ns_Read_next:
  assumes "ns_live b" "\<not> net_closed (s_net b)" "0 < k" "s_buf b = []"
    "ns_dec L (the (s_in b)) (avail (rx (s_net b))) = Some (dk, p, rest)"
  shows "\<exists>b'. ns_Read L k b = (b', Inr (take k p))"
proof -
  from assms(1) obtain cs where cs: "s_in b = Some cs" by (auto simp: ns_live_def)
  from assms(5) cs obtain x y r pt where w: "avail (rx (s_net b)) = x # y # r" "get16 x y \<le> length r"
    and dec: "cs_decrypt L cs (take (get16 x y) r) = (dk, Inr pt)" "ns_body pt = Some p"
    by (auto simp: ns_dec_def split: list.splits if_splits prod.splits sum.splits)
  from readLengthPrefixed_ok [OF assms(2) w] obtain n1 where
    "readLengthPrefixed (s_net b) = (n1, Inr (take (get16 x y) r))" by metis
  with dec cs assms show ?thesis
    by (auto simp: ns_Read_def ns_Handshake_def ns_live_def ns_read_frame_def Let_def ns_body_Some)
qed

lemma readLengthPrefixed_tx: "readLengthPrefixed n = (n', r) \<Longrightarrow> tx n' = tx n"
  by (auto simp: readLengthPrefixed_def Let_def dest!: full.rd_tx split: prod.splits sum.splits if_splits)

lemma readLengthPrefixed_closed: "readLengthPrefixed n = (n', Inr d) \<Longrightarrow> \<not> net_closed n"
  by (auto simp: readLengthPrefixed_def dest!: full.rd_closed_Inr split: prod.splits sum.splits)

lemma ns_Read_stop:
  assumes "ns_live b" "ns_Read L k b = (b', Inl e)"
  shows "ns_live b' \<and> the (s_out b') = the (s_out b) \<and> concat (tx (s_net b')) = concat (tx (s_net b))"
  using assms
  by (auto simp: ns_Read_def ns_Handshake_def ns_live_def ns_read_frame_def Let_def conn_close_same
      dest!: readLengthPrefixed_tx split: if_splits prod.splits sum.splits option.splits)

lemma ns_Read_closed:
  assumes "ns_live b" "net_closed (s_net b)" "ns_Read L k b = (b', Inr d)"
  shows "ns_live b' \<and> the (s_out b') = the (s_out b) \<and> the (s_in b') = the (s_in b) \<and> s_net b' = s_net b \<and> s_buf b = d @ s_buf b'"
  using assms
  by (auto simp: ns_Read_def ns_Handshake_def ns_live_def ns_read_frame_def Let_def
      dest!: readLengthPrefixed_closed split: if_splits prod.splits sum.splits option.splits)

interpretation nsc: live_framed_conn "ns_Write L" "ns_Read L" s_net ns_feed "ns_enc L" "ns_dec L"
    "ns_sync L R" ns_maxBody ns_live "\<lambda>c. the (s_out c)" "\<lambda>c. the (s_in c)" s_buf for L R
proof (unfold_locales, goal_cases)
  case 1
  show ?case by (rule ns_maxBody_pos)
next
  case (2 k d p k' w)
  then show ?case by (intro ns_dec_enc)
next
  case (3 d w d' p rest x)
  then show ?case by (rule ns_dec_append)
next
  case (4 d)
  show ?case by (simp add: ns_dec_def)
next
  case (5 a p a' n)
  then show ?case by (rule ns_Write_spec)
next
  case (6 b sz b' dat)
  then show ?case by (rule ns_Read_spec)
next
  case (7 a p a' n e)
  then show ?case by (rule ns_Write_stop)
next
  case (8 b sz b' e)
  then show ?case by (rule ns_Read_stop)
next
  case (9 b sz b' dat)
  then show ?case by (rule ns_Read_closed)
next
  case (10 es a)
  show ?case by (simp add: ns_feed_def ns_live_def)
next
  case (11 b)
  then show ?case by (simp add: ns_Read_def ns_Handshake_def ns_live_def)
next
  case (12 b sz)
  then show ?case by (auto simp: ns_Read_def ns_Handshake_def ns_live_def ns_read_frame_def)
next
  case (13 b sz dk p rest)
  then show ?case by (intro ns_Read_next)
qed

section \<open>Properties of the data phase\<close>

text \<open>
  Two ends that have completed a handshake with each other and have exchanged no data yet; what is
  left to receive is \<open>x\<close> and \<open>y\<close>.
\<close>

definition ns_peers_at :: "('hs, 'cs) noise_lib \<Rightarrow> ('cs \<Rightarrow> 'cs \<Rightarrow> bool) \<Rightarrow> bytes \<Rightarrow> bytes \<Rightarrow>
    ('hs, 'cs) ns_conn \<Rightarrow> ('hs, 'cs) ns_conn \<Rightarrow> bool" where
  "ns_peers_at L R x y a b \<longleftrightarrow> ns_live a \<and> ns_live b \<and> cipher_pair L R \<and>
     R (the (s_out a)) (the (s_in b)) \<and> R (the (s_out b)) (the (s_in a)) \<and>
     s_buf a = [] \<and> s_buf b = [] \<and> avail (rx (s_net a)) = x \<and> avail (rx (s_net b)) = y \<and>
     all_data (rx (s_net a)) \<and> all_data (rx (s_net b)) \<and>
     \<not> net_closed (s_net a) \<and> \<not> net_closed (s_net b)"

abbreviation ns_peers :: "('hs, 'cs) noise_lib \<Rightarrow> ('cs \<Rightarrow> 'cs \<Rightarrow> bool) \<Rightarrow>
    ('hs, 'cs) ns_conn \<Rightarrow> ('hs, 'cs) ns_conn \<Rightarrow> bool" where
  "ns_peers L R \<equiv> ns_peers_at L R [] []"

abbreviation ns_link :: "('hs, 'cs) noise_lib \<Rightarrow> ('cs \<Rightarrow> 'cs \<Rightarrow> bool) \<Rightarrow>
    ('hs, 'cs) ns_conn \<Rightarrow> ('hs, 'cs) ns_conn \<Rightarrow> bytes \<Rightarrow> bool" where
  "ns_link L R \<equiv> channel_link (ns_dec L) (ns_sync L R) ns_live (\<lambda>c. the (s_out c)) (\<lambda>c. the (s_in c)) s_buf s_net"

lemma ns_peers_link:
  assumes "ns_peers L R a b"
  shows "ns_link L R a b []" and "ns_link L R b a []"
  using assms
  by (auto simp: ns_peers_at_def channel_link_def ns_sync_def intro!: exI [of _ "[]"] pends.nil)

text \<open>
  C4. Over the NoiseSocket transport, whatever the two ends write and read, in any order, with
  any buffer sizes and however the network cuts the bytes into chunks: the bytes one end has
  read are at every moment a prefix of the bytes the other end has written, in both directions;
  and reading on, with any buffer, delivers exactly the bytes still missing.
\<close>

theorem ns_stream_delivered:
  assumes "ns_peers L R a0 b0"
    and "duplex (ns_Write L) (ns_Read L) s_net ns_feed a0 b0 a b wa gb wb ga" and "0 < k"
  shows "gb @ read_all (ns_Read L) k (length wa) b = wa \<and> ga @ read_all (ns_Read L) k (length wb) a = wb"
proof -
  from nsc.duplex_linked [OF assms(2) ns_peers_link [OF assms(1)]] obtain q q' where
    "wa = gb @ q" "ns_link L R a b q" "wb = ga @ q'" "ns_link L R b a q'" by blast
  with nsc.everything_delivered assms(3) show ?thesis by fastforce
qed

definition ex_ns :: "bool \<Rightarrow> (nat, nat) ns_conn" where
  "ex_ns client = (ns_new client (fresh_net []) (Some (ex_config client)) None [] [])\<lparr>s_done := True,
     s_in := Some 0, s_out := Some 0\<rparr>"

lemma ex_ns_peers: "ns_peers ex_lib (=) (ex_ns True) (ex_ns False)"
  by (simp add: ns_peers_at_def ns_live_def ex_ns_def ns_new_def ex_cipher_pair fresh_net_def)

lemma ex_ns_write:
  "ns_Write ex_lib [7, 8] (ex_ns True) =
    ((ex_ns True)\<lparr>s_out := Some 1, s_net := (fresh_net [])\<lparr>tx := [put16 20 @ ex_tag 0 @ put16 2 @ [7, 8]]\<rparr>\<rparr>, 2, None)"
  by (simp add: ns_Write_def ns_Handshake_def ex_ns_def ns_new_def ns_write_loop.simps ex_lib_def
      ex_encrypt_def ex_max_nonce_def fresh_net_def conn_write_def ns_maxBody_def MaxMessageLen_def
      ex_tag_def Let_def writeLengthPrefixed_def putUint16_def two)

theorem ns_stream_delivered_witness:
  "read_all (ns_Read ex_lib) 1 2
     (ns_feed [Data (put16 20), Data (ex_tag 0 @ put16 2 @ [7, 8])] (ex_ns False)) = [7, 8]"
proof -
  have "duplex (ns_Write ex_lib) (ns_Read ex_lib) s_net ns_feed (ex_ns True) (ex_ns False)
     (fst (ns_Write ex_lib [7, 8] (ex_ns True)))
     (ns_feed [Data (put16 20), Data (ex_tag 0 @ put16 2 @ [7, 8])] (ex_ns False)) ([] @ [7, 8]) [] [] []"
    by (rule duplex.a_writes [OF duplex.start])
      (simp_all add: ex_ns_write, simp_all add: ex_ns_def ns_new_def fresh_net_def)
  from ns_stream_delivered [OF ex_ns_peers this, of 1] show ?thesis
    by (simp del: read_all.simps add: numeral_2_eq_2)
qed

text \<open>
  Padding is ignored: when the plaintext of a received transport message is a body of \<open>n\<close>
  bytes behind its length, followed by anything, Read hands out the body and only the body.
\<close>

theorem ns_read_ignores_padding:
  assumes "ns_live b" "\<not> net_closed (s_net b)" "s_buf b = []" "s_in b = Some cs"
    and "avail (rx (s_net b)) = put16 (length ct) @ ct @ rest" "length ct \<le> MaxMessageLen"
    and "cs_decrypt L cs ct = (cs', Inr (put16 (length p) @ p @ pad))" "length p \<le> MaxMessageLen"
    and "length p \<le> k" "0 < k"
  shows "\<exists>b'. ns_Read L k b = (b', Inr p) \<and> s_buf b' = [] \<and> avail (rx (s_net b')) = rest \<and> s_in b' = Some cs'"
proof -
  obtain x y where h: "put16 (length ct) = [x, y]" "get16 x y = length ct"
    using put16_cases [of "length ct"] assms(6) by (auto simp: MaxMessageLen_def)
  obtain u v where g: "put16 (length p) = [u, v]" "get16 u v = length p"
    using put16_cases [of "length p"] assms(8) by (auto simp: MaxMessageLen_def)
  have "get16 x y \<le> length (ct @ rest)" using h by simp
  from readLengthPrefixed_ok [OF assms(2) _ this] assms(5) h obtain n where
    "readLengthPrefixed (s_net b) = (n, Inr ct)" "avail (rx n) = rest" by auto
  with assms g show ?thesis
    by (simp add: ns_Read_def ns_Handshake_def ns_live_def ns_read_frame_def Let_def)
qed

theorem ns_read_ignores_padding_witness:
  "\<exists>b'. ns_Read ex_lib 4 (ns_feed [Data (put16 22 @ ex_tag 0 @ put16 2 @ [7, 8] @ [0, 0])] (ex_ns False)) =
    (b', Inr [7, 8])"
proof -
  let ?b = "ns_feed [Data (put16 22 @ ex_tag 0 @ put16 2 @ [7, 8] @ [0, 0])] (ex_ns False)"
  let ?ct = "ex_tag 0 @ put16 (length [7, 8 :: byte]) @ [7, 8] @ [0, 0]"
  have ct: "?ct = ex_tag 0 @ put16 2 @ [7, 8] @ [0, 0]" "length ?ct = 22"
    by (simp_all add: ex_tag_def numeral_2_eq_2)
  have 1: "ns_live ?b" "\<not> net_closed (s_net ?b)" "s_buf ?b = []" "s_in ?b = Some 0"
    "avail (rx (s_net ?b)) = put16 (length ?ct) @ ?ct @ []"
    unfolding ct(2) unfolding ct(1) by (simp_all add: ns_live_def ns_feed_def ex_ns_def ns_new_def fresh_net_def)
  have 2: "cs_decrypt ex_lib 0 ?ct = (1, Inr (put16 (length [7, 8 :: byte]) @ [7, 8] @ [0, 0]))"
    by (simp add: ex_lib_def ex_decrypt_def ex_max_nonce_def ex_tag_def)
  from ns_read_ignores_padding [OF 1 _ 2, of 4] ct(2) show ?thesis
    by (fastforce simp: MaxMessageLen_def)
qed

end
