(* ===== verification/NS_Agreement.thy ===== *)
theory NS_Agreement
  imports NS_Conn
begin

text \<open>
  The handshakes of the NoiseSocket transport, both ends at once: frames on the wire, the loop
  over the messages run against the peer's, the Accept-only handshake, and the negotiated one
  when the proposal is accepted. Both end in \<open>ns_peers\<close>, the premise of the data phase.
\<close>

section \<open>Frames\<close>

lemma frameBytes_eq: "frameBytes neg msg = put16 (length neg) @ neg @ put16 (length msg) @ msg"
  by (simp add: frameBytes_def putUint16_def)

lemma readHandshakeFrame_ok:
  assumes "\<not> net_closed n" "avail (rx n) = frameBytes neg msg @ rest"
    "length neg \<le> MaxMessageLen" "length msg \<le> MaxMessageLen"
  obtains n' where "readHandshakeFrame n = (n', Inr (neg, msg))" "n' = n\<lparr>rx := rx n'\<rparr>"
    "avail (rx n') = rest" "all_data (rx n) \<Longrightarrow> all_data (rx n')"
proof -
  obtain a b where h: "put16 (length neg) = [a, b]" "get16 a b = length neg"
    using put16_cases [of "length neg"] assms(3) by (auto simp: MaxMessageLen_def)
  obtain x y where g: "put16 (length msg) = [x, y]" "get16 x y = length msg"
    using put16_cases [of "length msg"] assms(4) by (auto simp: MaxMessageLen_def)
  have "avail (rx n) = a # b # (neg @ put16 (length msg) @ msg @ rest)"
    using assms(2) h by (simp add: frameBytes_eq)
  from readLengthPrefixed_ok [OF assms(1) this] h obtain n1 where
    n1: "readLengthPrefixed n = (n1, Inr neg)" "avail (rx n1) = put16 (length msg) @ msg @ rest"
      "n1 = n\<lparr>rx := rx n1\<rparr>" by auto
  have "\<not> net_closed n1" by (subst n1(3)) (simp add: assms(1))
  from readLengthPrefixed_ok [OF this, of x y "msg @ rest"] n1(2) g obtain n2 where
    n2: "readLengthPrefixed n1 = (n2, Inr msg)" "avail (rx n2) = rest" "n2 = n1\<lparr>rx := rx n2\<rparr>" by auto
  have a: "all_data (rx n2)" if "all_data (rx n)"
    using readLengthPrefixed_Inr [OF n1(1) assms(1)] readLengthPrefixed_Inr [OF n2(1) \<open>\<not> net_closed n1\<close>] that
    by metis
  have "n2 = n\<lparr>rx := rx n2\<rparr>" by (subst n2(3), subst n1(3)) simp
  then show ?thesis
    by (rule that [OF _ _ n2(2) a, rotated]) (simp_all add: readHandshakeFrame_def n1(1) n2(1))
qed

section \<open>The loop over the messages, both ends\<close>

lemma ns_hs_loop_write:
  assumes "net_ok (s_net c)" "hs_write L hs = (hs', Inr (msg, cs))" "length msg \<le> max_msg_len"
    "nd = (if first \<and> s_client c then s_neg_data c else [])" "length nd \<le> MaxMessageLen"
  shows "ns_hs_loop L (Suc m) True first hs c =
    ns_hs_loop L m False False hs' (assign_opt cs (c\<lparr>s_net := (s_net c)\<lparr>tx := tx (s_net c) @ [frameBytes nd msg]\<rparr>\<rparr>))"
  using assms
  by (simp add: writeHandshakeFrame_def max_msg_len_def MaxMessageLen_def Let_def frameBytes_def)

lemma ns_hs_loop_read:
  assumes "net_ok (s_net c)" "avail (rx (s_net c)) = frameBytes nd msg @ rest" "length msg \<le> max_msg_len"
    "hs_read L hs msg = (hs', Inr cs)" "first \<and> \<not> s_client c \<longrightarrow> nd = s_neg_data c" "length nd \<le> MaxMessageLen"
  obtains es where "ns_hs_loop L (Suc m) False first hs c =
      ns_hs_loop L m True False hs' (assign_opt cs (c\<lparr>s_net := (s_net c)\<lparr>rx := es\<rparr>\<rparr>))"
    "avail es = rest" "all_data (rx (s_net c)) \<Longrightarrow> all_data es"
proof -
  from assms(1) have "\<not> net_closed (s_net c)" by simp
  from readHandshakeFrame_ok [OF this assms(2,6)] assms(3) obtain n where
    n: "readHandshakeFrame (s_net c) = (n, Inr (nd, msg))" "n = (s_net c)\<lparr>rx := rx n\<rparr>"
      "avail (rx n) = rest" "all_data (rx (s_net c)) \<Longrightarrow> all_data (rx n)"
    unfolding MaxMessageLen_def max_msg_len_def by auto
  show ?thesis
  proof (rule that [OF _ n(3,4)])
    have "ns_hs_loop L (Suc m) False first hs c = ns_hs_loop L m True False hs' (assign_opt cs (c\<lparr>s_net := n\<rparr>))"
      using assms n(1) by auto
    then show "ns_hs_loop L (Suc m) False first hs c =
      ns_hs_loop L m True False hs' (assign_opt cs (c\<lparr>s_net := (s_net c)\<lparr>rx := rx n\<rparr>\<rparr>))"
      unfolding n(2) [symmetric] .
  qed
qed

text \<open>The frames of a list of messages, the first one with the negotiation data \<open>nd\<close>.\<close>

fun neg_frames :: "bytes \<Rightarrow> bytes list \<Rightarrow> bytes list" where
  "neg_frames nd [] = []"
| "neg_frames nd (m # ms) = frameBytes nd m # map (frameBytes []) ms"

lemma neg_frames_Nil [simp]: "neg_frames [] ms = map (frameBytes []) ms"
  by (cases ms) simp_all

text \<open>
  The final state of a loop: the read script \<open>es\<close> is left, the frames \<open>f\<close> have been written,
  the handshake state and the cipher states are set, and nothing else has changed.
\<close>

definition ns_fin :: "('hs, 'cs) ns_conn \<Rightarrow> read_event list \<Rightarrow> bytes list \<Rightarrow> 'hs \<Rightarrow> 'cs \<Rightarrow> 'cs \<Rightarrow>
    ('hs, 'cs) ns_conn" where
  "ns_fin c es f h co ci = c\<lparr>s_net := (s_net c)\<lparr>rx := es, tx := tx (s_net c) @ f\<rparr>, s_hs := Some h,
     s_out := Some co, s_in := Some ci\<rparr>"

lemma ns_fin_wrote: "ns_fin (c\<lparr>s_net := (s_net c)\<lparr>tx := tx (s_net c) @ [f]\<rparr>\<rparr>) es fs h co ci = ns_fin c es (f # fs) h co ci"
  by (simp add: ns_fin_def)

lemma ns_fin_read: "ns_fin (c\<lparr>s_net := (s_net c)\<lparr>rx := es'\<rparr>\<rparr>) es fs h co ci = ns_fin c es fs h co ci"
  by (simp add: ns_fin_def)

text \<open>
  What both loops end with: cipher states in step in both directions, the same handshake hash,
  every frame of the peer consumed.
\<close>

definition ns_joined :: "('hs, 'cs) noise_lib \<Rightarrow> ('cs \<Rightarrow> 'cs \<Rightarrow> bool) \<Rightarrow> ('hs, 'cs) ns_conn \<Rightarrow> ('hs, 'cs) ns_conn \<Rightarrow>
    bytes list \<Rightarrow> bytes list \<Rightarrow> bytes \<Rightarrow> bytes \<Rightarrow> ('hs, 'cs) ns_conn \<times> err option \<Rightarrow>
    ('hs, 'cs) ns_conn \<times> err option \<Rightarrow> bool" where
  "ns_joined L R cw cr fw fr restw restr resw resr \<longleftrightarrow>
     (\<exists>ew hw ow iw er hr orr ir.
        resw = (ns_fin cw ew fw hw ow iw, None) \<and> resr = (ns_fin cr er fr hr orr ir, None) \<and>
        R ow ir \<and> R orr iw \<and> channel_binding L hw = channel_binding L hr \<and>
        avail ew = restw \<and> avail er = restr \<and>
        (all_data (rx (s_net cw)) \<longrightarrow> all_data ew) \<and> (all_data (rx (s_net cr)) \<longrightarrow> all_data er))"

lemma ns_joined_sym: "ns_joined L R cw cr fw fr rw rr x y \<Longrightarrow> ns_joined L R cr cw fr fw rr rw y x"
  unfolding ns_joined_def by metis

lemma ns_joined_step:
  assumes "ns_joined L R (cw\<lparr>s_net := (s_net cw)\<lparr>tx := tx (s_net cw) @ [f]\<rparr>\<rparr>)
      (cr\<lparr>s_net := (s_net cr)\<lparr>rx := es\<rparr>\<rparr>) fw fr rw rr x y"
    and "all_data (rx (s_net cr)) \<Longrightarrow> all_data es"
  shows "ns_joined L R cw cr (f # fw) fr rw rr x y"
  using assms unfolding ns_joined_def ns_fin_wrote ns_fin_read by simp blast

lemma ns_joined_last:
  assumes "s_client cw \<noteq> s_client cr" "R a1 b1" "R b1 a1" "R a2 b2" "R b2 a2"
    "channel_binding L w' = channel_binding L r'" "avail es = rr" "avail (rx (s_net cw)) = rw"
    "all_data (rx (s_net cr)) \<Longrightarrow> all_data es"
  shows "ns_joined L R cw cr [f] [] rw rr
     (ns_hs_loop L 0 False False w' (assign_opt (Some (a1, a2)) (cw\<lparr>s_net := (s_net cw)\<lparr>tx := tx (s_net cw) @ [f]\<rparr>\<rparr>)))
     (ns_hs_loop L 0 True False r' (assign_opt (Some (b1, b2)) (cr\<lparr>s_net := (s_net cr)\<lparr>rx := es\<rparr>\<rparr>)))"
proof -
  have w: "ns_hs_loop L 0 False False w' (assign_opt (Some (a1, a2)) (cw\<lparr>s_net := (s_net cw)\<lparr>tx := tx (s_net cw) @ [f]\<rparr>\<rparr>)) =
      (ns_fin cw (rx (s_net cw)) [f] w' (if s_client cw then a1 else a2) (if s_client cw then a2 else a1), None)"
    by (simp add: ns_fin_def assign_opt_def assignCipherStates_def)
  have r: "ns_hs_loop L 0 True False r' (assign_opt (Some (b1, b2)) (cr\<lparr>s_net := (s_net cr)\<lparr>rx := es\<rparr>\<rparr>)) =
      (ns_fin cr es [] r' (if s_client cr then b1 else b2) (if s_client cr then b2 else b1), None)"
    by (simp add: ns_fin_def assign_opt_def assignCipherStates_def)
  show ?thesis
    unfolding ns_joined_def w r
    by (intro exI conjI, rule refl, rule refl) (use assms in auto)
qed

text \<open>
  The peer that starts and the peer that answers, run over each other's frames, both finish.
  Only the very first frame carries negotiation data, and only the client writes it.
\<close>

lemma ns_hs_loop_pair:
  assumes "handshake_pair L R P" "P (Suc k) w r" "net_ok (s_net cw)" "net_ok (s_net cr)"
    "s_client cw \<noteq> s_client cr" "nd = (if first then s_neg_data cw else [])"
    "first \<longrightarrow> s_client cw \<and> s_neg_data cr = s_neg_data cw" "length nd \<le> MaxMessageLen"
    "avail (rx (s_net cw)) = concat (map (frameBytes []) (odds (honest L (Suc k) w r))) @ restw"
    "avail (rx (s_net cr)) = concat (neg_frames nd (evens (honest L (Suc k) w r))) @ restr"
  shows "ns_joined L R cw cr (neg_frames nd (evens (honest L (Suc k) w r)))
    (map (frameBytes []) (odds (honest L (Suc k) w r))) restw restr
    (ns_hs_loop L (Suc k) True first w cw) (ns_hs_loop L (Suc k) False first r cr)"
  using assms(2-)
proof (induction k arbitrary: w r cw cr nd first restw restr)
  case 0
  from handshake_pairD [OF assms(1) "0.prems"(1)] obtain w' msg cs r' cs' where
    h: "hs_write L w = (w', Inr (msg, cs))" "hs_read L r msg = (r', Inr cs')" "length msg \<le> max_msg_len"
      "honest L (Suc 0) w r = [msg]"
    and fin: "\<exists>a1 a2 b1 b2. cs = Some (a1, a2) \<and> cs' = Some (b1, b2) \<and> R a1 b1 \<and> R b1 a1 \<and>
       R a2 b2 \<and> R b2 a2 \<and> channel_binding L w' = channel_binding L r'"
    by (metis honest.simps(1))
  have "avail (rx (s_net cr)) = frameBytes nd msg @ restr" using "0.prems"(9) h(4) by simp
  from ns_hs_loop_read [OF "0.prems"(3) this h(3,2), of first 0] "0.prems"(4,5,6,7) obtain es where
    rd: "ns_hs_loop L (Suc 0) False first r cr =
        ns_hs_loop L 0 True False r' (assign_opt cs' (cr\<lparr>s_net := (s_net cr)\<lparr>rx := es\<rparr>\<rparr>))"
      "avail es = restr" "all_data (rx (s_net cr)) \<Longrightarrow> all_data es" by auto
  have wr: "ns_hs_loop L (Suc 0) True first w cw = ns_hs_loop L 0 False False w'
      (assign_opt cs (cw\<lparr>s_net := (s_net cw)\<lparr>tx := tx (s_net cw) @ [frameBytes nd msg]\<rparr>\<rparr>))"
    by (rule ns_hs_loop_write [OF "0.prems"(2) h(1,3)]) (use "0.prems"(5,6,7) in auto)
  from fin obtain a1 a2 b1 b2 where f: "cs = Some (a1, a2)" "cs' = Some (b1, b2)" "R a1 b1" "R b1 a1"
    "R a2 b2" "R b2 a2" "channel_binding L w' = channel_binding L r'" by blast
  have "avail (rx (s_net cw)) = restw" using "0.prems"(8) h(4) by simp
  with ns_joined_last [of cw cr R a1 b1 a2 b2 L w' r' es restr restw "frameBytes nd msg"]
    "0.prems"(4) f(3-7) rd(2,3) show ?case
    unfolding wr rd(1) f(1,2) h(4) by simp
next
  case (Suc k)
  from handshake_pairD [OF assms(1) Suc.prems(1)] obtain w' msg cs r' cs' where
    h: "hs_write L w = (w', Inr (msg, cs))" "hs_read L r msg = (r', Inr cs')" "length msg \<le> max_msg_len"
      "honest L (Suc (Suc k)) w r = msg # honest L (Suc k) r' w'"
    and P: "cs = None" "cs' = None" "P (Suc k) r' w'"
    by (metis nat.distinct(1))
  let ?ms = "honest L (Suc k) r' w'"
  have "avail (rx (s_net cr)) = frameBytes nd msg @ (concat (map (frameBytes []) (odds ?ms)) @ restr)"
    using Suc.prems(9) unfolding h(4) by simp
  from ns_hs_loop_read [OF Suc.prems(3) this h(3,2), of first "Suc k"] Suc.prems(4,5,6,7) obtain es where
    rd: "ns_hs_loop L (Suc (Suc k)) False first r cr =
        ns_hs_loop L (Suc k) True False r' (cr\<lparr>s_net := (s_net cr)\<lparr>rx := es\<rparr>\<rparr>)"
      "avail es = concat (map (frameBytes []) (odds ?ms)) @ restr"
      "all_data (rx (s_net cr)) \<Longrightarrow> all_data es" unfolding P by (auto simp: assign_opt_def)
  let ?cw = "cw\<lparr>s_net := (s_net cw)\<lparr>tx := tx (s_net cw) @ [frameBytes nd msg]\<rparr>\<rparr>"
  let ?cr = "cr\<lparr>s_net := (s_net cr)\<lparr>rx := es\<rparr>\<rparr>"
  have wr: "ns_hs_loop L (Suc (Suc k)) True first w cw = ns_hs_loop L (Suc k) False False w' ?cw"
    using ns_hs_loop_write [OF Suc.prems(2) h(1,3), of nd first "Suc k"] Suc.prems(5,6,7)
    unfolding P by (auto simp: assign_opt_def simp del: ns_hs_loop.simps)
  have "ns_joined L R ?cr ?cw (neg_frames [] (evens ?ms)) (map (frameBytes []) (odds ?ms)) restr restw
      (ns_hs_loop L (Suc k) True False r' ?cr) (ns_hs_loop L (Suc k) False False w' ?cw)"
    by (rule Suc.IH [OF P(3)]) (use Suc.prems rd(2) h(4) in simp_all)
  from ns_joined_step [OF ns_joined_sym [OF this] rd(3)] show ?case
    unfolding wr rd(1) h(4) by simp
qed

text \<open>What a handshake does once its loop is through: it sets \<open>handshakeDone\<close>.\<close>

fun ns_finish :: "('hs, 'cs) ns_conn \<times> err option \<Rightarrow> ('hs, 'cs) ns_conn \<times> err option" where
  "ns_finish (c, None) = (c\<lparr>s_done := True\<rparr>, None)"
| "ns_finish (c, Some e) = (c, Some e)"

lemma ns_joined_peers:
  assumes "ns_joined L R c s fw fr u v x y" "cipher_pair L R"
    "all_data (rx (s_net c))" "all_data (rx (s_net s))" "net_ok (s_net c)" "net_ok (s_net s)"
    "s_buf c = []" "s_buf s = []"
  shows "\<exists>c' s'. ns_finish x = (c', None) \<and> ns_finish y = (s', None) \<and> ns_peers_at L R u v c' s' \<and>
    ns_Fingerprint L c' = ns_Fingerprint L s' \<and>
    tx (s_net c') = tx (s_net c) @ fw \<and> tx (s_net s') = tx (s_net s) @ fr"
proof -
  from assms(1) obtain ew hw ow iw er hr orr ir where
    x: "x = (ns_fin c ew fw hw ow iw, None)" and y: "y = (ns_fin s er fr hr orr ir, None)"
    and j: "R ow ir" "R orr iw" "channel_binding L hw = channel_binding L hr" "avail ew = u" "avail er = v"
      "all_data (rx (s_net c)) \<longrightarrow> all_data ew" "all_data (rx (s_net s)) \<longrightarrow> all_data er"
    unfolding ns_joined_def by blast
  have "ns_peers_at L R u v ((ns_fin c ew fw hw ow iw)\<lparr>s_done := True\<rparr>) ((ns_fin s er fr hr orr ir)\<lparr>s_done := True\<rparr>)"
    using j assms by (simp add: ns_peers_at_def ns_live_def ns_fin_def)
  moreover have "ns_Fingerprint L ((ns_fin c ew fw hw ow iw)\<lparr>s_done := True\<rparr>) =
      ns_Fingerprint L ((ns_fin s er fr hr orr ir)\<lparr>s_done := True\<rparr>)"
    using j by (simp add: ns_Fingerprint_def ns_fin_def)
  ultimately show ?thesis unfolding x y by (simp add: ns_fin_def)
qed

lemma ns_handshake_accept_eq:
  assumes "new_handshake L (cfg\<lparr>cfg_prologue := buildPrologue (s_neg_data c) (s_prologue c)\<rparr>) = Inr hs"
  shows "ns_handshake_accept L cfg c =
    ns_finish (ns_hs_loop L (pat_messages (cfg_pattern cfg)) (s_client c) True hs c)"
  using assms
  by (cases "ns_hs_loop L (pat_messages (cfg_pattern cfg)) (s_client c) True hs c" rule: ns_finish.cases)
    (simp_all add: ns_handshake_accept_def)

section \<open>The Accept-only handshake\<close>

lemma ns_accept_both:
  fixes L :: "('hs, 'cs) noise_lib"
  assumes "handshake_pair L R P" "cipher_pair L R" "length nd \<le> MaxMessageLen"
    and "new_handshake L (cfgc\<lparr>cfg_prologue := buildPrologue nd app\<rparr>) = Inr hc"
    and "new_handshake L (cfgs\<lparr>cfg_prologue := buildPrologue nd app\<rparr>) = Inr hs" "P (Suc k) hc hs"
    and "pat_messages (cfg_pattern cfgc) = Suc k" "pat_messages (cfg_pattern cfgs) = Suc k"
    and "all_data ec" "avail ec = concat (map (frameBytes []) (odds (honest L (Suc k) hc hs))) @ x"
    and "all_data es" "avail es = concat (neg_frames nd (evens (honest L (Suc k) hc hs))) @ y"
  shows "\<exists>c s. ns_Handshake L (ns_Client (fresh_net ec) cfgc nd app) = (c, None) \<and>
    ns_Handshake L (ns_Server (fresh_net es) cfgs nd app) = (s, None) \<and>
    ns_peers_at L R x y c s \<and> ns_Fingerprint L c = ns_Fingerprint L s \<and>
    tx (s_net c) = neg_frames nd (evens (honest L (Suc k) hc hs)) \<and>
    tx (s_net s) = map (frameBytes []) (odds (honest L (Suc k) hc hs))"
proof -
  let ?c = "ns_Client (fresh_net ec) cfgc nd app :: ('hs, 'cs) ns_conn"
  let ?s = "ns_Server (fresh_net es) cfgs nd app :: ('hs, 'cs) ns_conn"
  note d = ns_Client_def ns_Server_def ns_new_def
  have "ns_joined L R ?c ?s (neg_frames nd (evens (honest L (Suc k) hc hs)))
      (map (frameBytes []) (odds (honest L (Suc k) hc hs))) x y
      (ns_hs_loop L (Suc k) True True hc ?c) (ns_hs_loop L (Suc k) False True hs ?s)"
    by (rule ns_hs_loop_pair [OF assms(1,6)]) (use assms in \<open>simp_all add: d\<close>, simp_all add: fresh_net_def)
  from ns_joined_peers [OF this assms(2)] assms(9,11) obtain c s where
    "ns_finish (ns_hs_loop L (Suc k) True True hc ?c) = (c, None)"
    "ns_finish (ns_hs_loop L (Suc k) False True hs ?s) = (s, None)"
    "ns_peers_at L R x y c s" "ns_Fingerprint L c = ns_Fingerprint L s"
    "tx (s_net c) = neg_frames nd (evens (honest L (Suc k) hc hs))"
    "tx (s_net s) = map (frameBytes []) (odds (honest L (Suc k) hc hs))"
    by (auto simp: d fresh_net_def net_ok_def)
  with ns_handshake_accept_eq [of L ?c cfgc hc] ns_handshake_accept_eq [of L ?s cfgs hs] assms(4,5,7,8)
  show ?thesis by (simp add: ns_Handshake_def d del: ns_hs_loop.simps)
qed

text \<open>
  Two NoiseSocket ends with the same initial negotiation data that run the Accept-only
  handshake over each other's frames both complete it. They end as the peers of the data phase
  (cipher states in step both ways, nothing buffered or in flight) with the same fingerprint;
  only the client's first frame carries the negotiation data.
\<close>

theorem ns_accept_agreement:
  fixes L :: "('hs, 'cs) noise_lib"
  assumes "handshake_pair L R P" "cipher_pair L R" "length nd \<le> MaxMessageLen"
    and "new_handshake L (cfgc\<lparr>cfg_prologue := buildPrologue nd app\<rparr>) = Inr hc"
    and "new_handshake L (cfgs\<lparr>cfg_prologue := buildPrologue nd app\<rparr>) = Inr hs" "P (Suc k) hc hs"
    and "pat_messages (cfg_pattern cfgc) = Suc k" "pat_messages (cfg_pattern cfgs) = Suc k"
    and "all_data ec" "avail ec = concat (map (frameBytes []) (odds (honest L (Suc k) hc hs)))"
    and "all_data es" "avail es = concat (neg_frames nd (evens (honest L (Suc k) hc hs)))"
  shows "\<exists>c s. ns_Handshake L (ns_Client (fresh_net ec) cfgc nd app) = (c, None) \<and>
    ns_Handshake L (ns_Server (fresh_net es) cfgs nd app) = (s, None) \<and>
    ns_peers L R c s \<and> ns_Fingerprint L c = ns_Fingerprint L s \<and>
    tx (s_net c) = neg_frames nd (evens (honest L (Suc k) hc hs)) \<and>
    tx (s_net s) = map (frameBytes []) (odds (honest L (Suc k) hc hs))"
  by (rule ns_accept_both [OF assms(1-9) _ assms(11)]) (simp_all only: assms append_Nil2)

theorem ns_accept_agreement_witness:
  "\<exists>c s. ns_Handshake ex_lib (ns_Client (fresh_net [Data (frameBytes [] [1])]) (ex_config True) [5] []) = (c, None) \<and>
    ns_Handshake ex_lib (ns_Server (fresh_net [Data (frameBytes [5] [1])]) (ex_config False) [5] []) = (s, None) \<and>
    ns_peers ex_lib (=) c s \<and> tx (s_net c) = [frameBytes [5] [1]]"
proof -
  have 1: "new_handshake ex_lib (ex_config i\<lparr>cfg_prologue := p\<rparr>) = Inr 2"
    "pat_messages (cfg_pattern (ex_config i)) = Suc 1" for i p
    by (simp_all add: ex_lib_def ex_config_def zero_noise_config_def)
  have 2: "ex_pair (Suc 1) 2 2" by (simp add: ex_pair_def)
  have h: "honest ex_lib (Suc 1) 2 2 = [[1], [1]]" by (simp add: ex_lib_def numeral_2_eq_2)
  have l: "length [5 :: byte] \<le> MaxMessageLen" by (simp add: MaxMessageLen_def)
  from ns_accept_agreement [OF ex_handshake_pair ex_cipher_pair l 1(1) 1(1) 2 1(2) 1(2),
      of "[Data (frameBytes [] [1])]" "[Data (frameBytes [5] [1])]", unfolded h]
  show ?thesis by (simp add: 1) blast
qed

end
