(* ===== verification/NS_Safety.thy ===== *)
theory NS_Safety
  imports NS_Agreement
begin

text \<open>
  The negotiation layer of the NoiseSocket transport: both ends of an accepted proposal, of a
  retry and of a switch, run over each other's frames.
\<close>

section \<open>The shared loop is the loop of the Accept-only handshake\<close>

lemma driveFrom_loop_accept:
  "driveFrom_loop L m i ini hs [] c = ns_finish (ns_hs_loop L m ((i mod 2 = 0) = ini) False hs c)"
proof (induction m arbitrary: i hs c)
  case (Suc m)
  have t: "(Suc i mod 2 = 0) = (i mod 2 \<noteq> 0)" by presburger
  show ?case
  proof (cases "(i mod 2 = 0) = ini")
    case True
    then show ?thesis
      using Suc.IH [of "Suc i"] t
      by (auto simp: writeFrameAndRecord_def writeHandshakeFrame_def frameBytes_def Let_def
          split: prod.splits sum.splits option.splits)
  next
    case False
    then show ?thesis
      using Suc.IH [of "Suc i"] t by (auto split: prod.splits sum.splits)
  qed
qed simp

text \<open>The message read before the loop starts is the one the loop would have read itself.\<close>

lemma driveFrom_pending:
  assumes "readHandshakeFrame (s_net c) = (n, Inr (nd, msg))" "msg \<noteq> []" "(i mod 2 = 0) \<noteq> ini"
  shows "driveFrom_loop L (Suc m) i ini hs msg (c\<lparr>s_net := n\<rparr>) = ns_finish (ns_hs_loop L (Suc m) False False hs c)"
proof -
  have t: "((Suc i mod 2 = 0) = ini) = True" using assms(3) by (cases ini) (simp_all add: mod_Suc)
  show ?thesis
    using assms by (auto simp: driveFrom_loop_accept t split: prod.splits sum.splits simp del: One_nat_def)
qed

section \<open>An accepted proposal, both ends\<close>

lemma writeFrameAndRecord_ok:
  assumes "net_ok (s_net c)" "length neg \<le> MaxMessageLen" "length msg \<le> MaxMessageLen"
  shows "writeFrameAndRecord neg msg c =
    (c\<lparr>s_net := (s_net c)\<lparr>tx := tx (s_net c) @ [frameBytes neg msg]\<rparr>\<rparr>, Inr (frameBytes neg msg))"
  using assms by (simp add: writeFrameAndRecord_def Let_def)

text \<open>
  One attempt, with any number of attempts left and any transcript of earlier attempts: the
  initiator proposes \<open>p\<close>, the responder supports it, and from then on both run the ordinary loop.
\<close>

lemma negotiated_accept:
  assumes "handshake_pair L R P" "P (Suc (Suc k)) hi hr"
    and "build_config ni p True = Inr ci" "build_config nr p False = Inr cr"
    and "pat_messages (cfg_pattern ci) = Suc (Suc k)" "pat_messages (cfg_pattern cr) = Suc (Suc k)"
    and "newHS L ci (prologueWith c (encodeProposal p (app_data ni)) t) = Inr hi"
    and "newHS L cr (prologueWith s (encodeProposal p (app_data ni)) t) = Inr hr"
    and "supports p (supported nr)" "p \<noteq> []" "CHR '';'' \<notin> set p"
    and "length (encodeProposal p (app_data ni)) \<le> MaxMessageLen"
    and "net_ok (s_net c)" "net_ok (s_net s)" "s_client c" "\<not> s_client s"
    and "avail (rx (s_net c)) = concat (map (frameBytes []) (odds (honest L (Suc (Suc k)) hi hr))) @ u"
    and "avail (rx (s_net s)) = concat (neg_frames (encodeProposal p (app_data ni)) (evens (honest L (Suc (Suc k)) hi hr))) @ v"
  shows "\<exists>x y. negotiateInitiator_loop L ni (Suc a) p t c = ns_finish x \<and>
    negotiateResponder_loop L nr (Suc b) t s = ns_finish y \<and>
    ns_joined L R c s (neg_frames (encodeProposal p (app_data ni)) (evens (honest L (Suc (Suc k)) hi hr)))
      (map (frameBytes []) (odds (honest L (Suc (Suc k)) hi hr))) u v x y"
proof -
  let ?neg = "encodeProposal p (app_data ni)"
  from handshake_pairD [OF assms(1,2)] obtain hi' m0 hr' where
    h: "hs_write L hi = (hi', Inr (m0, None))" "hs_read L hr m0 = (hr', Inr None)"
      "m0 \<noteq> []" "length m0 \<le> max_msg_len"
      "honest L (Suc (Suc k)) hi hr = m0 # honest L (Suc k) hr' hi'"
    and P: "P (Suc k) hr' hi'"
    by (metis nat.distinct(1))
  from handshake_pairD [OF assms(1) P] obtain m1 ms where
    m1: "honest L (Suc k) hr' hi' = m1 # ms" "m1 \<noteq> []" "length m1 \<le> max_msg_len"
    by (metis)
  have le: "length m0 \<le> MaxMessageLen" "length m1 \<le> MaxMessageLen"
    using h(4) m1(3) by (simp_all add: max_msg_len_def MaxMessageLen_def)
  let ?c = "c\<lparr>s_net := (s_net c)\<lparr>tx := tx (s_net c) @ [frameBytes ?neg m0]\<rparr>\<rparr>"
  have open_c: "\<not> net_closed (s_net ?c)" and open_s: "\<not> net_closed (s_net s)" using assms(13,14) by simp_all
  have "avail (rx (s_net ?c)) = frameBytes [] m1 @ concat (map (frameBytes []) (odds ms)) @ u"
    using assms(17) unfolding h(5) m1(1) by simp
  from readHandshakeFrame_ok [OF open_c this] le obtain n where n: "readHandshakeFrame (s_net ?c) = (n, Inr ([], m1))"
    by auto
  have init: "negotiateInitiator_loop L ni (Suc a) p t c = ns_finish (ns_hs_loop L (Suc k) False False hi' ?c)"
  proof -
    have "driveFrom L hi' (Suc (Suc k)) True 1 m1 (?c\<lparr>s_net := n\<rparr>) = ns_finish (ns_hs_loop L (Suc k) False False hi' ?c)"
      using driveFrom_pending [OF n m1(2), of 1 True L k hi'] by (simp add: driveFrom_def)
    then show ?thesis
      using assms(3,5,7,12,13) h(1) le n
      by (simp add: BuildConfig_def writeFrameAndRecord_ok init_react_def Let_def)
  qed
  have av: "avail (rx (s_net s)) = frameBytes ?neg m0 @ concat (map (frameBytes []) (odds (m1 # ms))) @ v"
    using assms(18) unfolding h(5) m1(1) by simp
  from readHandshakeFrame_ok [OF open_s av] le assms(12) obtain n' where
    n': "readHandshakeFrame (s_net s) = (n', Inr (?neg, m0))" by auto
  from ns_hs_loop_read [OF assms(14) av h(4,2), of False "Suc k"] assms(12) obtain es where
    rd: "ns_hs_loop L (Suc (Suc k)) False False hr s =
        ns_hs_loop L (Suc k) True False hr' (s\<lparr>s_net := (s_net s)\<lparr>rx := es\<rparr>\<rparr>)"
      "avail es = concat (map (frameBytes []) (odds (m1 # ms))) @ v"
      "all_data (rx (s_net s)) \<Longrightarrow> all_data es" by (auto simp: assign_opt_def)
  let ?s = "s\<lparr>s_net := (s_net s)\<lparr>rx := es\<rparr>\<rparr>"
  have resp: "negotiateResponder_loop L nr (Suc b) t s = ns_finish (ns_hs_loop L (Suc k) True False hr' ?s)"
  proof -
    have "driveFrom L hr (Suc (Suc k)) False 0 m0 (s\<lparr>s_net := n'\<rparr>) = ns_finish (ns_hs_loop L (Suc (Suc k)) False False hr s)"
      using driveFrom_pending [OF n' h(3), of 0 False L "Suc k" hr] by (simp add: driveFrom_def)
    moreover have "prologueWith (s\<lparr>s_net := n'\<rparr>) neg tr = prologueWith s neg tr" for neg tr
      by (simp add: prologueWith_def)
    ultimately show ?thesis
      using assms(4,6,8,9) n' rd(1) parse_proposal [OF assms(11,10), of "app_data ni"]
      by (simp add: BuildConfig_def Let_def)
  qed
  have "ns_joined L R ?s ?c (neg_frames [] (evens (m1 # ms))) (map (frameBytes []) (odds (m1 # ms))) v u
      (ns_hs_loop L (Suc k) True False hr' ?s) (ns_hs_loop L (Suc k) False False hi' ?c)"
    unfolding m1(1) [symmetric]
    by (rule ns_hs_loop_pair [OF assms(1) P])
      (use assms(13-16,17) rd(2) h(5) m1(1) in \<open>simp_all add: MaxMessageLen_def\<close>)
  from ns_joined_step [OF ns_joined_sym [OF this]] rd(3)
  have "ns_joined L R c s (neg_frames ?neg (evens (m0 # m1 # ms))) (map (frameBytes []) (odds (m0 # m1 # ms))) u v
      (ns_hs_loop L (Suc k) False False hi' ?c) (ns_hs_loop L (Suc k) True False hr' ?s)" by simp
  then show ?thesis unfolding init resp h(5) m1(1) by blast
qed

lemma ns_negotiated_both:
  fixes L :: "('hs, 'cs) noise_lib"
  assumes "handshake_pair L R P" "cipher_pair L R" "P (Suc (Suc k)) hi hr"
    and "build_config ni (proposed ni) True = Inr ci" "build_config nr (proposed ni) False = Inr cr"
    and "pat_messages (cfg_pattern ci) = Suc (Suc k)" "pat_messages (cfg_pattern cr) = Suc (Suc k)"
    and "neg = encodeProposal (proposed ni) (app_data ni)" "length neg \<le> MaxMessageLen"
    and "new_handshake L (ci\<lparr>cfg_prologue := buildPrologue neg app\<rparr>) = Inr hi"
    and "new_handshake L (cr\<lparr>cfg_prologue := buildPrologue neg app\<rparr>) = Inr hr"
    and "supports (proposed ni) (supported nr)" "proposed ni \<noteq> []" "CHR '';'' \<notin> set (proposed ni)"
    and "all_data ec" "avail ec = concat (map (frameBytes []) (odds (honest L (Suc (Suc k)) hi hr))) @ u"
    and "all_data es" "avail es = concat (neg_frames neg (evens (honest L (Suc (Suc k)) hi hr))) @ v"
  obtains c s where "ns_Handshake L (ClientWithNegotiation (fresh_net ec) ni app) = (c, None)"
    "ns_Handshake L (ServerWithNegotiation (fresh_net es) nr app) = (s, None)"
    "ns_peers_at L R u v c s" "ns_Fingerprint L c = ns_Fingerprint L s"
    "tx (s_net c) = neg_frames neg (evens (honest L (Suc (Suc k)) hi hr))"
    "tx (s_net s) = map (frameBytes []) (odds (honest L (Suc (Suc k)) hi hr))"
proof -
  let ?c = "ClientWithNegotiation (fresh_net ec) ni app :: ('hs, 'cs) ns_conn"
  let ?s = "ServerWithNegotiation (fresh_net es) nr app :: ('hs, 'cs) ns_conn"
  note d = ClientWithNegotiation_def ServerWithNegotiation_def ns_new_def
  have "\<exists>x y. negotiateInitiator_loop L ni (Suc 3) (proposed ni) [] ?c = ns_finish x \<and>
    negotiateResponder_loop L nr (Suc 3) [] ?s = ns_finish y \<and>
    ns_joined L R ?c ?s (neg_frames (encodeProposal (proposed ni) (app_data ni)) (evens (honest L (Suc (Suc k)) hi hr)))
      (map (frameBytes []) (odds (honest L (Suc (Suc k)) hi hr))) u v x y"
    by (rule negotiated_accept [OF assms(1,3,4,5,6,7)])
      (use assms in \<open>simp_all add: d newHS_def prologueWith_def\<close>, simp_all add: fresh_net_def)
  then obtain x y where xy: "negotiateInitiator_loop L ni (Suc 3) (proposed ni) [] ?c = ns_finish x"
    "negotiateResponder_loop L nr (Suc 3) [] ?s = ns_finish y"
    and j: "ns_joined L R ?c ?s (neg_frames (encodeProposal (proposed ni) (app_data ni)) (evens (honest L (Suc (Suc k)) hi hr)))
      (map (frameBytes []) (odds (honest L (Suc (Suc k)) hi hr))) u v x y" by blast
  from ns_joined_peers [OF j assms(2)] assms(15,17) obtain c s where
    "ns_finish x = (c, None)" "ns_finish y = (s, None)" "ns_peers_at L R u v c s" "ns_Fingerprint L c = ns_Fingerprint L s"
    "tx (s_net c) = neg_frames neg (evens (honest L (Suc (Suc k)) hi hr))"
    "tx (s_net s) = map (frameBytes []) (odds (honest L (Suc (Suc k)) hi hr))"
    unfolding assms(8) by (auto simp: d fresh_net_def net_ok_def)
  with xy show ?thesis
    by (intro that) (simp_all add: ns_Handshake_def handshakeNegotiated_def negotiateInitiator_def negotiateResponder_def
        maxNegAttempts_def d numeral_eq_Suc)
qed

text \<open>
  Negotiated handshake, both ends: an initiator whose proposal the responder supports
  completes the handshake with it, at the first attempt and in both roles; the two ends become
  peers of the data phase with the same fingerprint, and each has sent exactly the frames the other
  one has read.
\<close>

theorem ns_negotiated_agreement:
  fixes L :: "('hs, 'cs) noise_lib"
  assumes "handshake_pair L R P" "cipher_pair L R" "P (Suc (Suc k)) hi hr"
    and "build_config ni (proposed ni) True = Inr ci" "build_config nr (proposed ni) False = Inr cr"
    and "pat_messages (cfg_pattern ci) = Suc (Suc k)" "pat_messages (cfg_pattern cr) = Suc (Suc k)"
    and "neg = encodeProposal (proposed ni) (app_data ni)" "length neg \<le> MaxMessageLen"
    and "new_handshake L (ci\<lparr>cfg_prologue := buildPrologue neg app\<rparr>) = Inr hi"
    and "new_handshake L (cr\<lparr>cfg_prologue := buildPrologue neg app\<rparr>) = Inr hr"
    and "supports (proposed ni) (supported nr)" "proposed ni \<noteq> []" "CHR '';'' \<notin> set (proposed ni)"
    and "all_data ec" "avail ec = concat (map (frameBytes []) (odds (honest L (Suc (Suc k)) hi hr)))"
    and "all_data es" "avail es = concat (neg_frames neg (evens (honest L (Suc (Suc k)) hi hr)))"
  shows "\<exists>c s. ns_Handshake L (ClientWithNegotiation (fresh_net ec) ni app) = (c, None) \<and>
    ns_Handshake L (ServerWithNegotiation (fresh_net es) nr app) = (s, None) \<and>
    ns_peers L R c s \<and> ns_Fingerprint L c = ns_Fingerprint L s \<and>
    tx (s_net c) = neg_frames neg (evens (honest L (Suc (Suc k)) hi hr)) \<and>
    tx (s_net s) = map (frameBytes []) (odds (honest L (Suc (Suc k)) hi hr))"
  by (rule ns_negotiated_both [OF assms(1-15) _ assms(17), of "[]" "[]"]) (simp_all only: assms append_Nil2, blast)

definition ex_neg :: "string \<Rightarrow> string \<Rightarrow> string \<Rightarrow> negotiation" where
  "ex_neg prop sp pol = \<lparr>build_config = (\<lambda>p i. Inr (ex_config i)), app_data = [], proposed = prop,
     fallback = [''B''], supported = [sp], policy = pol\<rparr>"

lemma ex_new_handshake: "new_handshake ex_lib (ex_config i\<lparr>cfg_prologue := p\<rparr>) = Inr (Suc (Suc 0))"
  "pat_messages (cfg_pattern (ex_config i)) = Suc (Suc 0)"
  by (simp_all add: ex_lib_def ex_config_def zero_noise_config_def)

lemma ex_honest2: "honest ex_lib (Suc (Suc 0)) (Suc (Suc 0)) (Suc (Suc 0)) = [[1], [1]]"
  by (simp add: ex_lib_def)

lemma ex_encode_len: "length (encodeProposal [p] []) \<le> MaxMessageLen" "length (encodeResponse actRetry [p] []) \<le> MaxMessageLen"
  by (simp_all add: encodeProposal_def encodeResponse_def MaxMessageLen_def negVersion_def actRetry_def)

theorem ns_negotiated_agreement_witness:
  "\<exists>c s. ns_Handshake ex_lib (ClientWithNegotiation (fresh_net [Data (frameBytes [] [1])]) (ex_neg ''A'' ''A'' []) [9]) = (c, None) \<and>
    ns_Handshake ex_lib (ServerWithNegotiation (fresh_net [Data (frameBytes (encodeProposal ''A'' []) [1])]) (ex_neg ''A'' ''A'' []) [9]) = (s, None) \<and>
    ns_peers ex_lib (=) c s"
proof -
  have P: "ex_pair (Suc (Suc 0)) (Suc (Suc 0)) (Suc (Suc 0))" by (simp add: ex_pair_def)
  have n: "build_config (ex_neg ''A'' ''A'' []) (proposed (ex_neg ''A'' ''A'' [])) i = Inr (ex_config i)"
    "supports (proposed (ex_neg ''A'' ''A'' [])) (supported (ex_neg ''A'' ''A'' []))"
    "proposed (ex_neg ''A'' ''A'' []) \<noteq> []" "CHR '';'' \<notin> set (proposed (ex_neg ''A'' ''A'' []))"
    "encodeProposal ''A'' [] = encodeProposal (proposed (ex_neg ''A'' ''A'' [])) (app_data (ex_neg ''A'' ''A'' []))" for i
    by (simp_all add: ex_neg_def supports_def)
  have "\<exists>c s. ns_Handshake ex_lib (ClientWithNegotiation (fresh_net [Data (frameBytes [] [1])]) (ex_neg ''A'' ''A'' []) [9]) = (c, None) \<and>
    ns_Handshake ex_lib (ServerWithNegotiation (fresh_net [Data (frameBytes (encodeProposal ''A'' []) [1])]) (ex_neg ''A'' ''A'' []) [9]) = (s, None) \<and>
    ns_peers ex_lib (=) c s \<and> ns_Fingerprint ex_lib c = ns_Fingerprint ex_lib s \<and>
    tx (s_net c) = neg_frames (encodeProposal ''A'' []) (evens (honest ex_lib (Suc (Suc 0)) (Suc (Suc 0)) (Suc (Suc 0)))) \<and>
    tx (s_net s) = map (frameBytes []) (odds (honest ex_lib (Suc (Suc 0)) (Suc (Suc 0)) (Suc (Suc 0))))"
    by (rule ns_negotiated_agreement [OF ex_handshake_pair ex_cipher_pair P n(1) n(1) ex_new_handshake(2) ex_new_handshake(2)
          n(5) ex_encode_len(1) ex_new_handshake(1) ex_new_handshake(1) n(2,3,4)]) (simp_all add: ex_honest2 del: honest.simps)
  then show ?thesis by blast
qed

section \<open>A retry, both ends\<close>

lemma prologueWith_net [simp]: "prologueWith (c\<lparr>s_net := n\<rparr>) neg t = prologueWith c neg t"
  by (simp add: prologueWith_def)

lemma initiator_retry_step:
  assumes "build_config ni p True = Inr ci" "newHS L ci (prologueWith c (encodeProposal p (app_data ni)) t) = Inr h0"
    and "hs_write L h0 = (h0', Inr (x0, None))" "length x0 \<le> MaxMessageLen"
    and "length (encodeProposal p (app_data ni)) \<le> MaxMessageLen" "net_ok (s_net c)"
    and "avail (rx (s_net c)) = frameBytes (encodeResponse actRetry q []) [] @ rest"
    and "q \<noteq> []" "CHR '';'' \<notin> set q" "length (encodeResponse actRetry q []) \<le> MaxMessageLen"
    and "allowedProtocol q (proposed ni) (fallback ni)"
  obtains es where "negotiateInitiator_loop L ni (Suc a) p t c =
      negotiateInitiator_loop L ni a q
        (t @ frameBytes (encodeProposal p (app_data ni)) x0 @ frameBytes (encodeResponse actRetry q []) [])
        (c\<lparr>s_net := (s_net c)\<lparr>rx := es, tx := tx (s_net c) @ [frameBytes (encodeProposal p (app_data ni)) x0]\<rparr>\<rparr>)"
    "avail es = rest" "all_data (rx (s_net c)) \<Longrightarrow> all_data es"
proof -
  let ?c = "c\<lparr>s_net := (s_net c)\<lparr>tx := tx (s_net c) @ [frameBytes (encodeProposal p (app_data ni)) x0]\<rparr>\<rparr>"
  have "\<not> net_closed (s_net ?c)" "avail (rx (s_net ?c)) = frameBytes (encodeResponse actRetry q []) [] @ rest"
    using assms(6,7) by simp_all
  from readHandshakeFrame_ok [OF this assms(10)] obtain n where
    n: "readHandshakeFrame (s_net ?c) = (n, Inr (encodeResponse actRetry q [], []))" "n = (s_net ?c)\<lparr>rx := rx n\<rparr>"
      "avail (rx n) = rest" "all_data (rx (s_net ?c)) \<Longrightarrow> all_data (rx n)" by auto
  have ne: "encodeResponse actRetry q [] \<noteq> []" by (simp add: encodeResponse_def str_bytes_def)
  have "negotiateInitiator_loop L ni (Suc a) p t c = negotiateInitiator_loop L ni a q
        (t @ frameBytes (encodeProposal p (app_data ni)) x0 @ frameBytes (encodeResponse actRetry q []) []) (?c\<lparr>s_net := n\<rparr>)"
    using assms(1-6,8,9,11) n(1) ne parse_response [of actRetry q "[]"]
    by (simp add: BuildConfig_def writeFrameAndRecord_ok init_react_def Let_def actReject_def actRetry_def
        del: negotiateInitiator_loop.simps(2) add: negotiateInitiator_loop.simps(2) [of L ni a p])
  moreover have "?c\<lparr>s_net := n\<rparr> = c\<lparr>s_net := (s_net c)\<lparr>rx := rx n, tx := tx (s_net c) @ [frameBytes (encodeProposal p (app_data ni)) x0]\<rparr>\<rparr>"
    by (subst n(2)) simp
  ultimately show ?thesis using that n(3,4) by simp
qed

lemma responder_retry_step:
  assumes "net_ok (s_net s)" "avail (rx (s_net s)) = frameBytes (encodeProposal p d) x0 @ rest"
    and "length (encodeProposal p d) \<le> MaxMessageLen" "length x0 \<le> MaxMessageLen"
    and "p \<noteq> []" "CHR '';'' \<notin> set p" "\<not> supports p (supported nr)" "policy nr = ''retry''"
    and "supported nr = q # qs" "length (encodeResponse actRetry q []) \<le> MaxMessageLen"
  obtains es where "negotiateResponder_loop L nr (Suc b) t s =
      negotiateResponder_loop L nr b (t @ frameBytes (encodeProposal p d) x0 @ frameBytes (encodeResponse actRetry q []) [])
        (s\<lparr>s_net := (s_net s)\<lparr>rx := es, tx := tx (s_net s) @ [frameBytes (encodeResponse actRetry q []) []]\<rparr>\<rparr>)"
    "avail es = rest" "all_data (rx (s_net s)) \<Longrightarrow> all_data es"
proof -
  from assms(1) have "\<not> net_closed (s_net s)" by simp
  from readHandshakeFrame_ok [OF this assms(2-4)] obtain n where
    n: "readHandshakeFrame (s_net s) = (n, Inr (encodeProposal p d, x0))" "n = (s_net s)\<lparr>rx := rx n\<rparr>"
      "avail (rx n) = rest" "all_data (rx (s_net s)) \<Longrightarrow> all_data (rx n)" by auto
  have ok: "net_ok n" by (subst n(2)) (simp add: assms(1))
  let ?f = "frameBytes (encodeResponse actRetry q []) []"
  have tx: "tx n = tx (s_net s)" by (subst n(2)) simp
  have "negotiateResponder_loop L nr (Suc b) t s = negotiateResponder_loop L nr b (t @ frameBytes (encodeProposal p d) x0 @ ?f)
      (s\<lparr>s_net := n\<lparr>tx := tx n @ [?f]\<rparr>\<rparr>)"
    using assms(5-10) n(1) ok parse_proposal [OF assms(6,5), of d]
    by (simp add: resp_policy_def supported0_def writeFrameAndRecord_ok Let_def)
  moreover have "s\<lparr>s_net := n\<lparr>tx := tx n @ [?f]\<rparr>\<rparr> = s\<lparr>s_net := (s_net s)\<lparr>rx := rx n, tx := tx (s_net s) @ [?f]\<rparr>\<rparr>"
    unfolding tx by (subst n(2)) simp
  ultimately show ?thesis using that n(3,4) by simp
qed

text \<open>Both attempts, at both ends.\<close>

lemma ns_retry_both:
  fixes L :: "('hs, 'cs) noise_lib"
  assumes "handshake_pair L R P" "cipher_pair L R" "P (Suc (Suc k)) hi hr"
    and "p = proposed ni" "p \<noteq> []" "CHR '';'' \<notin> set p" "\<not> supports p (supported nr)"
    and "policy nr = ''retry''" "supported nr = q # qs" "q \<in> set (fallback ni)" "q \<noteq> []" "CHR '';'' \<notin> set q"
    and "neg0 = encodeProposal p (app_data ni)" "length neg0 \<le> MaxMessageLen"
    and "negr = encodeResponse actRetry q []" "length negr \<le> MaxMessageLen"
    and "neg1 = encodeProposal q (app_data ni)" "length neg1 \<le> MaxMessageLen"
    and "build_config ni p True = Inr c0" "new_handshake L (c0\<lparr>cfg_prologue := buildPrologue neg0 app\<rparr>) = Inr h0"
    and "hs_write L h0 = (h0', Inr (x0, None))" "length x0 \<le> MaxMessageLen"
    and "build_config ni q True = Inr ci" "build_config nr q False = Inr cr"
    and "pat_messages (cfg_pattern ci) = Suc (Suc k)" "pat_messages (cfg_pattern cr) = Suc (Suc k)"
    and "t = frameBytes neg0 x0 @ frameBytes negr []"
    and "new_handshake L (ci\<lparr>cfg_prologue := buildPrologue neg1 app @ t\<rparr>) = Inr hi"
    and "new_handshake L (cr\<lparr>cfg_prologue := buildPrologue neg1 app @ t\<rparr>) = Inr hr"
    and "all_data ec" "avail ec = frameBytes negr [] @ concat (map (frameBytes []) (odds (honest L (Suc (Suc k)) hi hr))) @ x"
    and "all_data es" "avail es = frameBytes neg0 x0 @ concat (neg_frames neg1 (evens (honest L (Suc (Suc k)) hi hr))) @ y"
  shows "\<exists>c s. ns_Handshake L (ClientWithNegotiation (fresh_net ec) ni app) = (c, None) \<and>
    ns_Handshake L (ServerWithNegotiation (fresh_net es) nr app) = (s, None) \<and>
    ns_peers_at L R x y c s \<and> ns_Fingerprint L c = ns_Fingerprint L s"
proof -
  let ?c = "ClientWithNegotiation (fresh_net ec) ni app :: ('hs, 'cs) ns_conn"
  let ?s = "ServerWithNegotiation (fresh_net es) nr app :: ('hs, 'cs) ns_conn"
  note d = ClientWithNegotiation_def ServerWithNegotiation_def ns_new_def
  have allow: "allowedProtocol q (proposed ni) (fallback ni)" using assms(10) by (simp add: allowedProtocol_def)
  have init: "s_net ?c = fresh_net ec" "s_net ?s = fresh_net es" "s_prologue ?c = app" "s_prologue ?s = app"
    "s_client ?c" "\<not> s_client ?s" "s_buf ?c = []" "s_buf ?s = []" "rx (fresh_net e) = e" for e
    by (simp_all add: d fresh_net_def)
  have pc: "newHS L c0 (prologueWith ?c (encodeProposal p (app_data ni)) []) = Inr h0"
    "length (encodeProposal p (app_data ni)) \<le> MaxMessageLen" "net_ok (s_net ?c)"
    "avail (rx (s_net ?c)) = frameBytes (encodeResponse actRetry q []) [] @
       concat (map (frameBytes []) (odds (honest L (Suc (Suc k)) hi hr))) @ x"
    "length (encodeResponse actRetry q []) \<le> MaxMessageLen"
    using assms(13-16,20,31) by (simp_all add: init newHS_def prologueWith_def del: honest.simps)
  from initiator_retry_step [OF assms(19) pc(1) assms(21,22) pc(2,3,4) assms(11,12) pc(5) allow, of 3]
  obtain ec' where c: "negotiateInitiator_loop L ni (Suc 3) p [] ?c =
      negotiateInitiator_loop L ni 3 q ([] @ frameBytes neg0 x0 @ frameBytes negr [])
        (?c\<lparr>s_net := (s_net ?c)\<lparr>rx := ec', tx := tx (s_net ?c) @ [frameBytes neg0 x0]\<rparr>\<rparr>)"
    "avail ec' = concat (map (frameBytes []) (odds (honest L (Suc (Suc k)) hi hr))) @ x"
    "all_data (rx (s_net ?c)) \<Longrightarrow> all_data ec'"
    unfolding assms(13,15) [symmetric] by blast
  have ps: "net_ok (s_net ?s)" "avail (rx (s_net ?s)) = frameBytes (encodeProposal p (app_data ni)) x0 @
       concat (neg_frames neg1 (evens (honest L (Suc (Suc k)) hi hr))) @ y"
    using assms(13,33) by (simp_all add: init del: honest.simps)
  from responder_retry_step [OF ps pc(2) assms(22,5,6,7,8,9) pc(5), of L 3 "[]"]
  obtain es' where s: "negotiateResponder_loop L nr (Suc 3) [] ?s =
      negotiateResponder_loop L nr 3 ([] @ frameBytes neg0 x0 @ frameBytes negr [])
        (?s\<lparr>s_net := (s_net ?s)\<lparr>rx := es', tx := tx (s_net ?s) @ [frameBytes negr []]\<rparr>\<rparr>)"
    "avail es' = concat (neg_frames neg1 (evens (honest L (Suc (Suc k)) hi hr))) @ y"
    "all_data (rx (s_net ?s)) \<Longrightarrow> all_data es'"
    unfolding assms(13,15) [symmetric] by blast
  let ?c1 = "?c\<lparr>s_net := (s_net ?c)\<lparr>rx := ec', tx := tx (s_net ?c) @ [frameBytes neg0 x0]\<rparr>\<rparr>"
  let ?s1 = "?s\<lparr>s_net := (s_net ?s)\<lparr>rx := es', tx := tx (s_net ?s) @ [frameBytes negr []]\<rparr>\<rparr>"
  have "\<exists>u v. negotiateInitiator_loop L ni (Suc 2) q t ?c1 = ns_finish u \<and>
    negotiateResponder_loop L nr (Suc 2) t ?s1 = ns_finish v \<and>
    ns_joined L R ?c1 ?s1 (neg_frames (encodeProposal q (app_data ni)) (evens (honest L (Suc (Suc k)) hi hr)))
      (map (frameBytes []) (odds (honest L (Suc (Suc k)) hi hr))) x y u v"
    by (rule negotiated_accept [OF assms(1,3,23,24,25,26)])
      (use assms c(2) s(2) in \<open>simp_all add: init newHS_def prologueWith_def supports_def\<close>)
  then obtain u v where uv: "negotiateInitiator_loop L ni (Suc 2) q t ?c1 = ns_finish u"
    "negotiateResponder_loop L nr (Suc 2) t ?s1 = ns_finish v"
    and j: "ns_joined L R ?c1 ?s1 (neg_frames (encodeProposal q (app_data ni)) (evens (honest L (Suc (Suc k)) hi hr)))
      (map (frameBytes []) (odds (honest L (Suc (Suc k)) hi hr))) x y u v" by blast
  from ns_joined_peers [OF j assms(2)] c(3) s(3) assms(30,32) obtain c s where
    "ns_finish u = (c, None)" "ns_finish v = (s, None)" "ns_peers_at L R x y c s" "ns_Fingerprint L c = ns_Fingerprint L s"
    by (auto simp: init)
  with uv c(1) s(1) assms(4,27) show ?thesis
    by (simp add: ns_Handshake_def handshakeNegotiated_def negotiateInitiator_def negotiateResponder_def
        maxNegAttempts_def d numeral_eq_Suc)
qed

text \<open>
  C5. Retry, both ends: the responder does not support the proposal and asks for its own first
  protocol \<open>q\<close>, which the initiator allows. Both ends then complete the handshake with \<open>q\<close>, at
  the second attempt, over a prologue that contains the transcript of the first one (the frame
  of the dead proposal and the retry frame), and end ready for data with matching ciphers and the same
  fingerprint, each with exactly the bytes \<open>x\<close>, \<open>y\<close> behind the handshake left.
\<close>

theorem ns_retry_agreement:
  fixes L :: "('hs, 'cs) noise_lib"
  assumes "handshake_pair L R P" "cipher_pair L R" "P (Suc (Suc k)) hi hr"
    and "p = proposed ni" "p \<noteq> []" "CHR '';'' \<notin> set p" "\<not> supports p (supported nr)"
    and "policy nr = ''retry''" "supported nr = q # qs" "q \<in> set (fallback ni)" "q \<noteq> []" "CHR '';'' \<notin> set q"
    and "neg0 = encodeProposal p (app_data ni)" "length neg0 \<le> MaxMessageLen"
    and "negr = encodeResponse actRetry q []" "length negr \<le> MaxMessageLen"
    and "neg1 = encodeProposal q (app_data ni)" "length neg1 \<le> MaxMessageLen"
    and "build_config ni p True = Inr c0" "new_handshake L (c0\<lparr>cfg_prologue := buildPrologue neg0 app\<rparr>) = Inr h0"
    and "hs_write L h0 = (h0', Inr (x0, None))" "length x0 \<le> MaxMessageLen"
    and "build_config ni q True = Inr ci" "build_config nr q False = Inr cr"
    and "pat_messages (cfg_pattern ci) = Suc (Suc k)" "pat_messages (cfg_pattern cr) = Suc (Suc k)"
    and "t = frameBytes neg0 x0 @ frameBytes negr []"
    and "new_handshake L (ci\<lparr>cfg_prologue := buildPrologue neg1 app @ t\<rparr>) = Inr hi"
    and "new_handshake L (cr\<lparr>cfg_prologue := buildPrologue neg1 app @ t\<rparr>) = Inr hr"
    and "all_data ec" "avail ec = frameBytes negr [] @ concat (map (frameBytes []) (odds (honest L (Suc (Suc k)) hi hr))) @ x"
    and "all_data es" "avail es = frameBytes neg0 x0 @ concat (neg_frames neg1 (evens (honest L (Suc (Suc k)) hi hr))) @ y"
  shows "\<exists>c s. ns_Handshake L (ClientWithNegotiation (fresh_net ec) ni app) = (c, None) \<and>
    ns_Handshake L (ServerWithNegotiation (fresh_net es) nr app) = (s, None) \<and>
    ns_peers_at L R x y c s \<and> ns_Fingerprint L c = ns_Fingerprint L s"
  by (rule ns_retry_both [OF assms])

theorem ns_retry_agreement_witness:
  "\<exists>c s. ns_Handshake ex_lib (ClientWithNegotiation
      (fresh_net [Data (frameBytes (encodeResponse actRetry ''B'' []) []), Data (frameBytes [] [1])]) (ex_neg ''A'' ''B'' ''retry'') [9]) = (c, None) \<and>
    ns_Handshake ex_lib (ServerWithNegotiation
      (fresh_net [Data (frameBytes (encodeProposal ''A'' []) [1]), Data (frameBytes (encodeProposal ''B'' []) [1])]) (ex_neg ''A'' ''B'' ''retry'') [9]) = (s, None) \<and>
    ns_peers ex_lib (=) c s"
proof -
  let ?n = "ex_neg ''A'' ''B'' ''retry''"
  have P: "ex_pair (Suc (Suc 0)) (Suc (Suc 0)) (Suc (Suc 0))" by (simp add: ex_pair_def)
  have n: "''A'' = proposed ?n" "\<not> supports ''A'' (supported ?n)" "policy ?n = ''retry''" "supported ?n = ''B'' # []"
    "''B'' \<in> set (fallback ?n)" "encodeProposal p [] = encodeProposal p (app_data ?n)"
    "build_config ?n p i = Inr (ex_config i)" for i p
    by (simp_all add: ex_neg_def supports_def)
  have w: "hs_write ex_lib (Suc (Suc 0)) = (Suc 0, Inr ([1], None))" "length [1 :: byte] \<le> MaxMessageLen"
    by (simp_all add: ex_lib_def MaxMessageLen_def)
  have "\<exists>c s. ns_Handshake ex_lib (ClientWithNegotiation
      (fresh_net [Data (frameBytes (encodeResponse actRetry ''B'' []) []), Data (frameBytes [] [1])]) ?n [9]) = (c, None) \<and>
    ns_Handshake ex_lib (ServerWithNegotiation
      (fresh_net [Data (frameBytes (encodeProposal ''A'' []) [1]), Data (frameBytes (encodeProposal ''B'' []) [1])]) ?n [9]) = (s, None) \<and>
    ns_peers ex_lib (=) c s \<and> ns_Fingerprint ex_lib c = ns_Fingerprint ex_lib s"
    by (rule ns_retry_agreement [OF ex_handshake_pair ex_cipher_pair P n(1) _ _ n(2,3,4,5) _ _ n(6) ex_encode_len(1)
          refl ex_encode_len(2) n(6) ex_encode_len(1) n(7) ex_new_handshake(1) w n(7) n(7) ex_new_handshake(2)
          ex_new_handshake(2) refl ex_new_handshake(1) ex_new_handshake(1)]) (simp_all add: ex_honest2 del: honest.simps)
  then show ?thesis by blast
qed

section \<open>A switch, both ends\<close>

text \<open>
  The two halves of a switch up to the point where both ends run the ordinary loop: the responder has
  written the first message of the new handshake, in which it is the one to start, and the initiator of
  the connection has read it.
\<close>

lemma responder_switch_step:
  assumes "net_ok (s_net s)" "avail (rx (s_net s)) = frameBytes (encodeProposal p d) x0 @ rest"
    and "length (encodeProposal p d) \<le> MaxMessageLen" "length x0 \<le> MaxMessageLen"
    and "p \<noteq> []" "CHR '';'' \<notin> set p" "\<not> supports p (supported nr)" "policy nr = ''switch''"
    and "supported nr = q # qs" "sw = encodeResponse actSwitch q []" "length sw \<le> MaxMessageLen"
    and "build_config nr q True = Inr cr" "pat_messages (cfg_pattern cr) = Suc m"
    and "newHS L cr (prologueWith s sw (t @ frameBytes (encodeProposal p d) x0)) = Inr hr"
    and "hs_write L hr = (hr', Inr (m0, None))" "length m0 \<le> MaxMessageLen"
  obtains es where "negotiateResponder_loop L nr (Suc b) t s =
      ns_finish (ns_hs_loop L m False False hr' (s\<lparr>s_net := (s_net s)\<lparr>rx := es, tx := tx (s_net s) @ [frameBytes sw m0]\<rparr>\<rparr>))"
    "avail es = rest" "all_data (rx (s_net s)) \<Longrightarrow> all_data es"
proof -
  from assms(1) have "\<not> net_closed (s_net s)" by simp
  from readHandshakeFrame_ok [OF this assms(2-4)] obtain n where
    n: "readHandshakeFrame (s_net s) = (n, Inr (encodeProposal p d, x0))" "n = (s_net s)\<lparr>rx := rx n\<rparr>"
      "avail (rx n) = rest" "all_data (rx (s_net s)) \<Longrightarrow> all_data (rx n)" by auto
  have ok: "net_ok n" by (subst n(2)) (simp add: assms(1))
  have tx: "tx n = tx (s_net s)" by (subst n(2)) simp
  let ?s = "s\<lparr>s_net := n\<lparr>tx := tx n @ [frameBytes sw m0]\<rparr>\<rparr>"
  have "negotiateResponder_loop L nr (Suc b) t s = driveFrom L hr' (Suc m) True 1 [] ?s"
    using assms(5-9,11-16) n(1) ok parse_proposal [OF assms(6,5), of d] assms(10)
    by (simp add: resp_policy_def supported0_def writeFrameAndRecord_ok BuildConfig_def Let_def prologueWith_def)
  moreover have "driveFrom L hr' (Suc m) True 1 [] ?s = ns_finish (ns_hs_loop L m False False hr' ?s)"
    using driveFrom_loop_accept [of L m 1 True hr' ?s] by (simp add: driveFrom_def)
  moreover have "?s = s\<lparr>s_net := (s_net s)\<lparr>rx := rx n, tx := tx (s_net s) @ [frameBytes sw m0]\<rparr>\<rparr>"
    unfolding tx by (subst n(2)) simp
  ultimately show ?thesis using that n(3,4) by simp
qed

lemma initiator_switch_step:
  assumes "build_config ni p True = Inr c0" "neg0 = encodeProposal p (app_data ni)"
    and "newHS L c0 (prologueWith c neg0 t) = Inr h0"
    and "hs_write L h0 = (h0', Inr (x0, None))" "length x0 \<le> MaxMessageLen" "length neg0 \<le> MaxMessageLen" "net_ok (s_net c)"
    and "avail (rx (s_net c)) = frameBytes sw m0 @ rest" "m0 \<noteq> []" "length m0 \<le> MaxMessageLen"
    and "sw = encodeResponse actSwitch q []" "q \<noteq> []" "CHR '';'' \<notin> set q" "length sw \<le> MaxMessageLen"
    and "allowedProtocol q (proposed ni) (fallback ni)"
    and "build_config ni q False = Inr ci" "pat_messages (cfg_pattern ci) = Suc m"
    and "newHS L ci (prologueWith c sw (t @ frameBytes neg0 x0)) = Inr hi"
  shows "negotiateInitiator_loop L ni (Suc a) p t c =
      ns_finish (ns_hs_loop L (Suc m) False False hi (c\<lparr>s_net := (s_net c)\<lparr>tx := tx (s_net c) @ [frameBytes neg0 x0]\<rparr>\<rparr>))"
proof -
  let ?c = "c\<lparr>s_net := (s_net c)\<lparr>tx := tx (s_net c) @ [frameBytes neg0 x0]\<rparr>\<rparr>"
  have "\<not> net_closed (s_net ?c)" "avail (rx (s_net ?c)) = frameBytes sw m0 @ rest"
    using assms(7,8) by simp_all
  from readHandshakeFrame_ok [OF this assms(14,10)] obtain n where
    n: "readHandshakeFrame (s_net ?c) = (n, Inr (sw, m0))" by auto
  have ne: "sw \<noteq> []" by (simp add: assms(11) encodeResponse_def str_bytes_def)
  have "negotiateInitiator_loop L ni (Suc a) p t c = driveFrom L hi (Suc m) False 0 m0 (?c\<lparr>s_net := n\<rparr>)"
    using assms(1,3-7,9,10,12-18) n ne parse_response [of actSwitch q "[]"] assms(2,11)
    by (simp add: BuildConfig_def writeFrameAndRecord_ok init_react_def Let_def actReject_def actRetry_def actSwitch_def prologueWith_def
        del: negotiateInitiator_loop.simps(2) add: negotiateInitiator_loop.simps(2) [of L ni a p])
  moreover have "driveFrom L hi (Suc m) False 0 m0 (?c\<lparr>s_net := n\<rparr>) = ns_finish (ns_hs_loop L (Suc m) False False hi ?c)"
    using driveFrom_pending [OF n assms(9), of 0 False L m hi] by (simp add: driveFrom_def)
  ultimately show ?thesis by simp
qed

text \<open>From there: the initiator reads that message, and the two ends take turns.\<close>

lemma switched_peers:
  assumes "handshake_pair L R P" "cipher_pair L R" "P (Suc k) hi' hr'"
    and "hs_read L hi m0 = (hi', Inr None)" "length m0 \<le> max_msg_len" "length nd \<le> MaxMessageLen"
    and "net_ok (s_net c)" "net_ok (s_net s)" "all_data (rx (s_net c))" "all_data (rx (s_net s))"
    and "s_buf c = []" "s_buf s = []" "s_client c" "\<not> s_client s"
    and "avail (rx (s_net c)) = frameBytes nd m0 @ concat (map (frameBytes []) (odds (honest L (Suc k) hi' hr'))) @ x"
    and "avail (rx (s_net s)) = concat (map (frameBytes []) (evens (honest L (Suc k) hi' hr'))) @ y"
  shows "\<exists>c' s'. ns_finish (ns_hs_loop L (Suc (Suc k)) False False hi c) = (c', None) \<and>
    ns_finish (ns_hs_loop L (Suc k) False False hr' s) = (s', None) \<and>
    ns_peers_at L R x y c' s' \<and> ns_Fingerprint L c' = ns_Fingerprint L s'"
proof -
  from ns_hs_loop_read [OF assms(7,15,5,4) _ assms(6), of False "Suc k"] obtain es where
    rd: "ns_hs_loop L (Suc (Suc k)) False False hi c = ns_hs_loop L (Suc k) True False hi' (c\<lparr>s_net := (s_net c)\<lparr>rx := es\<rparr>\<rparr>)"
      "avail es = concat (map (frameBytes []) (odds (honest L (Suc k) hi' hr'))) @ x" "all_data (rx (s_net c)) \<Longrightarrow> all_data es"
    by (auto simp: assign_opt_def simp del: ns_hs_loop.simps)
  let ?c = "c\<lparr>s_net := (s_net c)\<lparr>rx := es\<rparr>\<rparr>" and ?ms = "honest L (Suc k) hi' hr'"
  have "ns_joined L R ?c s (neg_frames [] (evens ?ms)) (map (frameBytes []) (odds ?ms)) x y
      (ns_hs_loop L (Suc k) True False hi' ?c) (ns_hs_loop L (Suc k) False False hr' s)"
    by (rule ns_hs_loop_pair [OF assms(1,3)]) (use assms rd(2) in simp_all)
  from ns_joined_peers [OF this assms(2)] rd assms(7-12) show ?thesis by auto
qed

text \<open>The switch, at both ends.\<close>

lemma ns_switch_both:
  fixes L :: "('hs, 'cs) noise_lib"
  assumes "handshake_pair L R P" "cipher_pair L R" "P (Suc (Suc k)) hr hi"
    and "p = proposed ni" "p \<noteq> []" "CHR '';'' \<notin> set p" "\<not> supports p (supported nr)"
    and "policy nr = ''switch''" "supported nr = q # qs" "q \<in> set (fallback ni)" "q \<noteq> []" "CHR '';'' \<notin> set q"
    and "neg0 = encodeProposal p (app_data ni)" "length neg0 \<le> MaxMessageLen"
    and "sw = encodeResponse actSwitch q []" "length sw \<le> MaxMessageLen"
    and "build_config ni p True = Inr c0" "new_handshake L (c0\<lparr>cfg_prologue := buildPrologue neg0 app\<rparr>) = Inr h0"
    and "hs_write L h0 = (h0', Inr (x0, None))" "length x0 \<le> MaxMessageLen"
    and "build_config nr q True = Inr cr" "build_config ni q False = Inr ci"
    and "pat_messages (cfg_pattern cr) = Suc (Suc k)" "pat_messages (cfg_pattern ci) = Suc (Suc k)"
    and "new_handshake L (cr\<lparr>cfg_prologue := buildPrologue sw app @ frameBytes neg0 x0\<rparr>) = Inr hr"
    and "new_handshake L (ci\<lparr>cfg_prologue := buildPrologue sw app @ frameBytes neg0 x0\<rparr>) = Inr hi"
    and "all_data ec" "avail ec = concat (neg_frames sw (evens (honest L (Suc (Suc k)) hr hi))) @ x"
    and "all_data es" "avail es = frameBytes neg0 x0 @ concat (map (frameBytes []) (odds (honest L (Suc (Suc k)) hr hi))) @ y"
  shows "\<exists>c s. ns_Handshake L (ClientWithNegotiation (fresh_net ec) ni app) = (c, None) \<and>
    ns_Handshake L (ServerWithNegotiation (fresh_net es) nr app) = (s, None) \<and>
    ns_peers_at L R x y c s \<and> ns_Fingerprint L c = ns_Fingerprint L s"
proof -
  let ?c = "ClientWithNegotiation (fresh_net ec) ni app :: ('hs, 'cs) ns_conn"
  let ?s = "ServerWithNegotiation (fresh_net es) nr app :: ('hs, 'cs) ns_conn"
  note d = ClientWithNegotiation_def ServerWithNegotiation_def ns_new_def
  have allow: "allowedProtocol q (proposed ni) (fallback ni)" using assms(10) by (simp add: allowedProtocol_def)
  have init: "s_net ?c = fresh_net ec" "s_net ?s = fresh_net es" "s_prologue ?c = app" "s_prologue ?s = app"
    "s_client ?c" "\<not> s_client ?s" "s_buf ?c = []" "s_buf ?s = []" "rx (fresh_net e) = e" "net_ok (fresh_net e)" for e
    using net_ok_fresh by (simp_all add: d fresh_net_def)
  from handshake_pairD [OF assms(1,3)] obtain hr' m0 hi' where
    h: "hs_write L hr = (hr', Inr (m0, None))" "hs_read L hi m0 = (hi', Inr None)"
      "m0 \<noteq> []" "length m0 \<le> max_msg_len" "honest L (Suc (Suc k)) hr hi = m0 # honest L (Suc k) hi' hr'"
    and P: "P (Suc k) hi' hr'" by (metis nat.distinct(1))
  let ?ms = "honest L (Suc k) hi' hr'"
  have le: "length m0 \<le> MaxMessageLen" using h(4) by (simp add: max_msg_len_def MaxMessageLen_def)
  have av: "avail (rx (s_net ?c)) = frameBytes sw m0 @ concat (map (frameBytes []) (odds ?ms)) @ x"
    "avail (rx (s_net ?s)) = frameBytes (encodeProposal p (app_data ni)) x0 @ concat (map (frameBytes []) (evens ?ms)) @ y"
    using assms(28,30) assms(13) by (simp_all add: init h(5) del: honest.simps)
  have pr: "newHS L c0 (prologueWith ?c neg0 []) = Inr h0" "newHS L ci (prologueWith ?c sw ([] @ frameBytes neg0 x0)) = Inr hi"
    "newHS L cr (prologueWith ?s sw ([] @ frameBytes (encodeProposal p (app_data ni)) x0)) = Inr hr"
    using assms(18,25,26) assms(13) by (simp_all add: newHS_def prologueWith_def init)
  have ok: "net_ok (s_net ?c)" "net_ok (s_net ?s)" by (simp_all only: init)
  let ?c1 = "?c\<lparr>s_net := (s_net ?c)\<lparr>tx := tx (s_net ?c) @ [frameBytes neg0 x0]\<rparr>\<rparr>"
  have c: "negotiateInitiator_loop L ni (Suc 3) p [] ?c = ns_finish (ns_hs_loop L (Suc (Suc k)) False False hi ?c1)"
    by (rule initiator_switch_step [OF assms(17,13) pr(1) assms(19,20,14) ok(1) av(1) h(3) le assms(15,11,12,16) allow assms(22,24) pr(2)])
  from responder_switch_step [OF ok(2) av(2) assms(14) [unfolded assms(13)] assms(20,5,6,7,8,9,15,16,21,23) pr(3) h(1) le, of 3]
  obtain es' where s: "negotiateResponder_loop L nr (Suc 3) [] ?s = ns_finish (ns_hs_loop L (Suc k) False False hr'
      (?s\<lparr>s_net := (s_net ?s)\<lparr>rx := es', tx := tx (s_net ?s) @ [frameBytes sw m0]\<rparr>\<rparr>))"
    "avail es' = concat (map (frameBytes []) (evens ?ms)) @ y" "all_data (rx (s_net ?s)) \<Longrightarrow> all_data es'" by blast
  let ?s1 = "?s\<lparr>s_net := (s_net ?s)\<lparr>rx := es', tx := tx (s_net ?s) @ [frameBytes sw m0]\<rparr>\<rparr>"
  obtain c' s' where "ns_finish (ns_hs_loop L (Suc (Suc k)) False False hi ?c1) = (c', None)"
    "ns_finish (ns_hs_loop L (Suc k) False False hr' ?s1) = (s', None)" "ns_peers_at L R x y c' s'" "ns_Fingerprint L c' = ns_Fingerprint L s'"
    using switched_peers [OF assms(1,2) P h(2,4) assms(16), of ?c1 ?s1 x y] s(2,3) av(1) assms(27,29) ok init by auto
  with c s(1) assms(4) show ?thesis
    by (simp add: ns_Handshake_def handshakeNegotiated_def negotiateInitiator_def negotiateResponder_def
        maxNegAttempts_def d numeral_eq_Suc)
qed

text \<open>
  C6. Switch, both ends: the responder does not support the proposal and takes over with its own first
  protocol \<open>q\<close>, which the initiator allows. The roles of the Noise handshake are then reversed - the
  server of the connection starts it, with its first message in the frame that carries the switch - over
  a prologue that contains the dead proposal. Both ends complete it and are ready for data with matching
  ciphers and the same fingerprint, each with exactly the bytes \<open>x\<close>, \<open>y\<close> behind the handshake left.
\<close>

theorem ns_switch_agreement:
  fixes L :: "('hs, 'cs) noise_lib"
  assumes "handshake_pair L R P" "cipher_pair L R" "P (Suc (Suc k)) hr hi"
    and "p = proposed ni" "p \<noteq> []" "CHR '';'' \<notin> set p" "\<not> supports p (supported nr)"
    and "policy nr = ''switch''" "supported nr = q # qs" "q \<in> set (fallback ni)" "q \<noteq> []" "CHR '';'' \<notin> set q"
    and "neg0 = encodeProposal p (app_data ni)" "length neg0 \<le> MaxMessageLen"
    and "sw = encodeResponse actSwitch q []" "length sw \<le> MaxMessageLen"
    and "build_config ni p True = Inr c0" "new_handshake L (c0\<lparr>cfg_prologue := buildPrologue neg0 app\<rparr>) = Inr h0"
    and "hs_write L h0 = (h0', Inr (x0, None))" "length x0 \<le> MaxMessageLen"
    and "build_config nr q True = Inr cr" "build_config ni q False = Inr ci"
    and "pat_messages (cfg_pattern cr) = Suc (Suc k)" "pat_messages (cfg_pattern ci) = Suc (Suc k)"
    and "new_handshake L (cr\<lparr>cfg_prologue := buildPrologue sw app @ frameBytes neg0 x0\<rparr>) = Inr hr"
    and "new_handshake L (ci\<lparr>cfg_prologue := buildPrologue sw app @ frameBytes neg0 x0\<rparr>) = Inr hi"
    and "all_data ec" "avail ec = concat (neg_frames sw (evens (honest L (Suc (Suc k)) hr hi))) @ x"
    and "all_data es" "avail es = frameBytes neg0 x0 @ concat (map (frameBytes []) (odds (honest L (Suc (Suc k)) hr hi))) @ y"
  shows "\<exists>c s. ns_Handshake L (ClientWithNegotiation (fresh_net ec) ni app) = (c, None) \<and>
    ns_Handshake L (ServerWithNegotiation (fresh_net es) nr app) = (s, None) \<and>
    ns_peers_at L R x y c s \<and> ns_Fingerprint L c = ns_Fingerprint L s"
  by (rule ns_switch_both [OF assms])

theorem ns_switch_agreement_witness:
  "\<exists>c s. ns_Handshake ex_lib (ClientWithNegotiation
      (fresh_net [Data (frameBytes (encodeResponse actSwitch ''B'' []) [1] @ [9])]) (ex_neg ''A'' ''B'' ''switch'') [9]) = (c, None) \<and>
    ns_Handshake ex_lib (ServerWithNegotiation
      (fresh_net [Data (frameBytes (encodeProposal ''A'' []) [1]), Data (frameBytes [] [1])]) (ex_neg ''A'' ''B'' ''switch'') [9]) = (s, None) \<and>
    ns_peers_at ex_lib (=) [9] [] c s"
proof -
  let ?n = "ex_neg ''A'' ''B'' ''switch''"
  have P: "ex_pair (Suc (Suc 0)) (Suc (Suc 0)) (Suc (Suc 0))" by (simp add: ex_pair_def)
  have n: "''A'' = proposed ?n" "\<not> supports ''A'' (supported ?n)" "policy ?n = ''switch''" "supported ?n = ''B'' # []"
    "''B'' \<in> set (fallback ?n)" "encodeProposal p [] = encodeProposal p (app_data ?n)"
    "build_config ?n p i = Inr (ex_config i)" for i p
    by (simp_all add: ex_neg_def supports_def)
  have w: "hs_write ex_lib (Suc (Suc 0)) = (Suc 0, Inr ([1], None))" "length [1 :: byte] \<le> MaxMessageLen"
    by (simp_all add: ex_lib_def MaxMessageLen_def)
  have l: "length (encodeResponse actSwitch ''B'' []) \<le> MaxMessageLen"
    by (simp add: encodeResponse_def MaxMessageLen_def negVersion_def actSwitch_def)
  have "\<exists>c s. ns_Handshake ex_lib (ClientWithNegotiation
      (fresh_net [Data (frameBytes (encodeResponse actSwitch ''B'' []) [1] @ [9])]) ?n [9]) = (c, None) \<and>
    ns_Handshake ex_lib (ServerWithNegotiation
      (fresh_net [Data (frameBytes (encodeProposal ''A'' []) [1]), Data (frameBytes [] [1])]) ?n [9]) = (s, None) \<and>
    ns_peers_at ex_lib (=) [9] [] c s \<and> ns_Fingerprint ex_lib c = ns_Fingerprint ex_lib s"
    by (rule ns_switch_agreement [OF ex_handshake_pair ex_cipher_pair P n(1) _ _ n(2,3,4,5) _ _ n(6) ex_encode_len(1)
          refl l n(7) ex_new_handshake(1) w n(7) n(7) ex_new_handshake(2)
          ex_new_handshake(2) ex_new_handshake(1) ex_new_handshake(1)]) (simp_all add: ex_honest2 del: honest.simps)
  then show ?thesis by blast
qed

end
