(* ===== verification/NS_Guarantees.thy ===== *)
theory NS_Guarantees
  imports NS_Safety
begin

text \<open>
  What the negotiation layer guarantees against any peer: the configurations a side can use,
  the bound on the attempts, the injectivity of the chained prologue, the rejection both ends
  agree on, and the panic of a responder that has no supported protocol.
\<close>

section \<open>Only allowed protocols are ever configured\<close>

lemma init_react_allowed:
  assumes "\<forall>p \<in> insert (proposed n) (set (fallback n)). \<forall>i. build_config n p i = b p i"
  shows "init_react L (n\<lparr>build_config := b\<rparr>) k hs sf rn rm t c = init_react L n k hs sf rn rm t c"
  using assms by (auto simp: init_react_def allowedProtocol_def BuildConfig_def split: sum.splits)

lemma init_react_next:
  "init_react L n k hs sf rn rm t c = Inr (p, t') \<Longrightarrow> p \<in> insert (proposed n) (set (fallback n))"
  by (auto simp: init_react_def allowedProtocol_def split: sum.splits if_splits)

lemma initiator_loop_allowed:
  assumes "\<forall>p \<in> insert (proposed n) (set (fallback n)). \<forall>i. build_config n p i = b p i"
  shows "p \<in> insert (proposed n) (set (fallback n)) \<Longrightarrow>
    negotiateInitiator_loop L (n\<lparr>build_config := b\<rparr>) a p t c = negotiateInitiator_loop L n a p t c"
proof (induction a arbitrary: p t c)
  case (Suc a)
  have "BuildConfig (n\<lparr>build_config := b\<rparr>) p True = BuildConfig n p True"
    using assms Suc.prems by (auto simp: BuildConfig_def)
  then show ?case
    using Suc.IH
    by (auto dest!: init_react_next simp: init_react_allowed [OF assms] Let_def split: sum.splits prod.splits option.splits)
qed simp

text \<open>
  C8. Whatever the responder answers, the initiator never builds or runs a handshake
  configuration for a protocol other than the proposed one and its declared fallbacks: changing
  what every other protocol would be configured to changes nothing in the run.
\<close>

theorem initiator_uses_only_allowed:
  assumes "\<forall>p \<in> insert (proposed n) (set (fallback n)). \<forall>i. build_config n p i = b p i"
  shows "negotiateInitiator L (n\<lparr>build_config := b\<rparr>) c = negotiateInitiator L n c"
  using initiator_loop_allowed [OF assms insertI1] by (simp add: negotiateInitiator_def)

theorem initiator_uses_only_allowed_witness:
  "negotiateInitiator ex_lib ((ex_neg ''A'' ''C'' [])\<lparr>build_config :=
      (\<lambda>p i. if p = ''C'' then Inl (New ''no'') else Inr (ex_config i))\<rparr>)
      (ClientWithNegotiation (fresh_net [Data (frameBytes (encodeResponse actSwitch ''C'' []) [1])]) (ex_neg ''A'' ''C'' []) []) =
   negotiateInitiator ex_lib (ex_neg ''A'' ''C'' [])
      (ClientWithNegotiation (fresh_net [Data (frameBytes (encodeResponse actSwitch ''C'' []) [1])]) (ex_neg ''A'' ''C'' []) [])"
  by (rule initiator_uses_only_allowed) (simp add: ex_neg_def)

lemma resp_policy_supported:
  assumes "\<forall>p \<in> set (supported n). \<forall>i. build_config n p i = b p i"
  shows "resp_policy L (n\<lparr>build_config := b\<rparr>) p rf t c = resp_policy L n p rf t c"
proof -
  have "BuildConfig (n\<lparr>build_config := b\<rparr>) q i = BuildConfig n q i" if "supported0 n = Inr q" for q i
    using assms that by (auto simp: BuildConfig_def supported0_def split: list.splits)
  then show ?thesis
    by (auto simp: resp_policy_def supported0_def Let_def split: sum.splits prod.splits option.splits list.splits)
qed

text \<open>
  C10. Whatever the initiator proposes, the responder never builds or runs a handshake
  configuration for a protocol outside its own supported list, under any of the three policies.
\<close>

theorem responder_uses_only_supported:
  assumes "\<forall>p \<in> set (supported n). \<forall>i. build_config n p i = b p i"
  shows "negotiateResponder L (n\<lparr>build_config := b\<rparr>) c = negotiateResponder L n c"
proof -
  have "negotiateResponder_loop L (n\<lparr>build_config := b\<rparr>) a t c = negotiateResponder_loop L n a t c" for a t
  proof (induction a arbitrary: t c)
    case (Suc a)
    have "BuildConfig (n\<lparr>build_config := b\<rparr>) p i = BuildConfig n p i" if "supports p (supported n)" for p i
      using assms that by (simp add: BuildConfig_def supports_def)
    then show ?case
      using Suc.IH by (auto simp: resp_policy_supported [OF assms] Let_def split: sum.splits prod.splits)
  qed simp
  then show ?thesis by (simp add: negotiateResponder_def)
qed

theorem responder_uses_only_supported_witness:
  "negotiateResponder ex_lib ((ex_neg [] ''B'' ''switch'')\<lparr>build_config :=
      (\<lambda>p i. if p = ''A'' then Inl (New ''no'') else Inr (ex_config i))\<rparr>)
      (ServerWithNegotiation (fresh_net [Data (frameBytes (encodeProposal ''A'' []) [1])]) (ex_neg [] ''B'' ''switch'') []) =
   negotiateResponder ex_lib (ex_neg [] ''B'' ''switch'')
      (ServerWithNegotiation (fresh_net [Data (frameBytes (encodeProposal ''A'' []) [1])]) (ex_neg [] ''B'' ''switch'') [])"
  by (rule responder_uses_only_supported) (simp add: ex_neg_def)

section \<open>The number of attempts is bounded\<close>

lemma conn_write_grows: "conn_write b n = (n', e) \<Longrightarrow> length (tx n') \<le> Suc (length (tx n))"
  by (auto simp: conn_write_def split: if_splits list.splits option.splits)

lemma readHandshakeFrame_tx: "readHandshakeFrame n = (n', r) \<Longrightarrow> tx n' = tx n"
  using readLengthPrefixed_tx
  by (auto simp: readHandshakeFrame_def split: prod.splits sum.splits)

lemma writeFrame_grows:
  "writeFrameAndRecord neg msg c = (c', r) \<Longrightarrow> length (tx (s_net c')) \<le> Suc (length (tx (s_net c)))"
  by (auto simp: writeFrameAndRecord_def Let_def split: if_splits prod.splits option.splits dest: conn_write_grows)

lemma assign_opt_net [simp]: "s_net (assign_opt cs c) = s_net c"
  by (simp add: assign_opt_def assignCipherStates_def split: option.splits)

lemma driveFrom_grows:
  "driveFrom_loop L m i ini hs pend c = (c', e) \<Longrightarrow> length (tx (s_net c')) \<le> length (tx (s_net c)) + m"
proof (induction m arbitrary: i hs pend c)
  case (Suc m)
  then show ?case
    by (fastforce split: if_splits prod.splits sum.splits dest: writeFrame_grows readHandshakeFrame_tx)
qed auto

lemma driveFrom_bound:
  assumes "driveFrom L hs k ini i pend c = (c', e)" "k \<le> M"
  shows "length (tx (s_net c')) \<le> length (tx (s_net c)) + M"
  using driveFrom_grows [of L "k - i"] assms by (fastforce simp: driveFrom_def)

lemma BuildConfig_bound:
  assumes "\<forall>p i cfg. build_config n p i = Inr cfg \<longrightarrow> pat_messages (cfg_pattern cfg) \<le> M" "BuildConfig n p i = Inr cfg"
  shows "pat_messages (cfg_pattern cfg) \<le> M"
  using assms by (auto simp: BuildConfig_def)

lemma init_react_bound:
  assumes "\<forall>p i cfg. build_config n p i = Inr cfg \<longrightarrow> pat_messages (cfg_pattern cfg) \<le> M"
    and "init_react L n k hs sf rn rm t c = Inl (c', e)" "k \<le> M"
  shows "length (tx (s_net c')) \<le> length (tx (s_net c)) + M"
  using assms(2,3)
  by (auto simp: init_react_def dest: driveFrom_bound BuildConfig_bound [OF assms(1)]
      split: if_splits sum.splits)

lemma initiator_loop_bound:
  assumes "\<forall>p i cfg. build_config n p i = Inr cfg \<longrightarrow> pat_messages (cfg_pattern cfg) \<le> M"
  shows "negotiateInitiator_loop L n a p t c = (c', e) \<Longrightarrow> length (tx (s_net c')) \<le> length (tx (s_net c)) + a + M"
proof (induction a arbitrary: p t c)
  case (Suc a)
  show ?case
  proof (cases "\<exists>cfg hs hs' msg c1 sf n1 rn rm. BuildConfig n p True = Inr cfg \<and>
      newHS L cfg (prologueWith c (encodeProposal p (app_data n)) t) = Inr hs \<and> hs_write L hs = (hs', Inr (msg, None)) \<and>
      writeFrameAndRecord (encodeProposal p (app_data n)) msg c = (c1, Inr sf) \<and>
      readHandshakeFrame (s_net c1) = (n1, Inr (rn, rm))")
    case False
    with Suc.prems show ?thesis
      by (fastforce simp: Let_def split: sum.splits prod.splits option.splits
          dest: writeFrame_grows readHandshakeFrame_tx)
  next
    case True
    then obtain cfg hs hs' msg c1 sf n1 rn rm where s: "BuildConfig n p True = Inr cfg"
      "newHS L cfg (prologueWith c (encodeProposal p (app_data n)) t) = Inr hs" "hs_write L hs = (hs', Inr (msg, None))"
      "writeFrameAndRecord (encodeProposal p (app_data n)) msg c = (c1, Inr sf)"
      "readHandshakeFrame (s_net c1) = (n1, Inr (rn, rm))" by blast
    have g: "length (tx n1) \<le> Suc (length (tx (s_net c)))"
      using writeFrame_grows [OF s(4)] readHandshakeFrame_tx [OF s(5)] by simp
    show ?thesis
    proof (cases "init_react L n (pat_messages (cfg_pattern cfg)) hs' sf rn rm t (c1\<lparr>s_net := n1\<rparr>)")
      case (Inl r)
      with Suc.prems s have "r = (c', e)" by (simp add: Let_def)
      with Inl init_react_bound [OF assms _ BuildConfig_bound [OF assms s(1)]] g show ?thesis by fastforce
    next
      case (Inr r)
      obtain q t' where "r = (q, t')" by (cases r)
      with Suc.prems s Inr have "negotiateInitiator_loop L n a q t' (c1\<lparr>s_net := n1\<rparr>) = (c', e)"
        by (simp add: Let_def)
      from Suc.IH [OF this] g show ?thesis by simp
    qed
  qed
qed simp

lemma resp_policy_bound:
  assumes "\<forall>p i cfg. build_config n p i = Inr cfg \<longrightarrow> pat_messages (cfg_pattern cfg) \<le> M"
  shows "resp_policy L n p rf t c = Inl (c', e) \<Longrightarrow> length (tx (s_net c')) \<le> length (tx (s_net c)) + Suc M"
    and "resp_policy L n p rf t c = Inr (c', t') \<Longrightarrow> length (tx (s_net c')) \<le> Suc (length (tx (s_net c)))"
  by (fastforce simp: resp_policy_def Let_def split: if_splits sum.splits prod.splits option.splits
      dest: writeFrame_grows driveFrom_bound BuildConfig_bound [OF assms])+

lemma responder_loop_bound:
  assumes "\<forall>p i cfg. build_config n p i = Inr cfg \<longrightarrow> pat_messages (cfg_pattern cfg) \<le> M"
  shows "negotiateResponder_loop L n a t c = (c', e) \<Longrightarrow> length (tx (s_net c')) \<le> length (tx (s_net c)) + a + M"
proof (induction a arbitrary: t c)
  case (Suc a)
  show ?case
  proof (cases "\<exists>n1 ineg imsg pm c2 t2. readHandshakeFrame (s_net c) = (n1, Inr (ineg, imsg)) \<and> parseNeg ineg = Inr pm \<and>
      Action pm = [] \<and> \<not> supports (Proto pm) (supported n) \<and>
      resp_policy L n (Proto pm) (frameBytes ineg imsg) t (c\<lparr>s_net := n1\<rparr>) = Inr (c2, t2)")
    case False
    with Suc.prems show ?thesis
      by (fastforce simp: Let_def split: sum.splits prod.splits if_splits
          dest: readHandshakeFrame_tx driveFrom_bound BuildConfig_bound [OF assms] resp_policy_bound(1) [OF assms])
  next
    case True
    then obtain n1 ineg imsg pm c2 t2 where s: "readHandshakeFrame (s_net c) = (n1, Inr (ineg, imsg))"
      "parseNeg ineg = Inr pm" "Action pm = []" "\<not> supports (Proto pm) (supported n)"
      "resp_policy L n (Proto pm) (frameBytes ineg imsg) t (c\<lparr>s_net := n1\<rparr>) = Inr (c2, t2)" by blast
    with Suc.prems have "negotiateResponder_loop L n a t2 c2 = (c', e)" by (simp add: Let_def)
    from Suc.IH [OF this] resp_policy_bound(2) [OF assms s(5)] readHandshakeFrame_tx [OF s(1)]
    show ?thesis by simp
  qed
qed simp

text \<open>
  C11. A peer cannot keep a negotiation going: whatever it sends, in either role the handshake
  writes at most \<open>maxNegAttempts\<close> frames more than the longest configured pattern has messages.
\<close>

theorem negotiation_frames_bounded:
  assumes "\<forall>p i cfg. build_config n p i = Inr cfg \<longrightarrow> pat_messages (cfg_pattern cfg) \<le> M"
    and "handshakeNegotiated L n c = (c', e)"
  shows "length (tx (s_net c')) \<le> length (tx (s_net c)) + maxNegAttempts + M"
  using assms(2) initiator_loop_bound [OF assms(1)] responder_loop_bound [OF assms(1)]
  by (auto simp: handshakeNegotiated_def negotiateInitiator_def negotiateResponder_def split: if_splits)

theorem negotiation_frames_bounded_witness:
  "length (tx (s_net (fst (handshakeNegotiated ex_lib (ex_neg ''A'' ''B'' ''retry'')
     (ServerWithNegotiation (fresh_net (replicate 9 (Data (frameBytes (encodeProposal ''A'' []) [1])))) (ex_neg ''A'' ''B'' ''retry'') []))))) \<le> 6"
proof -
  let ?c = "ServerWithNegotiation (fresh_net (replicate 9 (Data (frameBytes (encodeProposal ''A'' []) [1])))) (ex_neg ''A'' ''B'' ''retry'') [] :: (nat, nat) ns_conn"
  have "\<forall>p i cfg. build_config (ex_neg ''A'' ''B'' ''retry'') p i = Inr cfg \<longrightarrow> pat_messages (cfg_pattern cfg) \<le> 2"
    by (auto simp: ex_neg_def ex_config_def zero_noise_config_def)
  from negotiation_frames_bounded [OF this prod.collapse [symmetric], of ex_lib ?c]
  have "length (tx (s_net (fst (handshakeNegotiated ex_lib (ex_neg ''A'' ''B'' ''retry'') ?c)))) \<le>
      length (tx (s_net ?c)) + maxNegAttempts + 2" .
  moreover have "tx (s_net ?c) = []" by (simp add: ServerWithNegotiation_def ns_new_def fresh_net_def)
  ultimately show ?thesis by (simp add: maxNegAttempts_def)
qed

section \<open>The prologue binds the whole negotiation\<close>

lemma frameBytes_inj:
  assumes "frameBytes n m @ r = frameBytes n' m' @ r'"
    and "length n \<le> MaxMessageLen" "length m \<le> MaxMessageLen" "length n' \<le> MaxMessageLen" "length m' \<le> MaxMessageLen"
  shows "n = n' \<and> m = m' \<and> r = r'"
proof -
  obtain x where x: "fresh_net [Data (frameBytes n m @ r)] = x" "\<not> net_closed x" "avail (rx x) = frameBytes n m @ r"
    by (simp add: fresh_net_def)
  from readHandshakeFrame_ok [OF x(2,3) assms(2,3)] obtain y where
    y: "readHandshakeFrame x = (y, Inr (n, m))" "avail (rx y) = r" by blast
  from readHandshakeFrame_ok [OF x(2) _ assms(4,5), of r'] assms(1) x(3) obtain z where
    "readHandshakeFrame x = (z, Inr (n', m'))" "avail (rx z) = r'" by auto
  with y show ?thesis by simp
qed

lemma frameBytes_nonempty: "frameBytes n m \<noteq> []"
  by (metis append_is_Nil_conv frameBytes_eq length_0_conv length_put16 zero_neq_numeral)

lemma transcript_inj:
  assumes "concat (map (\<lambda>(n, m). frameBytes n m) fs) = concat (map (\<lambda>(n, m). frameBytes n m) gs)"
    and "\<forall>(n, m) \<in> set fs \<union> set gs. length n \<le> MaxMessageLen \<and> length m \<le> MaxMessageLen"
  shows "fs = gs"
  using assms
proof (induction fs arbitrary: gs)
  case Nil
  then show ?case by (cases gs) (auto simp: frameBytes_nonempty)
next
  case (Cons f fs)
  obtain n m where f: "f = (n, m)" by (cases f)
  with Cons.prems(1) obtain n' m' gs' where g: "gs = (n', m') # gs'"
    by (cases gs) (auto simp: frameBytes_nonempty)
  have "frameBytes n m @ concat (map (\<lambda>(n, m). frameBytes n m) fs) = frameBytes n' m' @ concat (map (\<lambda>(n, m). frameBytes n m) gs')"
    using Cons.prems(1) by (simp add: f g)
  from frameBytes_inj [OF this] Cons.prems(2) have
    "n = n'" "m = m'" "concat (map (\<lambda>(n, m). frameBytes n m) fs) = concat (map (\<lambda>(n, m). frameBytes n m) gs')"
    by (auto simp: f g)
  with Cons.IH [of gs'] Cons.prems(2) show ?case by (auto simp: f g)
qed

text \<open>
  C7. Downgrade binding: the prologue of an attempt determines the attempt's negotiation data
  and the list of all frames of the earlier, dead attempts. Two ends with the same application
  prologue that saw different proposals, different answers or a different number of attempts
  (because somebody in the middle changed, dropped or added one) never hash the same prologue.
\<close>

theorem prologue_binds_negotiation:
  assumes "prologueWith c neg (concat (map (\<lambda>(n, m). frameBytes n m) fs)) =
      prologueWith s neg' (concat (map (\<lambda>(n, m). frameBytes n m) gs))"
    and "s_prologue c = s_prologue s" "length neg \<le> MaxMessageLen" "length neg' \<le> MaxMessageLen"
    and "\<forall>(n, m) \<in> set fs \<union> set gs. length n \<le> MaxMessageLen \<and> length m \<le> MaxMessageLen"
  shows "neg = neg' \<and> fs = gs"
proof -
  from assms(1,2) have e: "put16 (length neg) @ neg @ s_prologue s @ concat (map (\<lambda>(n, m). frameBytes n m) fs) =
      put16 (length neg') @ neg' @ s_prologue s @ concat (map (\<lambda>(n, m). frameBytes n m) gs)"
    by (simp add: prologueWith_def buildPrologue_def putUint16_def)
  then have h: "put16 (length neg) = put16 (length neg')" by (rule append_eq_append_conv [THEN iffD1, THEN conjunct1, rotated]) simp
  have "length neg < 65536" "length neg' < 65536" using assms(3,4) by (simp_all add: MaxMessageLen_def)
  with h have "length neg = length neg'" by (metis get16_put16)
  with e have "neg = neg'" "concat (map (\<lambda>(n, m). frameBytes n m) fs) = concat (map (\<lambda>(n, m). frameBytes n m) gs)"
    by auto
  with transcript_inj [OF _ assms(5)] show ?thesis by simp
qed

theorem prologue_binds_negotiation_witness:
  "prologueWith (ex_ns True) [1] (concat (map (\<lambda>(n, m). frameBytes n m) [([2], [3])])) =
   prologueWith (ex_ns False) [1] (concat (map (\<lambda>(n, m). frameBytes n m) [([2], [3])])) \<and> [([2 :: byte], [3 :: byte])] = [([2], [3])]"
proof -
  have 1: "s_prologue (ex_ns True) = s_prologue (ex_ns False)" by (simp add: ex_ns_def ns_new_def)
  then have 2: "prologueWith (ex_ns True) [1] t = prologueWith (ex_ns False) [1] t" for t
    by (simp add: prologueWith_def)
  have 3: "length [1 :: byte] \<le> MaxMessageLen"
    "\<forall>(n, m) \<in> set [([2 :: byte], [3 :: byte])] \<union> set [([2], [3])]. length n \<le> MaxMessageLen \<and> length m \<le> MaxMessageLen"
    by (simp_all add: MaxMessageLen_def)
  from prologue_binds_negotiation [OF 2 1 3(1) 3(1) 3(2)] 2 show ?thesis by blast
qed

section \<open>Rejection and the empty supported list\<close>

lemma fresh_frame:
  assumes "length neg \<le> MaxMessageLen" "length msg \<le> MaxMessageLen"
  obtains n where "readHandshakeFrame (fresh_net [Data (frameBytes neg msg)] \<lparr>tx := t\<rparr>) = (n, Inr (neg, msg))"
    "n = fresh_net (rx n) \<lparr>tx := t\<rparr>"
proof -
  have "\<not> net_closed (fresh_net [Data (frameBytes neg msg)] \<lparr>tx := t\<rparr>)"
    "avail (rx (fresh_net [Data (frameBytes neg msg)] \<lparr>tx := t\<rparr>)) = frameBytes neg msg @ []"
    by (simp_all add: fresh_net_def)
  from readHandshakeFrame_ok [OF this assms] obtain n where
    "readHandshakeFrame (fresh_net [Data (frameBytes neg msg)] \<lparr>tx := t\<rparr>) = (n, Inr (neg, msg))"
    "n = fresh_net [Data (frameBytes neg msg)] \<lparr>tx := t\<rparr>\<lparr>rx := rx n\<rparr>" by blast
  then show ?thesis by (intro that) (simp_all add: fresh_net_def)
qed

text \<open>
  C12. Rejection, both ends: a responder with the policy reject (or none) that does not support
  the proposal writes exactly one frame and fails with its reason; an initiator that reads that
  frame fails with the same reason, without trying another protocol.
\<close>

theorem ns_reject_both_ends:
  assumes "policy nr = [] \<or> policy nr = ''reject''" "p = proposed ni" "\<not> supports p (supported nr)"
    and "p \<noteq> []" "CHR '';'' \<notin> set p"
    and "length (encodeProposal p (app_data ni)) \<le> MaxMessageLen" "length x0 \<le> MaxMessageLen"
    and "rej = encodeResponse actReject [] (reject_reason p)" "length rej \<le> MaxMessageLen"
    and "build_config ni p True = Inr cfg" "newHS L cfg (buildPrologue (encodeProposal p (app_data ni)) app) = Inr h"
    and "hs_write L h = (h', Inr (x0, None))"
  shows "\<exists>c s. ns_Handshake L (ServerWithNegotiation (fresh_net [Data (frameBytes (encodeProposal p (app_data ni)) x0)]) nr app) =
      (s, Some (Errorf ''noisesocket: rejected initiator: %s'' [AStr (reject_reason p)])) \<and>
    tx (s_net s) = [frameBytes rej []] \<and>
    ns_Handshake L (ClientWithNegotiation (fresh_net [Data (frameBytes rej [])]) ni app) =
      (c, Some (Errorf ''noisesocket: peer rejected negotiation: %s'' [AStr (reject_reason p)])) \<and>
    tx (s_net c) = [frameBytes (encodeProposal p (app_data ni)) x0] \<and> \<not> s_done c \<and> \<not> s_done s"
proof -
  let ?neg = "encodeProposal p (app_data ni)"
  note d = ClientWithNegotiation_def ServerWithNegotiation_def ns_new_def
  have x0: "length ([] :: bytes) \<le> MaxMessageLen" by simp
  have semi: "CHR '';'' \<notin> set (reject_reason p)"
    using quote_no_semicolon [OF assms(5)] by (simp add: reject_reason_def)
  have pr: "parseNeg rej = Inr \<lparr>Action = actReject, Proto = [], Reason = reject_reason p, Data_ = []\<rparr>"
    unfolding assms(8) by (rule parse_response) (simp_all add: semi)
  have "net_ok (fresh_net e)" "tx (fresh_net e) = []" "s_prologue ((ServerWithNegotiation (fresh_net e) nr app)) = app" for e
    by (simp_all add: d fresh_net_def net_ok_def)
  from fresh_frame [OF assms(6,7), of "[]"] obtain n where
    n: "readHandshakeFrame (fresh_net [Data (frameBytes ?neg x0)]) = (n, Inr (?neg, x0))" "n = fresh_net (rx n)"
    by (auto simp: fresh_net_def)
  have ok: "net_ok n" "tx n = []" by (subst n(2), simp add: fresh_net_def net_ok_def)+
  have s: "ns_Handshake L (ServerWithNegotiation (fresh_net [Data (frameBytes ?neg x0)]) nr app) =
      ((ServerWithNegotiation (fresh_net [Data (frameBytes ?neg x0)]) nr app)\<lparr>s_net := n\<lparr>tx := [frameBytes rej []]\<rparr>\<rparr>,
       Some (Errorf ''noisesocket: rejected initiator: %s'' [AStr (reject_reason p)]))"
    using assms(1,3,8,9) n(1) ok parse_proposal [OF assms(5,4), of "app_data ni"]
    by (auto simp: ns_Handshake_def handshakeNegotiated_def negotiateResponder_def maxNegAttempts_def d
        numeral_eq_Suc resp_policy_def Let_def writeFrameAndRecord_ok)
  from fresh_frame [OF assms(9) x0, of "[frameBytes ?neg x0]"] obtain m where
    m: "readHandshakeFrame (fresh_net [Data (frameBytes rej [])] \<lparr>tx := [frameBytes ?neg x0]\<rparr>) = (m, Inr (rej, []))"
      "m = fresh_net (rx m) \<lparr>tx := [frameBytes ?neg x0]\<rparr>" by blast
  have tm: "tx m = [frameBytes ?neg x0]" by (subst m(2)) simp
  have ne: "rej \<noteq> []" unfolding assms(8) by (simp add: encodeResponse_def str_bytes_def)
  have fn: "net_ok (fresh_net e)" "tx (fresh_net e) = []" for e by (simp_all add: fresh_net_def net_ok_def)
  have c: "ns_Handshake L (ClientWithNegotiation (fresh_net [Data (frameBytes rej [])]) ni app) =
      ((ClientWithNegotiation (fresh_net [Data (frameBytes rej [])]) ni app)\<lparr>s_net := m\<rparr>,
       Some (Errorf ''noisesocket: peer rejected negotiation: %s'' [AStr (reject_reason p)]))"
    using assms(2,6,7,10,11,12) m(1) ne pr fn
    by (simp add: ns_Handshake_def handshakeNegotiated_def negotiateInitiator_def maxNegAttempts_def d
        numeral_eq_Suc Let_def writeFrameAndRecord_ok BuildConfig_def prologueWith_def init_react_def)
  show ?thesis unfolding s c using tm by (simp add: d)
qed

theorem ns_reject_both_ends_witness:
  "\<exists>c s. ns_Handshake ex_lib (ServerWithNegotiation (fresh_net [Data (frameBytes (encodeProposal ''A'' []) [1])]) (ex_neg [] ''B'' []) []) =
      (s, Some (Errorf ''noisesocket: rejected initiator: %s'' [AStr (reject_reason ''A'')])) \<and>
    ns_Handshake ex_lib (ClientWithNegotiation (fresh_net [Data (frameBytes (encodeResponse actReject [] (reject_reason ''A'')) [])]) (ex_neg ''A'' [] []) []) =
      (c, Some (Errorf ''noisesocket: peer rejected negotiation: %s'' [AStr (reject_reason ''A'')]))"
proof -
  have n: "policy (ex_neg [] ''B'' []) = [] \<or> policy (ex_neg [] ''B'' []) = ''reject''" "''A'' = proposed (ex_neg ''A'' [] [])"
    "\<not> supports ''A'' (supported (ex_neg [] ''B'' []))" "length (encodeProposal ''A'' (app_data (ex_neg ''A'' [] []))) \<le> MaxMessageLen"
    "build_config (ex_neg ''A'' [] []) ''A'' True = Inr (ex_config True)" "app_data (ex_neg ''A'' [] []) = []"
    by (simp_all add: ex_neg_def supports_def ex_encode_len)
  have r: "length (encodeResponse actReject [] (reject_reason ''A'')) \<le> MaxMessageLen"
    by (simp add: encodeResponse_def MaxMessageLen_def negVersion_def actReject_def reject_reason_def quote_def quote_char_def)
  have w: "hs_write ex_lib (Suc (Suc 0)) = (Suc 0, Inr ([1], None))" "length [1 :: byte] \<le> MaxMessageLen"
    "newHS ex_lib (ex_config True) q = Inr (Suc (Suc 0))" for q
    by (simp_all add: newHS_def ex_new_handshake, simp_all add: ex_lib_def MaxMessageLen_def)
  from ns_reject_both_ends [OF n(1,2,3) _ _ n(4) w(2) refl r n(5) w(3,1), of "[]"] n(6)
  show ?thesis by auto
qed

text \<open>
  A responder whose supported list is empty and whose policy is retry or switch crashes on
  the first well-formed proposal of any peer, before any authentication: the code indexes the
  first supported protocol.
\<close>

theorem ns_empty_supported_panics:
  assumes "supported nr = []" "policy nr \<in> {''retry'', ''switch''}"
    and "readHandshakeFrame (s_net c) = (n, Inr (ineg, imsg))" "parseNeg ineg = Inr pm" "Action pm = []"
  shows "negotiateResponder L nr c =
    (c\<lparr>s_net := n\<rparr>, Some (Panic ''index out of range [0] with length 0''))"
  using assms
  by (auto simp: negotiateResponder_def maxNegAttempts_def numeral_eq_Suc supports_def resp_policy_def supported0_def Let_def)

theorem ns_empty_supported_panics_witness:
  "\<exists>c. negotiateResponder ex_lib ((ex_neg [] [] ''retry'')\<lparr>supported := []\<rparr>)
      (ServerWithNegotiation (fresh_net [Data (frameBytes (encodeProposal ''A'' []) [1])]) (ex_neg [] [] ''retry'') []) =
    (c, Some (Panic ''index out of range [0] with length 0''))"
proof -
  have l: "length [1 :: byte] \<le> MaxMessageLen" by (simp add: MaxMessageLen_def)
  from fresh_frame [OF ex_encode_len(1) [of "CHR ''A''"] l, of "[]"] obtain n where
    n: "readHandshakeFrame (s_net (ServerWithNegotiation (fresh_net [Data (frameBytes (encodeProposal ''A'' []) [1])]) (ex_neg [] [] ''retry'') [] :: (nat, nat) ns_conn)) =
      (n, Inr (encodeProposal ''A'' [], [1]))"
    by (auto simp: fresh_net_def ServerWithNegotiation_def ns_new_def)
  have "parseNeg (encodeProposal ''A'' []) = Inr \<lparr>Action = [], Proto = ''A'', Reason = [], Data_ = []\<rparr>"
    by (rule parse_proposal) simp_all
  from ns_empty_supported_panics [OF _ _ n this, of "(ex_neg [] [] ''retry'')\<lparr>supported := []\<rparr>" ex_lib]
  show ?thesis by (simp add: ex_neg_def)
qed

end
