(* ===== verification/Crypto_Lib.thy ===== *)
theory Crypto_Lib
  imports Prelude
begin

text \<open>
  The cryptographic libraries behind the Bolt8 and WhatsApp transports (crypto/sha256,
  x/crypto/hkdf, an AEAD, and elliptic-curve keys) as parameters: records of functions. What
  the code relies on is \<open>crypto_ok\<close> (sizes, and that opening inverts sealing and accepts nothing
  else) and \<open>curve_ok\<close> (commutativity of the Diffie-Hellman product, serialisation of keys).
\<close>

section \<open>Hash, key derivation and authenticated encryption\<close>

record crypto =
  c_sha256 :: "bytes \<Rightarrow> bytes"
  c_hkdf :: "bytes \<Rightarrow> bytes \<Rightarrow> bytes"
  c_seal :: "bytes \<Rightarrow> bytes \<Rightarrow> bytes \<Rightarrow> bytes \<Rightarrow> bytes"
  c_open :: "bytes \<Rightarrow> bytes \<Rightarrow> bytes \<Rightarrow> bytes \<Rightarrow> bytes option"

text \<open>\<open>c_hkdf salt ikm\<close> is the first 64 bytes of HKDF-SHA256 with a nil info; the AEAD's arguments
  are the key, the nonce, the associated data and the text.\<close>

definition crypto_ok :: "crypto \<Rightarrow> bool" where
  "crypto_ok C \<longleftrightarrow>
     (\<forall>x. length (c_sha256 C x) = 32) \<and> (\<forall>s i. length (c_hkdf C s i) = 64) \<and>
     (\<forall>k n ad p. length (c_seal C k n ad p) = length p + 16) \<and>
     (\<forall>k n ad p. c_open C k n ad (c_seal C k n ad p) = Some p) \<and>
     (\<forall>k n ad c p. c_open C k n ad c = Some p \<longrightarrow> c = c_seal C k n ad p)"

lemma crypto_okD:
  assumes "crypto_ok C"
  shows "length (c_sha256 C x) = 32" "length (c_hkdf C s i) = 64"
    "length (c_seal C k n ad p) = length p + 16" "c_open C k n ad (c_seal C k n ad p) = Some p"
    "c_open C k n ad c = Some q \<Longrightarrow> c = c_seal C k n ad q"
  using assms by (auto simp: crypto_ok_def)

lemma crypto_open_length:
  "crypto_ok C \<Longrightarrow> c_open C k n ad c = Some p \<Longrightarrow> length c = length p + 16"
  using crypto_okD(3,5) by metis

section \<open>Keys on a curve\<close>

text \<open>\<open>dh_point a B\<close> is the affine point of the product, as two field values.\<close>

record ('sk, 'pk) curve =
  pub_of :: "'sk \<Rightarrow> 'pk"
  dh_point :: "'sk \<Rightarrow> 'pk \<Rightarrow> nat \<times> nat"
  ser_pub :: "'pk \<Rightarrow> bytes"
  parse_pub :: "bytes \<Rightarrow> (string, 'pk) sum"
  priv_of_bytes :: "bytes \<Rightarrow> 'sk"

definition curve_ok :: "('sk, 'pk) curve \<Rightarrow> bool" where
  "curve_ok E \<longleftrightarrow> (\<forall>a b. dh_point E a (pub_of E b) = dh_point E b (pub_of E a)) \<and>
     (\<forall>p. length (ser_pub E p) = 33 \<and> parse_pub E (ser_pub E p) = Inr p)"

text \<open>A fresh private key: the next entry of a script of what the entropy source yields.\<close>

fun generate_key :: "(string + 'sk) list \<Rightarrow> (string + 'sk) list \<times> 'sk res" where
  "generate_key [] = ([], Inl (New ''entropy exhausted''))"
| "generate_key (Inl e # r) = (r, Inl (New e))"
| "generate_key (Inr k # r) = (r, Inr k)"

text \<open>\<open>copy(dst[:], src)\<close> into a zeroed array of 32 bytes.\<close>

definition pad32 :: "bytes \<Rightarrow> bytes" where
  "pad32 b = take 32 b @ replicate (32 - length b) 0"

lemma pad32_id [simp]: "length b = 32 \<Longrightarrow> pad32 b = b"
  by (simp add: pad32_def)

section \<open>An instance\<close>

text \<open>Used only to show that the hypotheses can hold.\<close>

definition ex_crypto :: crypto where
  "ex_crypto = \<lparr>c_sha256 = (\<lambda>x. replicate 32 (word_of_nat (length x))),
     c_hkdf = (\<lambda>s i. replicate 64 (sum_list (s @ i))),
     c_seal = (\<lambda>k n ad p. p @ replicate 16 (sum_list (k @ n @ ad))),
     c_open = (\<lambda>k n ad c. if length c < 16 \<or> drop (length c - 16) c \<noteq> replicate 16 (sum_list (k @ n @ ad)) then None
        else Some (take (length c - 16) c))\<rparr>"

lemma ex_crypto_ok: "crypto_ok ex_crypto"
  by (auto simp: crypto_ok_def ex_crypto_def split: if_splits) (metis append_take_drop_id)

definition ex_curve :: "(byte, byte) curve" where
  "ex_curve = \<lparr>pub_of = (\<lambda>a. a), dh_point = (\<lambda>a b. (unat (a * b), unat (a + b))),
     ser_pub = (\<lambda>p. p # replicate 32 0),
     parse_pub = (\<lambda>b. if length b = 33 then Inr (hd b) else Inl ''invalid length''),
     priv_of_bytes = hd\<rparr>"

lemma ex_curve_ok: "curve_ok ex_curve"
  by (simp add: curve_ok_def ex_curve_def ac_simps)

end
