(* ===== verification/Bolt8.thy ===== *)
theory Bolt8
  imports Crypto_Lib Calls
begin

text \<open>
  The BOLT-8 transport (pkg/transport/bolt8): its primitives (primitives.go), the three acts of
  the handshake at both ends (handshake.go) and the connection with its rotating keys (conn.go).
  The record \<open>bolt_conn\<close> is the struct \<open>Conn\<close>; a \<open>[32]byte\<close> is a list of bytes, the counters
  keep their 64 bits. \<open>b_rand\<close> is the script of what \<open>GeneratePrivateKey\<close> returns.
\<close>

section \<open>Primitives\<close>

definition protocolName :: string where
  "protocolName = ''Noise_XK_secp256k1_ChaChaPoly_SHA256''"

definition bolt_prologue :: string where
  "bolt_prologue = ''lightning''"

definition macSize :: nat where
  "macSize = 16"

definition rekeyInterval :: "64 word" where
  "rekeyInterval = 1000"

definition bolt_MaxMessageLen :: nat where
  "bolt_MaxMessageLen = 65535"

definition mixHash :: "crypto \<Rightarrow> bytes \<Rightarrow> bytes \<Rightarrow> bytes" where
  "mixHash C h d = c_sha256 C (h @ d)"

definition hkdfExpand :: "crypto \<Rightarrow> bytes \<Rightarrow> bytes \<Rightarrow> bytes \<times> bytes" where
  "hkdfExpand C ck ikm = (let buf = c_hkdf C ck ikm in (take 32 buf, take 32 (drop 32 buf)))"

text \<open>\<open>x.Bytes()\<close>: the 32 bytes of a field value, the most significant one first.\<close>

fun be_bytes :: "nat \<Rightarrow> nat \<Rightarrow> bytes" where
  "be_bytes 0 x = []"
| "be_bytes (Suc k) x = be_bytes k (x div 256) @ [word_of_nat x]"

definition compressPoint :: "nat \<Rightarrow> nat \<Rightarrow> bytes" where
  "compressPoint x y = (if odd y then 3 else 2) # be_bytes 32 x"

definition bolt_ecdh :: "crypto \<Rightarrow> ('sk, 'pk) curve \<Rightarrow> 'sk \<Rightarrow> 'pk \<Rightarrow> bytes" where
  "bolt_ecdh C E priv pub = (let (x, y) = dh_point E priv pub in c_sha256 C (compressPoint x y))"

definition nonceLE :: "64 word \<Rightarrow> bytes" where
  "nonceLE n = replicate 4 0 @ map (\<lambda>i. ucast (drop_bit (8 * i) n)) [0..<8]"

text \<open>\<open>chacha20poly1305.New\<close> refuses a key that is not 32 bytes long.\<close>

definition encryptWithAD :: "crypto \<Rightarrow> bytes \<Rightarrow> 64 word \<Rightarrow> bytes \<Rightarrow> bytes \<Rightarrow> bytes res" where
  "encryptWithAD C key n ad plaintext =
     (if length key \<noteq> 32 then Inl (New ''chacha20poly1305: bad key length'')
      else Inr (c_seal C key (nonceLE n) ad plaintext))"

definition decryptWithAD :: "crypto \<Rightarrow> bytes \<Rightarrow> 64 word \<Rightarrow> bytes \<Rightarrow> bytes \<Rightarrow> bytes res" where
  "decryptWithAD C key n ad ciphertext =
     (if length key \<noteq> 32 then Inl (New ''chacha20poly1305: bad key length'')
      else case c_open C key (nonceLE n) ad ciphertext of
        None \<Rightarrow> Inl (New ''chacha20poly1305: message authentication failed'')
      | Some p \<Rightarrow> Inr p)"

definition initialState :: "crypto \<Rightarrow> bytes \<Rightarrow> bytes \<Rightarrow> bool \<Rightarrow> bytes \<times> bytes" where
  "initialState C localPub remotePub isInitiator =
     (let h0 = c_sha256 C (str_bytes protocolName);
          h1 = mixHash C h0 (str_bytes bolt_prologue)
      in (mixHash C h1 (if isInitiator then remotePub else localPub), h0))"

section \<open>Handshake\<close>

definition localStaticPub :: "('sk, 'pk) curve \<Rightarrow> 'sk \<Rightarrow> bytes" where
  "localStaticPub E priv = ser_pub E (pub_of E priv)"

definition bolt_ephemeral :: "'sk option \<Rightarrow> (string + 'sk) list \<Rightarrow> (string + 'sk) list \<times> 'sk res" where
  "bolt_ephemeral e r = (case e of
     Some k \<Rightarrow> (r, Inr k)
   | None \<Rightarrow> (case generate_key r of (r', x) \<Rightarrow> (r', wrap ''bolt8: generate ephemeral: %w'' [] x)))"

definition act_write :: "string \<Rightarrow> bytes \<Rightarrow> net \<Rightarrow> net \<times> unit res" where
  "act_write msg b n = (case conn_write b n of
     (n', Some e) \<Rightarrow> (n', Inl (Wrapf msg [] (Io e))) | (n', None) \<Rightarrow> (n', Inr ()))"

definition act_read :: "string \<Rightarrow> nat \<Rightarrow> net \<Rightarrow> net \<times> bytes res" where
  "act_read msg k n = (case readFull k n of
     (n', Inl e) \<Rightarrow> (n', Inl (Wrapf msg [] (Io e))) | (n', Inr b) \<Rightarrow> (n', Inr b))"

definition bolt_parse :: "('sk, 'pk) curve \<Rightarrow> string \<Rightarrow> bytes \<Rightarrow> 'pk res" where
  "bolt_parse E msg b = (case parse_pub E b of Inl e \<Rightarrow> Inl (Wrapf msg [] (New e)) | Inr p \<Rightarrow> Inr p)"

text \<open>
  The handshake in the pieces between its reads and writes, each a pure function of the running
  hash, chaining key and keys. Act 1, the initiator's side: the message, the hash and the
  chaining key after it.
\<close>

definition init_act1 :: "crypto \<Rightarrow> ('sk, 'pk) curve \<Rightarrow> 'pk \<Rightarrow> 'sk \<Rightarrow> (bytes \<times> bytes \<times> bytes) res" where
  "init_act1 C E rs e =
     (let (h0, ck0) = initialState C [] (ser_pub E rs) True;
          ePub = ser_pub E (pub_of E e);
          h1 = mixHash C h0 ePub;
          (ck1, k1) = hkdfExpand C ck0 (bolt_ecdh C E e rs)
      in attempt (encryptWithAD C k1 0 h1 []) (\<lambda>c.
           Inr ([0] @ ePub @ c, mixHash C h1 c, ck1)))"

text \<open>Acts 2 and 3, the initiator's side: from the 50 bytes of act 2 to the message of act 3,
  the final hash and chaining key.\<close>

definition init_act23 :: "crypto \<Rightarrow> ('sk, 'pk) curve \<Rightarrow> 'sk \<Rightarrow> 'sk \<Rightarrow> bytes \<Rightarrow> bytes \<Rightarrow> bytes \<Rightarrow>
    (bytes \<times> bytes \<times> bytes) res" where
  "init_act23 C E ls e buf h ck =
     (if buf ! 0 \<noteq> 0
      then Inl (Errorf ''bolt8: unsupported act 2 version 0x%02x'' [AInt (uint (buf ! 0))])
      else attempt (bolt_parse E ''bolt8: parse act 2 ephemeral: %w'' (take 33 (drop 1 buf))) (\<lambda>re.
        let h1 = mixHash C h (take 33 (drop 1 buf));
            (ck1, k2) = hkdfExpand C ck (bolt_ecdh C E e re)
        in attempt (wrap ''bolt8: decrypt act 2: %w'' [] (decryptWithAD C k2 0 h1 (take 16 (drop 34 buf)))) (\<lambda>_.
        let h2 = mixHash C h1 (take 16 (drop 34 buf))
        in attempt (encryptWithAD C k2 1 h2 (localStaticPub E ls)) (\<lambda>cStatic.
        let h3 = mixHash C h2 cStatic;
            (ck2, k3) = hkdfExpand C ck1 (bolt_ecdh C E ls re)
        in attempt (encryptWithAD C k3 0 h3 []) (\<lambda>tag.
        Inr ([0] @ cStatic @ tag, h3, ck2))))))"

definition runInitiator :: "crypto \<Rightarrow> ('sk, 'pk) curve \<Rightarrow> 'sk \<Rightarrow> 'pk \<Rightarrow> 'sk option \<Rightarrow> net \<times> (string + 'sk) list \<Rightarrow>
    (net \<times> (string + 'sk) list) \<times> (bytes \<times> bytes) res" where
  "runInitiator C E ls rs eph = (\<lambda>(n, r).
     case bolt_ephemeral eph r of
       (r', Inl e) \<Rightarrow> ((n, r'), Inl e)
     | (r', Inr e) \<Rightarrow>
         (case init_act1 C E rs e of
            Inl x \<Rightarrow> ((n, r'), Inl x)
          | Inr (act1, h, ck) \<Rightarrow>
              (case act_write ''bolt8: write act 1: %w'' act1 n of
                 (n1, Inl x) \<Rightarrow> ((n1, r'), Inl x)
               | (n1, Inr u) \<Rightarrow>
                   (case act_read ''bolt8: read act 2: %w'' 50 n1 of
                      (n2, Inl x) \<Rightarrow> ((n2, r'), Inl x)
                    | (n2, Inr buf) \<Rightarrow>
                        (case init_act23 C E ls e buf h ck of
                           Inl x \<Rightarrow> ((n2, r'), Inl x)
                         | Inr (act3, h', ck') \<Rightarrow>
                             (case act_write ''bolt8: write act 3: %w'' act3 n2 of
                                (n3, Inl x) \<Rightarrow> ((n3, r'), Inl x)
                              | (n3, Inr u') \<Rightarrow> ((n3, r'), Inr (ck', h'))))))))"

text \<open>The responder: reading act 1, making act 2, reading act 3.\<close>

definition resp_act1 :: "crypto \<Rightarrow> ('sk, 'pk) curve \<Rightarrow> 'sk \<Rightarrow> bytes \<Rightarrow> ('pk \<times> bytes \<times> bytes) res" where
  "resp_act1 C E ls buf =
     (if buf ! 0 \<noteq> 0
      then Inl (Errorf ''bolt8: unsupported act 1 version 0x%02x'' [AInt (uint (buf ! 0))])
      else attempt (bolt_parse E ''bolt8: parse act 1 ephemeral: %w'' (take 33 (drop 1 buf))) (\<lambda>re.
        let (h0, ck0) = initialState C (localStaticPub E ls) [] False;
            h1 = mixHash C h0 (take 33 (drop 1 buf));
            (ck1, k1) = hkdfExpand C ck0 (bolt_ecdh C E ls re)
        in attempt (wrap ''bolt8: decrypt act 1: %w'' [] (decryptWithAD C k1 0 h1 (take 16 (drop 34 buf)))) (\<lambda>_.
        Inr (re, mixHash C h1 (take 16 (drop 34 buf)), ck1))))"

definition resp_act2 :: "crypto \<Rightarrow> ('sk, 'pk) curve \<Rightarrow> 'sk \<Rightarrow> 'pk \<Rightarrow> bytes \<Rightarrow> bytes \<Rightarrow>
    (bytes \<times> bytes \<times> bytes \<times> bytes) res" where
  "resp_act2 C E e re h ck =
     (let ePub = ser_pub E (pub_of E e);
          h1 = mixHash C h ePub;
          (ck1, k2) = hkdfExpand C ck (bolt_ecdh C E e re)
      in attempt (encryptWithAD C k2 0 h1 []) (\<lambda>c. Inr ([0] @ ePub @ c, mixHash C h1 c, ck1, k2)))"

definition resp_act3 :: "crypto \<Rightarrow> ('sk, 'pk) curve \<Rightarrow> 'sk \<Rightarrow> bytes \<Rightarrow> bytes \<Rightarrow> bytes \<Rightarrow> bytes \<Rightarrow>
    ('pk \<times> bytes \<times> bytes) res" where
  "resp_act3 C E e buf h ck k2 =
     (if buf ! 0 \<noteq> 0
      then Inl (Errorf ''bolt8: unsupported act 3 version 0x%02x'' [AInt (uint (buf ! 0))])
      else attempt (wrap ''bolt8: decrypt act 3 static: %w'' [] (decryptWithAD C k2 1 h (take 49 (drop 1 buf)))) (\<lambda>rsBytes.
        if length rsBytes \<noteq> 33 then Inl (New ''bolt8: act 3 static key wrong length'')
        else attempt (bolt_parse E ''bolt8: parse act 3 static: %w'' rsBytes) (\<lambda>rs.
        let h1 = mixHash C h (take 49 (drop 1 buf));
            (ck1, k3) = hkdfExpand C ck (bolt_ecdh C E e rs)
        in attempt (wrap ''bolt8: decrypt act 3 tag: %w'' [] (decryptWithAD C k3 0 h1 (take 16 (drop 50 buf)))) (\<lambda>_.
        Inr (rs, h1, ck1)))))"

definition runResponder :: "crypto \<Rightarrow> ('sk, 'pk) curve \<Rightarrow> 'sk \<Rightarrow> 'sk option \<Rightarrow> net \<times> (string + 'sk) list \<Rightarrow>
    (net \<times> (string + 'sk) list) \<times> (bytes \<times> bytes \<times> 'pk) res" where
  "runResponder C E ls eph = (\<lambda>(n, r).
     case act_read ''bolt8: read act 1: %w'' 50 n of
       (n1, Inl x) \<Rightarrow> ((n1, r), Inl x)
     | (n1, Inr buf) \<Rightarrow>
         (case resp_act1 C E ls buf of
            Inl x \<Rightarrow> ((n1, r), Inl x)
          | Inr (re, h, ck) \<Rightarrow>
              (case bolt_ephemeral eph r of
                 (r', Inl x) \<Rightarrow> ((n1, r'), Inl x)
               | (r', Inr e) \<Rightarrow>
                   (case resp_act2 C E e re h ck of
                      Inl x \<Rightarrow> ((n1, r'), Inl x)
                    | Inr (act2, h2, ck2, k2) \<Rightarrow>
                        (case act_write ''bolt8: write act 2: %w'' act2 n1 of
                           (n2, Inl x) \<Rightarrow> ((n2, r'), Inl x)
                         | (n2, Inr u) \<Rightarrow>
                             (case act_read ''bolt8: read act 3: %w'' 66 n2 of
                                (n3, Inl x) \<Rightarrow> ((n3, r'), Inl x)
                              | (n3, Inr buf3) \<Rightarrow>
                                  (case resp_act3 C E e buf3 h2 ck2 k2 of
                                     Inl x \<Rightarrow> ((n3, r'), Inl x)
                                   | Inr (rs, h3, ck3) \<Rightarrow> ((n3, r'), Inr (ck3, h3, rs)))))))))"

section \<open>The connection\<close>

record ('sk, 'pk) bolt_conn =
  b_net :: net
  b_initiator :: bool
  b_static :: 'sk
  b_remote :: "'pk option"
  b_done :: bool
  b_sk :: bytes
  b_rk :: bytes
  b_sck :: bytes
  b_rck :: bytes
  b_sn :: "64 word"
  b_rn :: "64 word"
  b_hash :: bytes
  b_buf :: bytes
  b_rand :: "(string + 'sk) list"

definition zero32 :: bytes where
  "zero32 = replicate 32 0"

definition bolt_new :: "bool \<Rightarrow> net \<Rightarrow> 'sk \<Rightarrow> 'pk option \<Rightarrow> (string + 'sk) list \<Rightarrow> ('sk, 'pk) bolt_conn" where
  "bolt_new i n ls rs r = \<lparr>b_net = n, b_initiator = i, b_static = ls, b_remote = rs, b_done = False,
     b_sk = zero32, b_rk = zero32, b_sck = zero32, b_rck = zero32, b_sn = 0, b_rn = 0, b_hash = zero32,
     b_buf = [], b_rand = r\<rparr>"

definition bolt_Client :: "net \<Rightarrow> 'sk \<Rightarrow> 'pk option \<Rightarrow> (string + 'sk) list \<Rightarrow> ('sk, 'pk) bolt_conn" where
  "bolt_Client n ls rs r = bolt_new True n ls rs r"

definition bolt_Server :: "net \<Rightarrow> 'sk \<Rightarrow> (string + 'sk) list \<Rightarrow> ('sk, 'pk) bolt_conn" where
  "bolt_Server n ls r = bolt_new False n ls None r"

definition bolt_RemoteStatic :: "('sk, 'pk) bolt_conn \<Rightarrow> 'pk option" where
  "bolt_RemoteStatic c = b_remote c"

text \<open>The part of \<open>Handshake\<close> after a successful run: the split into the two directions.\<close>

definition bolt_split :: "crypto \<Rightarrow> bytes \<Rightarrow> ('sk, 'pk) bolt_conn \<Rightarrow> ('sk, 'pk) bolt_conn" where
  "bolt_split C ck c =
     (let (a, b) = hkdfExpand C ck [] in
      c\<lparr>b_sk := (if b_initiator c then a else b), b_rk := (if b_initiator c then b else a),
        b_sck := ck, b_rck := ck, b_done := True\<rparr>)"

definition bolt_Handshake :: "crypto \<Rightarrow> ('sk, 'pk) curve \<Rightarrow> ('sk, 'pk) bolt_conn \<Rightarrow>
    ('sk, 'pk) bolt_conn \<times> err option" where
  "bolt_Handshake C E c =
     (if b_done c then (c, None)
      else if b_initiator c then
        (case b_remote c of
           None \<Rightarrow> (c, Some (New ''bolt8: initiator missing remote static key''))
         | Some rs \<Rightarrow>
             (case runInitiator C E (b_static c) rs None (b_net c, b_rand c) of
                ((n, r), Inl e) \<Rightarrow> (c\<lparr>b_net := n, b_rand := r, b_hash := zero32\<rparr>, Some e)
              | ((n, r), Inr (ck, h)) \<Rightarrow>
                  (bolt_split C ck (c\<lparr>b_net := n, b_rand := r, b_hash := h\<rparr>), None)))
      else
        (case runResponder C E (b_static c) None (b_net c, b_rand c) of
           ((n, r), Inl e) \<Rightarrow> (c\<lparr>b_net := n, b_rand := r, b_hash := zero32\<rparr>, Some e)
         | ((n, r), Inr (ck, h, rs)) \<Rightarrow>
             (bolt_split C ck (c\<lparr>b_net := n, b_rand := r, b_hash := h, b_remote := Some rs\<rparr>), None)))"

definition bolt_Fingerprint :: "('sk, 'pk) bolt_conn \<Rightarrow> bytes" where
  "bolt_Fingerprint c = (if \<not> b_done c then zero32 else b_hash c)"

definition maybeRekeySend :: "crypto \<Rightarrow> ('sk, 'pk) bolt_conn \<Rightarrow> ('sk, 'pk) bolt_conn" where
  "maybeRekeySend C c =
     (if b_sn c < rekeyInterval then c
      else let (ck, k) = hkdfExpand C (b_sck c) (b_sk c) in c\<lparr>b_sck := ck, b_sk := k, b_sn := 0\<rparr>)"

definition maybeRekeyRecv :: "crypto \<Rightarrow> ('sk, 'pk) bolt_conn \<Rightarrow> ('sk, 'pk) bolt_conn" where
  "maybeRekeyRecv C c =
     (if b_rn c < rekeyInterval then c
      else let (ck, k) = hkdfExpand C (b_rck c) (b_rk c) in c\<lparr>b_rck := ck, b_rk := k, b_rn := 0\<rparr>)"

definition writeMessage :: "crypto \<Rightarrow> bytes \<Rightarrow> ('sk, 'pk) bolt_conn \<Rightarrow> ('sk, 'pk) bolt_conn \<times> err option" where
  "writeMessage C m c =
     (case encryptWithAD C (b_sk c) (b_sn c) [] (put16 (length m)) of
        Inl e \<Rightarrow> (c, Some e)
      | Inr lc \<Rightarrow>
          let c1 = c\<lparr>b_sn := b_sn c + 1\<rparr> in
          (case encryptWithAD C (b_sk c1) (b_sn c1) [] m of
             Inl e \<Rightarrow> (c1, Some e)
           | Inr pc \<Rightarrow>
               let c2 = c1\<lparr>b_sn := b_sn c1 + 1\<rparr> in
               (case conn_write (lc @ pc) (b_net c2) of
                  (n, Some e) \<Rightarrow> (c2\<lparr>b_net := n\<rparr>, Some (Io e))
                | (n, None) \<Rightarrow> (maybeRekeySend C (c2\<lparr>b_net := n\<rparr>), None))))"

function bolt_write_loop :: "crypto \<Rightarrow> nat \<Rightarrow> bytes \<Rightarrow> ('sk, 'pk) bolt_conn \<Rightarrow>
    ('sk, 'pk) bolt_conn \<times> nat \<times> err option" where
  "bolt_write_loop C sent p c =
     (if p = [] then (c, sent, None)
      else
        let n = (if bolt_MaxMessageLen < length p then bolt_MaxMessageLen else length p) in
        case writeMessage C (take n p) c of
          (c', Some e) \<Rightarrow> (c', sent, Some e)
        | (c', None) \<Rightarrow> bolt_write_loop C (sent + n) (drop n p) c')"
  by pat_completeness auto
termination
  by (relation "measure (\<lambda>(C, sent, p, c). length p)") (auto simp: bolt_MaxMessageLen_def split: if_splits)

declare bolt_write_loop.simps [simp del]

definition bolt_Write :: "crypto \<Rightarrow> ('sk, 'pk) curve \<Rightarrow> bytes \<Rightarrow> ('sk, 'pk) bolt_conn \<Rightarrow>
    ('sk, 'pk) bolt_conn \<times> nat \<times> err option" where
  "bolt_Write C E p c =
     (case bolt_Handshake C E c of
        (c', Some e) \<Rightarrow> (c', 0, Some e)
      | (c', None) \<Rightarrow> bolt_write_loop C 0 p c')"

text \<open>\<open>Read\<close> after the handshake, for a non-empty argument and an empty read buffer: one frame.\<close>

definition bolt_read_frame :: "crypto \<Rightarrow> nat \<Rightarrow> ('sk, 'pk) bolt_conn \<Rightarrow> ('sk, 'pk) bolt_conn \<times> bytes res" where
  "bolt_read_frame C k c =
     (case readFull (2 + macSize) (b_net c) of
        (n, Inl e) \<Rightarrow> (c\<lparr>b_net := n\<rparr>, Inl (Io e))
      | (n, Inr lc) \<Rightarrow>
          (case decryptWithAD C (b_rk c) (b_rn c) [] lc of
             Inl e \<Rightarrow> (c\<lparr>b_net := fst (conn_close n)\<rparr>, Inl (Wrapf ''bolt8: decrypt length: %w'' [] e))
           | Inr lenPlain \<Rightarrow>
               if length lenPlain < 2 then (c\<lparr>b_net := n, b_rn := b_rn c + 1\<rparr>, Inl (Panic ''index out of range''))
               else
                 let c1 = c\<lparr>b_rn := b_rn c + 1\<rparr>; bodyLen = get16 (lenPlain ! 0) (lenPlain ! 1) in
                 (case readFull (bodyLen + macSize) n of
                    (n', Inl e) \<Rightarrow> (c1\<lparr>b_net := n'\<rparr>, Inl (Io e))
                  | (n', Inr body) \<Rightarrow>
                      (case decryptWithAD C (b_rk c1) (b_rn c1) [] body of
                         Inl e \<Rightarrow> (c1\<lparr>b_net := fst (conn_close n')\<rparr>, Inl (Wrapf ''bolt8: decrypt body: %w'' [] e))
                       | Inr plaintext \<Rightarrow>
                           ((maybeRekeyRecv C (c1\<lparr>b_net := n', b_rn := b_rn c1 + 1\<rparr>))\<lparr>b_buf := drop k plaintext\<rparr>,
                            Inr (take k plaintext))))))"

definition bolt_Read :: "crypto \<Rightarrow> ('sk, 'pk) curve \<Rightarrow> nat \<Rightarrow> ('sk, 'pk) bolt_conn \<Rightarrow>
    ('sk, 'pk) bolt_conn \<times> bytes res" where
  "bolt_Read C E k c0 =
     (case bolt_Handshake C E c0 of
        (c, Some e) \<Rightarrow> (c, Inl e)
      | (c, None) \<Rightarrow>
          if k = 0 then (c, Inr [])
          else if b_buf c \<noteq> [] then (c\<lparr>b_buf := drop k (b_buf c)\<rparr>, Inr (take k (b_buf c)))
          else bolt_read_frame C k c)"

definition bolt_Close :: "('sk, 'pk) bolt_conn \<Rightarrow> ('sk, 'pk) bolt_conn \<times> io_err option" where
  "bolt_Close c = (let (n, e) = conn_close (b_net c) in (c\<lparr>b_net := n\<rparr>, e))"

definition bolt_CloseWrite :: "('sk, 'pk) bolt_conn \<Rightarrow> ('sk, 'pk) bolt_conn \<times> io_err option" where
  "bolt_CloseWrite c = (let (n, e) = close_write (b_net c) in (c\<lparr>b_net := n\<rparr>, e))"

end
