(* ===== verification/Bolt8_Conn.thy ===== *)
theory Bolt8_Conn
  imports Bolt8
begin

text \<open>
  The BOLT-8 connection as a stream: its record layer (two sealed pieces per frame, keys rotated
  when the nonce reaches the interval) interprets \<open>live_framed_conn\<close>; then the schedule of the
  rotation and what a manipulated frame does.
\<close>

section \<open>Frames\<close>

type_synonym bolt_key = "bytes \<times> bytes \<times> 64 word"

text \<open>A direction's state: key, chaining key and nonce.\<close>

definition bolt_rekey :: "crypto \<Rightarrow> bolt_key \<Rightarrow> bolt_key" where
  "bolt_rekey C = (\<lambda>(k, ck, n).
     if n < rekeyInterval then (k, ck, n)
     else let (ck', k') = hkdfExpand C ck k in (k', ck', 0))"

definition bolt_frame :: "crypto \<Rightarrow> bolt_key \<Rightarrow> bytes \<Rightarrow> bytes" where
  "bolt_frame C = (\<lambda>(k, ck, n) m.
     c_seal C k (nonceLE n) [] (put16 (length m)) @ c_seal C k (nonceLE (n + 1)) [] m)"

definition bolt_enc :: "crypto \<Rightarrow> bolt_key \<Rightarrow> bytes \<Rightarrow> (bolt_key \<times> bytes) option" where
  "bolt_enc C = (\<lambda>(k, ck, n) m.
     if length k \<noteq> 32 then None else Some (bolt_rekey C (k, ck, n + 2), bolt_frame C (k, ck, n) m))"

definition bolt_dec :: "crypto \<Rightarrow> bolt_key \<Rightarrow> bytes \<Rightarrow> (bolt_key \<times> bytes \<times> bytes) option" where
  "bolt_dec C = (\<lambda>(k, ck, n) w.
     if length k \<noteq> 32 \<or> length w < 18 then None
     else case c_open C k (nonceLE n) [] (take 18 w) of
       None \<Rightarrow> None
     | Some lp \<Rightarrow>
         if length lp < 2 \<or> length (drop 18 w) < get16 (lp ! 0) (lp ! 1) + 16 then None
         else map_option (\<lambda>p. (bolt_rekey C (k, ck, n + 2), p, drop (get16 (lp ! 0) (lp ! 1) + 16) (drop 18 w)))
           (c_open C k (nonceLE (n + 1)) [] (take (get16 (lp ! 0) (lp ! 1) + 16) (drop 18 w))))"

definition bolt_sync :: "crypto \<Rightarrow> bolt_key \<Rightarrow> bolt_key \<Rightarrow> bool" where
  "bolt_sync C k d \<longleftrightarrow> crypto_ok C \<and> k = d"

definition bolt_out :: "('sk, 'pk) bolt_conn \<Rightarrow> bolt_key" where
  "bolt_out c = (b_sk c, b_sck c, b_sn c)"

definition bolt_in :: "('sk, 'pk) bolt_conn \<Rightarrow> bolt_key" where
  "bolt_in c = (b_rk c, b_rck c, b_rn c)"

definition bolt_feed :: "read_event list \<Rightarrow> ('sk, 'pk) bolt_conn \<Rightarrow> ('sk, 'pk) bolt_conn" where
  "bolt_feed es c = c\<lparr>b_net := feed_net es (b_net c)\<rparr>"

lemma bolt_dec_enc:
  assumes "bolt_sync C k d" "length p \<le> bolt_MaxMessageLen" "bolt_enc C k p = Some (k', w)"
  shows "\<exists>d'. bolt_dec C d w = Some (d', p, []) \<and> bolt_sync C k' d'"
proof -
  obtain key ck n where k: "k = (key, ck, n)" by (cases k)
  from assms(1) have C: "crypto_ok C" and d: "d = k" by (auto simp: bolt_sync_def)
  obtain a b where ab: "put16 (length p) = [a, b]" "get16 a b = length p"
    using put16_cases [of "length p"] assms(2) by (auto simp: bolt_MaxMessageLen_def)
  have len: "length (c_seal C key (nonceLE n) [] (put16 (length p))) = 18"
    by (simp add: crypto_okD(3) [OF C])
  from assms(3) have w: "length key = 32" "w = bolt_frame C (key, ck, n) p" "k' = bolt_rekey C (key, ck, n + 2)"
    by (auto simp: k bolt_enc_def split: if_splits)
  show ?thesis
    using C len ab unfolding d k w(2,3)
    by (simp add: bolt_dec_def bolt_frame_def w(1) crypto_okD(3,4) bolt_sync_def)
qed

lemma bolt_dec_append:
  "bolt_dec C d w = Some (d', p, rest) \<Longrightarrow> bolt_dec C d (w @ x) = Some (d', p, rest @ x)"
  by (auto simp: bolt_dec_def split: prod.splits if_splits option.splits)

section \<open>Write and Read\<close>

lemma maybeRekeySend_out: "bolt_out (maybeRekeySend C c) = bolt_rekey C (bolt_out c)"
  by (simp add: bolt_out_def maybeRekeySend_def bolt_rekey_def split: prod.splits)

lemma maybeRekeySend_same [simp]:
  "b_net (maybeRekeySend C c) = b_net c" "b_done (maybeRekeySend C c) = b_done c"
  "bolt_in (maybeRekeySend C c) = bolt_in c" "b_buf (maybeRekeySend C c) = b_buf c"
  by (simp_all add: bolt_in_def maybeRekeySend_def split: prod.splits)

lemma maybeRekeyRecv_in: "bolt_in (maybeRekeyRecv C c) = bolt_rekey C (bolt_in c)"
  by (simp add: bolt_in_def maybeRekeyRecv_def bolt_rekey_def split: prod.splits)

lemma maybeRekeyRecv_same [simp]:
  "b_net (maybeRekeyRecv C c) = b_net c" "b_done (maybeRekeyRecv C c) = b_done c"
  "bolt_out (maybeRekeyRecv C c) = bolt_out c"
  by (simp_all add: bolt_out_def maybeRekeyRecv_def split: prod.splits)

lemma writeMessage_spec:
  assumes "writeMessage C m c = (c', None)"
  shows "bolt_enc C (bolt_out c) m = Some (bolt_out c', bolt_frame C (bolt_out c) m) \<and>
    tx (b_net c') = tx (b_net c) @ [bolt_frame C (bolt_out c) m] \<and> rx (b_net c') = rx (b_net c) \<and>
    net_closed (b_net c') = net_closed (b_net c) \<and> b_done c' = b_done c \<and> bolt_in c' = bolt_in c \<and> b_buf c' = b_buf c"
proof -
  let ?f = "bolt_frame C (bolt_out c) m"
  from assms obtain n where n: "conn_write ?f (b_net c) = (n, None)" and k: "length (b_sk c) = 32"
    and c': "c' = maybeRekeySend C (c\<lparr>b_sn := b_sn c + 2, b_net := n\<rparr>)"
    by (auto simp: writeMessage_def encryptWithAD_def bolt_frame_def bolt_out_def add.assoc Let_def
        split: if_splits prod.splits option.splits)
  show ?thesis
    using conn_write_ok [OF n] conn_write_rx [OF n] k unfolding c'
    by (simp add: bolt_enc_def maybeRekeySend_out) (simp add: bolt_out_def bolt_in_def)
qed

lemma writeMessage_stop:
  assumes "writeMessage C m c = (c', Some e)" "m \<noteq> []" "length m \<le> bolt_MaxMessageLen"
  shows "b_done c' = b_done c \<and> bolt_in c' = bolt_in c \<and> b_buf c' = b_buf c \<and> rx (b_net c') = rx (b_net c) \<and>
    (\<exists>t. concat (tx (b_net c')) = concat (tx (b_net c)) @ t \<and> cut_frame (bolt_enc C) bolt_MaxMessageLen (bolt_out c) t)"
proof (cases "length (b_sk c) = 32")
  case True
  let ?f = "bolt_frame C (bolt_out c) m"
  from assms(1) True obtain n x where n: "conn_write ?f (b_net c) = (n, Some x)" and c': "c' = c\<lparr>b_sn := b_sn c + 2, b_net := n\<rparr>"
    by (auto simp: writeMessage_def encryptWithAD_def bolt_frame_def bolt_out_def add.assoc Let_def
        split: if_splits prod.splits option.splits)
  have "\<exists>k'. bolt_enc C (bolt_out c) m = Some (k', ?f)" using True by (simp add: bolt_enc_def bolt_out_def)
  then obtain k' where "bolt_enc C (bolt_out c) m = Some (k', ?f)" by blast
  from cut_frame_write [of ?f "b_net c" n x m bolt_MaxMessageLen "bolt_enc C", OF n assms(2,3) this] conn_write_rx [OF n] c'
  show ?thesis by (simp add: bolt_in_def)
next
  case False
  with assms(1) show ?thesis by (auto simp: writeMessage_def encryptWithAD_def intro!: exI [of _ "[]"])
qed

abbreviation bolt_keeps :: "('sk, 'pk) bolt_conn \<Rightarrow> bolt_key \<times> bytes \<times> read_event list" where
  "bolt_keeps c \<equiv> (bolt_in c, b_buf c, rx (b_net c))"

interpretation boltw: fragment_writer "bolt_write_loop C" "writeMessage C" "bolt_enc C" bolt_MaxMessageLen b_done bolt_out bolt_keeps b_net for C
proof (unfold_locales, goal_cases)
  case 1
  show ?case by (simp add: bolt_MaxMessageLen_def)
next
  case (2 n p c)
  have "take (if bolt_MaxMessageLen < length p then bolt_MaxMessageLen else length p) p = take bolt_MaxMessageLen p"
    "drop (if bolt_MaxMessageLen < length p then bolt_MaxMessageLen else length p) p = drop bolt_MaxMessageLen p"
    "(if bolt_MaxMessageLen < length p then bolt_MaxMessageLen else length p) = length (take bolt_MaxMessageLen p)" by auto
  then show ?case by (subst bolt_write_loop.simps, simp only:) (auto simp: Let_def split: prod.splits option.splits)
next
  case (3 c p c')
  from writeMessage_spec [OF 3(4)] 3(1) show ?case by simp
next
  case (4 c p c' e)
  from writeMessage_stop [OF 4(4,2,3)] 4(1) show ?case by simp
qed

lemma bolt_Write_loop: "b_done a \<Longrightarrow> bolt_Write C E p a = bolt_write_loop C 0 p a"
  by (simp add: bolt_Write_def bolt_Handshake_def)

lemma bolt_Write_spec:
  assumes "b_done a" "bolt_Write C E p a = (a', n, None)"
  shows "n = length p \<and> b_done a' \<and> bolt_in a' = bolt_in a \<and> b_buf a' = b_buf a \<and>
    rx (b_net a') = rx (b_net a) \<and> net_closed (b_net a') = net_closed (b_net a) \<and>
    (\<exists>fs. encs (bolt_enc C) (bolt_out a) (chunks bolt_MaxMessageLen p) = Some (bolt_out a', fs) \<and>
       concat (tx (b_net a')) = concat (tx (b_net a)) @ concat fs)"
  using boltw.loop_complete [OF assms(1), of C p a' n] assms by (simp add: bolt_Write_loop)

lemma bolt_Write_stop:
  assumes "b_done a" "bolt_Write C E p a = (a', n, Some e)"
  shows "n \<le> length p \<and> b_done a' \<and> bolt_in a' = bolt_in a \<and> b_buf a' = b_buf a \<and> rx (b_net a') = rx (b_net a) \<and>
    (\<exists>k fs t. encs (bolt_enc C) (bolt_out a) (chunks bolt_MaxMessageLen (take n p)) = Some (k, fs) \<and>
       concat (tx (b_net a')) = concat (tx (b_net a)) @ concat fs @ t \<and> cut_frame (bolt_enc C) bolt_MaxMessageLen k t)"
  using boltw.loop_stopped [OF assms(1), of C p a' n e] assms by (simp add: bolt_Write_loop)

lemma bolt_Read_spec:
  assumes "b_done b" "\<not> net_closed (b_net b)" "bolt_Read C E k b = (b', Inr d)"
  shows "b_done b' \<and> bolt_out b' = bolt_out b \<and> \<not> net_closed (b_net b') \<and>
    (all_data (rx (b_net b)) \<longrightarrow> all_data (rx (b_net b'))) \<and> concat (tx (b_net b')) = concat (tx (b_net b)) \<and>
    (bolt_in b' = bolt_in b \<and> avail (rx (b_net b')) = avail (rx (b_net b)) \<and> b_buf b = d @ b_buf b' \<or>
     (\<exists>p. bolt_dec C (bolt_in b) (avail (rx (b_net b))) = Some (bolt_in b', p, avail (rx (b_net b'))) \<and>
       b_buf b @ p = d @ b_buf b'))"
proof (cases "k = 0 \<or> b_buf b \<noteq> []")
  case True
  with assms show ?thesis
    by (auto simp: bolt_Read_def bolt_Handshake_def bolt_in_def bolt_out_def split: if_splits)
next
  case False
  with assms have fr: "bolt_read_frame C k b = (b', Inr d)"
    by (auto simp: bolt_Read_def bolt_Handshake_def split: if_splits)
  then obtain n1 lc lp n2 body p where r1: "readFull (2 + macSize) (b_net b) = (n1, Inr lc)"
    and o1: "c_open C (b_rk b) (nonceLE (b_rn b)) [] lc = Some lp" "length (b_rk b) = 32" "\<not> length lp < 2"
    and r2: "readFull (get16 (lp ! 0) (lp ! 1) + macSize) n1 = (n2, Inr body)"
    and o2: "c_open C (b_rk b) (nonceLE (b_rn b + 1)) [] body = Some p"
    and b': "b' = (maybeRekeyRecv C (b\<lparr>b_net := n2, b_rn := b_rn b + 2\<rparr>))\<lparr>b_buf := drop k p\<rparr>" "d = take k p"
    by (auto simp: bolt_read_frame_def decryptWithAD_def Let_def add.assoc
        split: prod.splits sum.splits if_splits option.splits)
  let ?w = "avail (rx (b_net b))" and ?l = "get16 (lp ! 0) (lp ! 1)"
  note f1 = full.rd_open [OF r1 assms(2)]
  then have n1: "\<not> net_closed n1" "avail (rx n1) = drop 18 ?w" using assms(2) by (simp_all add: macSize_def)
  note f2 = full.rd_open [OF r2 n1(1)]
  have "bolt_dec C (bolt_in b) ?w = Some (bolt_rekey C (b_rk b, b_rck b, b_rn b + 2), p, drop (?l + 16) (drop 18 ?w))"
    using f1 f2 n1 o1 o2 by (simp add: bolt_dec_def bolt_in_def macSize_def)
  moreover have "rx n2 = advance (?l + 16) (advance 18 (rx (b_net b)))" "tx n2 = tx (b_net b)" "\<not> net_closed n2"
    using f1 f2 assms(2) by (simp_all add: macSize_def)
  moreover have "bolt_in b' = bolt_rekey C (b_rk b, b_rck b, b_rn b + 2)" "bolt_out b' = bolt_out b" "b_net b' = n2" "b_done b'"
    using b'(1) maybeRekeyRecv_in [of C "b\<lparr>b_net := n2, b_rn := b_rn b + 2\<rparr>"]
      maybeRekeyRecv_same(3) [of C "b\<lparr>b_net := n2, b_rn := b_rn b + 2\<rparr>"] assms(1)
    by (simp_all add: bolt_in_def bolt_out_def)
  ultimately show ?thesis using False b' by simp
qed

lemma bolt_Read_next:
  assumes "b_done b" "\<not> net_closed (b_net b)" "0 < k" "b_buf b = []"
    "bolt_dec C (bolt_in b) (avail (rx (b_net b))) = Some (dk, p, rest)"
  shows "\<exists>b'. bolt_Read C E k b = (b', Inr (take k p))"
proof -
  let ?w = "avail (rx (b_net b))"
  from assms(5) obtain lp where o1: "c_open C (b_rk b) (nonceLE (b_rn b)) [] (take 18 ?w) = Some lp"
    "length (b_rk b) = 32" "\<not> length lp < 2" "18 \<le> length ?w"
    and o2: "get16 (lp ! 0) (lp ! 1) + 16 \<le> length (drop 18 ?w)"
      "c_open C (b_rk b) (nonceLE (b_rn b + 1)) [] (take (get16 (lp ! 0) (lp ! 1) + 16) (drop 18 ?w)) = Some p"
    by (auto simp: bolt_dec_def bolt_in_def split: if_splits option.splits)
  let ?n1 = "(b_net b)\<lparr>rx := advance 18 (rx (b_net b))\<rparr>"
  have r1: "readFull (2 + macSize) (b_net b) = (?n1, Inr (take 18 ?w))"
    using full.rd_exact [OF assms(2), of 18] o1(4) by (simp add: macSize_def)
  have "readFull (get16 (lp ! 0) (lp ! 1) + macSize) ?n1 =
      (?n1\<lparr>rx := advance (get16 (lp ! 0) (lp ! 1) + 16) (rx ?n1)\<rparr>, Inr (take (get16 (lp ! 0) (lp ! 1) + 16) (drop 18 ?w)))"
    using full.rd_exact [of ?n1 "get16 (lp ! 0) (lp ! 1) + 16"] assms(2) o2(1) by (simp add: macSize_def)
  with r1 o1 o2(2) assms show ?thesis
    by (simp add: bolt_Read_def bolt_Handshake_def bolt_read_frame_def decryptWithAD_def Let_def)
qed

lemma bolt_Read_stop:
  assumes "b_done b" "bolt_Read C E k b = (b', Inl e)"
  shows "b_done b' \<and> bolt_out b' = bolt_out b \<and> concat (tx (b_net b')) = concat (tx (b_net b))"
  using assms
  by (auto simp: bolt_Read_def bolt_Handshake_def bolt_read_frame_def bolt_out_def Let_def conn_close_same
      dest!: full.rd_tx split: if_splits prod.splits sum.splits option.splits)

lemma bolt_Read_closed:
  assumes "b_done b" "net_closed (b_net b)" "bolt_Read C E k b = (b', Inr d)"
  shows "b_done b' \<and> bolt_out b' = bolt_out b \<and> bolt_in b' = bolt_in b \<and> b_net b' = b_net b \<and> b_buf b = d @ b_buf b'"
  using assms
  by (auto simp: bolt_Read_def bolt_Handshake_def bolt_read_frame_def bolt_out_def bolt_in_def Let_def
      dest!: full.rd_closed_Inr split: if_splits prod.splits sum.splits option.splits)

interpretation bolt: live_framed_conn "bolt_Write C E" "bolt_Read C E" b_net bolt_feed "bolt_enc C" "bolt_dec C"
    "bolt_sync C" bolt_MaxMessageLen b_done bolt_out bolt_in b_buf for C E
proof (unfold_locales, goal_cases)
  case 1
  show ?case by (simp add: bolt_MaxMessageLen_def)
next
  case (2 k d p k' w)
  then show ?case by (intro bolt_dec_enc)
next
  case (3 d w d' p rest x)
  then show ?case by (rule bolt_dec_append)
next
  case (4 d)
  show ?case by (simp add: bolt_dec_def split: prod.splits)
next
  case (5 a p a' n)
  then show ?case by (rule bolt_Write_spec)
next
  case (6 b sz b' dat)
  then show ?case by (rule bolt_Read_spec)
next
  case (7 a p a' n e)
  then show ?case by (rule bolt_Write_stop)
next
  case (8 b sz b' e)
  then show ?case by (rule bolt_Read_stop)
next
  case (9 b sz b' dat)
  then show ?case by (rule bolt_Read_closed)
next
  case (10 es a)
  show ?case by (simp add: bolt_feed_def bolt_out_def bolt_in_def)
next
  case (11 b)
  then show ?case by (simp add: bolt_Read_def bolt_Handshake_def)
next
  case (12 b sz)
  then show ?case by (auto simp: bolt_Read_def bolt_Handshake_def)
next
  case (13 b sz dk p rest)
  then show ?case by (intro bolt_Read_next)
qed

section \<open>The data phase\<close>

definition bolt_peers_at :: "crypto \<Rightarrow> bytes \<Rightarrow> bytes \<Rightarrow> ('sk, 'pk) bolt_conn \<Rightarrow> ('sk, 'pk) bolt_conn \<Rightarrow> bool" where
  "bolt_peers_at C x y a b \<longleftrightarrow> b_done a \<and> b_done b \<and> crypto_ok C \<and> bolt_out a = bolt_in b \<and> bolt_out b = bolt_in a \<and>
     b_buf a = [] \<and> b_buf b = [] \<and> avail (rx (b_net a)) = x \<and> avail (rx (b_net b)) = y \<and>
     all_data (rx (b_net a)) \<and> all_data (rx (b_net b)) \<and> \<not> net_closed (b_net a) \<and> \<not> net_closed (b_net b)"

abbreviation bolt_peers :: "crypto \<Rightarrow> ('sk, 'pk) bolt_conn \<Rightarrow> ('sk, 'pk) bolt_conn \<Rightarrow> bool" where
  "bolt_peers C \<equiv> bolt_peers_at C [] []"

abbreviation bolt_link :: "crypto \<Rightarrow> ('sk, 'pk) bolt_conn \<Rightarrow> ('sk, 'pk) bolt_conn \<Rightarrow> bytes \<Rightarrow> bool" where
  "bolt_link C \<equiv> channel_link (bolt_dec C) (bolt_sync C) b_done bolt_out bolt_in b_buf b_net"

lemma bolt_peers_link:
  assumes "bolt_peers C a b"
  shows "bolt_link C a b []" and "bolt_link C b a []"
proof -
  have "pends (bolt_dec C) d [] [] d" for d by (rule pends.nil)
  then have p: "\<exists>ps d'. pends (bolt_dec C) d [] ps d' \<and> crypto_ok C \<and> d = d' \<and> [] = concat ps" for d
    using assms by (intro exI [of _ "[]"] exI [of _ d]) (simp add: bolt_peers_at_def)
  show "bolt_link C a b []" "bolt_link C b a []"
    using assms p [of "bolt_in a"] p [of "bolt_in b"]
    unfolding bolt_peers_at_def channel_link_def bolt_sync_def by simp_all
qed

text \<open>
  C14. Over the BOLT-8 transport, whatever the two ends write and read, in any order, with any
  buffer sizes, however the network cuts the bytes into chunks and across any number of key
  rotations: what one end has read is a prefix of what the other has written, in both
  directions, and reading on, with any buffer, delivers exactly the bytes still missing.
\<close>

theorem bolt_stream_delivered:
  assumes "bolt_peers C a0 b0"
    and "duplex (bolt_Write C E) (bolt_Read C E) b_net bolt_feed a0 b0 a b wa gb wb ga" and "0 < k"
  shows "gb @ read_all (bolt_Read C E) k (length wa) b = wa \<and> ga @ read_all (bolt_Read C E) k (length wb) a = wb"
proof -
  from bolt.duplex_linked [OF assms(2) bolt_peers_link [OF assms(1)]] obtain q q' where
    "wa = gb @ q" "bolt_link C a b q" "wb = ga @ q'" "bolt_link C b a q'" by blast
  with bolt.everything_delivered assms(3) show ?thesis by fastforce
qed

definition ex_bolt :: "bool \<Rightarrow> (byte, byte) bolt_conn" where
  "ex_bolt i = (bolt_new i (fresh_net []) 3 None [])\<lparr>b_done := True\<rparr>"

lemma ex_bolt_peers: "bolt_peers ex_crypto (ex_bolt True) (ex_bolt False)"
  by (simp add: bolt_peers_at_def ex_bolt_def bolt_new_def bolt_out_def bolt_in_def ex_crypto_ok fresh_net_def)

lemma ex_bolt_write:
  "bolt_Write ex_crypto ex_curve [7, 8] (ex_bolt True) =
    ((ex_bolt True)\<lparr>b_sn := 2, b_net := (fresh_net [])\<lparr>tx := [bolt_frame ex_crypto (zero32, zero32, 0) [7, 8]]\<rparr>\<rparr>, 2, None)"
proof -
  have "writeMessage ex_crypto [7, 8] (ex_bolt True) =
      ((ex_bolt True)\<lparr>b_sn := 2, b_net := (fresh_net [])\<lparr>tx := [bolt_frame ex_crypto (zero32, zero32, 0) [7, 8]]\<rparr>\<rparr>, None)"
    by (simp add: writeMessage_def encryptWithAD_def ex_bolt_def bolt_new_def zero32_def Let_def conn_write_def
        fresh_net_def maybeRekeySend_def rekeyInterval_def bolt_frame_def)
  then show ?thesis
    by (simp add: bolt_Write_def bolt_Handshake_def bolt_write_loop.simps [of ex_crypto] bolt_MaxMessageLen_def)
      (simp add: ex_bolt_def)
qed

theorem bolt_stream_delivered_witness:
  "read_all (bolt_Read ex_crypto ex_curve) 1 2
     (bolt_feed [Data (bolt_frame ex_crypto (zero32, zero32, 0) [7, 8])] (ex_bolt False)) = [7, 8]"
proof -
  have "duplex (bolt_Write ex_crypto ex_curve) (bolt_Read ex_crypto ex_curve) b_net bolt_feed (ex_bolt True) (ex_bolt False)
     (fst (bolt_Write ex_crypto ex_curve [7, 8] (ex_bolt True)))
     (bolt_feed [Data (bolt_frame ex_crypto (zero32, zero32, 0) [7, 8])] (ex_bolt False)) ([] @ [7, 8]) [] [] []"
    by (rule duplex.a_writes [OF duplex.start])
      (simp_all add: ex_bolt_write, simp_all add: ex_bolt_def bolt_new_def fresh_net_def)
  from bolt_stream_delivered [OF ex_bolt_peers this, of 1] show ?thesis
    by (simp del: read_all.simps add: numeral_2_eq_2)
qed

text \<open>
  C17. Authenticity of the data: with an empty read buffer, either the bytes that come next are
  exactly one frame sealed with the current receive key and nonces, and Read hands out its body;
  or Read hands out nothing, and then it either failed to get the bytes or closed the connection.
\<close>

theorem bolt_read_authentic:
  assumes "crypto_ok C" "b_done b" "\<not> net_closed (b_net b)" "b_buf b = []" "0 < k" "length (b_rk b) = 32"
    and "bolt_Read C E k b = (b', r)"
  shows "(\<exists>p rest. avail (rx (b_net b)) = bolt_frame C (bolt_in b) p @ rest \<and> r = Inr (take k p) \<and>
        avail (rx (b_net b')) = rest \<and> bolt_in b' = bolt_rekey C (b_rk b, b_rck b, b_rn b + 2)) \<or>
    (\<exists>e. r = Inl (Io e)) \<or> (\<exists>e. r = Inl e \<and> net_closed (b_net b'))"
proof -
  from assms have fr: "bolt_read_frame C k b = (b', r)"
    by (simp add: bolt_Read_def bolt_Handshake_def)
  show ?thesis
  proof (cases "\<exists>d. r = Inr d")
    case False
    have "length lp = 2" if "c_open C (b_rk b) (nonceLE (b_rn b)) [] lc = Some lp"
      "readFull (2 + macSize) (b_net b) = (n, Inr lc)" for lp lc n
      using crypto_open_length [OF assms(1) that(1)] full.rd_length [OF that(2)] by (simp add: macSize_def)
    with fr False show ?thesis
      by (auto simp: bolt_read_frame_def decryptWithAD_def assms(6) Let_def conn_close_def
          split: prod.splits sum.splits if_splits option.splits)
  next
    case True
    with fr obtain n1 lc lp n2 body p where r1: "readFull (2 + macSize) (b_net b) = (n1, Inr lc)"
      and o1: "c_open C (b_rk b) (nonceLE (b_rn b)) [] lc = Some lp" "\<not> length lp < 2"
      and r2: "readFull (get16 (lp ! 0) (lp ! 1) + macSize) n1 = (n2, Inr body)"
      and o2: "c_open C (b_rk b) (nonceLE (b_rn b + 1)) [] body = Some p"
      and b': "b' = (maybeRekeyRecv C (b\<lparr>b_net := n2, b_rn := b_rn b + 2\<rparr>))\<lparr>b_buf := drop k p\<rparr>" "r = Inr (take k p)"
      by (auto simp: bolt_read_frame_def decryptWithAD_def Let_def add.assoc
          split: prod.splits sum.splits if_splits option.splits)
    note f1 = full.rd_open [OF r1 assms(3)]
    then have "\<not> net_closed n1" using assms(3) by simp
    note f2 = full.rd_open [OF r2 this]
    have "length lp = 2"
      using crypto_open_length [OF assms(1) o1(1)] full.rd_length [OF r1] by (simp add: macSize_def)
    then obtain x y where lp: "lp = [x, y]" by (rule length2_cases)
    have "length p = get16 x y"
      using crypto_open_length [OF assms(1) o2] full.rd_length [OF r2] lp by (simp add: macSize_def)
    then have "bolt_frame C (bolt_in b) p = lc @ body"
      using crypto_okD(5) [OF assms(1) o1(1)] crypto_okD(5) [OF assms(1) o2] lp
      by (simp add: bolt_frame_def bolt_in_def)
    moreover have "avail (rx (b_net b)) = lc @ body @ avail (rx n2)"
    proof -
      have "w = take i w @ take j (drop i w) @ drop j (drop i w)" for w :: bytes and i j
        by (simp only: append_take_drop_id)
      moreover have "lc = take (2 + macSize) (avail (rx (b_net b)))" "avail (rx n1) = drop (2 + macSize) (avail (rx (b_net b)))"
        "body = take (get16 (lp ! 0) (lp ! 1) + macSize) (avail (rx n1))"
        "avail (rx n2) = drop (get16 (lp ! 0) (lp ! 1) + macSize) (avail (rx n1))"
        using f1 f2 by (simp_all del: drop_drop)
      ultimately show ?thesis by metis
    qed
    ultimately show ?thesis
      using b' maybeRekeyRecv_in [of C "b\<lparr>b_net := n2, b_rn := b_rn b + 2\<rparr>"]
      by (intro disjI1 exI [of _ p] exI [of _ "avail (rx n2)"]) (simp add: bolt_in_def)
  qed
qed

theorem bolt_read_authentic_witness:
  "\<exists>e. snd (bolt_Read ex_crypto ex_curve 4 (bolt_feed [Data (replicate 18 1)] (ex_bolt False))) = Inl e"
proof -
  let ?b = "bolt_feed [Data (replicate 18 1)] (ex_bolt False)"
  have b: "b_done ?b" "\<not> net_closed (b_net ?b)" "b_buf ?b = []" "0 < (4 :: nat)" "length (b_rk ?b) = 32"
    "bolt_in ?b = (zero32, zero32, 0)" "avail (rx (b_net ?b)) = replicate 18 1"
    by (simp_all add: bolt_feed_def ex_bolt_def bolt_new_def fresh_net_def zero32_def bolt_in_def)
  have "avail (rx (b_net ?b)) \<noteq> bolt_frame ex_crypto (bolt_in ?b) p @ rest" for p rest
  proof
    assume a: "avail (rx (b_net ?b)) = bolt_frame ex_crypto (bolt_in ?b) p @ rest"
    have "drop 2 (take 18 (bolt_frame ex_crypto (bolt_in ?b) p @ rest)) = replicate 16 (sum_list (zero32 @ nonceLE 0))"
      unfolding b(6) by (simp add: bolt_frame_def ex_crypto_def)
    with a have "replicate 16 (1 :: byte) = replicate 16 (sum_list (zero32 @ nonceLE 0))" unfolding b(7) by simp
    moreover have "sum_list (zero32 @ nonceLE 0) = 0" by (simp add: zero32_def nonceLE_def sum_list_replicate upt_rec)
    ultimately show False by (simp add: replicate_eq_replicate)
  qed
  with bolt_read_authentic [OF ex_crypto_ok b(1-5) prod.collapse [symmetric], of ex_curve] show ?thesis
    by fastforce
qed

section \<open>The rotation of the keys\<close>

text \<open>The keys and chaining keys of the rotations, and the state in which frame \<open>j\<close> is sealed.\<close>

fun bolt_nth_key :: "crypto \<Rightarrow> bytes \<times> bytes \<Rightarrow> nat \<Rightarrow> bytes \<times> bytes" where
  "bolt_nth_key C kc 0 = kc"
| "bolt_nth_key C kc (Suc i) = (let (k, ck) = bolt_nth_key C kc i; (ck', k') = hkdfExpand C ck k in (k', ck'))"

text \<open>
  The record of a frame that was sealed: how many rotations came before it, the nonce of its length header
  (its body has the next one), the message, and what was put on the wire. \<open>bolt_sealing\<close> is the frame itself.
\<close>

record bolt_send =
  fr_rotation :: nat
  fr_nonce :: nat
  fr_message :: bytes
  fr_sent :: bytes

definition bolt_sealing :: "crypto \<Rightarrow> bytes \<times> bytes \<Rightarrow> bolt_send \<Rightarrow> bytes" where
  "bolt_sealing C kc s = (let (k, ck) = bolt_nth_key C kc (fr_rotation s) in bolt_frame C (k, ck, word_of_nat (fr_nonce s)) (fr_message s))"

definition bolt_at :: "crypto \<Rightarrow> bytes \<times> bytes \<Rightarrow> nat \<Rightarrow> nat \<Rightarrow> ('sk, 'pk) bolt_conn \<Rightarrow> bool" where
  "bolt_at C kc i n c \<longleftrightarrow> b_done c \<and> bolt_out c = (fst (bolt_nth_key C kc i), snd (bolt_nth_key C kc i), word_of_nat n)"

text \<open>The frames of a connection, from one position (rotation and nonce) to another: a frame that was sent whole
  moves on to the next key when the interval is reached, one that was cut off does not.\<close>

inductive bolt_sends :: "crypto \<Rightarrow> bytes \<times> bytes \<Rightarrow> nat \<Rightarrow> nat \<Rightarrow> bolt_send list \<Rightarrow> nat \<Rightarrow> nat \<Rightarrow> bool" for C kc where
  nil: "bolt_sends C kc i n [] i n"
| whole: "fr_rotation s = i \<Longrightarrow> fr_nonce s = n \<Longrightarrow> fr_sent s = bolt_sealing C kc s \<Longrightarrow>
    bolt_sends C kc (if n + 2 < 1000 then i else Suc i) (if n + 2 < 1000 then n + 2 else 0) ss i' n' \<Longrightarrow>
    bolt_sends C kc i n (s # ss) i' n'"
| cut: "fr_rotation s = i \<Longrightarrow> fr_nonce s = n \<Longrightarrow> strict_prefix (fr_sent s) (bolt_sealing C kc s) \<Longrightarrow>
    bolt_sends C kc i (n + 2) ss i' n' \<Longrightarrow> bolt_sends C kc i n (s # ss) i' n'"

lemma bolt_sends_append:
  "bolt_sends C kc i n ss j m \<Longrightarrow> bolt_sends C kc j m us i' n' \<Longrightarrow> bolt_sends C kc i n (ss @ us) i' n'"
  by (induction rule: bolt_sends.induct) (auto intro: bolt_sends.intros)

text \<open>Frames only move forward: no key is used twice with the same nonce.\<close>

definition bolt_before :: "bolt_send \<Rightarrow> bolt_send \<Rightarrow> bool" where
  "bolt_before s s' \<longleftrightarrow> fr_rotation s < fr_rotation s' \<or> fr_rotation s = fr_rotation s' \<and> fr_nonce s + 2 \<le> fr_nonce s'"

lemma bolt_sends_from:
  "bolt_sends C kc i n ss i' n' \<Longrightarrow> s \<in> set ss \<Longrightarrow> i < fr_rotation s \<or> i = fr_rotation s \<and> n \<le> fr_nonce s"
  by (induction rule: bolt_sends.induct) (auto split: if_splits)

lemma bolt_sends_forward: "bolt_sends C kc i n ss i' n' \<Longrightarrow> sorted_wrt bolt_before ss"
proof (induction rule: bolt_sends.induct)
  case (whole s i n ss i' n')
  from bolt_sends_from [OF whole.hyps(4)] whole.hyps(1,2) whole.IH show ?case
    by (fastforce simp: bolt_before_def split: if_splits)
next
  case (cut s i n ss i' n')
  from bolt_sends_from [OF cut.hyps(4)] cut.hyps(1,2) cut.IH show ?case by (fastforce simp: bolt_before_def)
qed simp

lemma bolt_sends_bound:
  "bolt_sends C kc i n ss i' n' \<Longrightarrow> n' \<le> n + 2 * length ss \<and> (\<forall>s \<in> set ss. fr_nonce s + 2 \<le> n + 2 * length ss)"
  by (induction rule: bolt_sends.induct) (fastforce split: if_splits)+

lemma bolt_sends_prefix: "bolt_sends C kc i n ss i' n' \<Longrightarrow> s \<in> set ss \<Longrightarrow> prefix (fr_sent s) (bolt_sealing C kc s)"
  by (induction rule: bolt_sends.induct) (auto simp: strict_prefix_def)

text \<open>As long as frames are sent whole, frame number \<open>j\<close> is at a fixed position.\<close>

lemma bolt_sends_schedule:
  assumes "bolt_sends C kc (j0 div 500) (2 * (j0 mod 500)) ss i' n'" "j < length ss"
    and "\<forall>s \<in> set (take j ss). fr_sent s = bolt_sealing C kc s"
  shows "fr_rotation (ss ! j) = (j0 + j) div 500 \<and> fr_nonce (ss ! j) = 2 * ((j0 + j) mod 500)"
  using assms
proof (induction ss arbitrary: j0 j)
  case (Cons s ss)
  show ?case
  proof (cases j)
    case 0
    with Cons.prems(1) show ?thesis by (auto elim: bolt_sends.cases)
  next
    case (Suc k)
    let ?i = "j0 div 500" and ?n = "2 * (j0 mod 500)"
    from Cons.prems(1,3) Suc have "bolt_sends C kc (if ?n + 2 < 1000 then ?i else Suc ?i) (if ?n + 2 < 1000 then ?n + 2 else 0) ss i' n'"
      by (auto elim: bolt_sends.cases)
    moreover have "(if ?n + 2 < 1000 then ?i else Suc ?i) = Suc j0 div 500 \<and> (if ?n + 2 < 1000 then ?n + 2 else 0) = 2 * (Suc j0 mod 500)"
      using mod_less_divisor [of 500 j0] by (auto simp: mod_Suc div_Suc)
    ultimately have "bolt_sends C kc (Suc j0 div 500) (2 * (Suc j0 mod 500)) ss i' n'" by simp
    from Cons.IH [OF this, of k] Cons.prems(2,3) Suc show ?thesis by simp
  qed
qed simp

section \<open>The frames of a sequence of calls\<close>

lemma bolt_at_next:
  assumes "bolt_out c = (fst (bolt_nth_key C kc i), snd (bolt_nth_key C kc i), word_of_nat n)" "n + 2 < 2 ^ 64"
  shows "bolt_rekey C (fst (bolt_nth_key C kc i), snd (bolt_nth_key C kc i), word_of_nat n + 2) =
    (let i' = (if n + 2 < 1000 then i else Suc i) in
      (fst (bolt_nth_key C kc i'), snd (bolt_nth_key C kc i'), word_of_nat (if n + 2 < 1000 then n + 2 else 0)))"
proof -
  have n: "word_of_nat n + 2 = (word_of_nat (n + 2) :: 64 word)" by simp
  have "unat (word_of_nat m :: 64 word) = m" if "m < 2 ^ 64" for m
    using that by (simp add: unat_of_nat take_bit_nat_eq_self)
  from this [OF assms(2)] have "unat (word_of_nat (n + 2) :: 64 word) = n + 2" .
  then have "(word_of_nat (n + 2) :: 64 word) < rekeyInterval \<longleftrightarrow> n + 2 < 1000"
    unfolding rekeyInterval_def word_less_nat_alt by (simp only: unat_numeral) simp
  then show ?thesis unfolding n bolt_rekey_def by (simp add: Let_def split_beta)
qed

lemma bolt_frame_pos: "crypto_ok C \<Longrightarrow> bolt_frame C k m \<noteq> []"
  using crypto_okD(3) [of C "fst k" "nonceLE (snd (snd k))" "[]" "put16 (length m)"] by (cases k) (auto simp: bolt_frame_def)

lemma writeMessage_cut:
  assumes "crypto_ok C" "writeMessage C m c = (c', Some e)"
  shows "c' = c \<or> b_done c' = b_done c \<and> bolt_out c' = (b_sk c, b_sck c, b_sn c + 2) \<and>
    (\<exists>t. concat (tx (b_net c')) = concat (tx (b_net c)) @ t \<and> strict_prefix t (bolt_frame C (bolt_out c) m))"
proof (cases "length (b_sk c) = 32")
  case True
  let ?f = "bolt_frame C (bolt_out c) m"
  from assms(2) True obtain n x where n: "conn_write ?f (b_net c) = (n, Some x)" and c': "c' = c\<lparr>b_sn := b_sn c + 2, b_net := n\<rparr>"
    by (auto simp: writeMessage_def encryptWithAD_def bolt_frame_def bolt_out_def add.assoc Let_def
        split: if_splits prod.splits option.splits)
  from conn_write_cut [OF n] obtain t where t: "concat (tx n) = concat (tx (b_net c)) @ t" "t = [] \<or> (\<exists>u. ?f = t @ u \<and> u \<noteq> [])" by blast
  have "strict_prefix t ?f"
    using t(2) bolt_frame_pos [OF assms(1), of "bolt_out c" m] by (cases ?f) (auto simp: strict_prefix_def prefix_def)
  with t(1) c' show ?thesis by (auto simp: bolt_out_def)
next
  case False
  with assms(2) show ?thesis by (auto simp: writeMessage_def encryptWithAD_def)
qed

lemma writeMessage_sends:
  assumes "crypto_ok C" "bolt_at C kc i n c" "n + 2 < 2 ^ 64" "writeMessage C m c = (c', r)"
  shows "\<exists>ss i' n'. bolt_sends C kc i n ss i' n' \<and> bolt_at C kc i' n' c' \<and> length ss \<le> 1 \<and>
    concat (tx (b_net c')) = concat (tx (b_net c)) @ concat (map fr_sent ss)"
proof -
  note out = assms(2) [unfolded bolt_at_def, THEN conjunct2]
  let ?s = "\<lambda>t. \<lparr>fr_rotation = i, fr_nonce = n, fr_message = m, fr_sent = t\<rparr>"
  have f: "bolt_sealing C kc (?s t) = bolt_frame C (bolt_out c) m" for t
    by (simp add: bolt_sealing_def out split_beta)
  show ?thesis
  proof (cases r)
    case None
    from writeMessage_spec [OF assms(4) [unfolded None]] have w: "bolt_out c' = bolt_rekey C (b_sk c, b_sck c, b_sn c + 2)"
      "tx (b_net c') = tx (b_net c) @ [bolt_frame C (bolt_out c) m]" "b_done c' = b_done c"
      by (auto simp: bolt_enc_def bolt_out_def split: if_splits)
    let ?i = "if n + 2 < 1000 then i else Suc i" and ?n = "if n + 2 < 1000 then n + 2 else 0"
    have "bolt_at C kc ?i ?n c'"
      using bolt_at_next [OF out assms(3)] w(1,3) assms(2) out by (simp add: bolt_at_def bolt_out_def Let_def)
    moreover have "bolt_sends C kc i n [?s (bolt_frame C (bolt_out c) m)] ?i ?n"
      by (rule bolt_sends.whole [OF _ _ _ bolt_sends.nil]) (simp_all add: f)
    ultimately show ?thesis using w(2) by fastforce
  next
    case (Some e)
    from writeMessage_cut [OF assms(1) assms(4) [unfolded Some]] show ?thesis
    proof (elim disjE conjE exE)
      assume "c' = c"
      with assms(2) bolt_sends.nil show ?thesis by fastforce
    next
      fix t assume t: "b_done c' = b_done c" "bolt_out c' = (b_sk c, b_sck c, b_sn c + 2)"
        "concat (tx (b_net c')) = concat (tx (b_net c)) @ t" "strict_prefix t (bolt_frame C (bolt_out c) m)"
      have "bolt_at C kc i (n + 2) c'" using t(1,2) assms(2) out by (simp add: bolt_at_def bolt_out_def)
      moreover have "bolt_sends C kc i n [?s t] i (n + 2)"
        by (rule bolt_sends.cut [OF _ _ _ bolt_sends.nil]) (simp_all add: f t(4))
      ultimately show ?thesis using t(3) by fastforce
    qed
  qed
qed

lemma bolt_write_loop_sends:
  assumes "crypto_ok C" "bolt_at C kc i n c" "n + 2 * length p < 2 ^ 64" "bolt_write_loop C k p c = (c', m, r)"
  shows "\<exists>ss i' n'. bolt_sends C kc i n ss i' n' \<and> bolt_at C kc i' n' c' \<and> length ss \<le> length p \<and>
    concat (tx (b_net c')) = concat (tx (b_net c)) @ concat (map fr_sent ss)"
  using assms(2-)
proof (induction "length p" arbitrary: i n k p c rule: less_induct)
  case less
  show ?case
  proof (cases "p = []")
    case True
    with less.prems show ?thesis using bolt_sends.nil by (fastforce simp: bolt_write_loop.simps)
  next
    case False
    let ?p = "take bolt_MaxMessageLen p" and ?q = "drop bolt_MaxMessageLen p"
    have l: "length ?q < length p" using False boltw.frag_pos by simp
    then have n2: "n + 2 < 2 ^ 64" using less.prems(2) False by (cases p) simp_all
    obtain c1 x where w: "writeMessage C ?p c = (c1, x)" by (metis surj_pair)
    from writeMessage_sends [OF assms(1) less.prems(1) n2 w] obtain ss i1 n1 where
      s: "bolt_sends C kc i n ss i1 n1" "bolt_at C kc i1 n1 c1" "length ss \<le> 1"
        "concat (tx (b_net c1)) = concat (tx (b_net c)) @ concat (map fr_sent ss)" by blast
    show ?thesis
    proof (cases x)
      case (Some e)
      with w False less.prems(3) have "c' = c1" by (simp add: boltw.loop_step [of C k p c])
      moreover have "length ss \<le> length p" using s(3) False by (cases p) simp_all
      ultimately show ?thesis using s by blast
    next
      case None
      with w False less.prems(3) have r: "bolt_write_loop C (k + length ?p) ?q c1 = (c', m, r)"
        by (simp add: boltw.loop_step [of C k p c])
      have "n1 + 2 * length ?q < 2 ^ 64" using bolt_sends_bound [OF s(1)] s(3) l less.prems(2) by linarith
      from less.hyps [OF l s(2) this r] obtain us i' n' where
        u: "bolt_sends C kc i1 n1 us i' n'" "bolt_at C kc i' n' c'" "length us \<le> length ?q"
          "concat (tx (b_net c')) = concat (tx (b_net c1)) @ concat (map fr_sent us)" by blast
      have "length (ss @ us) \<le> length p" using s(3) u(3) l by simp
      with bolt_sends_append [OF s(1) u(1)] u(2) s(4) u(4) show ?thesis
        by (intro exI [of _ "ss @ us"]) auto
    qed
  qed
qed

lemma bolt_calls_sends:
  assumes "crypto_ok C"
  shows "bolt_at C kc i n c \<Longrightarrow> n + 2 * call_bytes cs < 2 ^ 64 \<Longrightarrow> c' = all_calls (bolt_Write C E) (bolt_Read C E) cs c \<Longrightarrow>
    \<exists>ss i' n'. bolt_sends C kc i n ss i' n' \<and> bolt_at C kc i' n' c' \<and> length ss \<le> call_bytes cs \<and>
      concat (tx (b_net c')) = concat (tx (b_net c)) @ concat (map fr_sent ss)"
proof (induction cs arbitrary: i n c)
  case Nil
  then show ?case using bolt_sends.nil by fastforce
next
  case (Cons x cs)
  have d: "b_done c" using Cons.prems(1) by (simp add: bolt_at_def)
  show ?case
  proof (cases x)
    case (CallWrite p)
    obtain c1 m r where w: "bolt_Write C E p c = (c1, m, r)" by (metis surj_pair)
    have "n + 2 * length p < 2 ^ 64" using Cons.prems(2) CallWrite by simp
    from bolt_write_loop_sends [OF assms Cons.prems(1) this, of 0 c1 m r] w d obtain ss i1 n1 where
      s: "bolt_sends C kc i n ss i1 n1" "bolt_at C kc i1 n1 c1" "length ss \<le> length p"
        "concat (tx (b_net c1)) = concat (tx (b_net c)) @ concat (map fr_sent ss)" by (auto simp: bolt_Write_loop)
    have "n1 + 2 * call_bytes cs < 2 ^ 64" using bolt_sends_bound [OF s(1)] s(3) Cons.prems(2) CallWrite by simp
    from Cons.IH [OF s(2) this] Cons.prems(3) CallWrite w obtain us i' n' where
      u: "bolt_sends C kc i1 n1 us i' n'" "bolt_at C kc i' n' c'" "length us \<le> call_bytes cs"
        "concat (tx (b_net c')) = concat (tx (b_net c1)) @ concat (map fr_sent us)" by auto
    have "length (ss @ us) \<le> call_bytes (x # cs)" using s(3) u(3) CallWrite by simp
    with bolt_sends_append [OF s(1) u(1)] u(2) s(4) u(4) show ?thesis
      by (intro exI [of _ "ss @ us"]) auto
  next
    case (CallRead k)
    obtain c1 r where w: "bolt_Read C E k c = (c1, r)" by (metis surj_pair)
    have "b_done c1 \<and> bolt_out c1 = bolt_out c \<and> concat (tx (b_net c1)) = concat (tx (b_net c))"
      using bolt_Read_stop [OF d] bolt.rd_keeps [OF d] w by (cases r) blast+
    moreover from this have "bolt_at C kc i n c1" using Cons.prems(1) by (simp add: bolt_at_def)
    ultimately show ?thesis using Cons.IH [of i n c1] Cons.prems(2,3) CallRead w by simp
  qed
qed

text \<open>
  C18. Key rotation. Take a connection after its handshake, with send nonce 0, and any sequence of Write and Read
  calls, all of them made whatever the earlier ones returned (fewer than \<open>2 ^ 63\<close> bytes to write, so that no nonce
  counter wraps). What it puts on the wire is a sequence of frames, each sealed under the key of some rotation
  with a nonce and the next one, whole or cut off by a failing connection. Later frames have a later rotation, or the same rotation and
  a nonce larger by at least 2: no key seals twice with the same nonce, also after failed Writes. And up to and including the
  first frame that is cut off, frame number \<open>j\<close> belongs to rotation \<open>j div 500\<close> and has the nonce \<open>2 * (j mod 500)\<close>: a key
  seals exactly 500 messages, with the nonces 0 to 999.
\<close>

theorem bolt_rotation_schedule:
  assumes "crypto_ok C" "b_done a" "b_sn a = 0" "2 * call_bytes cs < 2 ^ 64"
    and "a' = all_calls (bolt_Write C E) (bolt_Read C E) cs a"
  shows "\<exists>ss :: bolt_send list. concat (tx (b_net a')) = concat (tx (b_net a)) @ concat (map fr_sent ss) \<and>
    (\<forall>s \<in> set ss. prefix (fr_sent s) (bolt_sealing C (b_sk a, b_sck a) s) \<and> fr_nonce s + 2 < 2 ^ 64) \<and>
    sorted_wrt (\<lambda>s s'. fr_rotation s < fr_rotation s' \<or> fr_rotation s = fr_rotation s' \<and> fr_nonce s + 2 \<le> fr_nonce s') ss \<and>
    (\<forall>j < length ss. (\<forall>s \<in> set (take j ss). fr_sent s = bolt_sealing C (b_sk a, b_sck a) s) \<longrightarrow>
      fr_rotation (ss ! j) = j div 500 \<and> fr_nonce (ss ! j) = 2 * (j mod 500))"
proof -
  let ?kc = "(b_sk a, b_sck a)"
  have "bolt_at C ?kc 0 0 a" using assms(2,3) by (simp add: bolt_at_def bolt_out_def)
  from bolt_calls_sends [OF assms(1) this _ assms(5)] assms(4) obtain ss i' n' where
    s: "bolt_sends C ?kc 0 0 ss i' n'" "length ss \<le> call_bytes cs"
      "concat (tx (b_net a')) = concat (tx (b_net a)) @ concat (map fr_sent ss)" by auto
  have "fr_nonce x + 2 < 2 ^ 64" if "x \<in> set ss" for x
    using bolt_sends_bound [OF s(1)] that s(2) assms(4) by fastforce
  moreover have "\<forall>j < length ss. (\<forall>s \<in> set (take j ss). fr_sent s = bolt_sealing C ?kc s) \<longrightarrow>
      fr_rotation (ss ! j) = j div 500 \<and> fr_nonce (ss ! j) = 2 * (j mod 500)"
    using bolt_sends_schedule [of C ?kc 0 ss i' n'] s(1) by simp
  ultimately show ?thesis
    using s(3) bolt_sends_prefix [OF s(1)] bolt_sends_forward [OF s(1)] unfolding bolt_before_def by blast
qed

theorem bolt_rotation_schedule_witness:
  "\<exists>ss :: bolt_send list. tx (b_net (all_calls (bolt_Write ex_crypto ex_curve) (bolt_Read ex_crypto ex_curve) [CallWrite [7, 8], CallRead 0] (ex_bolt True))) =
      [bolt_frame ex_crypto (zero32, zero32, 0) [7, 8]] \<and>
    concat (map fr_sent ss) = bolt_frame ex_crypto (zero32, zero32, 0) [7, 8] \<and> ss \<noteq> [] \<and> fr_rotation (ss ! 0) = 0 \<and> fr_nonce (ss ! 0) = 0"
proof -
  let ?a = "all_calls (bolt_Write ex_crypto ex_curve) (bolt_Read ex_crypto ex_curve) [CallWrite [7, 8], CallRead 0] (ex_bolt True)"
  have 1: "b_done (ex_bolt True)" "b_sn (ex_bolt True) = 0" "b_net (ex_bolt True) = fresh_net []"
    by (simp_all add: ex_bolt_def bolt_new_def)
  have t: "tx (b_net ?a) = [bolt_frame ex_crypto (zero32, zero32, 0) [7, 8]]"
    by (simp add: ex_bolt_write bolt_Read_def bolt_Handshake_def 1(1))
  from bolt_rotation_schedule [OF ex_crypto_ok 1(1,2) _ refl, of "[CallWrite [7, 8], CallRead 0]" ex_curve] obtain ss where
    s: "concat (tx (b_net ?a)) = concat (map fr_sent ss)" "\<forall>j < length ss. (\<forall>s \<in> set (take j ss). fr_sent s =
      bolt_sealing ex_crypto (b_sk (ex_bolt True), b_sck (ex_bolt True)) s) \<longrightarrow> fr_rotation (ss ! j) = j div 500 \<and> fr_nonce (ss ! j) = 2 * (j mod 500)"
    by (auto simp: 1(3) fresh_net_def)
  have "ss \<noteq> []" using s(1) bolt_frame_pos [OF ex_crypto_ok, of "(zero32, zero32, 0)" "[7, 8]"] unfolding t by auto
  moreover from this s(2) have "fr_rotation (ss ! 0) = 0" "fr_nonce (ss ! 0) = 0" by (auto dest: spec [of _ 0])
  moreover have "concat (map fr_sent ss) = bolt_frame ex_crypto (zero32, zero32, 0) [7, 8]" using s(1) unfolding t by simp
  ultimately show ?thesis using t by blast
qed

end
