(* ===== verification/Bolt8_Handshake.thy ===== *)
theory Bolt8_Handshake
  imports Bolt8_Conn
begin

text \<open>
  The three acts of the BOLT-8 handshake, both ends at once: the pieces of the two sides invert
  each other, so that two honest ends end with the same keys, and every act that is not the
  peer's own is refused.
\<close>

section \<open>The pieces\<close>

lemma initialState_agree: "initialState C [] rs True = initialState C rs [] False"
  by (simp add: initialState_def)

lemma hkdfExpand_length:
  "crypto_ok C \<Longrightarrow> hkdfExpand C ck i = (ck', k) \<Longrightarrow> length ck' = 32 \<and> length k = 32"
  using crypto_okD(2) by (auto simp: hkdfExpand_def Let_def)

lemma curve_okD:
  assumes "curve_ok E"
  shows "dh_point E a (pub_of E b) = dh_point E b (pub_of E a)" "length (ser_pub E p) = 33"
    "parse_pub E (ser_pub E p) = Inr p"
  using assms by (simp_all add: curve_ok_def)

lemma bolt_ecdh_comm: "curve_ok E \<Longrightarrow> bolt_ecdh C E a (pub_of E b) = bolt_ecdh C E b (pub_of E a)"
  by (simp add: bolt_ecdh_def curve_okD(1) [of E a b])

text \<open>Fields of the three acts.\<close>

lemma act_split:
  assumes "length p = 33" "length t = 16"
  shows "take 33 (drop 1 ([v] @ p @ t)) = p" "take 16 (drop 34 ([v] @ p @ t)) = t" "([v] @ p @ t) ! 0 = v"
    "length ([v] @ p @ t) = 50"
  using assms by simp_all

lemma act3_split:
  assumes "length p = 49" "length t = 16"
  shows "take 49 (drop 1 ([v] @ p @ t)) = p" "take 16 (drop 50 ([v] @ p @ t)) = t" "([v] @ p @ t) ! 0 = v"
    "length ([v] @ p @ t) = 66"
  using assms by simp_all

lemma act1_agree:
  assumes "crypto_ok C" "curve_ok E"
  obtains a1 h ck where "init_act1 C E (pub_of E lr) ei = Inr (a1, h, ck)"
    "resp_act1 C E lr a1 = Inr (pub_of E ei, h, ck)" "length a1 = 50"
proof -
  obtain h0 ck0 where i: "initialState C (ser_pub E (pub_of E lr)) [] False = (h0, ck0)" by fastforce
  let ?p = "ser_pub E (pub_of E ei)"
  let ?h1 = "mixHash C h0 ?p"
  obtain ck1 k1 where k: "hkdfExpand C ck0 (bolt_ecdh C E ei (pub_of E lr)) = (ck1, k1)" by fastforce
  then have k': "hkdfExpand C ck0 (bolt_ecdh C E lr (pub_of E ei)) = (ck1, k1)"
    by (simp add: bolt_ecdh_comm [OF assms(2), of C lr ei])
  have len: "length k1 = 32" using hkdfExpand_length [OF assms(1) k] by simp
  let ?c = "c_seal C k1 (nonceLE 0) ?h1 []"
  have s: "length ?p = 33" "length ?c = 16" by (simp_all add: curve_okD(2) [OF assms(2)] crypto_okD(3) [OF assms(1)])
  have a: "init_act1 C E (pub_of E lr) ei = Inr ([0] @ ?p @ ?c, mixHash C ?h1 ?c, ck1)"
    by (simp add: init_act1_def initialState_agree i k encryptWithAD_def len Let_def)
  show ?thesis
  proof (rule that [OF a _ act_split(4) [OF s]])
    show "resp_act1 C E lr ([0] @ ?p @ ?c) = Inr (pub_of E ei, mixHash C ?h1 ?c, ck1)"
      unfolding resp_act1_def act_split [OF s]
      by (simp add: bolt_parse_def curve_okD(3) [OF assms(2)] localStaticPub_def i k' decryptWithAD_def len
          crypto_okD(4) [OF assms(1)] Let_def)
  qed
qed

lemma act23_agree:
  assumes "crypto_ok C" "curve_ok E"
  obtains a2 h2 ck2 k2 a3 h3 ck3 where "resp_act2 C E er (pub_of E ei) h ck = Inr (a2, h2, ck2, k2)"
    "init_act23 C E li ei a2 h ck = Inr (a3, h3, ck3)"
    "resp_act3 C E er a3 h2 ck2 k2 = Inr (pub_of E li, h3, ck3)" "length a2 = 50" "length a3 = 66" "length ck3 = 32"
proof -
  let ?p = "ser_pub E (pub_of E er)"
  let ?h1 = "mixHash C h ?p"
  obtain ck2 k2 where k: "hkdfExpand C ck (bolt_ecdh C E er (pub_of E ei)) = (ck2, k2)" by fastforce
  then have k': "hkdfExpand C ck (bolt_ecdh C E ei (pub_of E er)) = (ck2, k2)"
    by (simp add: bolt_ecdh_comm [OF assms(2), of C ei er])
  have len: "length k2 = 32" using hkdfExpand_length [OF assms(1) k] by simp
  let ?c = "c_seal C k2 (nonceLE 0) ?h1 []"
  let ?h2 = "mixHash C ?h1 ?c"
  have s: "length ?p = 33" "length ?c = 16" by (simp_all add: curve_okD(2) [OF assms(2)] crypto_okD(3) [OF assms(1)])
  have a2: "resp_act2 C E er (pub_of E ei) h ck = Inr ([0] @ ?p @ ?c, ?h2, ck2, k2)"
    by (simp add: resp_act2_def k encryptWithAD_def len Let_def)
  let ?l = "ser_pub E (pub_of E li)"
  let ?s = "c_seal C k2 (nonceLE 1) ?h2 ?l"
  let ?h3 = "mixHash C ?h2 ?s"
  obtain ck3 k3 where q: "hkdfExpand C ck2 (bolt_ecdh C E li (pub_of E er)) = (ck3, k3)" by fastforce
  then have q': "hkdfExpand C ck2 (bolt_ecdh C E er (pub_of E li)) = (ck3, k3)"
    by (simp add: bolt_ecdh_comm [OF assms(2), of C er li])
  have len3: "length k3 = 32" "length ck3 = 32" using hkdfExpand_length [OF assms(1) q] by simp_all
  let ?t = "c_seal C k3 (nonceLE 0) ?h3 []"
  have s3: "length ?s = 49" "length ?t = 16" by (simp_all add: curve_okD(2) [OF assms(2)] crypto_okD(3) [OF assms(1)])
  have a3: "init_act23 C E li ei ([0] @ ?p @ ?c) h ck = Inr ([0] @ ?s @ ?t, ?h3, ck3)"
    unfolding init_act23_def act_split [OF s]
    by (simp add: bolt_parse_def curve_okD(3) [OF assms(2)] localStaticPub_def k' q decryptWithAD_def encryptWithAD_def
        len len3 crypto_okD(4) [OF assms(1)] Let_def)
  have r3: "resp_act3 C E er ([0] @ ?s @ ?t) ?h2 ck2 k2 = Inr (pub_of E li, ?h3, ck3)"
    unfolding resp_act3_def act3_split [OF s3]
    by (simp add: bolt_parse_def curve_okD(2,3) [OF assms(2)] q' decryptWithAD_def
        len len3 crypto_okD(4) [OF assms(1)] Let_def)
  show ?thesis by (rule that [OF a2 a3 r3 act_split(4) [OF s] act3_split(4) [OF s3] len3(2)])
qed

section \<open>Both ends\<close>

lemma act_write_ok: "net_ok n \<Longrightarrow> act_write m b n = (n\<lparr>tx := tx n @ [b]\<rparr>, Inr ())"
  by (simp add: act_write_def)

lemma act_read_ok:
  assumes "\<not> net_closed n" "avail (rx n) = b @ rest" "length b = k"
  shows "act_read m k n = (n\<lparr>rx := advance k (rx n)\<rparr>, Inr b)"
  using full.rd_prefix [OF assms] by (simp add: act_read_def)

text \<open>The acts of an undisturbed handshake with the static keys \<open>li\<close>, \<open>lr\<close> and the ephemeral keys \<open>ei\<close>, \<open>er\<close>.\<close>

definition bolt_acts :: "crypto \<Rightarrow> ('sk, 'pk) curve \<Rightarrow> 'sk \<Rightarrow> 'sk \<Rightarrow> 'sk \<Rightarrow> 'sk \<Rightarrow> bytes \<times> bytes \<times> bytes" where
  "bolt_acts C E li lr ei er =
     (case init_act1 C E (pub_of E lr) ei of
        Inl _ \<Rightarrow> ([], [], [])
      | Inr (a1, h, ck) \<Rightarrow>
          (case resp_act2 C E er (pub_of E ei) h ck of
             Inl _ \<Rightarrow> (a1, [], [])
           | Inr (a2, _) \<Rightarrow>
               (case init_act23 C E li ei a2 h ck of
                  Inl _ \<Rightarrow> (a1, a2, [])
                | Inr (a3, _) \<Rightarrow> (a1, a2, a3))))"

lemma bolt_handshake_both:
  assumes "crypto_ok C" "curve_ok E" "bolt_acts C E li lr ei er = (a1, a2, a3)"
    and e: "all_data ec" "avail ec = a2 @ x" "all_data es" "avail es = a1 @ a3 @ y"
  shows "\<exists>c s. bolt_Handshake C E (bolt_Client (fresh_net ec) li (Some (pub_of E lr)) (Inr ei # ri)) = (c, None) \<and>
    bolt_Handshake C E (bolt_Server (fresh_net es) lr (Inr er # rr)) = (s, None) \<and>
    tx (b_net c) = [a1, a3] \<and> tx (b_net s) = [a2] \<and> bolt_peers_at C x y c s \<and>
    bolt_RemoteStatic s = Some (pub_of E li) \<and> bolt_Fingerprint c = bolt_Fingerprint s"
proof -
  from act1_agree [OF assms(1,2), of lr ei] obtain b1 h ck where
    1: "init_act1 C E (pub_of E lr) ei = Inr (b1, h, ck)" "resp_act1 C E lr b1 = Inr (pub_of E ei, h, ck)" "length b1 = 50"
    by blast
  from act23_agree [OF assms(1,2), of er ei h ck li] obtain b2 h2 ck2 k2 b3 h3 ck3 where
    2: "resp_act2 C E er (pub_of E ei) h ck = Inr (b2, h2, ck2, k2)" "init_act23 C E li ei b2 h ck = Inr (b3, h3, ck3)"
    "resp_act3 C E er b3 h2 ck2 k2 = Inr (pub_of E li, h3, ck3)" "length b2 = 50" "length b3 = 66" .
  have [simp]: "b1 = a1" "b2 = a2" "b3 = a3" using assms(3) 1(1) 2(1,2) by (simp_all add: bolt_acts_def)
  obtain a b where ab: "hkdfExpand C ck3 [] = (a, b)" by fastforce
  have fn: "net_ok (fresh_net x)" "rx (fresh_net x) = x" "tx (fresh_net x) = []" for x by (simp_all add: fresh_net_def net_ok_def)
  let ?nc = "(fresh_net ec)\<lparr>rx := advance 50 ec, tx := [a1, a3]\<rparr>"
  let ?ns = "(fresh_net es)\<lparr>rx := advance 66 (advance 50 es), tx := [a2]\<rparr>"
  have "act_read m 50 (fresh_net ec\<lparr>tx := [a1]\<rparr>) = (fresh_net ec\<lparr>tx := [a1], rx := advance 50 ec\<rparr>, Inr a2)" for m
    using act_read_ok [of "fresh_net ec\<lparr>tx := [a1]\<rparr>" a2 x 50 m] e(2) 2(4) fn by simp
  then have c: "runInitiator C E li (pub_of E lr) None (fresh_net ec, Inr ei # ri) = ((?nc, ri), Inr (ck3, h3))"
    using 1(1) 2(2) fn by (simp add: runInitiator_def bolt_ephemeral_def act_write_ok)
  have "act_read m 50 (fresh_net es) = (fresh_net es\<lparr>rx := advance 50 es\<rparr>, Inr a1)" for m
    using act_read_ok [of "fresh_net es" a1 "a3 @ y" 50 m] e(4) 1(3) fn by simp
  moreover have "act_read m 66 (fresh_net es\<lparr>rx := advance 50 es, tx := [a2]\<rparr>) = (?ns, Inr a3)" for m
    using act_read_ok [of "fresh_net es\<lparr>rx := advance 50 es, tx := [a2]\<rparr>" a3 y 66 m] e(4) 1(3) 2(5) fn by simp
  ultimately have s: "runResponder C E lr None (fresh_net es, Inr er # rr) = ((?ns, rr), Inr (ck3, h3, pub_of E li))"
    using 1(2) 2(1,3) fn by (simp add: runResponder_def bolt_ephemeral_def act_write_ok)
  have "avail (advance 50 ec) = x" "avail (advance 66 (advance 50 es)) = y" using e 1(3) 2(4,5) by simp_all
  then show ?thesis
    using c s e ab assms(1) 
      by (simp add: bolt_Handshake_def bolt_Client_def bolt_Server_def bolt_new_def bolt_split_def bolt_peers_at_def
        bolt_out_def bolt_in_def bolt_RemoteStatic_def bolt_Fingerprint_def fresh_net_def)
qed

text \<open>
  C15. Two BOLT-8 ends, the initiator knowing the responder's static key, complete the handshake
  over each other's acts, whatever their ephemeral keys and however the acts arrive in chunks:
  the key each sends with is the key the other receives with, the responder has learnt the
  initiator's static key, both have the same fingerprint and nothing is left in flight.
\<close>

theorem bolt_handshake_agreement:
  assumes "crypto_ok C" "curve_ok E"
  shows "\<exists>a1 a2 a3. \<forall>ec es. all_data ec \<and> avail ec = a2 \<and> all_data es \<and> avail es = a1 @ a3 \<longrightarrow>
    (\<exists>c s. bolt_Handshake C E (bolt_Client (fresh_net ec) li (Some (pub_of E lr)) (Inr ei # ri)) = (c, None) \<and>
      bolt_Handshake C E (bolt_Server (fresh_net es) lr (Inr er # rr)) = (s, None) \<and>
      tx (b_net c) = [a1, a3] \<and> tx (b_net s) = [a2] \<and> bolt_peers C c s \<and>
      bolt_RemoteStatic s = Some (pub_of E li) \<and> bolt_Fingerprint c = bolt_Fingerprint s)"
proof -
  obtain a1 a2 a3 where a: "bolt_acts C E li lr ei er = (a1, a2, a3)" by (cases "bolt_acts C E li lr ei er") blast
  show ?thesis
    by (rule exI [of _ a1], rule exI [of _ a2], rule exI [of _ a3]) (intro allI impI, elim conjE, rule bolt_handshake_both [OF assms a, of _ "[]" _ "[]"], simp_all)
qed

theorem bolt_handshake_agreement_witness:
  "\<exists>a1 a2 a3. \<exists>c s. bolt_Handshake ex_crypto ex_curve (bolt_Client (fresh_net [Data a2]) 3 (Some 5) [Inr 7]) = (c, None) \<and>
    bolt_Handshake ex_crypto ex_curve (bolt_Server (fresh_net [Data a1, Data a3]) 5 [Inr 9]) = (s, None) \<and>
    bolt_RemoteStatic s = Some 3"
proof -
  have p: "pub_of ex_curve x = x" for x by (simp add: ex_curve_def)
  from bolt_handshake_agreement [OF ex_crypto_ok ex_curve_ok, of 3 5 7 "[]" 9 "[]"] obtain a1 a2 a3 where
    a: "\<forall>ec es. all_data ec \<and> avail ec = a2 \<and> all_data es \<and> avail es = a1 @ a3 \<longrightarrow>
      (\<exists>c s. bolt_Handshake ex_crypto ex_curve (bolt_Client (fresh_net ec) 3 (Some 5) [Inr 7]) = (c, None) \<and>
      bolt_Handshake ex_crypto ex_curve (bolt_Server (fresh_net es) 5 [Inr 9]) = (s, None) \<and>
      tx (b_net c) = [a1, a3] \<and> tx (b_net s) = [a2] \<and> bolt_peers ex_crypto c s \<and>
      bolt_RemoteStatic s = Some 3 \<and> bolt_Fingerprint c = bolt_Fingerprint s)"
    unfolding p by blast
  from a [rule_format, of "[Data a2]" "[Data a1, Data a3]"] show ?thesis by auto
qed

section \<open>What a responder accepts\<close>

lemma decryptWithAD_Inr: "decryptWithAD C k n ad c = Inr p \<longleftrightarrow> length k = 32 \<and> c_open C k (nonceLE n) ad c = Some p"
  by (simp add: decryptWithAD_def split: option.splits)

lemma bolt_parse_Inr: "bolt_parse E m b = Inr p \<longleftrightarrow> parse_pub E b = Inr p"
  by (simp add: bolt_parse_def split: sum.splits)

lemma resp_act3_Inr:
  assumes "resp_act3 C E e buf h ck k2 = Inr r"
  shows "buf ! 0 = 0 \<and> (\<exists>ser rs m. c_open C k2 (nonceLE 1) h (take 49 (drop 1 buf)) = Some ser \<and> length ser = 33 \<and>
    parse_pub E ser = Inr rs \<and>
    c_open C (snd (hkdfExpand C ck (bolt_ecdh C E e rs))) (nonceLE 0) (mixHash C h (take 49 (drop 1 buf))) (take 16 (drop 50 buf)) = Some m \<and>
    r = (rs, mixHash C h (take 49 (drop 1 buf)), fst (hkdfExpand C ck (bolt_ecdh C E e rs))))"
  using assms
  by (simp add: resp_act3_def bolt_parse_Inr decryptWithAD_Inr Let_def case_prod_beta split: if_splits) blast

text \<open>
  C16. Authentication of the initiator: the responder accepts exactly one act 3 per static key.
  If it returns the key \<open>rs\<close>, the 66 bytes were the version byte, a serialisation of \<open>rs\<close> sealed
  under the key of act 2 with nonce 1, and the seal of the empty text under the key that also
  depends on the Diffie-Hellman product with \<open>rs\<close>, both over the hash of everything before.
\<close>

theorem bolt_act3_authentic:
  assumes "crypto_ok C" "length buf = 66" "resp_act3 C E e buf h ck k2 = Inr (rs, h', ck')"
  shows "\<exists>ser k3. parse_pub E ser = Inr rs \<and> length ser = 33 \<and> hkdfExpand C ck (bolt_ecdh C E e rs) = (ck', k3) \<and>
    buf = [0] @ c_seal C k2 (nonceLE 1) h ser @ c_seal C k3 (nonceLE 0) (mixHash C h (c_seal C k2 (nonceLE 1) h ser)) [] \<and>
    h' = mixHash C h (c_seal C k2 (nonceLE 1) h ser)"
proof -
  let ?s = "take 49 (drop 1 buf)" and ?t = "take 16 (drop 50 buf)"
  from resp_act3_Inr [OF assms(3)] obtain ser m where o': "buf ! 0 = 0" "c_open C k2 (nonceLE 1) h ?s = Some ser"
    "length ser = 33" "parse_pub E ser = Inr rs"
    "c_open C (snd (hkdfExpand C ck (bolt_ecdh C E e rs))) (nonceLE 0) (mixHash C h ?s) ?t = Some m"
    "h' = mixHash C h ?s" "ck' = fst (hkdfExpand C ck (bolt_ecdh C E e rs))" by blast
  obtain k3 where k3: "hkdfExpand C ck (bolt_ecdh C E e rs) = (ck', k3)" using o'(7) by (metis prod.collapse)
  note o = o'(1-4) o'(5) [unfolded k3 snd_conv] o'(6)
  have t: "length ?t = 16" using assms(2) by simp
  have m: "m = []" using crypto_open_length [OF assms(1) o(5)] t by simp
  have s: "?s = c_seal C k2 (nonceLE 1) h ser" by (rule crypto_okD(5) [OF assms(1) o(2)])
  have t: "?t = c_seal C k3 (nonceLE 0) (mixHash C h ?s) []" using crypto_okD(5) [OF assms(1) o(5)] m by simp
  have "buf = take 1 buf @ ?s @ ?t"
    using take_split3 [of buf 1 49] assms(2) by simp
  moreover have "take 1 buf = [0]" using o(1) assms(2) by (cases buf) simp_all
  ultimately have "buf = [0] @ ?s @ ?t" by simp
  with s t k3 o show ?thesis by (intro exI [of _ ser] exI [of _ k3]) simp
qed

theorem bolt_act3_authentic_witness:
  "\<exists>a3 h ck h2 ck2 k2. resp_act3 ex_crypto ex_curve 9 a3 h2 ck2 k2 = Inr (3, h, ck) \<and>
    (\<exists>ser k3. parse_pub ex_curve ser = Inr 3 \<and> hkdfExpand ex_crypto ck2 (bolt_ecdh ex_crypto ex_curve 9 3) = (ck, k3) \<and>
      a3 = [0] @ c_seal ex_crypto k2 (nonceLE 1) h2 ser @
        c_seal ex_crypto k3 (nonceLE 0) (mixHash ex_crypto h2 (c_seal ex_crypto k2 (nonceLE 1) h2 ser)) [])"
proof -
  obtain a2 h2 ck2 k2 a3 h3 ck3 where "resp_act3 ex_crypto ex_curve 9 a3 h2 ck2 k2 = Inr (pub_of ex_curve 3, h3, ck3)" "length a3 = 66"
    using act23_agree [OF ex_crypto_ok ex_curve_ok, of 9 7 "[]" "[]" 3] by metis
  then have r: "resp_act3 ex_crypto ex_curve 9 a3 h2 ck2 k2 = Inr (3, h3, ck3)" "length a3 = 66" by (simp_all add: ex_curve_def)
  from bolt_act3_authentic [OF ex_crypto_ok r(2,1)] r(1) show ?thesis by blast
qed

end
