(* ===== verification/WA_Proto.thy ===== *)
theory WA_Proto
  imports Prelude
begin

text \<open>
  The protobuf subset of the WhatsApp transport (pkg/transport/whatsapp/proto.go): base-128
  varints on 64-bit words, the flat field parser with its cap on the number of fields, the
  three handshake messages. A nil slice is \<open>None\<close> where the code tells it from an empty one.
\<close>

section \<open>Varints\<close>

text \<open>The standard library's \<open>binary.Uvarint\<close>: the value and the number of bytes read, 0 for a
  truncated varint and a negative number for one that overflows 64 bits.\<close>

fun uvarint_loop :: "bytes \<Rightarrow> nat \<Rightarrow> 64 word \<Rightarrow> 64 word \<times> int" where
  "uvarint_loop [] i x = (0, 0)"
| "uvarint_loop (b # bs) i x =
     (if i = 10 then (0, - (int i + 1))
      else if b < 0x80 then
        (if i = 9 \<and> 1 < b then (0, - (int i + 1)) else (x OR push_bit (7 * i) (ucast b), int i + 1))
      else uvarint_loop bs (Suc i) (x OR push_bit (7 * i) (ucast (b AND 0x7F))))"

definition uvarint :: "bytes \<Rightarrow> 64 word \<times> int" where
  "uvarint bs = uvarint_loop bs 0 0"

lemma drop_bit_7_less: "\<not> (v :: 64 word) < 0x80 \<Longrightarrow> unat (drop_bit 7 v) < unat v"
  unfolding unat_drop_bit_eq word_less_nat_alt by (simp add: drop_bit_eq_div)

text \<open>\<open>appendVarint(b, v)\<close> is \<open>b @ varint v\<close>: the loop only appends.\<close>

function varint :: "64 word \<Rightarrow> bytes" where
  "varint v = (if v < 0x80 then [ucast v] else (ucast v OR 0x80) # varint (drop_bit 7 v))"
  by pat_completeness auto
termination
  by (relation "measure unat") (simp_all add: drop_bit_7_less)

declare varint.simps [simp del]

definition appendVarint :: "bytes \<Rightarrow> 64 word \<Rightarrow> bytes" where
  "appendVarint b v = b @ varint v"

lemma ucast_low7: "ucast ((ucast (v :: 64 word) OR 0x80 :: 8 word) AND 0x7F) = (v AND mask 7)"
proof (rule bit_word_eqI)
  fix n
  assume "n < LENGTH(64)"
  have m: "(0x7F :: 8 word) = mask 7" "(0x80 :: 8 word) = push_bit 7 1" by (simp_all add: mask_numeral)
  show "bit (ucast ((ucast v OR 0x80 :: 8 word) AND 0x7F) :: 64 word) n = bit (v AND mask 7) n"
    unfolding m by (auto simp: bit_simps simp del: push_bit_of_1)
qed

lemma uvarint_varint:
  "i < 10 \<Longrightarrow> unat v < 2 ^ (64 - 7 * i) \<Longrightarrow>
   uvarint_loop (varint v @ r) i x = (x OR push_bit (7 * i) v, int (i + length (varint v)))"
proof (induction v arbitrary: i x rule: varint.induct)
  case (1 v)
  show ?case
  proof (cases "v < 0x80")
    case True
    then have u: "unat v < 128" by (simp add: word_less_nat_alt)
    have b: "ucast v < (0x80 :: byte)" "unat (ucast v :: byte) = unat v"
      using u by (simp_all add: word_less_nat_alt unsigned_ucast_eq take_bit_nat_eq_self)
    have nine: "\<not> 1 < (ucast v :: byte)" if "i = 9"
      using "1.prems"(2) b(2) that by (simp add: word_less_nat_alt)
    have "ucast (ucast v :: byte) = v"
      by (rule word_unat_eq_iff [THEN iffD2]) (use u in \<open>simp add: unsigned_ucast_eq unsigned_take_bit_eq take_bit_nat_eq_self\<close>)
    with True b(1) nine "1.prems"(1) show ?thesis
      by (subst (1 2) varint.simps) auto
  next
    case False
    then have u: "128 \<le> unat v" by (simp add: word_less_nat_alt)
    have i: "i < 9"
    proof (rule ccontr)
      assume "\<not> i < 9"
      with "1.prems" have "unat v < 2" by (cases "i = 9") simp_all
      with u show False by simp
    qed
    have "unat (drop_bit 7 v) < 2 ^ (64 - 7 * Suc i)"
    proof -
      have e: "64 - 7 * i = (64 - 7 * Suc i) + 7" using i by simp
      have "unat v < 2 ^ (64 - 7 * Suc i) * 2 ^ 7" using "1.prems"(2) unfolding e power_add .
      then show ?thesis unfolding unat_drop_bit_eq by (simp add: drop_bit_eq_div less_mult_imp_div_less)
    qed
    from "1.IH" [OF False _ this] i
    have IH: "uvarint_loop (varint (drop_bit 7 v) @ r) (Suc i) y =
      (y OR push_bit (7 * Suc i) (drop_bit 7 v), int (Suc i + length (varint (drop_bit 7 v))))" for y by simp
    have nb: "\<not> ((ucast v OR 0x80 :: byte) < 0x80)"
    proof -
      have "bit (ucast v OR 0x80 :: byte) 7" by (simp add: bit_simps bit_numeral_rec)
      moreover have "\<not> bit w 7" if "w < 0x80" for w :: byte
      proof -
        have "unat w div 2 ^ 7 = 0" using that by (simp add: word_less_nat_alt)
        then have "\<not> bit (unat w) 7" by (simp add: bit_iff_odd)
        then show ?thesis by (simp add: bit_unsigned_iff)
      qed
      ultimately show ?thesis by blast
    qed
    have or: "(x OR push_bit (7 * i) (v AND mask 7)) OR push_bit (7 * Suc i) (drop_bit 7 v) = x OR push_bit (7 * i) v"
    proof (rule bit_word_eqI)
      fix n assume "n < LENGTH(64)"
      show "bit ((x OR push_bit (7 * i) (v AND mask 7)) OR push_bit (7 * Suc i) (drop_bit 7 v)) n = bit (x OR push_bit (7 * i) v) n"
      proof (cases "7 + 7 * i \<le> n")
        case True
        then obtain m where "n = 7 + 7 * i + m" using le_Suc_ex by blast
        then show ?thesis by (auto simp: bit_simps)
      next
        case False
        then show ?thesis by (auto simp: bit_simps)
      qed
    qed
    have s: "varint v = (ucast v OR 0x80) # varint (drop_bit 7 v)" using False by (simp add: varint.simps [of v])
    show ?thesis
      unfolding s using nb i by (simp add: ucast_low7 IH or del: push_bit_and mult_Suc_right)
  qed
qed

lemma uvarint_append [simp]: "uvarint (varint v @ r) = (v, int (length (varint v)))"
  using uvarint_varint [of 0 v r 0] unsigned_less [of v] by (simp add: uvarint_def)

lemma varint_nonempty [simp]: "varint v \<noteq> []"
  by (subst varint.simps) simp

text \<open>What \<open>Uvarint\<close> reads lies inside the buffer.\<close>

lemma uvarint_loop_bound:
  "uvarint_loop bs i x = (v, n) \<Longrightarrow> 0 < n \<Longrightarrow> int i < n \<and> n \<le> int (i + length bs)"
  by (induction bs i x rule: uvarint_loop.induct) (auto split: if_splits)

lemma uvarint_bound: "uvarint bs = (v, n) \<Longrightarrow> 0 < n \<Longrightarrow> 0 < nat n \<and> nat n \<le> length bs"
  using uvarint_loop_bound [of bs 0 0 v n] by (simp add: uvarint_def)

section \<open>Fields\<close>

definition appendBytesField :: "bytes \<Rightarrow> nat \<Rightarrow> bytes \<Rightarrow> bytes" where
  "appendBytesField b field val =
     (let b1 = appendVarint b (push_bit 3 (word_of_nat field) OR 2);
          b2 = appendVarint b1 (word_of_nat (length val))
      in b2 @ val)"

definition appendVarintField :: "bytes \<Rightarrow> nat \<Rightarrow> 64 word \<Rightarrow> bytes" where
  "appendVarintField b field v = appendVarint (appendVarint b (push_bit 3 (word_of_nat field))) v"

record pb_field =
  pb_num :: nat
  pb_wire :: nat
  pb_data :: "bytes option"
  pb_val :: "64 word"

definition maxPbFields :: nat where
  "maxPbFields = 64"

text \<open>The loop of \<open>pbParse\<close>, on what is left of the buffer (\<open>b[i:]\<close>).\<close>

function pbParse_loop :: "bytes \<Rightarrow> pb_field list \<Rightarrow> pb_field list res" where
  "pbParse_loop b out =
     (if b = [] then Inr out
      else if maxPbFields \<le> length out then Inl (New ''whatsapp: too many protobuf fields'')
      else
        let (tag, n) = uvarint b in
        if n \<le> 0 then Inl (New ''whatsapp: malformed protobuf tag'')
        else
          let b1 = drop (nat n) b; field = unat (drop_bit 3 tag); wire = unat (tag AND 7) in
          if wire = 0 then
            (let (v, m) = uvarint b1 in
             if m \<le> 0 then Inl (New ''whatsapp: malformed protobuf varint'')
             else pbParse_loop (drop (nat m) b1) (out @ [\<lparr>pb_num = field, pb_wire = 0, pb_data = None, pb_val = v\<rparr>]))
          else if wire = 2 then
            (let (l, m) = uvarint b1 in
             if m \<le> 0 then Inl (New ''whatsapp: malformed protobuf length'')
             else
               let b2 = drop (nat m) b1 in
               if length b2 < unat l then Inl (New ''whatsapp: protobuf length exceeds buffer'')
               else pbParse_loop (drop (unat l) b2)
                 (out @ [\<lparr>pb_num = field, pb_wire = 2, pb_data = Some (take (unat l) b2), pb_val = 0\<rparr>]))
          else if wire = 5 then
            (if length b1 < 4 then Inl (New ''whatsapp: truncated 32-bit field'')
             else pbParse_loop (drop 4 b1) out)
          else if wire = 1 then
            (if length b1 < 8 then Inl (New ''whatsapp: truncated 64-bit field'')
             else pbParse_loop (drop 8 b1) out)
          else Inl (Errorf ''whatsapp: unsupported protobuf wire type %d'' [AInt (int wire)]))"
  by pat_completeness auto
termination
  by (relation "measure (\<lambda>(b, out). length b)") (auto dest!: uvarint_bound [OF sym])

declare pbParse_loop.simps [simp del]

definition pbParse :: "bytes \<Rightarrow> pb_field list res" where
  "pbParse b = pbParse_loop b []"

fun nestedBytes :: "pb_field list \<Rightarrow> nat \<Rightarrow> bytes option" where
  "nestedBytes [] num = None"
| "nestedBytes (f # fs) num = (if pb_num f = num \<and> pb_wire f = 2 then pb_data f else nestedBytes fs num)"

section \<open>The handshake messages\<close>

definition fHMClientHello :: nat where "fHMClientHello = 2"

definition fHMServerHello :: nat where "fHMServerHello = 3"

definition fHMClientFinish :: nat where "fHMClientFinish = 4"

definition fHelloEphemeral :: nat where "fHelloEphemeral = 1"

definition fHelloStatic :: nat where "fHelloStatic = 2"

definition fHelloPayload :: nat where "fHelloPayload = 3"

definition fFinishStatic :: nat where "fFinishStatic = 1"

definition fFinishPayload :: nat where "fFinishPayload = 2"

lemmas field_numbers = fHMClientHello_def fHMServerHello_def fHMClientFinish_def fHelloEphemeral_def
  fHelloStatic_def fHelloPayload_def fFinishStatic_def fFinishPayload_def

definition marshalClientHello :: "bytes \<Rightarrow> bytes" where
  "marshalClientHello ephemeral =
     appendBytesField [] fHMClientHello (appendBytesField [] fHelloEphemeral ephemeral)"

definition marshalClientFinish :: "bytes \<Rightarrow> bytes \<Rightarrow> bytes" where
  "marshalClientFinish static payload =
     (let inner = appendBytesField [] fFinishStatic static;
          inner2 = appendBytesField inner fFinishPayload payload
      in appendBytesField [] fHMClientFinish inner2)"

definition marshalServerHello :: "bytes \<Rightarrow> bytes \<Rightarrow> bytes \<Rightarrow> bytes" where
  "marshalServerHello ephemeral static payload =
     (let inner = appendBytesField [] fHelloEphemeral ephemeral;
          inner2 = appendBytesField inner fHelloStatic static;
          inner3 = appendBytesField inner2 fHelloPayload payload
      in appendBytesField [] fHMServerHello inner3)"

definition unmarshalClientHello :: "bytes \<Rightarrow> bytes res" where
  "unmarshalClientHello b = attempt (pbParse b) (\<lambda>top.
     case nestedBytes top fHMClientHello of
       None \<Rightarrow> Inl (New ''whatsapp: handshake message has no clientHello'')
     | Some ch \<Rightarrow> attempt (pbParse ch) (\<lambda>fields.
         case nestedBytes fields fHelloEphemeral of
           None \<Rightarrow> Inl (New ''whatsapp: clientHello ephemeral is not 32 bytes'')
         | Some eph \<Rightarrow>
             if length eph \<noteq> 32 then Inl (New ''whatsapp: clientHello ephemeral is not 32 bytes'')
             else Inr eph))"

text \<open>The payload may be nil: then it is \<open>None\<close>.\<close>

definition unmarshalClientFinish :: "bytes \<Rightarrow> (bytes \<times> bytes option) res" where
  "unmarshalClientFinish b = attempt (pbParse b) (\<lambda>top.
     case nestedBytes top fHMClientFinish of
       None \<Rightarrow> Inl (New ''whatsapp: handshake message has no clientFinish'')
     | Some cf \<Rightarrow> attempt (pbParse cf) (\<lambda>fields.
         case nestedBytes fields fFinishStatic of
           None \<Rightarrow> Inl (New ''whatsapp: clientFinish missing static'')
         | Some static \<Rightarrow> Inr (static, nestedBytes fields fFinishPayload)))"

record server_hello =
  sh_ephemeral :: bytes
  sh_static :: bytes
  sh_payload :: bytes

definition unmarshalServerHello :: "bytes \<Rightarrow> server_hello res" where
  "unmarshalServerHello b = attempt (pbParse b) (\<lambda>top.
     case nestedBytes top fHMServerHello of
       None \<Rightarrow> Inl (New ''whatsapp: handshake response has no serverHello'')
     | Some sh \<Rightarrow> attempt (pbParse sh) (\<lambda>fields.
         case (nestedBytes fields fHelloEphemeral, nestedBytes fields fHelloStatic, nestedBytes fields fHelloPayload) of
           (Some e, Some s, Some p) \<Rightarrow>
             if length e \<noteq> 32 then Inl (New ''whatsapp: serverHello missing ephemeral/static/payload'')
             else Inr \<lparr>sh_ephemeral = e, sh_static = s, sh_payload = p\<rparr>
         | _ \<Rightarrow> Inl (New ''whatsapp: serverHello missing ephemeral/static/payload'')))"

section \<open>Parsing what was marshalled\<close>

text \<open>A length-delimited field as the parser reports it.\<close>

definition len_field :: "nat \<Rightarrow> bytes \<Rightarrow> pb_field" where
  "len_field num v = \<lparr>pb_num = num, pb_wire = 2, pb_data = Some v, pb_val = 0\<rparr>"

lemma tag_parts:
  assumes "field < 2 ^ 61"
  shows "unat (drop_bit 3 (push_bit 3 (word_of_nat field) OR 2 :: 64 word)) = field"
    and "unat ((push_bit 3 (word_of_nat field) OR 2 :: 64 word) AND 7) = 2"
proof -
  have f: "take_bit 61 (word_of_nat field :: 64 word) = word_of_nat field"
    using assms by (intro word_unat_eq_iff [THEN iffD2]) (simp add: unsigned_take_bit_eq unat_of_nat take_bit_nat_eq_self)
  have two: "bit (2 :: 64 word) n \<longleftrightarrow> n = 1" for n by (auto simp: bit_2_iff)
  have "drop_bit 3 (push_bit 3 (word_of_nat field) OR 2 :: 64 word) = take_bit 61 (word_of_nat field)"
    by (rule bit_word_eqI) (auto simp: bit_drop_bit_eq bit_or_iff bit_push_bit_iff bit_take_bit_iff two)
  then show "unat (drop_bit 3 (push_bit 3 (word_of_nat field) OR 2 :: 64 word)) = field"
    using assms unfolding f by (simp add: unat_of_nat take_bit_nat_eq_self)
  have m: "(7 :: 64 word) = mask 3" by (simp add: mask_numeral)
  have "(push_bit 3 (word_of_nat field) OR 2 :: 64 word) AND 7 = 2"
  proof (rule bit_word_eqI)
    fix n assume "n < LENGTH(64)"
    show "bit ((push_bit 3 (word_of_nat field) OR 2 :: 64 word) AND 7) n = bit (2 :: 64 word) n"
      using two [of n] unfolding m by (auto simp: bit_and_iff bit_or_iff bit_push_bit_iff bit_mask_iff)
  qed
  then show "unat ((push_bit 3 (word_of_nat field) OR 2 :: 64 word) AND 7) = 2" by simp
qed

lemma pbParse_bytes_field:
  assumes "field < 2 ^ 61" "length v < 2 ^ 64" "length out < maxPbFields"
  shows "pbParse_loop (appendBytesField [] field v @ rest) out = pbParse_loop rest (out @ [len_field field v])"
proof -
  have l: "unat (word_of_nat (length v) :: 64 word) = length v"
    using assms(2) by (simp add: unat_of_nat take_bit_nat_eq_self)
  show ?thesis
    using assms(3) tag_parts [OF assms(1)] l
    by (subst pbParse_loop.simps) (simp add: appendBytesField_def appendVarint_def Let_def len_field_def)
qed

lemma appendBytesField_prefix: "appendBytesField b field v = b @ appendBytesField [] field v"
  by (simp add: appendBytesField_def appendVarint_def)

lemma pbParse_fields:
  assumes "\<forall>(n, v) \<in> set fs. n < 2 ^ 61 \<and> length v < 2 ^ 64" "length fs + length out \<le> maxPbFields"
  shows "pbParse_loop (concat (map (\<lambda>(n, v). appendBytesField [] n v) fs)) out =
    Inr (out @ map (\<lambda>(n, v). len_field n v) fs)"
  using assms
proof (induction fs arbitrary: out)
  case Nil
  then show ?case by (simp add: pbParse_loop.simps)
next
  case (Cons f fs)
  obtain n v where f: "f = (n, v)" by (cases f)
  from Cons.prems pbParse_bytes_field [of n v out "concat (map (\<lambda>(n, v). appendBytesField [] n v) fs)"]
  have "pbParse_loop (concat (map (\<lambda>(n, v). appendBytesField [] n v) (f # fs))) out =
      pbParse_loop (concat (map (\<lambda>(n, v). appendBytesField [] n v) fs)) (out @ [len_field n v])"
    by (auto simp: f)
  with Cons.IH [of "out @ [len_field n v]"] Cons.prems show ?case by (simp add: f)
qed

lemma length_varint: "unat v < 2 ^ (7 * Suc k) \<Longrightarrow> length (varint v) \<le> Suc k"
proof (induction k arbitrary: v)
  case 0
  then show ?case by (subst varint.simps) (simp add: word_less_nat_alt)
next
  case (Suc k)
  have "unat v < 2 ^ (7 * Suc k) * 2 ^ 7" using Suc.prems by (simp add: power_add)
  then have "unat (drop_bit 7 v) < 2 ^ (7 * Suc k)"
    unfolding unat_drop_bit_eq by (simp only: drop_bit_eq_div less_mult_imp_div_less)
  from Suc.IH [OF this] show ?case by (subst varint.simps) simp
qed

lemma length_appendBytesField: "length (appendBytesField [] f v) \<le> 20 + length v"
proof -
  have "length (varint w) \<le> 10" for w :: "64 word"
    using length_varint [of w 9] unsigned_less [where 'a = nat, of w] by simp
  from add_mono [OF this this] show ?thesis
    by (simp add: appendBytesField_def appendVarint_def Let_def)
qed

lemma length_appendBytesField_le: "length (appendBytesField b f v) \<le> 20 + length b + length v"
  unfolding appendBytesField_prefix [of b] using length_appendBytesField [of f v] by simp

lemma messages_roundtrip:
  assumes "length e = 32" "length s < 2 ^ 24" "length p < 2 ^ 24"
  shows "unmarshalClientHello (marshalClientHello e) = Inr e \<and>
    unmarshalServerHello (marshalServerHello e s p) = Inr \<lparr>sh_ephemeral = e, sh_static = s, sh_payload = p\<rparr> \<and>
    unmarshalClientFinish (marshalClientFinish s p) = Inr (s, Some p)"
proof -
  have big: "n < 2 ^ 24 \<Longrightarrow> n < 2 ^ 64" for n :: nat by (rule order_less_trans [of _ "2 ^ 24"]) simp_all
  have one: "pbParse (appendBytesField [] n v) = Inr [len_field n v]" if "n < 2 ^ 61" "length v < 2 ^ 64" for n v
    using pbParse_fields [of "[(n, v)]" "[]"] that by (simp add: pbParse_def maxPbFields_def)
  let ?ch = "appendBytesField [] fHelloEphemeral e"
  let ?cf = "appendBytesField (appendBytesField [] fFinishStatic s) fFinishPayload p"
  let ?sh = "appendBytesField (appendBytesField (appendBytesField [] fHelloEphemeral e) fHelloStatic s) fHelloPayload p"
  have pre: "?cf = appendBytesField [] fFinishStatic s @ appendBytesField [] fFinishPayload p"
    "?sh = appendBytesField [] fHelloEphemeral e @ appendBytesField [] fHelloStatic s @ appendBytesField [] fHelloPayload p"
    by (rule appendBytesField_prefix) (metis append_assoc appendBytesField_prefix)
  have l: "length ?ch < 2 ^ 64" "length ?cf < 2 ^ 64" "length ?sh < 2 ^ 64"
    unfolding pre using length_appendBytesField [of fHelloEphemeral e] length_appendBytesField [of fFinishStatic s]
      length_appendBytesField [of fFinishPayload p] length_appendBytesField [of fHelloStatic s]
      length_appendBytesField [of fHelloPayload p] assms by simp_all
  have cf: "pbParse ?cf = Inr [len_field fFinishStatic s, len_field fFinishPayload p]"
    unfolding pre using pbParse_fields [of "[(fFinishStatic, s), (fFinishPayload, p)]" "[]"] assms big
    by (simp add: pbParse_def maxPbFields_def field_numbers)
  have sh: "pbParse ?sh = Inr [len_field fHelloEphemeral e, len_field fHelloStatic s, len_field fHelloPayload p]"
    unfolding pre using pbParse_fields [of "[(fHelloEphemeral, e), (fHelloStatic, s), (fHelloPayload, p)]" "[]"] assms big
    by (simp add: pbParse_def maxPbFields_def field_numbers)
  have "unmarshalClientHello (marshalClientHello e) = Inr e"
    using one [of fHMClientHello ?ch] one [of fHelloEphemeral e] l(1) assms(1)
    by (simp add: unmarshalClientHello_def marshalClientHello_def len_field_def field_numbers)
  moreover have "unmarshalServerHello (marshalServerHello e s p) = Inr \<lparr>sh_ephemeral = e, sh_static = s, sh_payload = p\<rparr>"
    using one [of fHMServerHello ?sh] sh l(3) assms(1)
    by (simp add: unmarshalServerHello_def marshalServerHello_def len_field_def field_numbers)
  moreover have "unmarshalClientFinish (marshalClientFinish s p) = Inr (s, Some p)"
    using one [of fHMClientFinish ?cf] cf l(2)
    by (simp add: unmarshalClientFinish_def marshalClientFinish_def len_field_def field_numbers)
  ultimately show ?thesis by blast
qed

text \<open>
  C19. The three handshake messages parse back to what they were made of, for every ephemeral key
  of 32 bytes and every static key and payload that fits a frame.
\<close>

theorem wa_messages_roundtrip:
  assumes "length e = 32" "length s < 2 ^ 24" "length p < 2 ^ 24"
  shows "unmarshalClientHello (marshalClientHello e) = Inr e \<and>
    unmarshalServerHello (marshalServerHello e s p) = Inr \<lparr>sh_ephemeral = e, sh_static = s, sh_payload = p\<rparr> \<and>
    unmarshalClientFinish (marshalClientFinish s p) = Inr (s, Some p)"
  using messages_roundtrip [OF assms] .

theorem wa_messages_roundtrip_witness:
  "unmarshalServerHello (marshalServerHello (replicate 32 9) [1, 2] []) =
    Inr \<lparr>sh_ephemeral = replicate 32 9, sh_static = [1, 2], sh_payload = []\<rparr>"
  using wa_messages_roundtrip [of "replicate 32 9" "[1, 2]" "[]"] by simp

section \<open>Bounds of the parser\<close>

definition field_size :: "pb_field \<Rightarrow> nat" where
  "field_size f = (case pb_data f of None \<Rightarrow> 0 | Some d \<Rightarrow> length d)"

text \<open>What the fields found in a buffer take from it.\<close>

definition fields_within :: "pb_field list \<Rightarrow> bytes \<Rightarrow> bool" where
  "fields_within fs b \<longleftrightarrow> (\<forall>f \<in> set fs. \<forall>d. pb_data f = Some d \<longrightarrow> (\<exists>x y. b = x @ d @ y)) \<and>
     sum_list (map field_size fs) \<le> length b"

lemma fields_within_drop:
  assumes "fields_within fs (drop n b)"
  shows "fields_within fs b"
proof -
  have "\<exists>x y. b = x @ d @ y" if "\<exists>x y. drop n b = x @ d @ y" for d
    using that by (metis append.assoc append_take_drop_id)
  with assms show ?thesis unfolding fields_within_def by (intro conjI) (blast, elim conjE, simp)
qed

lemma fields_within_Cons:
  assumes "fields_within fs (drop l b)" "l \<le> length b" "pb_data f = None \<or> pb_data f = Some (take l b)"
  shows "fields_within (f # fs) b"
proof -
  have p: "\<exists>x y. b = x @ take l b @ y" by (intro exI [of _ "[]"] exI [of _ "drop l b"]) simp
  have "\<exists>x y. b = x @ d @ y" if "f' \<in> set (f # fs)" "pb_data f' = Some d" for f' d
  proof (cases "f' = f")
    case True
    with that(2) assms(3) p show ?thesis by (metis option.distinct(1) option.sel)
  next
    case False
    with that fields_within_drop [OF assms(1)] show ?thesis by (simp add: fields_within_def)
  qed
  moreover have "sum_list (map field_size (f # fs)) \<le> length b"
    using assms by (auto simp: fields_within_def field_size_def)
  ultimately show ?thesis unfolding fields_within_def by blast
qed

lemma fields_within_None: "fields_within fs b \<Longrightarrow> pb_data f = None \<Longrightarrow> fields_within (f # fs) b"
  by (simp add: fields_within_def field_size_def)

lemma pbParse_loop_bound:
  "pbParse_loop b out = Inr fs \<Longrightarrow> length out \<le> maxPbFields \<Longrightarrow>
   length fs \<le> maxPbFields \<and> (\<exists>new. fs = out @ new \<and> fields_within new b)"
proof (induction b out arbitrary: fs rule: pbParse_loop.induct)
  case (1 b out)
  show ?case
  proof (cases "b = []")
    case True
    with "1.prems" show ?thesis by (simp add: pbParse_loop.simps fields_within_def)
  next
    case False
    obtain tag n where u: "uvarint b = (tag, n)" by fastforce
    let ?b1 = "drop (nat n) b" and ?w = "unat (tag AND 7)"
    from "1.prems" False u have c: "\<not> maxPbFields \<le> length out" "\<not> n \<le> 0"
      by (auto simp: pbParse_loop.simps [of b] split: if_splits)
    consider "?w = 0" | "?w = 2" | "?w = 5" | "?w = 1" | "?w \<notin> {0, 2, 5, 1}" by auto
    then show ?thesis
    proof cases
      case 1
      obtain v m where v: "uvarint ?b1 = (v, m)" by fastforce
      let ?f = "\<lparr>pb_num = unat (drop_bit 3 tag), pb_wire = 0, pb_data = None, pb_val = v\<rparr>"
      from "1.prems" False u v c 1 have m: "\<not> m \<le> 0" and r: "pbParse_loop (drop (nat m) ?b1) (out @ [?f]) = Inr fs"
        by (auto simp: pbParse_loop.simps [of b] Let_def split: if_splits)
      from "1.IH"(1) [OF False c(1) u [symmetric] refl c(2) refl refl refl 1 v [symmetric] refl m r] c
      obtain new where "length fs \<le> maxPbFields" "fs = out @ ?f # new" "fields_within new (drop (nat m) ?b1)" by auto
      moreover from this(3) have "fields_within (?f # new) b"
        by (intro fields_within_None) (auto dest!: fields_within_drop simp del: drop_drop)
      ultimately show ?thesis by blast
    next
      case 2
      then have n0: "?w \<noteq> 0" by simp
      obtain l m where v: "uvarint ?b1 = (l, m)" by fastforce
      let ?b2 = "drop (nat m) ?b1"
      let ?f = "\<lparr>pb_num = unat (drop_bit 3 tag), pb_wire = 2, pb_data = Some (take (unat l) ?b2), pb_val = 0\<rparr>"
      from "1.prems" False u v c 2 have m: "\<not> m \<le> 0" "\<not> length ?b2 < unat l"
        and r: "pbParse_loop (drop (unat l) ?b2) (out @ [?f]) = Inr fs"
        by (auto simp: pbParse_loop.simps [of b] Let_def split: if_splits)
      from "1.IH"(2) [OF False c(1) u [symmetric] refl c(2) refl refl refl n0 2 v [symmetric] refl m(1) refl m(2) r] c
      obtain new where "length fs \<le> maxPbFields" "fs = out @ ?f # new" "fields_within new (drop (unat l) ?b2)" by auto
      moreover from fields_within_Cons [OF this(3), of ?f] m(2) have "fields_within (?f # new) b"
        using fields_within_drop by simp
      ultimately show ?thesis by blast
    next
      case 3
      then have n0: "?w \<noteq> 0" "?w \<noteq> 2" by simp_all
      from "1.prems" False u c 3 have m: "\<not> length ?b1 < 4" and r: "pbParse_loop (drop 4 ?b1) out = Inr fs"
        by (auto simp: pbParse_loop.simps [of b] Let_def split: if_splits)
      from "1.IH"(3) [OF False c(1) u [symmetric] refl c(2) refl refl refl n0 3 m r "1.prems"(2)] fields_within_drop
      show ?thesis by blast
    next
      case 4
      then have n0: "?w \<noteq> 0" "?w \<noteq> 2" "?w \<noteq> 5" by simp_all
      from "1.prems" False u c 4 have m: "\<not> length ?b1 < 8" and r: "pbParse_loop (drop 8 ?b1) out = Inr fs"
        by (auto simp: pbParse_loop.simps [of b] Let_def split: if_splits)
      from "1.IH"(4) [OF False c(1) u [symmetric] refl c(2) refl refl refl n0 4 m r "1.prems"(2)] fields_within_drop
      show ?thesis by blast
    next
      case 5
      with "1.prems" False u c show ?thesis by (auto simp: pbParse_loop.simps [of b] Let_def split: if_splits)
    qed
  qed
qed

text \<open>
  Whatever bytes a peer sends before it is authenticated: the parser returns at most
  \<open>maxPbFields\<close> fields, the data of every field is a piece of the buffer, and all the data
  together are not longer than the buffer.
\<close>

theorem pbParse_bounded:
  assumes "pbParse b = Inr fs"
  shows "length fs \<le> maxPbFields \<and> (\<forall>f \<in> set fs. \<forall>d. pb_data f = Some d \<longrightarrow> (\<exists>x y. b = x @ d @ y)) \<and>
    sum_list (map (\<lambda>f. case pb_data f of None \<Rightarrow> 0 | Some d \<Rightarrow> length d) fs) \<le> length b"
  using pbParse_loop_bound [of b "[]" fs] assms
  by (simp add: pbParse_def fields_within_def field_size_def [abs_def])

theorem pbParse_bounded_witness:
  "\<exists>fs. pbParse (appendBytesField [] 3 [7]) = Inr fs \<and> length fs \<le> maxPbFields"
proof -
  have "pbParse (appendBytesField [] 3 [7]) = Inr [len_field 3 [7]]"
    using pbParse_fields [of "[(3, [7])]" "[]"] by (simp add: pbParse_def maxPbFields_def)
  with pbParse_bounded [OF this] show ?thesis by simp
qed

end
