(* ===== verification/WA_Cert.thy ===== *)
theory WA_Cert
  imports WA_Proto
begin

text \<open>
  The server certificate of the WhatsApp backend (pkg/transport/whatsapp/cert.go): the chain
  root, intermediate, leaf, the XEdDSA verification with the arithmetic of the field library as
  a parameter, and the validity window with the standard library's 64-bit times. The time of
  the check is an argument: Unix seconds and nanoseconds.
\<close>

section \<open>Certificates\<close>

definition WACertPubKey :: bytes where
  "WACertPubKey = [0x14, 0x23, 0x75, 0x57, 0x4d, 0x0a, 0x58, 0x71, 0x66, 0xaa, 0xe7, 0x1e, 0xbe, 0x51, 0x64, 0x37,
     0xc4, 0xa2, 0x8b, 0x73, 0xe3, 0x69, 0x5c, 0x6c, 0xe1, 0xf7, 0xf9, 0x54, 0x5d, 0xa8, 0xee, 0x6b]"

definition waCertIssuerSerial :: "32 word" where
  "waCertIssuerSerial = 0"

definition fCertLeaf :: nat where "fCertLeaf = 1"

definition fCertIntermediate :: nat where "fCertIntermediate = 2"

definition fNoiseCertDetails :: nat where "fNoiseCertDetails = 1"

definition fNoiseCertSignature :: nat where "fNoiseCertSignature = 2"

record cert_details =
  d_serial :: "32 word"
  d_issuerSerial :: "32 word"
  d_key :: "bytes option"
  d_notBefore :: "64 word"
  d_notAfter :: "64 word"

definition zero_details :: cert_details where
  "zero_details = \<lparr>d_serial = 0, d_issuerSerial = 0, d_key = None, d_notBefore = 0, d_notAfter = 0\<rparr>"

text \<open>The body of the loop of \<open>parseDetails\<close>: field numbers 1 to 5, the last occurrence wins.\<close>

definition details_field :: "pb_field \<Rightarrow> cert_details \<Rightarrow> cert_details" where
  "details_field f d =
     (if pb_num f = 1 then d\<lparr>d_serial := ucast (pb_val f)\<rparr>
      else if pb_num f = 2 then d\<lparr>d_issuerSerial := ucast (pb_val f)\<rparr>
      else if pb_num f = 3 then d\<lparr>d_key := pb_data f\<rparr>
      else if pb_num f = 4 then d\<lparr>d_notBefore := pb_val f\<rparr>
      else if pb_num f = 5 then d\<lparr>d_notAfter := pb_val f\<rparr>
      else d)"

definition parseDetails :: "bytes \<Rightarrow> cert_details res" where
  "parseDetails b = attempt (pbParse b) (\<lambda>fields. Inr (fold details_field fields zero_details))"

definition parseNoiseCert :: "bytes \<Rightarrow> (bytes option \<times> bytes option) res" where
  "parseNoiseCert b = attempt (pbParse b) (\<lambda>fields.
     Inr (nestedBytes fields fNoiseCertDetails, nestedBytes fields fNoiseCertSignature))"

section \<open>Validity\<close>

text \<open>
  \<open>time.Unix(int64(s), 0)\<close> keeps \<open>s\<close> plus the seconds from year 1 to 1970 in an \<open>int64\<close>, with
  wrap-around; \<open>Before\<close> and \<open>After\<close> compare these signed seconds, then the nanoseconds.
\<close>

definition unixToInternal :: "64 word" where
  "unixToInternal = 62135596800"

definition internal_sec :: "64 word \<Rightarrow> int" where
  "internal_sec s = sint (s + unixToInternal)"

definition checkCertValidity :: "64 word \<times> nat \<Rightarrow> cert_details \<Rightarrow> unit res" where
  "checkCertValidity now d =
     (let t = internal_sec (fst now); nb = internal_sec (d_notBefore d); na = internal_sec (d_notAfter d) in
      if t < nb then Inl (New ''not valid yet'')
      else if na < t \<or> na = t \<and> 0 < snd now then Inl (New ''expired'')
      else Inr ())"

section \<open>XEdDSA\<close>

record 'fe xed_lib =
  fe_set :: "bytes \<Rightarrow> 'fe option"
  fe_one :: 'fe
  fe_sub :: "'fe \<Rightarrow> 'fe \<Rightarrow> 'fe"
  fe_add :: "'fe \<Rightarrow> 'fe \<Rightarrow> 'fe"
  fe_inv :: "'fe \<Rightarrow> 'fe"
  fe_mul :: "'fe \<Rightarrow> 'fe \<Rightarrow> 'fe"
  fe_bytes :: "'fe \<Rightarrow> bytes"
  ed_verify :: "bytes \<Rightarrow> bytes \<Rightarrow> bytes \<Rightarrow> bool"

definition xeddsaVerify :: "'fe xed_lib \<Rightarrow> bytes \<Rightarrow> bytes \<Rightarrow> bytes \<Rightarrow> bool" where
  "xeddsaVerify X montPub message signature =
     (case fe_set X (montPub[31 := montPub ! 31 AND 0x7F]) of
        None \<Rightarrow> False
      | Some montX \<Rightarrow>
          let edY = fe_mul X (fe_sub X montX (fe_one X)) (fe_inv X (fe_add X montX (fe_one X)));
              aEd = take 32 (fe_bytes X edY) @ replicate (32 - length (fe_bytes X edY)) 0;
              aEd' = aEd[31 := aEd ! 31 OR (signature ! 63 AND 0x80)];
              sig = signature[63 := signature ! 63 AND 0x7F]
          in ed_verify X aEd' message sig)"

section \<open>The chain\<close>

definition verifyServerCert :: "'fe xed_lib \<Rightarrow> 64 word \<times> nat \<Rightarrow> bytes \<Rightarrow> bytes \<Rightarrow> bytes \<Rightarrow> unit res" where
  "verifyServerCert X now certDecrypted staticDecrypted rootKey =
     attempt (wrap ''unmarshal cert chain: %w'' [] (pbParse certDecrypted)) (\<lambda>top.
     case (nestedBytes top fCertLeaf, nestedBytes top fCertIntermediate) of
       (Some leafBytes, Some intBytes) \<Rightarrow>
         attempt (parseNoiseCert leafBytes) (\<lambda>leaf.
         attempt (parseNoiseCert intBytes) (\<lambda>intermediate.
         case (leaf, intermediate) of
           ((Some ld, Some ls), (Some ide, Some is)) \<Rightarrow>
             if length is \<noteq> 64
             then Inl (Errorf ''unexpected intermediate signature length %d (expected 64)'' [AInt (int (length is))])
             else if length ls \<noteq> 64
             then Inl (Errorf ''unexpected leaf signature length %d (expected 64)'' [AInt (int (length ls))])
             else if \<not> xeddsaVerify X rootKey ide is
             then Inl (New ''failed to verify intermediate cert signature'')
             else attempt (parseDetails ide) (\<lambda>intDetails.
               if d_issuerSerial intDetails \<noteq> waCertIssuerSerial
               then Inl (Errorf ''unexpected intermediate issuer serial %d (expected %d)''
                 [AInt (uint (d_issuerSerial intDetails)), AInt (uint waCertIssuerSerial)])
               else
                 let ikey = (case d_key intDetails of None \<Rightarrow> [] | Some k \<Rightarrow> k) in
                 if length ikey \<noteq> 32
                 then Inl (Errorf ''unexpected intermediate key length %d (expected 32)'' [AInt (int (length ikey))])
                 else if \<not> xeddsaVerify X ikey ld ls
                 then Inl (New ''failed to verify leaf cert signature'')
                 else attempt (wrap ''intermediate cert %w'' [] (checkCertValidity now intDetails)) (\<lambda>_.
                 attempt (parseDetails ld) (\<lambda>leafDetails.
                   if d_issuerSerial leafDetails \<noteq> d_serial intDetails
                   then Inl (Errorf ''unexpected leaf issuer serial %d (expected %d)''
                     [AInt (uint (d_issuerSerial leafDetails)), AInt (uint (d_serial intDetails))])
                   else if (case d_key leafDetails of None \<Rightarrow> [] | Some k \<Rightarrow> k) \<noteq> staticDecrypted
                   then Inl (New ''cert key doesn't match decrypted server static'')
                   else wrap ''leaf cert %w'' [] (checkCertValidity now leafDetails))))
         | _ \<Rightarrow> Inl (New ''missing parts of noise certificate'')))
     | _ \<Rightarrow> Inl (New ''missing leaf or intermediate certificate''))"

section \<open>What is accepted\<close>

text \<open>The key of parsed details, as the code reads it (a nil slice has length 0).\<close>

definition key_bytes :: "cert_details \<Rightarrow> bytes" where
  "key_bytes d = (case d_key d of None \<Rightarrow> [] | Some k \<Rightarrow> k)"

definition in_window :: "64 word \<times> nat \<Rightarrow> cert_details \<Rightarrow> bool" where
  "in_window now d \<longleftrightarrow> internal_sec (d_notBefore d) \<le> internal_sec (fst now) \<and>
     (internal_sec (fst now) < internal_sec (d_notAfter d) \<or>
      internal_sec (fst now) = internal_sec (d_notAfter d) \<and> snd now = 0)"

lemma checkCertValidity_ok: "checkCertValidity now d = Inr u \<longleftrightarrow> in_window now d"
  by (auto simp: checkCertValidity_def in_window_def Let_def)

text \<open>
  The specification: \<open>msgs pk\<close> is the set of messages the owner of \<open>pk\<close> signed. A key is
  certified when the root signed an intermediate certificate issued by serial 0, its key signed
  a leaf certificate that names it as the issuer and holds the key, and both are in their
  validity windows.
\<close>

definition certified :: "(bytes \<Rightarrow> bytes set) \<Rightarrow> 64 word \<times> nat \<Rightarrow> bytes \<Rightarrow> bytes \<Rightarrow> bool" where
  "certified msgs now root key \<longleftrightarrow>
     (\<exists>ide ld di dl. ide \<in> msgs root \<and> parseDetails ide = Inr di \<and> d_issuerSerial di = 0 \<and> in_window now di \<and>
        length (key_bytes di) = 32 \<and> ld \<in> msgs (key_bytes di) \<and> parseDetails ld = Inr dl \<and>
        d_issuerSerial dl = d_serial di \<and> in_window now dl \<and> key_bytes dl = key)"

lemma opt2_Inr:
  "(case (a, b) of (Some x, Some y) \<Rightarrow> f x y | _ \<Rightarrow> Inl e) = Inr z \<longleftrightarrow>
     (\<exists>x y. a = Some x \<and> b = Some y \<and> f x y = Inr z)"
  by (cases a; cases b) simp_all

lemma opt4_Inr:
  "(case (l, i) of ((Some a, Some b), (Some c, Some d)) \<Rightarrow> f a b c d | _ \<Rightarrow> Inl e) = Inr z \<longleftrightarrow>
     (\<exists>a b c d. l = (Some a, Some b) \<and> i = (Some c, Some d) \<and> f a b c d = Inr z)"
  by (cases l; cases i; cases "fst l"; cases "snd l"; cases "fst i"; cases "snd i") simp_all

lemma verifyServerCert_Inr:
  "verifyServerCert X now cert key root = Inr () \<longleftrightarrow>
     (\<exists>top lf it ld ls ide isig di dl. pbParse cert = Inr top \<and> nestedBytes top fCertLeaf = Some lf \<and>
        nestedBytes top fCertIntermediate = Some it \<and> parseNoiseCert lf = Inr (Some ld, Some ls) \<and>
        parseNoiseCert it = Inr (Some ide, Some isig) \<and> length isig = 64 \<and> length ls = 64 \<and>
        xeddsaVerify X root ide isig \<and> parseDetails ide = Inr di \<and> d_issuerSerial di = 0 \<and>
        length (key_bytes di) = 32 \<and> xeddsaVerify X (key_bytes di) ld ls \<and> in_window now di \<and>
        parseDetails ld = Inr dl \<and> d_issuerSerial dl = d_serial di \<and> key_bytes dl = key \<and> in_window now dl)"
  unfolding verifyServerCert_def Let_def key_bytes_def [symmetric] try_eq_Inr opt2_Inr opt4_Inr if_Inl_Inr
    wrap_eq_Inr checkCertValidity_ok waCertIssuerSerial_def not_not
  by (intro iffI; elim exE conjE; intro exI conjI; (assumption | simp))

lemma verified_certified:
  assumes "verifyServerCert X now cert key root = Inr ()"
    and "\<And>pk m sig. xeddsaVerify X pk m sig \<Longrightarrow> m \<in> msgs pk"
  shows "certified msgs now root key"
  using assms(1) unfolding verifyServerCert_Inr certified_def
  by (elim exE conjE) (metis assms(2))

text \<open>
  C20. The server certificate check accepts a chain only for a certified key: if every message
  that verifies under a public key was signed by its owner, an accepted chain means that the
  root signed an intermediate certificate of issuer 0, that the intermediate's key signed a leaf
  naming it, that both are in their validity window, and that the leaf holds exactly the key the
  handshake decrypted. A chain is accepted for one key only.
\<close>

theorem cert_accepts_only_certified:
  assumes "verifyServerCert X now cert key root = Inr ()"
    and "\<And>pk m sig. xeddsaVerify X pk m sig \<Longrightarrow> m \<in> msgs pk"
  shows "certified msgs now root key \<and>
    (\<forall>key'. verifyServerCert X now cert key' root = Inr () \<longleftrightarrow> key' = key)"
proof
  show "certified msgs now root key" by (rule verified_certified [OF assms])
  show "\<forall>key'. verifyServerCert X now cert key' root = Inr () \<longleftrightarrow> key' = key"
    using assms(1) unfolding verifyServerCert_Inr by (elim exE conjE) auto
qed

section \<open>The validity window\<close>

lemma internal_sec_uint:
  "internal_sec s = (uint s + 62135596800 + 2 ^ 63) mod 2 ^ 64 - 2 ^ 63"
proof -
  have e: "s + unixToInternal = word_of_int (uint s + 62135596800)"
    by (simp add: unixToInternal_def)
  show ?thesis unfolding internal_sec_def e int_word_sint by simp
qed

lemma internal_sec_small: "uint s < 2 ^ 62 \<Longrightarrow> internal_sec s = uint s + 62135596800"
  unfolding internal_sec_uint using uint_ge_0 [of s] by (subst mod_pos_pos_trivial) simp_all

lemma internal_sec_large:
  assumes "2 ^ 63 \<le> uint s" "uint s < 2 ^ 63 + 2 ^ 62"
  shows "internal_sec s = uint s + 62135596800 - 2 ^ 64"
proof -
  have "(uint s + 62135596800 + 2 ^ 63) mod 2 ^ 64 = (uint s + 62135596800 + 2 ^ 63 - 2 ^ 64) mod 2 ^ 64"
    by (metis minus_mod_self2)
  also have "\<dots> = uint s + 62135596800 + 2 ^ 63 - 2 ^ 64"
    using assms by (intro mod_pos_pos_trivial) simp_all
  finally show ?thesis by (simp add: internal_sec_uint)
qed

lemma internal_sec_negative:
  "2 ^ 63 \<le> uint s \<Longrightarrow> uint s < 2 ^ 63 + 2 ^ 62 \<Longrightarrow> internal_sec s < 0"
  by (simp add: internal_sec_large)

lemma internal_sec_positive: "uint s < 2 ^ 62 \<Longrightarrow> 0 < internal_sec s"
  using uint_ge_0 [of s] by (simp add: internal_sec_small add_nonneg_pos)

text \<open>
  The validity check is the window of the certificate: with times below \<open>2 ^ 62\<close> seconds it
  succeeds exactly when notBefore is not after now and now is not after notAfter. A notBefore
  with its top bit set counts as a time long past (the code converts it to a signed number), so
  such a certificate is never "not valid yet"; a notAfter with its top bit set is always expired.
\<close>

theorem cert_validity_window:
  assumes "uint (fst now) < 2 ^ 62"
  shows "(uint (d_notBefore d) < 2 ^ 62 \<longrightarrow> uint (d_notAfter d) < 2 ^ 62 \<longrightarrow>
      (checkCertValidity now d = Inr () \<longleftrightarrow> d_notBefore d \<le> fst now \<and>
         (fst now < d_notAfter d \<or> fst now = d_notAfter d \<and> snd now = 0)))
    \<and> (2 ^ 63 \<le> uint (d_notBefore d) \<longrightarrow> uint (d_notBefore d) < 2 ^ 63 + 2 ^ 62 \<longrightarrow>
         checkCertValidity now d \<noteq> Inl (New ''not valid yet''))
    \<and> (2 ^ 63 \<le> uint (d_notAfter d) \<longrightarrow> uint (d_notAfter d) < 2 ^ 63 + 2 ^ 62 \<longrightarrow>
         checkCertValidity now d \<noteq> Inr ())"
proof (intro conjI impI)
  assume "uint (d_notBefore d) < 2 ^ 62" "uint (d_notAfter d) < 2 ^ 62"
  with assms show "checkCertValidity now d = Inr () \<longleftrightarrow> d_notBefore d \<le> fst now \<and>
      (fst now < d_notAfter d \<or> fst now = d_notAfter d \<and> snd now = 0)"
    by (simp add: checkCertValidity_ok in_window_def internal_sec_small word_le_def word_less_def word_uint_eq_iff)
next
  assume "2 ^ 63 \<le> uint (d_notBefore d)" "uint (d_notBefore d) < 2 ^ 63 + 2 ^ 62"
  from internal_sec_negative [OF this] internal_sec_positive [OF assms]
  have "\<not> internal_sec (fst now) < internal_sec (d_notBefore d)" by simp
  then show "checkCertValidity now d \<noteq> Inl (New ''not valid yet'')"
    by (simp add: checkCertValidity_def Let_def)
next
  assume "2 ^ 63 \<le> uint (d_notAfter d)" "uint (d_notAfter d) < 2 ^ 63 + 2 ^ 62"
  from internal_sec_negative [OF this] internal_sec_positive [OF assms]
  show "checkCertValidity now d \<noteq> Inr ()"
    by (simp add: checkCertValidity_ok in_window_def)
qed

theorem cert_validity_window_witness:
  "checkCertValidity (1700000000, 0) (zero_details\<lparr>d_notBefore := 1600000000, d_notAfter := 1800000000\<rparr>) = Inr () \<and>
   checkCertValidity (1500000000, 0) (zero_details\<lparr>d_notBefore := 1600000000, d_notAfter := 1800000000\<rparr>) \<noteq> Inr () \<and>
   checkCertValidity (1700000000, 0) (zero_details\<lparr>d_notBefore := 2 ^ 63, d_notAfter := 1800000000\<rparr>) \<noteq> Inl (New ''not valid yet'')"
  using cert_validity_window [of "(1700000000, 0)" "zero_details\<lparr>d_notBefore := 1600000000, d_notAfter := 1800000000\<rparr>"]
    cert_validity_window [of "(1500000000, 0)" "zero_details\<lparr>d_notBefore := 1600000000, d_notAfter := 1800000000\<rparr>"]
    cert_validity_window [of "(1700000000, 0)" "zero_details\<lparr>d_notBefore := 2 ^ 63, d_notAfter := 1800000000\<rparr>"]
  by (simp add: word_less_alt word_le_def)

section \<open>Chains made with the codec\<close>

definition varint_field :: "nat \<Rightarrow> 64 word \<Rightarrow> pb_field" where
  "varint_field num v = \<lparr>pb_num = num, pb_wire = 0, pb_data = None, pb_val = v\<rparr>"

lemma varint_tag_parts:
  assumes "field < 2 ^ 61"
  shows "unat (drop_bit 3 (push_bit 3 (word_of_nat field) :: 64 word)) = field"
    and "unat ((push_bit 3 (word_of_nat field) :: 64 word) AND 7) = 0"
proof -
  have f: "take_bit 61 (word_of_nat field :: 64 word) = word_of_nat field"
    using assms by (intro word_unat_eq_iff [THEN iffD2]) (simp add: unsigned_take_bit_eq unat_of_nat take_bit_nat_eq_self)
  have "drop_bit 3 (push_bit 3 (word_of_nat field) :: 64 word) = take_bit 61 (word_of_nat field)"
    by (rule bit_word_eqI) (auto simp: bit_drop_bit_eq bit_push_bit_iff bit_take_bit_iff)
  then show "unat (drop_bit 3 (push_bit 3 (word_of_nat field) :: 64 word)) = field"
    using assms unfolding f by (simp add: unat_of_nat take_bit_nat_eq_self)
  have m: "(7 :: 64 word) = mask 3" by (simp add: mask_numeral)
  have "(push_bit 3 (word_of_nat field) :: 64 word) AND 7 = 0"
    unfolding m by (rule bit_word_eqI) (auto simp: bit_and_iff bit_push_bit_iff bit_mask_iff)
  then show "unat ((push_bit 3 (word_of_nat field) :: 64 word) AND 7) = 0" by simp
qed

lemma pbParse_varint_field:
  assumes "field < 2 ^ 61" "length out < maxPbFields"
  shows "pbParse_loop (appendVarintField [] field v @ rest) out = pbParse_loop rest (out @ [varint_field field v])"
  using assms(2) varint_tag_parts [OF assms(1)]
  by (subst pbParse_loop.simps) (simp add: appendVarintField_def appendVarint_def Let_def varint_field_def)

text \<open>A certificate's details, a certificate and a chain, in the order of their field numbers.\<close>

definition details_bytes :: "32 word \<Rightarrow> 32 word \<Rightarrow> bytes \<Rightarrow> 64 word \<Rightarrow> 64 word \<Rightarrow> bytes" where
  "details_bytes serial issuer key nb na =
     appendVarintField [] 1 (ucast serial) @ appendVarintField [] 2 (ucast issuer) @ appendBytesField [] 3 key @
     appendVarintField [] 4 nb @ appendVarintField [] 5 na"

definition two_fields :: "bytes \<Rightarrow> bytes \<Rightarrow> bytes" where
  "two_fields a b = appendBytesField [] 1 a @ appendBytesField [] 2 b"

lemma pbParse_two_fields:
  "length a < 2 ^ 64 \<Longrightarrow> length b < 2 ^ 64 \<Longrightarrow> pbParse (two_fields a b) = Inr [len_field 1 a, len_field 2 b]"
  using pbParse_fields [of "[(1, a), (2, b)]" "[]"] by (simp add: pbParse_def two_fields_def maxPbFields_def)

lemma ucast_up_down: "ucast (ucast (w :: 32 word) :: 64 word) = w"
  by transfer simp

lemma parseDetails_bytes:
  assumes "length key < 2 ^ 64"
  shows "parseDetails (details_bytes serial issuer key nb na) =
    Inr \<lparr>d_serial = serial, d_issuerSerial = issuer, d_key = Some key, d_notBefore = nb, d_notAfter = na\<rparr>"
proof -
  let ?fs = "[varint_field 1 (ucast serial), varint_field 2 (ucast issuer), len_field 3 key, varint_field 4 nb, varint_field 5 na]"
  have last: "pbParse_loop (appendVarintField [] 5 na) out = Inr (out @ [varint_field 5 na])" if "length out < maxPbFields" for out
    using pbParse_varint_field [of 5 out na "[]"] that by (simp add: pbParse_loop.simps [of "[]"])
  have "pbParse (details_bytes serial issuer key nb na) = Inr ?fs"
    using assms last by (simp add: pbParse_def details_bytes_def pbParse_varint_field pbParse_bytes_field maxPbFields_def)
  then show ?thesis
    by (simp add: parseDetails_def details_field_def zero_details_def varint_field_def len_field_def ucast_up_down)
qed

lemma parseNoiseCert_two_fields:
  "length d < 2 ^ 64 \<Longrightarrow> length s < 2 ^ 64 \<Longrightarrow> parseNoiseCert (two_fields d s) = Inr (Some d, Some s)"
  by (simp add: parseNoiseCert_def pbParse_two_fields fNoiseCertDetails_def fNoiseCertSignature_def len_field_def)

lemma length_appendVarintField: "length (appendVarintField [] f v) \<le> 20"
proof -
  have "length (varint w) \<le> 10" for w :: "64 word"
    using length_varint [of w 9] unsigned_less [where 'a = nat, of w] by simp
  from add_mono [OF this this] show ?thesis
    by (simp add: appendVarintField_def appendVarint_def Let_def)
qed

lemma length_details_bytes: "length (details_bytes serial issuer key nb na) \<le> 100 + length key"
  using length_appendVarintField [of 1 "ucast serial"] length_appendVarintField [of 2 "ucast issuer"]
    length_appendBytesField [of 3 key] length_appendVarintField [of 4 nb] length_appendVarintField [of 5 na]
  by (simp add: details_bytes_def)

lemma length_two_fields: "length (two_fields a b) \<le> 40 + length a + length b"
  using length_appendBytesField [of 1 a] length_appendBytesField [of 2 b] by (simp add: two_fields_def)

lemma chain_parsed:
  assumes "length ikey < 2 ^ 32" "length lkey < 2 ^ 32" "length isig < 2 ^ 32" "length lsig < 2 ^ 32"
  shows "pbParse (two_fields (two_fields (details_bytes ls li lkey lnb lna) lsig) (two_fields (details_bytes is ii ikey inb ina) isig)) =
      Inr [len_field 1 (two_fields (details_bytes ls li lkey lnb lna) lsig), len_field 2 (two_fields (details_bytes is ii ikey inb ina) isig)]"
    and "parseNoiseCert (two_fields (details_bytes ls li lkey lnb lna) lsig) = Inr (Some (details_bytes ls li lkey lnb lna), Some lsig)"
    and "parseNoiseCert (two_fields (details_bytes is ii ikey inb ina) isig) = Inr (Some (details_bytes is ii ikey inb ina), Some isig)"
proof -
  let ?ld = "details_bytes ls li lkey lnb lna" and ?id = "details_bytes is ii ikey inb ina"
  have l: "length ?ld < 2 ^ 33" "length ?id < 2 ^ 33"
    using length_details_bytes [of ls li lkey lnb lna] length_details_bytes [of "is" ii ikey inb ina] assms by simp_all
  have t: "length (two_fields ?ld lsig) < 2 ^ 64" "length (two_fields ?id isig) < 2 ^ 64"
    using l assms length_two_fields [of ?ld lsig] length_two_fields [of ?id isig] by simp_all
  from pbParse_two_fields [OF t] show "pbParse (two_fields (two_fields ?ld lsig) (two_fields ?id isig)) =
      Inr [len_field 1 (two_fields ?ld lsig), len_field 2 (two_fields ?id isig)]" .
  from l assms show "parseNoiseCert (two_fields ?ld lsig) = Inr (Some ?ld, Some lsig)"
    "parseNoiseCert (two_fields ?id isig) = Inr (Some ?id, Some isig)"
    by (simp_all add: parseNoiseCert_two_fields)
qed

lemmas chain_facts = verifyServerCert_Inr parseDetails_bytes key_bytes_def fCertLeaf_def fCertIntermediate_def len_field_def

text \<open>
  C21. A well-formed chain is accepted exactly when it should be: for two certificates encoded
  with the code's own field encoders, the check succeeds if and only if the intermediate's issuer
  is serial 0, both signatures verify under the keys above them, the leaf's issuer is the
  intermediate's serial, both windows contain the time of the check and the leaf's key is the
  decrypted static key.
\<close>

theorem cert_chain_accepted_iff:
  assumes "length ikey < 2 ^ 32" "length lkey < 2 ^ 32" "length isig < 2 ^ 32" "length lsig < 2 ^ 32"
  shows "verifyServerCert X now (two_fields (two_fields (details_bytes ls li lkey lnb lna) lsig)
      (two_fields (details_bytes is ii ikey inb ina) isig)) key root = Inr () \<longleftrightarrow>
    length isig = 64 \<and> length lsig = 64 \<and> length ikey = 32 \<and> ii = 0 \<and> li = is \<and> key = lkey \<and>
    xeddsaVerify X root (details_bytes is ii ikey inb ina) isig \<and>
    xeddsaVerify X ikey (details_bytes ls li lkey lnb lna) lsig \<and>
    in_window now \<lparr>d_serial = is, d_issuerSerial = ii, d_key = Some ikey, d_notBefore = inb, d_notAfter = ina\<rparr> \<and>
    in_window now \<lparr>d_serial = ls, d_issuerSerial = li, d_key = Some lkey, d_notBefore = lnb, d_notAfter = lna\<rparr>"
  using chain_parsed [OF assms] assms by (auto simp: chain_facts)

text \<open>A concrete verifier and a chain it accepts, for the witnesses.\<close>

definition ex_xed :: "bytes xed_lib" where
  "ex_xed = \<lparr>fe_set = Some, fe_one = [], fe_sub = (\<lambda>a b. a), fe_add = (\<lambda>a b. a), fe_inv = (\<lambda>a. a),
     fe_mul = (\<lambda>a b. a), fe_bytes = (\<lambda>a. a), ed_verify = (\<lambda>pk m sig. pk \<noteq> [] \<and> hd sig = word_of_nat (length m))\<rparr>"

definition ex_details :: "bytes \<Rightarrow> 32 word \<Rightarrow> bytes" where
  "ex_details key serial = details_bytes serial 0 key 1 2000000000"

definition ex_sig :: "bytes \<Rightarrow> bytes" where
  "ex_sig m = word_of_nat (length m) # replicate 63 0"

definition ex_chain :: bytes where
  "ex_chain = two_fields (two_fields (ex_details (replicate 32 7) 0) (ex_sig (ex_details (replicate 32 7) 0)))
     (two_fields (ex_details (replicate 32 5) 0) (ex_sig (ex_details (replicate 32 5) 0)))"

lemma ex_xed_verify: "length pk = 32 \<Longrightarrow> xeddsaVerify ex_xed pk m (ex_sig m)"
  by (simp add: xeddsaVerify_def ex_xed_def ex_sig_def Let_def)

theorem cert_chain_accepted_iff_witness:
  "verifyServerCert ex_xed (1700000000, 0) ex_chain (replicate 32 7) (replicate 32 1) = Inr () \<and>
   verifyServerCert ex_xed (1700000000, 0) ex_chain (replicate 32 9) (replicate 32 1) \<noteq> Inr ()"
  using cert_chain_accepted_iff [of "replicate 32 5" "replicate 32 7" "ex_sig (ex_details (replicate 32 5) 0)"
      "ex_sig (ex_details (replicate 32 7) 0)" ex_xed "(1700000000, 0)" 0 0 1 2000000000 0 0 1 2000000000
      "replicate 32 7" "replicate 32 1"]
    cert_chain_accepted_iff [of "replicate 32 5" "replicate 32 7" "ex_sig (ex_details (replicate 32 5) 0)"
      "ex_sig (ex_details (replicate 32 7) 0)" ex_xed "(1700000000, 0)" 0 0 1 2000000000 0 0 1 2000000000
      "replicate 32 9" "replicate 32 1"]
    ex_xed_verify [of "replicate 32 1"] ex_xed_verify [of "replicate 32 5"]
  by (simp add: ex_chain_def ex_details_def in_window_def internal_sec_def unixToInternal_def ex_sig_def replicate_eq_replicate)

lemma ex_chain_ok: "verifyServerCert ex_xed (1700000000, 0) ex_chain (replicate 32 7) (replicate 32 1) = Inr ()"
  using chain_parsed(1) [of "replicate 32 5" "replicate 32 7" "ex_sig (ex_details (replicate 32 5) 0)" "ex_sig (ex_details (replicate 32 7) 0)" 0 0 1 2000000000 0 0 1 2000000000]
    chain_parsed(2) [of "replicate 32 5" "replicate 32 7" "ex_sig (ex_details (replicate 32 5) 0)" "ex_sig (ex_details (replicate 32 7) 0)" 0 0 1 2000000000]
    chain_parsed(3) [of "replicate 32 5" "replicate 32 7" "ex_sig (ex_details (replicate 32 5) 0)" "ex_sig (ex_details (replicate 32 7) 0)" 0 0 1 2000000000]
    ex_xed_verify [of "replicate 32 1"] ex_xed_verify [of "replicate 32 5"]
  by (simp add: ex_chain_def ex_details_def in_window_def internal_sec_def unixToInternal_def ex_sig_def chain_facts)

theorem cert_accepts_only_certified_witness:
  "certified (\<lambda>pk. {m. \<exists>sig. xeddsaVerify ex_xed pk m sig}) (1700000000, 0) (replicate 32 1) (replicate 32 7)"
  using cert_accepts_only_certified [OF ex_chain_ok, of "\<lambda>pk. {m. \<exists>sig. xeddsaVerify ex_xed pk m sig}"] by blast

end
