(* ===== verification/WA_Framing.thy ===== *)
theory WA_Framing
  imports Calls
begin

text \<open>
  The wire framing of the WhatsApp transport (pkg/transport/whatsapp/framing.go): a one-time
  header, then frames with a three-byte big-endian length. The record \<open>framed\<close> is the struct
  \<open>framedConn\<close>.
\<close>

section \<open>Framing\<close>

definition maxFrameLen :: nat where
  "maxFrameLen = 2 ^ 24 - 1"

definition waConnHeader :: bytes where
  "waConnHeader = [0x57, 0x41, 6, 3]"

record framed =
  f_net :: net
  f_writeHeader :: bool
  f_readHeader :: bool

definition newClientFramedConn :: "net \<Rightarrow> framed" where
  "newClientFramedConn n = \<lparr>f_net = n, f_writeHeader = True, f_readHeader = False\<rparr>"

definition writeFrame :: "bytes \<Rightarrow> framed \<Rightarrow> framed \<times> err option" where
  "writeFrame payload f =
     (if maxFrameLen < length payload
      then (f, Some (Errorf ''whatsapp: frame too large (%d > %d)'' [AInt (int (length payload)), AInt (int maxFrameLen)]))
      else
        let buf = (if f_writeHeader f then waConnHeader else []) @ put24 (length payload) @ payload in
        case conn_write buf (f_net f) of
          (n, e) \<Rightarrow> (f\<lparr>f_net := n, f_writeHeader := False\<rparr>, map_option Io e))"

text \<open>The part of \<open>readFrame\<close> after the header.\<close>

definition readFrame_body :: "framed \<Rightarrow> framed \<times> bytes res" where
  "readFrame_body f =
     (case readFull 3 (f_net f) of
        (n, Inl e) \<Rightarrow> (f\<lparr>f_net := n\<rparr>, Inl (Io e))
      | (n, Inr lp) \<Rightarrow>
          let k = get24 (lp ! 0) (lp ! 1) (lp ! 2) in
          if maxFrameLen < k
          then (f\<lparr>f_net := n\<rparr>, Inl (Errorf ''whatsapp: frame length %d exceeds max'' [AInt (int k)]))
          else (case readFull k n of
                  (n', Inl e) \<Rightarrow> (f\<lparr>f_net := n'\<rparr>, Inl (Io e))
                | (n', Inr payload) \<Rightarrow> (f\<lparr>f_net := n'\<rparr>, Inr payload)))"

definition readFrame :: "framed \<Rightarrow> framed \<times> bytes res" where
  "readFrame f =
     (if f_readHeader f
      then (case readFull (length waConnHeader) (f_net f) of
              (n, Inl e) \<Rightarrow> (f\<lparr>f_net := n\<rparr>, Inl (Io e))
            | (n, Inr hdr) \<Rightarrow>
                if hdr ! 0 \<noteq> 0x57 \<or> hdr ! 1 \<noteq> 0x41
                then (f\<lparr>f_net := n\<rparr>, Inl (New ''whatsapp: missing WA connection header''))
                else readFrame_body (f\<lparr>f_net := n, f_readHeader := False\<rparr>))
      else readFrame_body f)"

section \<open>Reading what was written\<close>

definition frame_of :: "bool \<Rightarrow> bytes \<Rightarrow> bytes" where
  "frame_of h payload = (if h then waConnHeader else []) @ put24 (length payload) @ payload"

lemma writeFrame_ok:
  assumes "net_ok (f_net f)" "length payload \<le> maxFrameLen"
  shows "writeFrame payload f =
    (f\<lparr>f_net := (f_net f)\<lparr>tx := tx (f_net f) @ [frame_of (f_writeHeader f) payload]\<rparr>, f_writeHeader := False\<rparr>, None)"
  using assms by (simp add: writeFrame_def frame_of_def Let_def)

lemma readFrame_body_ok:
  assumes "\<not> net_closed (f_net f)" "avail (rx (f_net f)) = frame_of False payload @ rest" "length payload \<le> maxFrameLen"
  shows "readFrame_body f = (f\<lparr>f_net := (f_net f)\<lparr>rx := advance (length payload) (advance 3 (rx (f_net f)))\<rparr>\<rparr>, Inr payload)"
proof -
  let ?n1 = "(f_net f)\<lparr>rx := advance 3 (rx (f_net f))\<rparr>"
  have l: "length payload < 16777216" using assms(3) by (simp add: maxFrameLen_def)
  from put24_cases [OF l] obtain a b c where abc: "put24 (length payload) = [a, b, c]" "get24 a b c = length payload" .
  have "readFull 3 (f_net f) = (?n1, Inr (put24 (length payload)))"
    using full.rd_prefix [of "f_net f" "put24 (length payload)" "payload @ rest" 3] assms by (simp add: frame_of_def)
  moreover have "readFull (length payload) ?n1 = (?n1\<lparr>rx := advance (length payload) (rx ?n1)\<rparr>, Inr payload)"
    using full.rd_prefix [of ?n1 payload rest "length payload"] assms by (simp add: frame_of_def)
  ultimately show ?thesis using assms(3) abc by (simp add: readFrame_body_def Let_def two)
qed

text \<open>A frame is read back, with the header where it is expected, and nothing after it is touched.\<close>

lemma readFrame_ok:
  assumes "\<not> net_closed (f_net f)" "avail (rx (f_net f)) = frame_of (f_readHeader f) payload @ rest"
    "length payload \<le> maxFrameLen"
  shows "\<exists>es. readFrame f = (f\<lparr>f_net := (f_net f)\<lparr>rx := es\<rparr>, f_readHeader := False\<rparr>, Inr payload) \<and> avail es = rest \<and>
    (all_data (rx (f_net f)) \<longrightarrow> all_data es)"
proof (cases "f_readHeader f")
  case True
  have l: "length waConnHeader = 4" "waConnHeader ! 0 = 0x57" "waConnHeader ! 1 = 0x41" by (simp_all add: waConnHeader_def)
  let ?f = "f\<lparr>f_net := (f_net f)\<lparr>rx := advance 4 (rx (f_net f))\<rparr>, f_readHeader := False\<rparr>"
  have "readFull 4 (f_net f) = ((f_net f)\<lparr>rx := advance 4 (rx (f_net f))\<rparr>, Inr waConnHeader)"
    using full.rd_prefix [of "f_net f" waConnHeader "put24 (length payload) @ payload @ rest" 4] assms True l
    by (simp add: frame_of_def)
  moreover have "readFrame_body ?f = (?f\<lparr>f_net := (f_net ?f)\<lparr>rx := advance (length payload) (advance 3 (rx (f_net ?f)))\<rparr>\<rparr>, Inr payload)"
    using readFrame_body_ok [of ?f payload rest] assms True l by (simp add: frame_of_def)
  ultimately show ?thesis
    using True assms l by (intro exI [of _ "advance (length payload) (advance 3 (advance 4 (rx (f_net f))))"])
      (simp add: readFrame_def frame_of_def)
next
  case False
  with readFrame_body_ok [of f payload rest] assms show ?thesis
    by (intro exI [of _ "advance (length payload) (advance 3 (rx (f_net f)))"]) (simp add: readFrame_def frame_of_def)
qed

end
