(* ===== verification/WA_Noise.thy ===== *)
theory WA_Noise
  imports WA_Cert WA_Framing Crypto_Lib
begin

text \<open>
  The Noise XX handshake of the WhatsApp transport (pkg/transport/whatsapp/handshake.go). The
  record \<open>wa_nh\<close> is the struct \<open>noiseHandshake\<close>; a \<open>cipher.AEAD\<close> is the key it was made of;
  the state of a handshake is the framed connection and the script of the entropy source. X25519
  is a parameter; what the code relies on is \<open>wa_dh_ok\<close>.
\<close>

section \<open>The symmetric state\<close>

definition noiseStartPattern :: bytes where
  "noiseStartPattern = str_bytes ''Noise_XX_25519_AESGCM_SHA256'' @ [0, 0, 0, 0]"

definition generateIV :: "32 word \<Rightarrow> bytes" where
  "generateIV count = replicate 8 0 @ map (\<lambda>i. ucast (drop_bit (8 * (3 - i)) count)) [0..<4]"

text \<open>\<open>aes.NewCipher\<close> accepts keys of 16, 24 and 32 bytes.\<close>

definition gcmPrepare :: "bytes \<Rightarrow> bytes res" where
  "gcmPrepare key =
     (if length key = 16 \<or> length key = 24 \<or> length key = 32 then Inr key
      else Inl (Wrapf ''whatsapp: init AES: %w'' [] (Errorf ''crypto/aes: invalid key size %d'' [AInt (int (length key))])))"

record wa_nh =
  nh_hash :: bytes
  nh_salt :: bytes
  nh_key :: bytes
  nh_counter :: "32 word"

definition newNoiseHandshake :: wa_nh where
  "newNoiseHandshake = \<lparr>nh_hash = [], nh_salt = [], nh_key = [], nh_counter = 0\<rparr>"

definition nh_authenticate :: "crypto \<Rightarrow> bytes \<Rightarrow> wa_nh \<Rightarrow> wa_nh" where
  "nh_authenticate C data nh = nh\<lparr>nh_hash := c_sha256 C (nh_hash nh @ data)\<rparr>"

definition nh_start :: "crypto \<Rightarrow> bytes \<Rightarrow> bytes \<Rightarrow> wa_nh \<Rightarrow> wa_nh res" where
  "nh_start C pat header nh =
     (let h = (if length pat = 32 then pat else c_sha256 C pat) in
      attempt (gcmPrepare h) (\<lambda>key. Inr (nh_authenticate C header (nh\<lparr>nh_hash := h, nh_salt := h, nh_key := key\<rparr>))))"

definition postIncrementCounter :: "wa_nh \<Rightarrow> wa_nh \<times> 32 word" where
  "postIncrementCounter nh = (nh\<lparr>nh_counter := nh_counter nh + 1\<rparr>, nh_counter nh)"

definition nh_encrypt :: "crypto \<Rightarrow> bytes \<Rightarrow> wa_nh \<Rightarrow> wa_nh \<times> bytes" where
  "nh_encrypt C plaintext nh =
     (let (nh', c) = postIncrementCounter nh;
          ciphertext = c_seal C (nh_key nh) (generateIV c) (nh_hash nh) plaintext
      in (nh_authenticate C ciphertext nh', ciphertext))"

definition nh_decrypt :: "crypto \<Rightarrow> bytes \<Rightarrow> wa_nh \<Rightarrow> wa_nh \<times> bytes res" where
  "nh_decrypt C ciphertext nh =
     (let (nh', c) = postIncrementCounter nh in
      case c_open C (nh_key nh) (generateIV c) (nh_hash nh) ciphertext of
        None \<Rightarrow> (nh', Inl (New ''cipher: message authentication failed''))
      | Some p \<Rightarrow> (nh_authenticate C ciphertext nh', Inr p))"

definition extractAndExpand :: "crypto \<Rightarrow> bytes \<Rightarrow> bytes \<Rightarrow> bytes \<times> bytes" where
  "extractAndExpand C salt data = (let h = c_hkdf C salt data in (take 32 h, take 32 (drop 32 h)))"

definition mixIntoKey :: "crypto \<Rightarrow> bytes \<Rightarrow> wa_nh \<Rightarrow> wa_nh res" where
  "mixIntoKey C data nh =
     (let (w, r) = extractAndExpand C (nh_salt nh) data in
      attempt (gcmPrepare r) (\<lambda>key. Inr (nh\<lparr>nh_counter := 0, nh_salt := w, nh_key := key\<rparr>)))"

definition nh_finish :: "crypto \<Rightarrow> wa_nh \<Rightarrow> bytes \<times> bytes" where
  "nh_finish C nh = extractAndExpand C (nh_salt nh) []"

section \<open>Keys\<close>

record wa_dh =
  x25519 :: "bytes \<Rightarrow> bytes \<Rightarrow> (string, bytes) sum"
  basepoint :: bytes

definition wa_dh_ok :: "wa_dh \<Rightarrow> bool" where
  "wa_dh_ok D \<longleftrightarrow>
     (\<forall>a. length a = 32 \<longrightarrow> (\<exists>A. x25519 D a (basepoint D) = Inr A \<and> length A = 32)) \<and>
     (\<forall>a b A B. length a = 32 \<and> length b = 32 \<and> x25519 D a (basepoint D) = Inr A \<and> x25519 D b (basepoint D) = Inr B \<longrightarrow>
        (\<exists>s. x25519 D a B = Inr s \<and> x25519 D b A = Inr s))"

record dhKeypair =
  kp_priv :: bytes
  kp_pub :: bytes

definition generateKeypair :: "wa_dh \<Rightarrow> (string + bytes) list \<Rightarrow> (string + bytes) list \<times> dhKeypair res" where
  "generateKeypair D r =
     (case generate_key r of
        (r', Inl e) \<Rightarrow> (r', Inl (Wrapf ''whatsapp: read random: %w'' [] e))
      | (r', Inr priv) \<Rightarrow>
          (case x25519 D priv (basepoint D) of
             Inl e \<Rightarrow> (r', Inl (Wrapf ''whatsapp: derive public key: %w'' [] (New e)))
           | Inr pub \<Rightarrow> (r', Inr \<lparr>kp_priv = priv, kp_pub = pad32 pub\<rparr>)))"

definition mixSharedSecretIntoKey :: "crypto \<Rightarrow> wa_dh \<Rightarrow> bytes \<Rightarrow> bytes \<Rightarrow> wa_nh \<Rightarrow> wa_nh res" where
  "mixSharedSecretIntoKey C D priv pub nh =
     (case x25519 D priv pub of
        Inl e \<Rightarrow> Inl (Wrapf ''whatsapp: x25519: %w'' [] (New e))
      | Inr secret \<Rightarrow> mixIntoKey C secret nh)"

record hs_result =
  hs_writeKey :: bytes
  hs_readKey :: bytes
  hs_peerStatic :: bytes

section \<open>The client\<close>

text \<open>
  From the ServerHello to the message of ClientFinish: everything between the client's read and
  its second write.
\<close>

definition client_process :: "crypto \<Rightarrow> wa_dh \<Rightarrow> 'fe xed_lib \<Rightarrow> 64 word \<times> nat \<Rightarrow> dhKeypair \<Rightarrow> dhKeypair \<Rightarrow> bytes \<Rightarrow>
    bytes option \<Rightarrow> wa_nh \<Rightarrow> bytes \<Rightarrow> (bytes \<times> wa_nh \<times> bytes) res" where
  "client_process C D X now eph clientStatic clientPayload rootKey nh0 respBytes =
     attempt (unmarshalServerHello respBytes) (\<lambda>sh.
     let nh1 = nh_authenticate C (sh_ephemeral sh) nh0 in
     attempt (wrap ''whatsapp: mix server ephemeral: %w'' []
       (mixSharedSecretIntoKey C D (kp_priv eph) (sh_ephemeral sh) nh1)) (\<lambda>nh2.
     let (nh3, r3) = nh_decrypt C (sh_static sh) nh2 in
     attempt (wrap ''whatsapp: decrypt server static: %w'' [] r3) (\<lambda>staticDec.
     if length staticDec \<noteq> 32
     then Inl (Errorf ''whatsapp: server static length %d (expected 32)'' [AInt (int (length staticDec))])
     else
     attempt (wrap ''whatsapp: mix server static: %w'' []
       (mixSharedSecretIntoKey C D (kp_priv eph) staticDec nh3)) (\<lambda>nh4.
     let (nh5, r5) = nh_decrypt C (sh_payload sh) nh4 in
     attempt (wrap ''whatsapp: decrypt certificate: %w'' [] r5) (\<lambda>certDec.
     attempt (case rootKey of None \<Rightarrow> Inr ()
              | Some root \<Rightarrow> wrap ''whatsapp: verify server cert: %w'' [] (verifyServerCert X now certDec staticDec root)) (\<lambda>_.
     let (nh6, encStatic) = nh_encrypt C (kp_pub clientStatic) nh5 in
     attempt (wrap ''whatsapp: mix client static: %w'' []
       (mixSharedSecretIntoKey C D (kp_priv clientStatic) (sh_ephemeral sh) nh6)) (\<lambda>nh7.
     let (nh8, encPayload) = nh_encrypt C clientPayload nh7 in
     Inr (marshalClientFinish encStatic encPayload, nh8, staticDec))))))))"

definition client_result :: "crypto \<Rightarrow> wa_nh \<Rightarrow> bytes \<Rightarrow> hs_result res" where
  "client_result C nh staticDec =
     (let (w, r) = nh_finish C nh in
      attempt (gcmPrepare w) (\<lambda>writeKey.
      attempt (gcmPrepare r) (\<lambda>readKey.
      Inr \<lparr>hs_writeKey = writeKey, hs_readKey = readKey, hs_peerStatic = staticDec\<rparr>)))"

definition clientHandshake :: "crypto \<Rightarrow> wa_dh \<Rightarrow> 'fe xed_lib \<Rightarrow> 64 word \<times> nat \<Rightarrow> dhKeypair \<Rightarrow> bytes \<Rightarrow> bytes option \<Rightarrow>
    framed \<times> (string + bytes) list \<Rightarrow> (framed \<times> (string + bytes) list) \<times> hs_result res" where
  "clientHandshake C D X now clientStatic clientPayload rootKey = (\<lambda>(f, r).
     case nh_start C noiseStartPattern waConnHeader newNoiseHandshake of
       Inl e \<Rightarrow> ((f, r), Inl e)
     | Inr nh0 \<Rightarrow>
         (case generateKeypair D r of
            (r', Inl e) \<Rightarrow> ((f, r'), Inl e)
          | (r', Inr eph) \<Rightarrow>
              (case writeFrame (marshalClientHello (kp_pub eph)) f of
                 (f1, Some e) \<Rightarrow> ((f1, r'), Inl (Wrapf ''whatsapp: send ClientHello: %w'' [] e))
               | (f1, None) \<Rightarrow>
                   (case readFrame f1 of
                      (f2, Inl e) \<Rightarrow> ((f2, r'), Inl (Wrapf ''whatsapp: read ServerHello: %w'' [] e))
                    | (f2, Inr respBytes) \<Rightarrow>
                        (case client_process C D X now eph clientStatic clientPayload rootKey
                                (nh_authenticate C (kp_pub eph) nh0) respBytes of
                           Inl e \<Rightarrow> ((f2, r'), Inl e)
                         | Inr (msg3, nh, staticDec) \<Rightarrow>
                             (case writeFrame msg3 f2 of
                                (f3, Some e) \<Rightarrow> ((f3, r'), Inl (Wrapf ''whatsapp: send ClientFinish: %w'' [] e))
                              | (f3, None) \<Rightarrow> ((f3, r'), client_result C nh staticDec)))))))"

section \<open>The server\<close>

text \<open>From the client's ephemeral key to the ServerHello message.\<close>

definition server_reply :: "crypto \<Rightarrow> wa_dh \<Rightarrow> dhKeypair \<Rightarrow> bytes \<Rightarrow> dhKeypair \<Rightarrow> bytes \<Rightarrow> wa_nh \<Rightarrow> (bytes \<times> wa_nh) res" where
  "server_reply C D serverStatic payload serverEph clientEph nh0 =
     (let nh1 = nh_authenticate C (kp_pub serverEph) nh0 in
      attempt (wrap ''whatsapp: mix client ephemeral: %w'' []
        (mixSharedSecretIntoKey C D (kp_priv serverEph) clientEph nh1)) (\<lambda>nh2.
      let (nh3, encStatic) = nh_encrypt C (kp_pub serverStatic) nh2 in
      attempt (wrap ''whatsapp: mix server static: %w'' []
        (mixSharedSecretIntoKey C D (kp_priv serverStatic) clientEph nh3)) (\<lambda>nh4.
      let (nh5, encPayload) = nh_encrypt C payload nh4 in
      Inr (marshalServerHello (kp_pub serverEph) encStatic encPayload, nh5))))"

text \<open>From the ClientFinish message to the end of the handshake.\<close>

definition server_process :: "crypto \<Rightarrow> wa_dh \<Rightarrow> dhKeypair \<Rightarrow> wa_nh \<Rightarrow> bytes \<Rightarrow> hs_result res" where
  "server_process C D serverEph nh0 m3 =
     attempt (unmarshalClientFinish m3) (\<lambda>(cfStatic, cfPayload).
     let (nh1, r1) = nh_decrypt C cfStatic nh0 in
     attempt (wrap ''whatsapp: decrypt client static: %w'' [] r1) (\<lambda>clientStaticDec.
     if length clientStaticDec \<noteq> 32
     then Inl (Errorf ''whatsapp: client static length %d (expected 32)'' [AInt (int (length clientStaticDec))])
     else
     attempt (wrap ''whatsapp: mix client static: %w'' []
       (mixSharedSecretIntoKey C D (kp_priv serverEph) clientStaticDec nh1)) (\<lambda>nh2.
     let (nh3, r3) = nh_decrypt C (case cfPayload of None \<Rightarrow> [] | Some p \<Rightarrow> p) nh2 in
     attempt (wrap ''whatsapp: decrypt client payload: %w'' [] r3) (\<lambda>_.
     let (w, r) = nh_finish C nh3 in
     attempt (gcmPrepare r) (\<lambda>sendKey.
     attempt (gcmPrepare w) (\<lambda>recvKey.
     Inr \<lparr>hs_writeKey = sendKey, hs_readKey = recvKey, hs_peerStatic = clientStaticDec\<rparr>))))))"

definition serverHandshake :: "crypto \<Rightarrow> wa_dh \<Rightarrow> dhKeypair \<Rightarrow> bytes \<Rightarrow>
    framed \<times> (string + bytes) list \<Rightarrow> (framed \<times> (string + bytes) list) \<times> hs_result res" where
  "serverHandshake C D serverStatic payload = (\<lambda>(f, r).
     case nh_start C noiseStartPattern waConnHeader newNoiseHandshake of
       Inl e \<Rightarrow> ((f, r), Inl e)
     | Inr nh0 \<Rightarrow>
         (case readFrame f of
            (f1, Inl e) \<Rightarrow> ((f1, r), Inl (Wrapf ''whatsapp: read ClientHello: %w'' [] e))
          | (f1, Inr m1) \<Rightarrow>
              (case unmarshalClientHello m1 of
                 Inl e \<Rightarrow> ((f1, r), Inl e)
               | Inr clientEph \<Rightarrow>
                   (case generateKeypair D r of
                      (r', Inl e) \<Rightarrow> ((f1, r'), Inl e)
                    | (r', Inr serverEph) \<Rightarrow>
                        (case server_reply C D serverStatic payload serverEph clientEph (nh_authenticate C clientEph nh0) of
                           Inl e \<Rightarrow> ((f1, r'), Inl e)
                         | Inr (msg2, nh) \<Rightarrow>
                             (case writeFrame msg2 f1 of
                                (f2, Some e) \<Rightarrow> ((f2, r'), Inl (Wrapf ''whatsapp: send ServerHello: %w'' [] e))
                              | (f2, None) \<Rightarrow>
                                  (case readFrame f2 of
                                     (f3, Inl e) \<Rightarrow> ((f3, r'), Inl (Wrapf ''whatsapp: read ClientFinish: %w'' [] e))
                                   | (f3, Inr m3) \<Rightarrow> ((f3, r'), server_process C D serverEph nh m3))))))))"

end
