(* ===== verification/WA_Handshake.thy ===== *)
theory WA_Handshake
  imports WA_Noise
begin

text \<open>
  Both ends of the WhatsApp handshake at once: the symmetric states of the two sides run in step,
  so that they end with the same keys; and what a successful handshake with the backend says
  about the peer.
\<close>

section \<open>The symmetric state in step\<close>

lemma gcmPrepare_32: "length k = 32 \<Longrightarrow> gcmPrepare k = Inr k"
  by (simp add: gcmPrepare_def)

lemma extractAndExpand_length:
  "crypto_ok C \<Longrightarrow> length (fst (extractAndExpand C s d)) = 32 \<and> length (snd (extractAndExpand C s d)) = 32"
  by (simp add: extractAndExpand_def Let_def crypto_okD(2))

definition nh_mixed :: "crypto \<Rightarrow> bytes \<Rightarrow> wa_nh \<Rightarrow> wa_nh" where
  "nh_mixed C d nh = nh\<lparr>nh_counter := 0, nh_salt := fst (extractAndExpand C (nh_salt nh) d),
     nh_key := snd (extractAndExpand C (nh_salt nh) d)\<rparr>"

lemma mixIntoKey_ok: "crypto_ok C \<Longrightarrow> mixIntoKey C d nh = Inr (nh_mixed C d nh)"
  by (simp add: mixIntoKey_def nh_mixed_def case_prod_beta gcmPrepare_32 extractAndExpand_length)

lemma mixShared_ok:
  "crypto_ok C \<Longrightarrow> x25519 D a B = Inr s \<Longrightarrow> mixSharedSecretIntoKey C D a B nh = Inr (nh_mixed C s nh)"
  by (simp add: mixSharedSecretIntoKey_def mixIntoKey_ok)

lemma mixShared_Inr:
  "crypto_ok C \<Longrightarrow> mixSharedSecretIntoKey C D a B nh = Inr nh' \<longleftrightarrow> (\<exists>s. x25519 D a B = Inr s \<and> nh' = nh_mixed C s nh)"
  by (auto simp: mixSharedSecretIntoKey_def mixIntoKey_ok split: sum.splits)

text \<open>Decrypting what was encrypted in the same state gives the text and the same next state.\<close>

lemma nh_decrypt_encrypt:
  "crypto_ok C \<Longrightarrow> nh_encrypt C p nh = (nh', ct) \<Longrightarrow> nh_decrypt C ct nh = (nh', Inr p)"
  by (auto simp: Let_def nh_encrypt_def nh_decrypt_def postIncrementCounter_def crypto_okD(4))

lemma nh_encrypt_length: "crypto_ok C \<Longrightarrow> nh_encrypt C p nh = (nh', ct) \<Longrightarrow> length ct = length p + 16"
  by (auto simp: Let_def nh_encrypt_def postIncrementCounter_def crypto_okD(3))

lemma nh_start_ok:
  assumes "crypto_ok C"
  obtains nh where "nh_start C noiseStartPattern waConnHeader newNoiseHandshake = Inr nh"
proof -
  have "length noiseStartPattern = 32" by (simp add: noiseStartPattern_def str_bytes_def)
  then show ?thesis using that by (simp add: nh_start_def gcmPrepare_32)
qed

section \<open>Keys\<close>

definition wa_keypair :: "wa_dh \<Rightarrow> dhKeypair \<Rightarrow> bool" where
  "wa_keypair D k \<longleftrightarrow> length (kp_priv k) = 32 \<and> length (kp_pub k) = 32 \<and> x25519 D (kp_priv k) (basepoint D) = Inr (kp_pub k)"

lemma dh_agree:
  assumes "wa_dh_ok D" "wa_keypair D a" "wa_keypair D b"
  obtains s where "x25519 D (kp_priv a) (kp_pub b) = Inr s" "x25519 D (kp_priv b) (kp_pub a) = Inr s"
  using assms that unfolding wa_dh_ok_def wa_keypair_def by blast

lemma generateKeypair_ok:
  assumes "wa_dh_ok D" "length k = 32"
  obtains kp where "generateKeypair D (Inr k # r) = (r, Inr kp)" "wa_keypair D kp"
proof -
  from assms obtain A where A: "x25519 D k (basepoint D) = Inr A" "length A = 32" by (auto simp: wa_dh_ok_def)
  show ?thesis
    by (rule that [of "\<lparr>kp_priv = k, kp_pub = A\<rparr>"]) (simp_all add: generateKeypair_def wa_keypair_def A assms(2))
qed

section \<open>The messages\<close>

lemma length_serverHello:
  "length (marshalServerHello e s p) \<le> 80 + length e + length s + length p"
proof -
  let ?a = "appendBytesField [] fHelloEphemeral e" and ?b = "appendBytesField (appendBytesField [] fHelloEphemeral e) fHelloStatic s"
  show ?thesis
    using length_appendBytesField [of fHelloEphemeral e] length_appendBytesField_le [of ?a fHelloStatic s]
      length_appendBytesField_le [of ?b fHelloPayload p] length_appendBytesField [of fHMServerHello "appendBytesField ?b fHelloPayload p"]
    unfolding marshalServerHello_def Let_def by linarith
qed

lemma length_clientFinish: "length (marshalClientFinish s p) \<le> 60 + length s + length p"
proof -
  let ?a = "appendBytesField [] fFinishStatic s"
  show ?thesis
    using length_appendBytesField [of fFinishStatic s] length_appendBytesField_le [of ?a fFinishPayload p]
      length_appendBytesField [of fHMClientFinish "appendBytesField ?a fFinishPayload p"]
    unfolding marshalClientFinish_def Let_def by linarith
qed

lemma length_clientHello: "length (marshalClientHello e) \<le> 40 + length e"
  using length_appendBytesField [of fHelloEphemeral e] length_appendBytesField [of fHMClientHello "appendBytesField [] fHelloEphemeral e"]
  unfolding marshalClientHello_def Let_def by linarith

text \<open>
  The two sides' pure parts in step: the server's reply, the client's processing of it, and the
  server's processing of the answer.
\<close>

lemma process_agree:
  assumes C: "crypto_ok C" and D: "wa_dh_ok D"
    and k: "wa_keypair D ce" "wa_keypair D cs" "wa_keypair D se" "wa_keypair D ss"
    and cert: "\<And>root. rootKey = Some root \<Longrightarrow> verifyServerCert X now sp (kp_pub ss) root = Inr ()"
    and len: "length sp \<le> 2 ^ 20" "length cp \<le> 2 ^ 20"
  obtains m2 nh m3 nh' w r where
    "server_reply C D ss sp se (kp_pub ce) nh0 = Inr (m2, nh)"
    "client_process C D X now ce cs cp rootKey nh0 m2 = Inr (m3, nh', kp_pub ss)"
    "client_result C nh' (kp_pub ss) = Inr \<lparr>hs_writeKey = w, hs_readKey = r, hs_peerStatic = kp_pub ss\<rparr>"
    "server_process C D se nh m3 = Inr \<lparr>hs_writeKey = r, hs_readKey = w, hs_peerStatic = kp_pub cs\<rparr>"
    "length m2 \<le> maxFrameLen" "length m3 \<le> maxFrameLen" "length w = 32" "length r = 32"
proof -
  obtain s1 where s1: "x25519 D (kp_priv se) (kp_pub ce) = Inr s1" "x25519 D (kp_priv ce) (kp_pub se) = Inr s1"
    by (rule dh_agree [OF D k(3,1)])
  obtain s2 where s2: "x25519 D (kp_priv ss) (kp_pub ce) = Inr s2" "x25519 D (kp_priv ce) (kp_pub ss) = Inr s2"
    by (rule dh_agree [OF D k(4,1)])
  obtain s3 where s3: "x25519 D (kp_priv cs) (kp_pub se) = Inr s3" "x25519 D (kp_priv se) (kp_pub cs) = Inr s3"
    by (rule dh_agree [OF D k(2,3)])
  let ?nh2 = "nh_mixed C s1 (nh_authenticate C (kp_pub se) nh0)"
  obtain nh3 es where e1: "nh_encrypt C (kp_pub ss) ?nh2 = (nh3, es)" by fastforce
  obtain nh5 ep where e2: "nh_encrypt C sp (nh_mixed C s2 nh3) = (nh5, ep)" by fastforce
  obtain nh6 fs where e3: "nh_encrypt C (kp_pub cs) nh5 = (nh6, fs)" by fastforce
  obtain nh8 fp where e4: "nh_encrypt C cp (nh_mixed C s3 nh6) = (nh8, fp)" by fastforce
  note d = e1 [THEN nh_decrypt_encrypt [OF C]] e2 [THEN nh_decrypt_encrypt [OF C]]
    e3 [THEN nh_decrypt_encrypt [OF C]] e4 [THEN nh_decrypt_encrypt [OF C]]
  have kl: "length (kp_pub se) = 32" "length (kp_pub ss) = 32" "length (kp_pub cs) = 32"
    using k by (simp_all add: wa_keypair_def)
  have l: "length es = 48" "length ep = length sp + 16" "length fs = 48" "length fp = length cp + 16"
    using e1 e2 e3 e4 kl by (simp_all add: nh_encrypt_length [OF C])
  let ?m2 = "marshalServerHello (kp_pub se) es ep" and ?m3 = "marshalClientFinish fs fp"
  let ?w = "fst (extractAndExpand C (nh_salt nh8) [])" and ?r = "snd (extractAndExpand C (nh_salt nh8) [])"
  have u: "unmarshalServerHello ?m2 = Inr \<lparr>sh_ephemeral = kp_pub se, sh_static = es, sh_payload = ep\<rparr>"
    "unmarshalClientFinish ?m3 = Inr (fs, Some fp)"
    using messages_roundtrip [of "kp_pub se" es ep] messages_roundtrip [of "kp_pub se" fs fp] kl l len by simp_all
  have g: "length ?w = 32" "length ?r = 32" using extractAndExpand_length [OF C] by simp_all
  have v: "(case rootKey of None \<Rightarrow> Inr ()
      | Some root \<Rightarrow> wrap m as (verifyServerCert X now sp (kp_pub ss) root)) = Inr ()" for m as
    using cert by (simp split: option.splits)
  note mx = mixShared_ok [OF C]
  show ?thesis
  proof (rule that)
    show "server_reply C D ss sp se (kp_pub ce) nh0 = Inr (?m2, nh5)"
      by (simp add: server_reply_def Let_def mx [OF s1(1)] mx [OF s2(1)] e1 e2)
    show "client_process C D X now ce cs cp rootKey nh0 ?m2 = Inr (?m3, nh8, kp_pub ss)"
      by (simp add: client_process_def Let_def u mx [OF s1(2)] mx [OF s2(2)] mx [OF s3(1)] d(1,2) kl v e3 e4)
    show "client_result C nh8 (kp_pub ss) = Inr \<lparr>hs_writeKey = ?w, hs_readKey = ?r, hs_peerStatic = kp_pub ss\<rparr>"
      by (simp add: client_result_def nh_finish_def case_prod_beta gcmPrepare_32 g)
    show "server_process C D se nh5 ?m3 = Inr \<lparr>hs_writeKey = ?r, hs_readKey = ?w, hs_peerStatic = kp_pub cs\<rparr>"
      by (simp add: server_process_def Let_def u mx [OF s3(2)] d(3,4) kl nh_finish_def case_prod_beta gcmPrepare_32 g)
    show "length ?m2 \<le> maxFrameLen" "length ?m3 \<le> maxFrameLen"
      using length_serverHello [of "kp_pub se" es ep] length_clientFinish [of fs fp] kl l len
      by (simp_all add: maxFrameLen_def)
  qed (fact g)+
qed

section \<open>Both ends\<close>

definition serverFramed :: "net \<Rightarrow> framed" where
  "serverFramed n = \<lparr>f_net = n, f_writeHeader = False, f_readHeader = True\<rparr>"

text \<open>A framed connection after the handshake: no header pending, \<open>x\<close> left to read.\<close>

definition joined_framed :: "bytes \<Rightarrow> framed \<Rightarrow> bool" where
  "joined_framed x f \<longleftrightarrow> \<not> f_writeHeader f \<and> \<not> f_readHeader f \<and> avail (rx (f_net f)) = x \<and>
     all_data (rx (f_net f)) \<and> \<not> net_closed (f_net f)"

lemma handshake_agreement:
  assumes "crypto_ok C" "wa_dh_ok D" "length ke = 32" "length kf = 32" "wa_keypair D cs" "wa_keypair D ss"
    and "\<And>root. rootKey = Some root \<Longrightarrow> verifyServerCert X now sp (kp_pub ss) root = Inr ()"
    and "length sp \<le> 2 ^ 20" "length cp \<le> 2 ^ 20"
  shows "\<exists>f1 f2 f3. \<forall>ec es x y. all_data ec \<and> avail ec = f2 @ x \<and> all_data es \<and> avail es = f1 @ f3 @ y \<longrightarrow>
    (\<exists>c s hc hs.
      clientHandshake C D X now cs cp rootKey (newClientFramedConn (fresh_net ec), Inr ke # rc) = ((c, rc), Inr hc) \<and>
      serverHandshake C D ss sp (serverFramed (fresh_net es), Inr kf # rs) = ((s, rs), Inr hs) \<and>
      tx (f_net c) = [f1, f3] \<and> tx (f_net s) = [f2] \<and>
      hs_writeKey hc = hs_readKey hs \<and> hs_readKey hc = hs_writeKey hs \<and>
      hs_peerStatic hc = kp_pub ss \<and> hs_peerStatic hs = kp_pub cs \<and>
      joined_framed x c \<and> joined_framed y s)"
proof -
  from nh_start_ok [OF assms(1)] obtain nh0 where nh0: "nh_start C noiseStartPattern waConnHeader newNoiseHandshake = Inr nh0" .
  from generateKeypair_ok [OF assms(2,3)] obtain ce where ce: "generateKeypair D (Inr ke # rc) = (rc, Inr ce)" "wa_keypair D ce" .
  from generateKeypair_ok [OF assms(2,4)] obtain se where se: "generateKeypair D (Inr kf # rs) = (rs, Inr se)" "wa_keypair D se" .
  let ?m1 = "marshalClientHello (kp_pub ce)" and ?nh = "nh_authenticate C (kp_pub ce) nh0"
  obtain m2 nh m3 nh' w r where m: "server_reply C D ss sp se (kp_pub ce) ?nh = Inr (m2, nh)"
    "client_process C D X now ce cs cp rootKey ?nh m2 = Inr (m3, nh', kp_pub ss)"
    "client_result C nh' (kp_pub ss) = Inr \<lparr>hs_writeKey = w, hs_readKey = r, hs_peerStatic = kp_pub ss\<rparr>"
    "server_process C D se nh m3 = Inr \<lparr>hs_writeKey = r, hs_readKey = w, hs_peerStatic = kp_pub cs\<rparr>"
    "length m2 \<le> maxFrameLen" "length m3 \<le> maxFrameLen" "length w = 32" "length r = 32"
    using process_agree [OF assms(1,2) ce(2) assms(5) se(2) assms(6,7,8,9)] .
  have ce_len: "length (kp_pub ce) = 32" using ce(2) by (simp add: wa_keypair_def)
  have m1: "length ?m1 \<le> maxFrameLen" "unmarshalClientHello ?m1 = Inr (kp_pub ce)"
    using length_clientHello [of "kp_pub ce"] messages_roundtrip [of "kp_pub ce" "[]" "[]"] ce_len
    by (simp_all add: maxFrameLen_def)
  let ?f1 = "frame_of True ?m1" and ?f2 = "frame_of False m2" and ?f3 = "frame_of False m3"
  have "\<exists>c s hc hs.
      clientHandshake C D X now cs cp rootKey (newClientFramedConn (fresh_net ec), Inr ke # rc) = ((c, rc), Inr hc) \<and>
      serverHandshake C D ss sp (serverFramed (fresh_net es), Inr kf # rs) = ((s, rs), Inr hs) \<and>
      tx (f_net c) = [?f1, ?f3] \<and> tx (f_net s) = [?f2] \<and>
      hs_writeKey hc = hs_readKey hs \<and> hs_readKey hc = hs_writeKey hs \<and>
      hs_peerStatic hc = kp_pub ss \<and> hs_peerStatic hs = kp_pub cs \<and>
      joined_framed x c \<and> joined_framed y s"
    if e: "all_data ec" "avail ec = ?f2 @ x" "all_data es" "avail es = ?f1 @ ?f3 @ y" for ec es x y
  proof -
    have fn: "rx (fresh_net x) = x" "tx (fresh_net x) = []" "\<not> net_closed (fresh_net x)" for x by (simp_all add: fresh_net_def)
    let ?c1 = "\<lparr>f_net = (fresh_net ec)\<lparr>tx := [?f1]\<rparr>, f_writeHeader = False, f_readHeader = False\<rparr>"
    have w1: "writeFrame ?m1 (newClientFramedConn (fresh_net ec)) = (?c1, None)"
      using writeFrame_ok [of "newClientFramedConn (fresh_net ec)" ?m1] m1 by (simp add: newClientFramedConn_def fn)
    obtain ec' where r2: "readFrame ?c1 = (?c1\<lparr>f_net := (fresh_net ec)\<lparr>tx := [?f1], rx := ec'\<rparr>, f_readHeader := False\<rparr>, Inr m2)" "avail ec' = x" "all_data ec'"
      using readFrame_ok [of ?c1 m2 x] e(1,2) m(5) by (auto simp: fn)
    let ?c2 = "?c1\<lparr>f_net := (fresh_net ec)\<lparr>tx := [?f1], rx := ec'\<rparr>, f_readHeader := False\<rparr>"
    have w3: "writeFrame m3 ?c2 = (?c2\<lparr>f_net := (fresh_net ec)\<lparr>rx := ec', tx := [?f1, ?f3]\<rparr>\<rparr>, None)"
      using writeFrame_ok [of ?c2 m3] m(6) by simp
    obtain es1 where s1: "readFrame (serverFramed (fresh_net es)) =
        (\<lparr>f_net = (fresh_net es)\<lparr>rx := es1\<rparr>, f_writeHeader = False, f_readHeader = False\<rparr>, Inr ?m1)" "avail es1 = ?f3 @ y" "all_data es1"
      using readFrame_ok [of "serverFramed (fresh_net es)" ?m1 "?f3 @ y"] e(3,4) m1(1) by (auto simp: serverFramed_def fn)
    let ?s1 = "\<lparr>f_net = (fresh_net es)\<lparr>rx := es1\<rparr>, f_writeHeader = False, f_readHeader = False\<rparr>"
    let ?s2 = "?s1\<lparr>f_net := (fresh_net es)\<lparr>rx := es1, tx := [?f2]\<rparr>\<rparr>"
    have s2: "writeFrame m2 ?s1 = (?s2, None)"
      using writeFrame_ok [of ?s1 m2] m(5) by (simp add: fn)
    obtain es2 where s3: "readFrame ?s2 = (?s2\<lparr>f_net := (fresh_net es)\<lparr>tx := [?f2], rx := es2\<rparr>, f_readHeader := False\<rparr>, Inr m3)" "avail es2 = y" "all_data es2"
      using readFrame_ok [of ?s2 m3 y] s1(2,3) m(6) by (auto simp: fn)
    let ?c = "?c2\<lparr>f_net := (fresh_net ec)\<lparr>rx := ec', tx := [?f1, ?f3]\<rparr>\<rparr>"
    let ?s = "?s2\<lparr>f_net := (fresh_net es)\<lparr>tx := [?f2], rx := es2\<rparr>, f_readHeader := False\<rparr>"
    have "clientHandshake C D X now cs cp rootKey (newClientFramedConn (fresh_net ec), Inr ke # rc) =
        ((?c, rc), Inr \<lparr>hs_writeKey = w, hs_readKey = r, hs_peerStatic = kp_pub ss\<rparr>)"
      using w3 by (simp add: clientHandshake_def nh0 ce(1) w1 r2(1) m(2,3))
    moreover have "serverHandshake C D ss sp (serverFramed (fresh_net es), Inr kf # rs) =
        ((?s, rs), Inr \<lparr>hs_writeKey = r, hs_readKey = w, hs_peerStatic = kp_pub cs\<rparr>)"
      using s2 s3(1) by (simp add: serverHandshake_def nh0 se(1) s1(1) m1(2) m(1,4))
    ultimately show ?thesis using r2(2,3) s3(2,3) fn by (simp add: joined_framed_def)
  qed
  then show ?thesis by blast
qed

text \<open>A concrete Diffie-Hellman function, for the witnesses.\<close>

definition ex_wa :: wa_dh where
  "ex_wa = \<lparr>x25519 = (\<lambda>a b. Inr (map2 (*) a b)), basepoint = replicate 32 1\<rparr>"

lemma map2_one: "length a = n \<Longrightarrow> map2 (*) a (replicate n 1) = (a :: bytes)"
  by (rule nth_equalityI) simp_all

lemma ex_wa_ok: "wa_dh_ok ex_wa"
proof -
  have "map2 (*) a b = map2 (*) b (a :: bytes)" if "length a = 32" "length b = 32" for a b
    using that by (intro nth_equalityI) (simp_all add: mult.commute)
  then show ?thesis by (auto simp: wa_dh_ok_def ex_wa_def map2_one)
qed

definition ex_keypair :: "byte \<Rightarrow> dhKeypair" where
  "ex_keypair x = \<lparr>kp_priv = replicate 32 x, kp_pub = replicate 32 x\<rparr>"

lemma ex_keypair_ok: "wa_keypair ex_wa (ex_keypair x)"
  by (simp add: wa_keypair_def ex_keypair_def ex_wa_def map2_one)

lemma ex_chain_length: "length ex_chain \<le> 2 ^ 20"
proof -
  let ?a = "ex_details (replicate 32 7) 0" and ?b = "ex_details (replicate 32 5) 0"
  have "length ?a \<le> 132" "length ?b \<le> 132"
    using length_details_bytes [of 0 0 "replicate 32 7" 1 2000000000] length_details_bytes [of 0 0 "replicate 32 5" 1 2000000000]
    by (simp_all add: ex_details_def)
  moreover have "length (ex_sig m) = 64" for m by (simp add: ex_sig_def)
  ultimately show ?thesis
    using length_two_fields [of ?a "ex_sig ?a"] length_two_fields [of ?b "ex_sig ?b"]
      length_two_fields [of "two_fields ?a (ex_sig ?a)" "two_fields ?b (ex_sig ?b)"]
    by (simp add: ex_chain_def)
qed

lemma ex_backend_run:
  "\<exists>f2 s' hs. clientHandshake ex_crypto ex_wa ex_xed (1700000000, 0) (ex_keypair 3) [] (Some (replicate 32 1))
      (newClientFramedConn (fresh_net [Data f2]), [Inr (replicate 32 4)]) = (s', Inr hs)"
proof -
  have "verifyServerCert ex_xed (1700000000, 0) ex_chain (kp_pub (ex_keypair 7)) (replicate 32 1) = Inr ()"
    using ex_chain_ok by (simp add: ex_keypair_def)
  with handshake_agreement [OF ex_crypto_ok ex_wa_ok, of "replicate 32 4" "replicate 32 6",
      OF _ _ ex_keypair_ok [of 3] ex_keypair_ok [of 7] _ ex_chain_length, where cp = "[]" and X = ex_xed and now = "(1700000000, 0)"
      and rootKey = "Some (replicate 32 1)" and rc = "[]" and rs = "[]"]
  obtain f1 f2 f3 where a: "\<forall>ec es x y. all_data ec \<and> avail ec = f2 @ x \<and> all_data es \<and> avail es = f1 @ f3 @ y \<longrightarrow>
    (\<exists>c s hc. clientHandshake ex_crypto ex_wa ex_xed (1700000000, 0) (ex_keypair 3) [] (Some (replicate 32 1))
        (newClientFramedConn (fresh_net ec), [Inr (replicate 32 4)]) = ((c, []), Inr hc))" by fastforce
  from a [rule_format, of "[Data f2]" "[]" "[Data f1, Data f3]" "[]"] show ?thesis by auto
qed

section \<open>What the backend's certificate is bound to\<close>

lemma nh_decrypt_Inr:
  assumes "crypto_ok C" "nh_decrypt C ct nh = (nh', Inr p)"
  shows "ct = c_seal C (nh_key nh) (generateIV (nh_counter nh)) (nh_hash nh) p"
  using assms by (auto simp: nh_decrypt_def postIncrementCounter_def intro: crypto_okD(5) split: option.splits)

lemma client_process_Inr:
  assumes "crypto_ok C" "client_process C D X now eph cs cp (Some root) nh0 resp = Inr (m3, nh', st)"
  shows "length st = 32 \<and> (\<exists>sh secret salt ad cert. unmarshalServerHello resp = Inr sh \<and> x25519 D (kp_priv eph) st = Inr secret \<and>
    sh_payload sh = c_seal C (snd (extractAndExpand C salt secret)) (generateIV 0) ad cert \<and>
    verifyServerCert X now cert st root = Inr ())"
proof -
  from assms(2) obtain sh nh3 nh4 cert where p: "unmarshalServerHello resp = Inr sh"
    "length st = 32" "mixSharedSecretIntoKey C D (kp_priv eph) st nh3 = Inr nh4"
    "snd (nh_decrypt C (sh_payload sh) nh4) = Inr cert" "verifyServerCert X now cert st root = Inr ()"
    unfolding client_process_def Let_def case_prod_beta try_eq_Inr wrap_eq_Inr if_Inl_Inr option.case not_not
      sum.inject prod.inject ex_unit
    by blast
  from p(3) obtain secret where s: "x25519 D (kp_priv eph) st = Inr secret" "nh4 = nh_mixed C secret nh3"
    unfolding mixShared_Inr [OF assms(1)] by blast
  from nh_decrypt_Inr [OF assms(1), of "sh_payload sh" nh4 _ cert] p(4) s(2)
  have "sh_payload sh = c_seal C (snd (extractAndExpand C (nh_salt nh3) secret)) (generateIV 0) (nh_hash nh3) cert"
    by (simp add: nh_mixed_def prod_eq_iff)
  with p s show ?thesis by blast
qed

text \<open>
  C23. A completed handshake with the backend is bound to its certificate. When the client succeeds
  with a pinned root key and every valid signature was made by the owner of its key, then the
  peer's static key is 32 bytes long and certified by the root for the time of the handshake; and
  the chain that certifies it arrived sealed under a key derived from the Diffie-Hellman product
  of the client's fresh ephemeral key with that very static key, so that the sender knew its
  secret.
\<close>

theorem wa_backend_certified:
  assumes "crypto_ok C" "\<And>pk m sig. xeddsaVerify X pk m sig \<Longrightarrow> m \<in> msgs pk"
    and "clientHandshake C D X now cs cp (Some root) (f, r) = (s', Inr hs)"
  shows "certified msgs now root (hs_peerStatic hs) \<and> length (hs_peerStatic hs) = 32 \<and>
    (\<exists>r' eph f1 f2 resp sh secret salt ad cert. generateKeypair D r = (r', Inr eph) \<and>
      writeFrame (marshalClientHello (kp_pub eph)) f = (f1, None) \<and> readFrame f1 = (f2, Inr resp) \<and>
      unmarshalServerHello resp = Inr sh \<and> x25519 D (kp_priv eph) (hs_peerStatic hs) = Inr secret \<and>
      sh_payload sh = c_seal C (snd (extractAndExpand C salt secret)) (generateIV 0) ad cert \<and>
      verifyServerCert X now cert (hs_peerStatic hs) root = Inr ())"
proof -
  from assms(3) obtain nh0 r' eph f1 f2 resp m3 nh' st where h: "generateKeypair D r = (r', Inr eph)"
    "writeFrame (marshalClientHello (kp_pub eph)) f = (f1, None)" "readFrame f1 = (f2, Inr resp)"
    "client_process C D X now eph cs cp (Some root) (nh_authenticate C (kp_pub eph) nh0) resp = Inr (m3, nh', st)"
    "client_result C nh' st = Inr hs"
    by (auto simp: clientHandshake_def split: sum.splits prod.splits option.splits)
  from h(5) have st: "hs_peerStatic hs = st" by (auto simp: client_result_def case_prod_beta)
  from client_process_Inr [OF assms(1) h(4)] obtain sh secret salt ad cert where p: "length st = 32"
    "unmarshalServerHello resp = Inr sh" "x25519 D (kp_priv eph) st = Inr secret"
    "sh_payload sh = c_seal C (snd (extractAndExpand C salt secret)) (generateIV 0) ad cert"
    "verifyServerCert X now cert st root = Inr ()" by blast
  from verified_certified [OF p(5) assms(2)] have "certified msgs now root st" .
  with h p st show ?thesis by blast
qed

theorem wa_backend_certified_witness:
  "\<exists>f2 s' hs. clientHandshake ex_crypto ex_wa ex_xed (1700000000, 0) (ex_keypair 3) [] (Some (replicate 32 1))
      (newClientFramedConn (fresh_net [Data f2]), [Inr (replicate 32 4)]) = (s', Inr hs) \<and>
    certified (\<lambda>pk. {m. \<exists>sig. xeddsaVerify ex_xed pk m sig}) (1700000000, 0) (replicate 32 1) (hs_peerStatic hs)"
proof -
  from ex_backend_run obtain f2 s' hs where h: "clientHandshake ex_crypto ex_wa ex_xed (1700000000, 0) (ex_keypair 3) []
      (Some (replicate 32 1)) (newClientFramedConn (fresh_net [Data f2]), [Inr (replicate 32 4)]) = (s', Inr hs)" by blast
  from wa_backend_certified [OF ex_crypto_ok _ h, of "\<lambda>pk. {m. \<exists>sig. xeddsaVerify ex_xed pk m sig}"] h
  show ?thesis by blast
qed

end
