(* ===== verification/WA_Conn.thy ===== *)
theory WA_Conn
  imports WA_Handshake Calls
begin

text \<open>
  The WhatsApp connection (pkg/transport/whatsapp/conn.go): the handshake deferred to the first
  use on the accepting side, and the data phase with its 32-bit counters. The record \<open>wa_conn\<close>
  is the struct \<open>Conn\<close>; a nil \<open>cipher.AEAD\<close> is \<open>None\<close>. Deadlines are not part of this state (see Deadlines): a
  deadline that passes is an error of the underlying connection's script.
\<close>

section \<open>The connection\<close>

record wa_conn =
  w_framed :: framed
  w_hsFn :: "dhKeypair option"
  w_hsOnce :: bool
  w_hsErr :: "err option"
  w_writeKey :: "bytes option"
  w_readKey :: "bytes option"
  w_peerStatic :: "bytes option"
  w_writeCounter :: "32 word"
  w_readCounter :: "32 word"
  w_buf :: bytes
  w_rand :: "(string + bytes) list"

definition newConn :: "framed \<Rightarrow> hs_result \<Rightarrow> (string + bytes) list \<Rightarrow> wa_conn" where
  "newConn f hs r = \<lparr>w_framed = f, w_hsFn = None, w_hsOnce = False, w_hsErr = None,
     w_writeKey = Some (hs_writeKey hs), w_readKey = Some (hs_readKey hs), w_peerStatic = Some (hs_peerStatic hs),
     w_writeCounter = 0, w_readCounter = 0, w_buf = [], w_rand = r\<rparr>"

definition newDeferredServerConn :: "framed \<Rightarrow> dhKeypair \<Rightarrow> (string + bytes) list \<Rightarrow> wa_conn" where
  "newDeferredServerConn f serverStatic r = \<lparr>w_framed = f, w_hsFn = Some serverStatic, w_hsOnce = False, w_hsErr = None,
     w_writeKey = None, w_readKey = None, w_peerStatic = None,
     w_writeCounter = 0, w_readCounter = 0, w_buf = [], w_rand = r\<rparr>"

definition ensureHandshake :: "crypto \<Rightarrow> wa_dh \<Rightarrow> wa_conn \<Rightarrow> wa_conn \<times> err option" where
  "ensureHandshake C D c =
     (case w_hsFn c of
        None \<Rightarrow> (c, None)
      | Some serverStatic \<Rightarrow>
          if w_hsOnce c then (c, w_hsErr c)
          else
            (case serverHandshake C D serverStatic [] (w_framed c, w_rand c) of
               ((f, r), Inl e) \<Rightarrow> (c\<lparr>w_framed := f, w_rand := r, w_hsOnce := True, w_hsErr := Some e\<rparr>, Some e)
             | ((f, r), Inr hs) \<Rightarrow>
                 let c' = c\<lparr>w_framed := f, w_rand := r, w_hsOnce := True, w_writeKey := Some (hs_writeKey hs),
                   w_readKey := Some (hs_readKey hs), w_peerStatic := Some (hs_peerStatic hs)\<rparr>
                 in (c', w_hsErr c')))"

definition PeerStaticKey :: "wa_conn \<Rightarrow> bytes option" where
  "PeerStaticKey c = w_peerStatic c"

definition wa_maxPlain :: nat where
  "wa_maxPlain = maxFrameLen - 16"

function wa_write_loop :: "crypto \<Rightarrow> nat \<Rightarrow> bytes \<Rightarrow> wa_conn \<Rightarrow> wa_conn \<times> nat \<times> err option" where
  "wa_write_loop C sent p c =
     (if p = [] then (c, sent, None)
      else
        let n = min (length p) wa_maxPlain in
        case w_writeKey c of
          None \<Rightarrow> (c, sent, Some (Panic ''invalid memory address or nil pointer dereference''))
        | Some key \<Rightarrow>
            let ciphertext = c_seal C key (generateIV (w_writeCounter c)) [] (take n p);
                c1 = c\<lparr>w_writeCounter := w_writeCounter c + 1\<rparr> in
            (case writeFrame ciphertext (w_framed c1) of
               (f, Some e) \<Rightarrow> (c1\<lparr>w_framed := f\<rparr>, sent, Some e)
             | (f, None) \<Rightarrow> wa_write_loop C (sent + n) (drop n p) (c1\<lparr>w_framed := f\<rparr>)))"
  by pat_completeness auto
termination
  by (relation "measure (\<lambda>(C, sent, p, c). length p)") (auto simp: wa_maxPlain_def maxFrameLen_def)

declare wa_write_loop.simps [simp del]

definition wa_Write :: "crypto \<Rightarrow> wa_dh \<Rightarrow> bytes \<Rightarrow> wa_conn \<Rightarrow> wa_conn \<times> nat \<times> err option" where
  "wa_Write C D p c =
     (case ensureHandshake C D c of
        (c', Some e) \<Rightarrow> (c', 0, Some e)
      | (c', None) \<Rightarrow> wa_write_loop C 0 p c')"

text \<open>\<open>Read\<close> after the handshake with an empty read buffer: one frame.\<close>

definition wa_read_frame :: "crypto \<Rightarrow> nat \<Rightarrow> wa_conn \<Rightarrow> wa_conn \<times> bytes res" where
  "wa_read_frame C k c =
     (case readFrame (w_framed c) of
        (f, Inl e) \<Rightarrow> (c\<lparr>w_framed := f\<rparr>, Inl e)
      | (f, Inr ciphertext) \<Rightarrow>
          (case w_readKey c of
             None \<Rightarrow> (c\<lparr>w_framed := f\<rparr>, Inl (Panic ''invalid memory address or nil pointer dereference''))
           | Some key \<Rightarrow>
               (case c_open C key (generateIV (w_readCounter c)) [] ciphertext of
                  None \<Rightarrow> (c\<lparr>w_framed := f\<rparr>,
                    Inl (Wrapf ''whatsapp: decrypt transport frame: %w'' [] (New ''cipher: message authentication failed'')))
                | Some plaintext \<Rightarrow>
                    (c\<lparr>w_framed := f, w_readCounter := w_readCounter c + 1, w_buf := drop k plaintext\<rparr>,
                     Inr (take k plaintext)))))"

definition wa_Read :: "crypto \<Rightarrow> wa_dh \<Rightarrow> nat \<Rightarrow> wa_conn \<Rightarrow> wa_conn \<times> bytes res" where
  "wa_Read C D k c0 =
     (if k = 0 then (c0, Inr [])
      else case ensureHandshake C D c0 of
        (c, Some e) \<Rightarrow> (c, Inl e)
      | (c, None) \<Rightarrow>
          if w_buf c \<noteq> [] then (c\<lparr>w_buf := drop k (w_buf c)\<rparr>, Inr (take k (w_buf c)))
          else wa_read_frame C k c)"

definition wa_net :: "wa_conn \<Rightarrow> net" where
  "wa_net c = f_net (w_framed c)"

definition wa_Close :: "wa_conn \<Rightarrow> wa_conn \<times> io_err option" where
  "wa_Close c = (let (n, e) = conn_close (wa_net c) in (c\<lparr>w_framed := (w_framed c)\<lparr>f_net := n\<rparr>\<rparr>, e))"

definition wa_CloseWrite :: "wa_conn \<Rightarrow> wa_conn \<times> io_err option" where
  "wa_CloseWrite c = (let (n, e) = close_write (wa_net c) in (c\<lparr>w_framed := (w_framed c)\<lparr>f_net := n\<rparr>\<rparr>, e))"

section \<open>Frames\<close>

type_synonym wa_key = "bytes option \<times> 32 word"

definition wa_frame :: "crypto \<Rightarrow> wa_key \<Rightarrow> bytes \<Rightarrow> bytes" where
  "wa_frame C k p = frame_of False (c_seal C (the (fst k)) (generateIV (snd k)) [] p)"

definition wa_enc :: "crypto \<Rightarrow> wa_key \<Rightarrow> bytes \<Rightarrow> (wa_key \<times> bytes) option" where
  "wa_enc C k p =
     (if fst k = None \<or> maxFrameLen < length (c_seal C (the (fst k)) (generateIV (snd k)) [] p) then None
      else Some ((fst k, snd k + 1), wa_frame C k p))"

definition wa_dec :: "crypto \<Rightarrow> wa_key \<Rightarrow> bytes \<Rightarrow> (wa_key \<times> bytes \<times> bytes) option" where
  "wa_dec C k w =
     (if fst k = None \<or> length w < 3 then None
      else
        let l = get24 (w ! 0) (w ! 1) (w ! 2) in
        if length (drop 3 w) < l then None
        else map_option (\<lambda>p. ((fst k, snd k + 1), p, drop l (drop 3 w)))
          (c_open C (the (fst k)) (generateIV (snd k)) [] (take l (drop 3 w))))"

definition wa_sync :: "crypto \<Rightarrow> wa_key \<Rightarrow> wa_key \<Rightarrow> bool" where
  "wa_sync C k d \<longleftrightarrow> crypto_ok C \<and> k = d"

definition wa_out :: "wa_conn \<Rightarrow> wa_key" where
  "wa_out c = (w_writeKey c, w_writeCounter c)"

definition wa_in :: "wa_conn \<Rightarrow> wa_key" where
  "wa_in c = (w_readKey c, w_readCounter c)"

text \<open>A connection whose handshake is done and whose one-time header is behind it.\<close>

definition wa_live :: "wa_conn \<Rightarrow> bool" where
  "wa_live c \<longleftrightarrow> (w_hsFn c = None \<or> w_hsOnce c \<and> w_hsErr c = None) \<and> w_writeKey c \<noteq> None \<and> w_readKey c \<noteq> None \<and>
     \<not> f_writeHeader (w_framed c) \<and> \<not> f_readHeader (w_framed c)"

definition wa_feed :: "read_event list \<Rightarrow> wa_conn \<Rightarrow> wa_conn" where
  "wa_feed es c = c\<lparr>w_framed := (w_framed c)\<lparr>f_net := feed_net es (wa_net c)\<rparr>\<rparr>"

lemma wa_live_ready: "wa_live c \<Longrightarrow> ensureHandshake C D c = (c, None)"
  by (auto simp: wa_live_def ensureHandshake_def split: option.splits)

lemma wa_dec_enc:
  assumes "wa_sync C k d" "wa_enc C k p = Some (k', w)"
  shows "\<exists>d'. wa_dec C d w = Some (d', p, []) \<and> wa_sync C k' d'"
proof -
  let ?ct = "c_seal C (the (fst k)) (generateIV (snd k)) [] p"
  from assms(1) have C: "crypto_ok C" and d: "d = k" by (auto simp: wa_sync_def)
  from assms(2) have e: "fst k \<noteq> None" "length ?ct \<le> maxFrameLen" "k' = (fst k, snd k + 1)" "w = frame_of False ?ct"
    by (auto simp: wa_enc_def wa_frame_def split: if_splits)
  obtain a b c where abc: "put24 (length ?ct) = [a, b, c]" "get24 a b c = length ?ct"
    using put24_cases [of "length ?ct"] e(2) by (auto simp: maxFrameLen_def)
  show ?thesis
    using e abc C by (simp add: d wa_dec_def frame_of_def Let_def two wa_sync_def crypto_okD(4))
qed

lemma wa_dec_append:
  assumes "wa_dec C d w = Some (d', p, rest)"
  shows "wa_dec C d (w @ x) = Some (d', p, rest @ x)"
proof -
  from assms have "3 \<le> length w" by (simp add: wa_dec_def Let_def split: if_splits)
  then obtain a b c r where w: "w = a # b # c # r"
    by (metis (no_types, lifting) Suc_le_length_iff numeral_3_eq_3)
  from assms show ?thesis unfolding w by (auto simp: wa_dec_def Let_def split: if_splits)
qed

section \<open>Write and Read\<close>

lemma writeFrame_None:
  assumes "writeFrame ct f = (f', None)"
  shows "length ct \<le> maxFrameLen \<and> tx (f_net f') = tx (f_net f) @ [frame_of (f_writeHeader f) ct] \<and>
    rx (f_net f') = rx (f_net f) \<and> net_closed (f_net f') = net_closed (f_net f) \<and>
    \<not> f_writeHeader f' \<and> f_readHeader f' = f_readHeader f"
proof -
  from assms obtain n where n: "conn_write (frame_of (f_writeHeader f) ct) (f_net f) = (n, None)"
    and f': "f' = f\<lparr>f_net := n, f_writeHeader := False\<rparr>" and l: "length ct \<le> maxFrameLen"
    by (auto simp: writeFrame_def frame_of_def Let_def split: if_splits prod.splits)
  from conn_write_ok [OF n] conn_write_rx [OF n] f' l show ?thesis by simp
qed

lemma writeFrame_Some:
  assumes "writeFrame ct f = (f', Some e)"
  shows "rx (f_net f') = rx (f_net f) \<and> f_readHeader f' = f_readHeader f \<and> (\<not> f_writeHeader f \<longrightarrow> \<not> f_writeHeader f') \<and>
    (tx (f_net f') = tx (f_net f) \<or> length ct \<le> maxFrameLen \<and> (\<exists>x. conn_write (frame_of (f_writeHeader f) ct) (f_net f) = (f_net f', Some x)))"
proof (cases "maxFrameLen < length ct")
  case True
  with assms show ?thesis by (auto simp: writeFrame_def)
next
  case False
  with assms obtain n x where n: "conn_write (frame_of (f_writeHeader f) ct) (f_net f) = (n, Some x)"
    and f': "f' = f\<lparr>f_net := n, f_writeHeader := False\<rparr>"
    by (auto simp: writeFrame_def frame_of_def Let_def split: prod.splits)
  with conn_write_rx [OF n] False show ?thesis by simp
qed

text \<open>The body of the loop in \<open>Write\<close>: one fragment, one frame.\<close>

definition wa_step :: "crypto \<Rightarrow> bytes \<Rightarrow> wa_conn \<Rightarrow> wa_conn \<times> err option" where
  "wa_step C p c =
     (case w_writeKey c of
        None \<Rightarrow> (c, Some (Panic ''invalid memory address or nil pointer dereference''))
      | Some key \<Rightarrow>
          (case writeFrame (c_seal C key (generateIV (w_writeCounter c)) [] p) (w_framed c) of
             (f, e) \<Rightarrow> (c\<lparr>w_writeCounter := w_writeCounter c + 1, w_framed := f\<rparr>, e)))"

abbreviation wa_keeps :: "wa_conn \<Rightarrow> wa_key \<times> bytes \<times> read_event list" where
  "wa_keeps c \<equiv> (wa_in c, w_buf c, rx (wa_net c))"

interpretation waw: fragment_writer "wa_write_loop C" "wa_step C" "wa_enc C" wa_maxPlain wa_live wa_out wa_keeps wa_net for C
proof (unfold_locales, goal_cases)
  case 1
  show ?case by (simp add: wa_maxPlain_def maxFrameLen_def)
next
  case (2 n p c)
  have "take (min (length p) wa_maxPlain) p = take wa_maxPlain p" "drop (min (length p) wa_maxPlain) p = drop wa_maxPlain p"
    "min (length p) wa_maxPlain = length (take wa_maxPlain p)" by (auto simp: min_def)
  then show ?case
    by (subst wa_write_loop.simps, simp only: Let_def) (auto simp: wa_step_def simp del: length_take split: prod.splits option.splits)
next
  case (3 c p c')
  then obtain key f where f: "w_writeKey c = Some key"
    "writeFrame (c_seal C key (generateIV (w_writeCounter c)) [] p) (w_framed c) = (f, None)"
    "c' = c\<lparr>w_writeCounter := w_writeCounter c + 1, w_framed := f\<rparr>"
    by (auto simp: wa_step_def split: option.splits prod.splits)
  have "\<not> f_writeHeader (w_framed c)" "wa_live c'"
    using 3(1) writeFrame_None [OF f(2)] f(3) by (simp_all add: wa_live_def)
  moreover have "wa_enc C (wa_out c) p = Some (wa_out c', wa_frame C (wa_out c) p)"
    using f(1,3) writeFrame_None [OF f(2)] by (simp add: wa_enc_def wa_out_def)
  ultimately show ?case
    using writeFrame_None [OF f(2)] f(1,3) by (simp add: wa_in_def wa_net_def wa_frame_def wa_out_def)
next
  case (4 c p c' e)
  then obtain key f where f: "w_writeKey c = Some key"
    "writeFrame (c_seal C key (generateIV (w_writeCounter c)) [] p) (w_framed c) = (f, Some e)"
    "c' = c\<lparr>w_writeCounter := w_writeCounter c + 1, w_framed := f\<rparr>"
    by (auto simp: wa_step_def wa_live_def split: option.splits prod.splits)
  let ?ct = "c_seal C key (generateIV (w_writeCounter c)) [] p"
  have h: "\<not> f_writeHeader (w_framed c)" using 4(1) by (simp add: wa_live_def)
  have w: "tx (f_net f) = tx (wa_net c) \<or>
      length ?ct \<le> maxFrameLen \<and> (\<exists>x. conn_write (wa_frame C (wa_out c) p) (wa_net c) = (f_net f, Some x))"
    and same: "rx (f_net f) = rx (wa_net c)" "wa_live c'"
    using writeFrame_Some [OF f(2)] f(1,3) h 4(1) by (simp_all add: wa_net_def wa_frame_def wa_out_def wa_live_def)
  have "wa_enc C (wa_out c) p = Some ((w_writeKey c, w_writeCounter c + 1), wa_frame C (wa_out c) p)" if "length ?ct \<le> maxFrameLen"
    using that f(1) by (simp add: wa_enc_def wa_out_def)
  with w cut_frame_write [of _ "wa_net c" "f_net f" _ p wa_maxPlain "wa_enc C" "wa_out c", OF _ 4(2,3)]
  have "\<exists>t. concat (tx (f_net f)) = concat (tx (wa_net c)) @ t \<and> cut_frame (wa_enc C) wa_maxPlain (wa_out c) t"
    by (metis append_Nil2 cut_frame_Nil)
  with same f(3) show ?case by (simp add: wa_in_def wa_net_def)
qed

lemma wa_Write_loop: "wa_live a \<Longrightarrow> wa_Write C D p a = wa_write_loop C 0 p a"
  by (simp add: wa_Write_def wa_live_ready)

lemma wa_Write_spec:
  assumes "wa_live a" "wa_Write C D p a = (a', n, None)"
  shows "n = length p \<and> wa_live a' \<and> wa_in a' = wa_in a \<and> w_buf a' = w_buf a \<and>
    rx (wa_net a') = rx (wa_net a) \<and> net_closed (wa_net a') = net_closed (wa_net a) \<and>
    (\<exists>fs. encs (wa_enc C) (wa_out a) (chunks wa_maxPlain p) = Some (wa_out a', fs) \<and>
       concat (tx (wa_net a')) = concat (tx (wa_net a)) @ concat fs)"
  using waw.loop_complete [OF assms(1), of C p a' n] assms by (simp add: wa_Write_loop)

lemma wa_Write_stop:
  assumes "wa_live a" "wa_Write C D p a = (a', n, Some e)"
  shows "n \<le> length p \<and> wa_live a' \<and> wa_in a' = wa_in a \<and> w_buf a' = w_buf a \<and> rx (wa_net a') = rx (wa_net a) \<and>
    (\<exists>k fs t. encs (wa_enc C) (wa_out a) (chunks wa_maxPlain (take n p)) = Some (k, fs) \<and>
       concat (tx (wa_net a')) = concat (tx (wa_net a)) @ concat fs @ t \<and> cut_frame (wa_enc C) wa_maxPlain k t)"
  using waw.loop_stopped [OF assms(1), of C p a' n e] assms by (simp add: wa_Write_loop)

text \<open>What a successful read of one frame without a header took from the stream.\<close>

lemma readFrame_Inr:
  assumes "readFrame f = (f', Inr ct)" "\<not> f_readHeader f" "\<not> net_closed (f_net f)"
  shows "let w = avail (rx (f_net f)) in 3 \<le> length w \<and> get24 (w ! 0) (w ! 1) (w ! 2) \<le> length (drop 3 w) \<and>
    ct = take (get24 (w ! 0) (w ! 1) (w ! 2)) (drop 3 w) \<and>
    f' = f\<lparr>f_net := (f_net f)\<lparr>rx := advance (get24 (w ! 0) (w ! 1) (w ! 2)) (advance 3 (rx (f_net f)))\<rparr>\<rparr>"
proof -
  from assms(1,2) obtain n1 lp n2 where r1: "readFull 3 (f_net f) = (n1, Inr lp)"
    and r2: "readFull (get24 (lp ! 0) (lp ! 1) (lp ! 2)) n1 = (n2, Inr ct)" and f': "f' = f\<lparr>f_net := n2\<rparr>"
    by (auto simp: readFrame_def readFrame_body_def Let_def split: prod.splits sum.splits if_splits)
  note a = full.rd_open [OF r1 assms(3)]
  then have n1: "\<not> net_closed n1" "avail (rx n1) = drop 3 (avail (rx (f_net f)))" using assms(3) by simp_all
  note b = full.rd_open [OF r2 n1(1)]
  have "lp ! 0 = avail (rx (f_net f)) ! 0" "lp ! 1 = avail (rx (f_net f)) ! 1" "lp ! 2 = avail (rx (f_net f)) ! 2"
    using a by simp_all
  with a b n1 f' show ?thesis by (simp add: Let_def)
qed

lemma wa_Read_spec:
  assumes "wa_live b" "\<not> net_closed (wa_net b)" "wa_Read C D k b = (b', Inr d)"
  shows "wa_live b' \<and> wa_out b' = wa_out b \<and> \<not> net_closed (wa_net b') \<and>
    (all_data (rx (wa_net b)) \<longrightarrow> all_data (rx (wa_net b'))) \<and> concat (tx (wa_net b')) = concat (tx (wa_net b)) \<and>
    (wa_in b' = wa_in b \<and> avail (rx (wa_net b')) = avail (rx (wa_net b)) \<and> w_buf b = d @ w_buf b' \<or>
     (\<exists>p. wa_dec C (wa_in b) (avail (rx (wa_net b))) = Some (wa_in b', p, avail (rx (wa_net b'))) \<and>
       w_buf b @ p = d @ w_buf b'))"
proof (cases "k = 0 \<or> w_buf b \<noteq> []")
  case True
  with assms show ?thesis
    by (auto simp: wa_Read_def wa_live_ready wa_in_def wa_out_def wa_net_def wa_live_def split: if_splits)
next
  case False
  from assms(1) obtain key where key: "w_readKey b = Some key" by (auto simp: wa_live_def)
  from False assms(1,3) key obtain f ct p where r: "readFrame (w_framed b) = (f, Inr ct)"
    and o: "c_open C key (generateIV (w_readCounter b)) [] ct = Some p"
    and b': "b' = b\<lparr>w_framed := f, w_readCounter := w_readCounter b + 1, w_buf := drop k p\<rparr>" "d = take k p"
    by (auto simp: wa_Read_def wa_live_ready wa_read_frame_def split: prod.splits sum.splits option.splits)
  have h: "\<not> f_readHeader (w_framed b)" "\<not> net_closed (f_net (w_framed b))" using assms by (simp_all add: wa_live_def wa_net_def)
  note rf = readFrame_Inr [OF r h, unfolded Let_def]
  have "wa_dec C (wa_in b) (avail (rx (wa_net b))) = Some (wa_in b', p, avail (rx (wa_net b')))"
    using rf o key by (simp add: wa_dec_def wa_in_def wa_net_def Let_def b'(1))
  with rf assms b' False show ?thesis by (simp add: wa_live_def wa_out_def wa_net_def)
qed

lemma wa_Read_next:
  assumes "wa_live b" "\<not> net_closed (wa_net b)" "0 < k" "w_buf b = []"
    "wa_dec C (wa_in b) (avail (rx (wa_net b))) = Some (dk, p, rest)"
  shows "\<exists>b'. wa_Read C D k b = (b', Inr (take k p))"
proof -
  let ?w = "avail (rx (wa_net b))" and ?n = "wa_net b"
  from assms(1) obtain key where key: "w_readKey b = Some key" by (auto simp: wa_live_def)
  let ?l = "get24 (?w ! 0) (?w ! 1) (?w ! 2)"
  from assms(5) key have o: "3 \<le> length ?w" "?l \<le> length (drop 3 ?w)"
    "c_open C key (generateIV (w_readCounter b)) [] (take ?l (drop 3 ?w)) = Some p"
    by (auto simp: wa_dec_def wa_in_def Let_def split: if_splits)
  have r1: "readFull 3 ?n = (?n\<lparr>rx := advance 3 (rx ?n)\<rparr>, Inr (take 3 ?w))"
    using full.rd_exact [OF assms(2) o(1)] .
  let ?n1 = "?n\<lparr>rx := advance 3 (rx ?n)\<rparr>"
  have r2: "readFull ?l ?n1 = (?n1\<lparr>rx := advance ?l (rx ?n1)\<rparr>, Inr (take ?l (drop 3 ?w)))"
    using full.rd_exact [of ?n1 ?l] assms(2) o(2) by simp
  have "\<exists>f. readFrame (w_framed b) = (f, Inr (take ?l (drop 3 ?w)))"
    using r1 r2 assms(1) by (simp add: readFrame_def readFrame_body_def wa_live_def wa_net_def Let_def maxFrameLen_def not_less)
  with o(3) key assms show ?thesis
    by (auto simp: wa_Read_def wa_live_ready wa_read_frame_def)
qed

lemma readFrame_same:
  assumes "readFrame f = (f', r)" "\<not> f_readHeader f"
  shows "tx (f_net f') = tx (f_net f) \<and> f_readHeader f' = f_readHeader f \<and> f_writeHeader f' = f_writeHeader f"
  using assms
  by (auto simp: readFrame_def readFrame_body_def Let_def dest!: full.rd_tx split: prod.splits sum.splits if_splits)

lemma readFrame_closed: "readFrame f = (f', Inr d) \<Longrightarrow> \<not> f_readHeader f \<Longrightarrow> \<not> net_closed (f_net f)"
  by (auto simp: readFrame_def readFrame_body_def dest!: full.rd_closed_Inr split: prod.splits sum.splits)

lemma wa_Read_stop:
  assumes "wa_live b" "wa_Read C D k b = (b', Inl e)"
  shows "wa_live b' \<and> wa_out b' = wa_out b \<and> concat (tx (wa_net b')) = concat (tx (wa_net b))"
proof -
  from assms obtain f where f: "b' = b\<lparr>w_framed := f\<rparr>" "\<exists>r. readFrame (w_framed b) = (f, r)"
    by (auto simp: wa_Read_def wa_live_ready wa_read_frame_def split: if_splits prod.splits sum.splits option.splits)
  with assms(1) readFrame_same [of "w_framed b" f] show ?thesis by (auto simp: wa_live_def wa_out_def wa_net_def)
qed

lemma wa_Read_closed:
  assumes "wa_live b" "net_closed (wa_net b)" "wa_Read C D k b = (b', Inr d)"
  shows "wa_live b' \<and> wa_out b' = wa_out b \<and> wa_in b' = wa_in b \<and> wa_net b' = wa_net b \<and> w_buf b = d @ w_buf b'"
proof (cases "k = 0 \<or> w_buf b \<noteq> []")
  case True
  with assms show ?thesis by (auto simp: wa_Read_def wa_live_ready wa_in_def wa_out_def wa_net_def wa_live_def split: if_splits)
next
  case False
  with assms(1,3) obtain f ct where "readFrame (w_framed b) = (f, Inr ct)"
    by (auto simp: wa_Read_def wa_live_ready wa_read_frame_def split: prod.splits sum.splits)
  from readFrame_closed [OF this] assms(1,2) show ?thesis by (simp add: wa_live_def wa_net_def)
qed

interpretation wa: live_framed_conn "wa_Write C D" "wa_Read C D" wa_net wa_feed "wa_enc C" "wa_dec C"
    "wa_sync C" wa_maxPlain wa_live wa_out wa_in w_buf for C D
proof (unfold_locales, goal_cases)
  case 1
  show ?case by (simp add: wa_maxPlain_def maxFrameLen_def)
next
  case (2 k d p k' w)
  then show ?case by (intro wa_dec_enc)
next
  case (3 d w d' p rest x)
  then show ?case by (rule wa_dec_append)
next
  case (4 d)
  show ?case by (simp add: wa_dec_def)
next
  case (5 a p a' n)
  then show ?case by (rule wa_Write_spec)
next
  case (6 b sz b' dat)
  then show ?case by (rule wa_Read_spec)
next
  case (7 a p a' n e)
  then show ?case by (rule wa_Write_stop)
next
  case (8 b sz b' e)
  then show ?case by (rule wa_Read_stop)
next
  case (9 b sz b' dat)
  then show ?case by (rule wa_Read_closed)
next
  case (10 es a)
  show ?case by (simp add: wa_feed_def wa_out_def wa_in_def wa_net_def wa_live_def)
next
  case (11 b)
  then show ?case by (simp add: wa_Read_def)
next
  case (12 b sz)
  then show ?case by (auto simp: wa_Read_def wa_live_ready)
next
  case (13 b sz dk p rest)
  then show ?case by (intro wa_Read_next)
qed

section \<open>From the handshake to the data phase\<close>

definition wa_peers_at :: "crypto \<Rightarrow> bytes \<Rightarrow> bytes \<Rightarrow> wa_conn \<Rightarrow> wa_conn \<Rightarrow> bool" where
  "wa_peers_at C x y a b \<longleftrightarrow> wa_live a \<and> wa_live b \<and> crypto_ok C \<and> wa_out a = wa_in b \<and> wa_out b = wa_in a \<and>
     w_buf a = [] \<and> w_buf b = [] \<and> avail (rx (wa_net a)) = x \<and> avail (rx (wa_net b)) = y \<and>
     all_data (rx (wa_net a)) \<and> all_data (rx (wa_net b)) \<and> \<not> net_closed (wa_net a) \<and> \<not> net_closed (wa_net b)"

abbreviation wa_peers :: "crypto \<Rightarrow> wa_conn \<Rightarrow> wa_conn \<Rightarrow> bool" where
  "wa_peers C \<equiv> wa_peers_at C [] []"

lemma wa_session_both:
  assumes "crypto_ok C" "wa_dh_ok D" "length ke = 32" "length kf = 32" "wa_keypair D cs" "wa_keypair D ss" "length cp \<le> 2 ^ 20"
  obtains f1 f2 f3 where "\<And>ec es x y. all_data ec \<and> avail ec = f2 @ x \<and> all_data es \<and> avail es = f1 @ f3 @ y \<Longrightarrow>
    \<exists>c hc s.
      clientHandshake C D X now cs cp None (newClientFramedConn (fresh_net ec), Inr ke # rc) = ((c, rc), Inr hc) \<and>
      ensureHandshake C D (newDeferredServerConn (serverFramed (fresh_net es)) ss (Inr kf # rs)) = (s, None) \<and>
      tx (f_net c) = [f1, f3] \<and> tx (wa_net s) = [f2] \<and> wa_peers_at C x y (newConn c hc rc) s \<and>
      PeerStaticKey (newConn c hc rc) = Some (kp_pub ss) \<and> PeerStaticKey s = Some (kp_pub cs)"
proof -
  from handshake_agreement [OF assms(1-6), of None X now "[]" cp rc rs] assms(7)
  obtain f1 f2 f3 where a: "\<forall>ec es x y. all_data ec \<and> avail ec = f2 @ x \<and> all_data es \<and> avail es = f1 @ f3 @ y \<longrightarrow>
    (\<exists>c s hc hs.
      clientHandshake C D X now cs cp None (newClientFramedConn (fresh_net ec), Inr ke # rc) = ((c, rc), Inr hc) \<and>
      serverHandshake C D ss [] (serverFramed (fresh_net es), Inr kf # rs) = ((s, rs), Inr hs) \<and>
      tx (f_net c) = [f1, f3] \<and> tx (f_net s) = [f2] \<and>
      hs_writeKey hc = hs_readKey hs \<and> hs_readKey hc = hs_writeKey hs \<and>
      hs_peerStatic hc = kp_pub ss \<and> hs_peerStatic hs = kp_pub cs \<and> joined_framed x c \<and> joined_framed y s)"
    by auto
  have "\<exists>c hc s.
      clientHandshake C D X now cs cp None (newClientFramedConn (fresh_net ec), Inr ke # rc) = ((c, rc), Inr hc) \<and>
      ensureHandshake C D (newDeferredServerConn (serverFramed (fresh_net es)) ss (Inr kf # rs)) = (s, None) \<and>
      tx (f_net c) = [f1, f3] \<and> tx (wa_net s) = [f2] \<and> wa_peers_at C x y (newConn c hc rc) s \<and>
      PeerStaticKey (newConn c hc rc) = Some (kp_pub ss) \<and> PeerStaticKey s = Some (kp_pub cs)"
    if e: "all_data ec \<and> avail ec = f2 @ x \<and> all_data es \<and> avail es = f1 @ f3 @ y" for ec es x y
  proof -
    from a [rule_format, OF e] obtain c s hc hs where h:
      "clientHandshake C D X now cs cp None (newClientFramedConn (fresh_net ec), Inr ke # rc) = ((c, rc), Inr hc)"
      "serverHandshake C D ss [] (serverFramed (fresh_net es), Inr kf # rs) = ((s, rs), Inr hs)"
      "tx (f_net c) = [f1, f3]" "tx (f_net s) = [f2]" "hs_writeKey hc = hs_readKey hs" "hs_readKey hc = hs_writeKey hs"
      "hs_peerStatic hc = kp_pub ss" "hs_peerStatic hs = kp_pub cs" "joined_framed x c" "joined_framed y s" by blast
    let ?s = "(newDeferredServerConn s ss rs)\<lparr>w_hsOnce := True, w_writeKey := Some (hs_writeKey hs),
      w_readKey := Some (hs_readKey hs), w_peerStatic := Some (hs_peerStatic hs)\<rparr>"
    have "ensureHandshake C D (newDeferredServerConn (serverFramed (fresh_net es)) ss (Inr kf # rs)) = (?s, None)"
      using h(2) by (simp add: ensureHandshake_def newDeferredServerConn_def)
    moreover have "wa_peers_at C x y (newConn c hc rc) ?s"
      using h assms(1) by (simp add: wa_peers_at_def wa_live_def wa_out_def wa_in_def wa_net_def newConn_def
          newDeferredServerConn_def joined_framed_def)
    ultimately show ?thesis
      using h by (intro exI [of _ c] exI [of _ hc] exI [of _ ?s])
        (simp add: PeerStaticKey_def newConn_def newDeferredServerConn_def wa_net_def)
  qed
  then show ?thesis by (rule that)
qed

text \<open>
  C22. Dialling and accepting over the WhatsApp transport: the client's handshake and the
  handshake that the accepted connection runs at its first use, over each other's frames in any
  chunks, both succeed; the two connections are then peers (the key and counter each sends with
  are those the other receives with, no header is pending, nothing is in flight) and each names
  the other's static key.
\<close>

theorem wa_session_agreement:
  assumes "crypto_ok C" "wa_dh_ok D" "length ke = 32" "length kf = 32" "wa_keypair D cs" "wa_keypair D ss" "length cp \<le> 2 ^ 20"
  shows "\<exists>f1 f2 f3. \<forall>ec es. all_data ec \<and> avail ec = f2 \<and> all_data es \<and> avail es = f1 @ f3 \<longrightarrow>
    (\<exists>c hc s.
      clientHandshake C D X now cs cp None (newClientFramedConn (fresh_net ec), Inr ke # rc) = ((c, rc), Inr hc) \<and>
      ensureHandshake C D (newDeferredServerConn (serverFramed (fresh_net es)) ss (Inr kf # rs)) = (s, None) \<and>
      tx (f_net c) = [f1, f3] \<and> tx (wa_net s) = [f2] \<and> wa_peers C (newConn c hc rc) s \<and>
      PeerStaticKey (newConn c hc rc) = Some (kp_pub ss) \<and> PeerStaticKey s = Some (kp_pub cs))"
proof (rule wa_session_both [OF assms, of X now rc rs])
  fix f1 f2 f3
  assume "\<And>ec es x y. all_data ec \<and> avail ec = f2 @ x \<and> all_data es \<and> avail es = f1 @ f3 @ y \<Longrightarrow>
    \<exists>c hc s.
      clientHandshake C D X now cs cp None (newClientFramedConn (fresh_net ec), Inr ke # rc) = ((c, rc), Inr hc) \<and>
      ensureHandshake C D (newDeferredServerConn (serverFramed (fresh_net es)) ss (Inr kf # rs)) = (s, None) \<and>
      tx (f_net c) = [f1, f3] \<and> tx (wa_net s) = [f2] \<and> wa_peers_at C x y (newConn c hc rc) s \<and>
      PeerStaticKey (newConn c hc rc) = Some (kp_pub ss) \<and> PeerStaticKey s = Some (kp_pub cs)"
  from this [where x = "[]" and y = "[]", unfolded append_Nil2] show ?thesis by blast
qed

theorem wa_session_agreement_witness:
  "\<exists>f1 f2 f3 c hc s.
     clientHandshake ex_crypto ex_wa ex_xed (0, 0) (ex_keypair 3) [] None
       (newClientFramedConn (fresh_net [Data f2]), [Inr (replicate 32 4)]) = ((c, []), Inr hc) \<and>
     ensureHandshake ex_crypto ex_wa (newDeferredServerConn (serverFramed (fresh_net [Data f1, Data f3])) (ex_keypair 7)
       [Inr (replicate 32 6)]) = (s, None) \<and>
     wa_peers ex_crypto (newConn c hc []) s \<and> PeerStaticKey s = Some (replicate 32 3)"
proof -
  from wa_session_agreement [OF ex_crypto_ok ex_wa_ok, of "replicate 32 4" "replicate 32 6" "ex_keypair 3" "ex_keypair 7" "[]"
      ex_xed "(0, 0)" "[]" "[]"] ex_keypair_ok
  obtain f1 f2 f3 where a: "\<forall>ec es. all_data ec \<and> avail ec = f2 \<and> all_data es \<and> avail es = f1 @ f3 \<longrightarrow>
    (\<exists>c hc s. clientHandshake ex_crypto ex_wa ex_xed (0, 0) (ex_keypair 3) [] None
       (newClientFramedConn (fresh_net ec), [Inr (replicate 32 4)]) = ((c, []), Inr hc) \<and>
     ensureHandshake ex_crypto ex_wa (newDeferredServerConn (serverFramed (fresh_net es)) (ex_keypair 7)
       [Inr (replicate 32 6)]) = (s, None) \<and> tx (f_net c) = [f1, f3] \<and> tx (wa_net s) = [f2] \<and>
     wa_peers ex_crypto (newConn c hc []) s \<and> PeerStaticKey (newConn c hc []) = Some (kp_pub (ex_keypair 7)) \<and>
     PeerStaticKey s = Some (kp_pub (ex_keypair 3)))" by auto
  from a [rule_format, of "[Data f2]" "[Data f1, Data f3]"] show ?thesis by (simp add: ex_keypair_def) blast
qed

section \<open>The data phase\<close>

abbreviation wa_link :: "crypto \<Rightarrow> wa_conn \<Rightarrow> wa_conn \<Rightarrow> bytes \<Rightarrow> bool" where
  "wa_link C \<equiv> channel_link (wa_dec C) (wa_sync C) wa_live wa_out wa_in w_buf wa_net"

lemma wa_peers_link:
  assumes "wa_peers C a b"
  shows "wa_link C a b []" and "wa_link C b a []"
proof -
  have "pends (wa_dec C) d [] [] d" for d by (rule pends.nil)
  then have p: "\<exists>ps d'. pends (wa_dec C) d [] ps d' \<and> crypto_ok C \<and> d = d' \<and> [] = concat ps" for d
    using assms by (intro exI [of _ "[]"] exI [of _ d]) (simp add: wa_peers_at_def)
  show "wa_link C a b []" "wa_link C b a []"
    using assms p [of "wa_in a"] p [of "wa_in b"]
    unfolding wa_peers_at_def channel_link_def wa_sync_def by simp_all
qed

text \<open>
  C24. Over the WhatsApp transport, whatever the two ends write and read, in any order, with any
  buffer sizes and however the network cuts the bytes into chunks: what one end has read is a
  prefix of what the other has written, in both directions, and reading on, with any buffer,
  delivers exactly the bytes still missing.
\<close>

theorem wa_stream_delivered:
  assumes "wa_peers C a0 b0"
    and "duplex (wa_Write C D) (wa_Read C D) wa_net wa_feed a0 b0 a b wa gb wb ga" and "0 < k"
  shows "gb @ read_all (wa_Read C D) k (length wa) b = wa \<and> ga @ read_all (wa_Read C D) k (length wb) a = wb"
proof -
  from wa.duplex_linked [OF assms(2) wa_peers_link [OF assms(1)]] obtain q q' where
    "wa = gb @ q" "wa_link C a b q" "wb = ga @ q'" "wa_link C b a q'" by blast
  with wa.everything_delivered assms(3) show ?thesis by fastforce
qed

definition ex_wa_conn :: wa_conn where
  "ex_wa_conn = newConn \<lparr>f_net = fresh_net [], f_writeHeader = False, f_readHeader = False\<rparr>
     \<lparr>hs_writeKey = replicate 32 5, hs_readKey = replicate 32 5, hs_peerStatic = []\<rparr> []"

lemma ex_wa_peers: "wa_peers ex_crypto ex_wa_conn ex_wa_conn"
  by (simp add: wa_peers_at_def wa_live_def ex_wa_conn_def newConn_def wa_out_def wa_in_def wa_net_def ex_crypto_ok fresh_net_def)

lemma ex_wa_counter: "w_writeCounter ex_wa_conn = 0"
  by (simp add: ex_wa_conn_def newConn_def)

abbreviation ex_wa_frame :: bytes where
  "ex_wa_frame \<equiv> wa_frame ex_crypto (Some (replicate 32 5), 0) [7, 8]"

lemma ex_wa_write:
  "wa_Write ex_crypto ex_wa [7, 8] ex_wa_conn =
    (ex_wa_conn\<lparr>w_writeCounter := 1, w_framed := \<lparr>f_net = (fresh_net [])\<lparr>tx := [ex_wa_frame]\<rparr>, f_writeHeader = False, f_readHeader = False\<rparr>\<rparr>, 2, None)"
proof -
  let ?f = "\<lparr>f_net = fresh_net [], f_writeHeader = False, f_readHeader = False\<rparr>"
  have tx: "tx (fresh_net []) = []" by (simp add: fresh_net_def)
  have "length (c_seal ex_crypto k n [] [7, 8]) \<le> maxFrameLen" for k n
    by (simp add: ex_crypto_def maxFrameLen_def)
  then have w: "writeFrame (c_seal ex_crypto k n [] [7, 8]) ?f =
      (\<lparr>f_net = (fresh_net [])\<lparr>tx := [frame_of False (c_seal ex_crypto k n [] [7, 8])]\<rparr>, f_writeHeader = False, f_readHeader = False\<rparr>, None)" for k n
    using writeFrame_ok [of ?f "c_seal ex_crypto k n [] [7, 8]"] net_ok_fresh [of "[]"] tx by simp
  have "ensureHandshake ex_crypto ex_wa ex_wa_conn = (ex_wa_conn, None)"
    by (simp add: ensureHandshake_def ex_wa_conn_def newConn_def)
  then show ?thesis
    by (simp add: wa_Write_def wa_write_loop.simps [of ex_crypto] wa_maxPlain_def maxFrameLen_def)
      (simp add: ex_wa_conn_def newConn_def w wa_frame_def wa_write_loop.simps [of _ _ "[]"] two)
qed

theorem wa_stream_delivered_witness:
  "read_all (wa_Read ex_crypto ex_wa) 1 2 (wa_feed [Data ex_wa_frame] ex_wa_conn) = [7, 8]"
proof -
  have "duplex (wa_Write ex_crypto ex_wa) (wa_Read ex_crypto ex_wa) wa_net wa_feed ex_wa_conn ex_wa_conn
     (fst (wa_Write ex_crypto ex_wa [7, 8] ex_wa_conn)) (wa_feed [Data ex_wa_frame] ex_wa_conn) ([] @ [7, 8]) [] [] []"
    by (rule duplex.a_writes [OF duplex.start])
      (simp_all add: ex_wa_write, simp_all add: ex_wa_conn_def newConn_def wa_net_def fresh_net_def)
  from wa_stream_delivered [OF ex_wa_peers this, of 1] show ?thesis
    by (simp del: read_all.simps add: numeral_2_eq_2)
qed

section \<open>Nonces\<close>

lemma generateIV_inj: "generateIV m = generateIV n \<longleftrightarrow> m = n"
proof
  assume "generateIV m = generateIV n"
  then have e: "ucast (drop_bit (8 * (3 - i)) m) = (ucast (drop_bit (8 * (3 - i)) n) :: byte)" if "i < 4" for i
    using that by (simp add: generateIV_def upt_rec numeral_eq_Suc less_Suc_eq) auto
  show "m = n"
  proof (rule bit_word_eqI)
    fix j assume "j < LENGTH(32)"
    then have i: "3 - j div 8 < 4" "3 - (3 - j div 8) = j div 8" "8 * (j div 8) + j mod 8 = j" "j mod 8 < 8" by auto
    from arg_cong [OF e [OF i(1)], of "\<lambda>w. bit w (j mod 8)"] i
    show "bit m j = bit n j" by (simp add: bit_ucast_iff bit_drop_bit_eq)
  qed
qed simp

lemma wa_encs_nth:
  "encs (wa_enc C) (k, n) ps = Some (s, fs) \<Longrightarrow>
    s = (k, n + word_of_nat (length ps)) \<and> length fs = length ps \<and>
    (\<forall>i < length fs. fs ! i = wa_frame C (k, n + word_of_nat i) (ps ! i))"
proof (induction ps arbitrary: n fs)
  case (Cons p ps)
  then obtain k1 w fs' where "wa_enc C (k, n) p = Some (k1, w)" "encs (wa_enc C) k1 ps = Some (s, fs')" "fs = w # fs'"
    by (auto split: option.splits)
  then have e: "encs (wa_enc C) (k, n + 1) ps = Some (s, fs')" "fs = wa_frame C (k, n) p # fs'"
    by (simp_all add: wa_enc_def split: if_splits)
  have "(wa_frame C (k, n) p # fs') ! i = wa_frame C (k, n + word_of_nat i) ((p # ps) ! i)" if "i < Suc (length fs')" for i
    using Cons.IH [OF e(1)] that by (cases i) (simp_all add: add.assoc)
  with Cons.IH [OF e(1)] e(2) show ?case by (simp add: add.assoc)
qed simp

text \<open>
  C25. The nonces of the WhatsApp data phase: frame number \<open>j\<close> of a write is sealed under the write
  key with the counter advanced by \<open>j\<close>, so that the nonces of two frames are equal exactly when
  their numbers are equal modulo \<open>2 ^ 32\<close>. The first \<open>2 ^ 32\<close> frames of a connection therefore
  have different nonces; the counter then wraps around and the nonces of the key are used again.
\<close>

theorem wa_nonce_schedule:
  assumes "wa_live a" "wa_Write C D p a = (a', n, None)"
  shows "w_writeCounter a' = w_writeCounter a + word_of_nat (length (chunks wa_maxPlain p)) \<and>
    (\<exists>fs. concat (tx (wa_net a')) = concat (tx (wa_net a)) @ concat fs \<and> length fs = length (chunks wa_maxPlain p) \<and>
      (\<forall>j < length fs. fs ! j = wa_frame C (w_writeKey a, w_writeCounter a + word_of_nat j) (chunks wa_maxPlain p ! j))) \<and>
    (\<forall>i j. generateIV (w_writeCounter a + word_of_nat i) = generateIV (w_writeCounter a + word_of_nat j) \<longleftrightarrow>
       i mod 2 ^ 32 = j mod 2 ^ 32)"
proof (intro conjI)
  from wa_Write_spec [OF assms] obtain fs where f:
    "encs (wa_enc C) (w_writeKey a, w_writeCounter a) (chunks wa_maxPlain p) = Some ((w_writeKey a', w_writeCounter a'), fs)"
    "concat (tx (wa_net a')) = concat (tx (wa_net a)) @ concat fs" unfolding wa_out_def by blast
  from wa_encs_nth [OF f(1)] show "w_writeCounter a' = w_writeCounter a + word_of_nat (length (chunks wa_maxPlain p))" by simp
  from wa_encs_nth [OF f(1)] f(2) show "\<exists>fs. concat (tx (wa_net a')) = concat (tx (wa_net a)) @ concat fs \<and>
      length fs = length (chunks wa_maxPlain p) \<and>
      (\<forall>j < length fs. fs ! j = wa_frame C (w_writeKey a, w_writeCounter a + word_of_nat j) (chunks wa_maxPlain p ! j))" by blast
  show "\<forall>i j. generateIV (w_writeCounter a + word_of_nat i) = generateIV (w_writeCounter a + word_of_nat j) \<longleftrightarrow>
      i mod 2 ^ 32 = j mod 2 ^ 32"
    by (simp add: generateIV_inj word_of_nat_eq_iff take_bit_eq_mod)
qed

theorem wa_nonce_schedule_witness:
  "w_writeCounter (fst (wa_Write ex_crypto ex_wa [7, 8] ex_wa_conn)) = 1 \<and>
   generateIV (w_writeCounter ex_wa_conn + word_of_nat (2 ^ 32)) = generateIV (w_writeCounter ex_wa_conn + word_of_nat 0)"
proof -
  have live: "wa_live ex_wa_conn" using ex_wa_peers by (simp add: wa_peers_at_def)
  have len: "length (chunks wa_maxPlain [7, 8 :: byte]) = 1"
    using chunks_step [of "[7, 8 :: byte]" wa_maxPlain] by (simp add: wa_maxPlain_def maxFrameLen_def)
  note n = wa_nonce_schedule [OF live ex_wa_write]
  have "(2 ^ 32 :: nat) mod 2 ^ 32 = 0 mod 2 ^ 32" by simp
  with n have "generateIV (w_writeCounter ex_wa_conn + word_of_nat (2 ^ 32)) = generateIV (w_writeCounter ex_wa_conn + word_of_nat 0)"
    by blast
  with conjunct1 [OF n] len show ?thesis by (simp only: ex_wa_write fst_conv ex_wa_counter) simp
qed

section \<open>A handshake that fails\<close>

text \<open>
  The deferred handshake runs exactly once: after it has failed, every later Write and Read
  reports the same error, leaves the connection as it is and sends and reads nothing; after it
  has succeeded it is not run again.
\<close>

theorem wa_handshake_once:
  assumes "ensureHandshake C D c = (c', e)" "w_hsErr c = None"
  shows "ensureHandshake C D c' = (c', e) \<and>
    (\<forall>err. e = Some err \<longrightarrow> wa_Write C D p c' = (c', 0, Some err) \<and> (0 < k \<longrightarrow> wa_Read C D k c' = (c', Inl err)))"
proof -
  have again: "ensureHandshake C D c' = (c', e)"
    using assms by (auto simp: ensureHandshake_def Let_def split: option.splits if_splits prod.splits sum.splits)
  then show ?thesis by (simp add: wa_Write_def wa_Read_def)
qed

lemma waConnHeader_length: "length waConnHeader = 4"
  by (simp add: waConnHeader_def)

theorem wa_handshake_once_witness:
  "\<exists>c' err. ensureHandshake ex_crypto ex_wa (newDeferredServerConn (serverFramed (fresh_net [Data [1, 2, 3, 4]])) (ex_keypair 7) []) = (c', Some err) \<and>
    wa_Write ex_crypto ex_wa [1] c' = (c', 0, Some err)"
proof -
  let ?c = "newDeferredServerConn (serverFramed (fresh_net [Data [1, 2, 3, 4]])) (ex_keypair 7) []"
  from nh_start_ok [OF ex_crypto_ok] obtain nh where nh: "nh_start ex_crypto noiseStartPattern waConnHeader newNoiseHandshake = Inr nh" .
  have "\<exists>f. readFrame (serverFramed (fresh_net [Data [1, 2, 3, 4]])) = (f, Inl (New ''whatsapp: missing WA connection header''))"
    using full.rd_exact [of "fresh_net [Data [1, 2, 3, 4]]" 4]
    by (simp add: readFrame_def serverFramed_def waConnHeader_length fresh_net_def)
  then have "\<exists>c' err. ensureHandshake ex_crypto ex_wa ?c = (c', Some err)"
    using nh by (auto simp: ensureHandshake_def newDeferredServerConn_def serverHandshake_def)
  then obtain c' err where e: "ensureHandshake ex_crypto ex_wa ?c = (c', Some err)" by blast
  moreover have "w_hsErr ?c = None" by (simp add: newDeferredServerConn_def)
  ultimately show ?thesis using wa_handshake_once [OF e, of "[1]" 1] by blast
qed

end
