(* ===== verification/Go_Net.thy ===== *)
theory Go_Net
  imports Go_Strings
begin

text \<open>
  What pkg/noisecat uses of Go's standard library on addresses and numbers: \<open>strconv.Atoi\<close>
  (64-bit ints) and \<open>net.SplitHostPort\<close> and \<open>net.JoinHostPort\<close>.
\<close>

section \<open>Numbers\<close>

definition is_digit :: "char \<Rightarrow> bool" where
  "is_digit c \<longleftrightarrow> 48 \<le> (of_char c :: nat) \<and> (of_char c :: nat) \<le> 57"

definition digit_val :: "char \<Rightarrow> int" where
  "digit_val c = int (of_char c) - 48"

definition digits_val :: "string \<Rightarrow> int" where
  "digits_val ds = fold (\<lambda>c n. 10 * n + digit_val c) ds 0"

definition Atoi :: "string \<Rightarrow> int res" where
  "Atoi s =
     (let neg = (s \<noteq> [] \<and> hd s = CHR ''-'');
          ds = (if s \<noteq> [] \<and> (hd s = CHR ''-'' \<or> hd s = CHR ''+'') then tl s else s);
          v = (if neg then - digits_val ds else digits_val ds)
      in if ds = [] \<or> \<not> list_all is_digit ds
         then Inl (Errorf ''strconv.Atoi: parsing %q: invalid syntax'' [AStr s])
         else if v < - (2 ^ 63) \<or> 2 ^ 63 \<le> v
         then Inl (Errorf ''strconv.Atoi: parsing %q: value out of range'' [AStr s])
         else Inr v)"

section \<open>Addresses\<close>

definition index_of :: "char \<Rightarrow> string \<Rightarrow> nat option" where
  "index_of c s = (let p = takeWhile (\<lambda>x. x \<noteq> c) s in if length p < length s then Some (length p) else None)"

definition last_index :: "char \<Rightarrow> string \<Rightarrow> nat option" where
  "last_index c s = map_option (\<lambda>i. length s - 1 - i) (index_of c (rev s))"

definition addrErr :: "string \<Rightarrow> string \<Rightarrow> err" where
  "addrErr addr why = Errorf ''address %s: %s'' [AStr addr, AStr why]"

definition SplitHostPort :: "string \<Rightarrow> (string \<times> string) res" where
  "SplitHostPort hp =
     (case last_index CHR '':'' hp of
        None \<Rightarrow> Inl (addrErr hp ''missing port in address'')
      | Some i \<Rightarrow>
          attempt
            (if hd hp = CHR ''['' then
               (case index_of CHR '']'' hp of
                  None \<Rightarrow> Inl (addrErr hp ''missing ']' in address'')
                | Some e \<Rightarrow>
                    if e + 1 = length hp then Inl (addrErr hp ''missing port in address'')
                    else if e + 1 = i then Inr (take (e - 1) (drop 1 hp), 1, e + 1)
                    else if hp ! (e + 1) = CHR '':'' then Inl (addrErr hp ''too many colons in address'')
                    else Inl (addrErr hp ''missing port in address''))
             else if CHR '':'' \<in> set (take i hp) then Inl (addrErr hp ''too many colons in address'')
             else Inr (take i hp, 0, 0))
            (\<lambda>(host, j, k).
               if CHR ''['' \<in> set (drop j hp) then Inl (addrErr hp ''unexpected '[' in address'')
               else if CHR '']'' \<in> set (drop k hp) then Inl (addrErr hp ''unexpected ']' in address'')
               else Inr (host, drop (i + 1) hp)))"

definition JoinHostPort :: "string \<Rightarrow> string \<Rightarrow> string" where
  "JoinHostPort host port =
     (if CHR '':'' \<in> set host then ''['' @ host @ '']:'' @ port else host @ '':'' @ port)"

lemma takeWhile_avoid: "c \<notin> set a \<Longrightarrow> takeWhile (\<lambda>x. x \<noteq> c) (a @ c # b) = a" "c \<notin> set a \<Longrightarrow> takeWhile (\<lambda>x. x \<noteq> c) a = a"
  by (induction a) auto

lemma index_of_append: "c \<notin> set a \<Longrightarrow> index_of c (a @ c # b) = Some (length a)"
  by (simp add: index_of_def Let_def takeWhile_avoid)

lemma index_of_None: "c \<notin> set a \<Longrightarrow> index_of c a = None"
  by (simp add: index_of_def Let_def takeWhile_avoid)

lemma last_index_append:
  assumes "c \<notin> set b"
  shows "last_index c (a @ c # b) = Some (length a)"
  using index_of_append [of c "rev b" "rev a"] assms by (simp add: last_index_def)

text \<open>Splitting undoes joining, for hosts and ports without brackets and a port without colons.\<close>

lemma split_join_host:
  assumes "CHR ''['' \<notin> set host" "CHR '']'' \<notin> set host"
    and "CHR '':'' \<notin> set port" "CHR ''['' \<notin> set port" "CHR '']'' \<notin> set port"
  shows "SplitHostPort (JoinHostPort host port) = Inr (host, port)"
proof (cases "CHR '':'' \<in> set host")
  case True
  let ?hp = "''['' @ host @ '']:'' @ port"
  have l: "last_index CHR '':'' ?hp = Some (length host + 2)"
    using last_index_append [of "CHR '':''" port "''['' @ host @ '']''"] assms(3) by simp
  have e: "index_of CHR '']'' ?hp = Some (length host + 1)"
    using index_of_append [of "CHR '']''" "''['' @ host" "'':'' @ port"] assms(2) by simp
  show ?thesis
    using assms l e True by (simp add: SplitHostPort_def JoinHostPort_def)
next
  case False
  let ?hp = "host @ '':'' @ port"
  have l: "last_index CHR '':'' ?hp = Some (length host)"
    using last_index_append [of "CHR '':''" port host] assms(3) by simp
  have "hd ?hp \<noteq> CHR ''[''" using assms(1) by (cases host) auto
  with assms l False show ?thesis by (simp add: SplitHostPort_def JoinHostPort_def)
qed

text \<open>
  A host that is already in brackets: joining adds another pair, and splitting fails.
\<close>

lemma split_bracketed_host:
  assumes "CHR '':'' \<in> set h" "CHR '']'' \<notin> set h" "CHR '':'' \<notin> set port"
  shows "\<exists>e. SplitHostPort (JoinHostPort (''['' @ h @ '']'') port) = Inl e"
proof -
  let ?hp = "''[['' @ h @ '']]:'' @ port"
  have l: "last_index CHR '':'' ?hp = Some (length h + 4)"
    using last_index_append [of "CHR '':''" port "''[['' @ h @ '']]''"] assms(3) by simp
  have e: "index_of CHR '']'' ?hp = Some (length h + 2)"
    using index_of_append [of "CHR '']''" "''[['' @ h" "'']:'' @ port"] assms(2) by simp
  show ?thesis
    using assms l e by (simp add: SplitHostPort_def JoinHostPort_def)
qed

end
