(* ===== verification/Protocols.thy ===== *)
theory Protocols
  imports Noise_Lib Go_Net
begin

text \<open>
  Noise protocol names (pkg/noisecat/protocols.go, utils.go): the tables of the supported
  patterns, Diffie-Hellman, cipher and hash functions, and the parser of a name. A Go map is an
  association list with distinct keys; the objects of the Noise library are named by strings.
\<close>

section \<open>Tables\<close>

definition NOISE_DH_CURVE25519 :: byte where "NOISE_DH_CURVE25519 = 1"

definition NOISE_DH_CURVE448 :: byte where "NOISE_DH_CURVE448 = 2"

definition NOISE_DH_SECP256K1 :: byte where "NOISE_DH_SECP256K1 = 3"

definition DHStrByte :: "(string \<times> byte) list" where
  "DHStrByte = [(''25519'', NOISE_DH_CURVE25519), (''secp256k1'', NOISE_DH_SECP256K1)]"

definition DHByteObj :: "(byte \<times> string) list" where
  "DHByteObj = [(NOISE_DH_CURVE25519, ''25519'')]"

definition HashStrByte :: "(string \<times> byte) list" where
  "HashStrByte = [(''BLAKE2s'', 1), (''BLAKE2b'', 2), (''SHA256'', 3), (''SHA512'', 4)]"

definition HashByteObj :: "(byte \<times> string) list" where
  "HashByteObj = [(1, ''BLAKE2s''), (2, ''BLAKE2b''), (3, ''SHA256''), (4, ''SHA512'')]"

definition CipherStrByte :: "(string \<times> byte) list" where
  "CipherStrByte = [(''ChaChaPoly'', 1), (''AESGCM'', 2)]"

definition CipherByteObj :: "(byte \<times> string) list" where
  "CipherByteObj = [(1, ''ChaChaPoly''), (2, ''AESGCM'')]"

definition PatternStrByte :: "(string \<times> byte) list" where
  "PatternStrByte = [(''NN'', 4), (''NK'', 5), (''NX'', 6), (''XN'', 7), (''XK'', 8), (''XX'', 9),
     (''KN'', 10), (''KK'', 11), (''KX'', 12), (''IN'', 13), (''IK'', 14), (''IX'', 15)]"

definition PatternByteObj :: "(byte \<times> string) list" where
  "PatternByteObj = [(4, ''NN''), (5, ''NK''), (6, ''NX''), (7, ''XN''), (8, ''XK''), (9, ''XX''),
     (10, ''KN''), (11, ''KK''), (12, ''KX''), (13, ''IN''), (14, ''IK''), (15, ''IX'')]"

definition noPSK :: int where
  "noPSK = -1"

section \<open>The regular expression\<close>

text \<open>
  \<open>protocolRegexp\<close>: the literal \<open>Noise_\<close>, two capitals, an optional \<open>psk\<close> and a digit from 0 to
  3, and three groups \<open>\w+\<close> separated by underscores. The class \<open>\w\<close> contains the underscore and
  the groups are greedy, so the matcher tries the underscores from the last to the first.
\<close>

definition is_word :: "char \<Rightarrow> bool" where
  "is_word c \<longleftrightarrow> (let n = (of_char c :: nat) in
     48 \<le> n \<and> n \<le> 57 \<or> 65 \<le> n \<and> n \<le> 90 \<or> 97 \<le> n \<and> n \<le> 122 \<or> n = 95)"

definition is_upper :: "char \<Rightarrow> bool" where
  "is_upper c \<longleftrightarrow> 65 \<le> (of_char c :: nat) \<and> (of_char c :: nat) \<le> 90"

fun usplits :: "string \<Rightarrow> (string \<times> string) list" where
  "usplits [] = []"
| "usplits (c # cs) = (if c = CHR ''_'' then [([], cs)] else []) @ map (apfst (Cons c)) (usplits cs)"

definition match_two :: "string \<Rightarrow> (string \<times> string) option" where
  "match_two w = find (\<lambda>(a, b). a \<noteq> [] \<and> b \<noteq> []) (rev (usplits w))"

definition match_three :: "string \<Rightarrow> (string \<times> string \<times> string) option" where
  "match_three w = (case find (\<lambda>(a, r). a \<noteq> [] \<and> match_two r \<noteq> None) (rev (usplits w)) of
     None \<Rightarrow> None
   | Some (a, r) \<Rightarrow> map_option (Pair a) (match_two r))"

definition match_psk :: "string \<Rightarrow> string \<times> string" where
  "match_psk s = (if take 3 s = ''psk'' \<and> 3 < length s \<and> s ! 3 \<in> set ''0123'' then ([s ! 3], drop 4 s) else ([], s))"

text \<open>The submatches: pattern, psk digit (empty when the group did not match) and the three names.\<close>

definition match_protocol :: "string \<Rightarrow> (string \<times> string \<times> string \<times> string \<times> string) option" where
  "match_protocol s =
     (let p = take 2 (drop 6 s); (k, r) = match_psk (drop 8 s) in
      if take 6 s = ''Noise_'' \<and> length p = 2 \<and> list_all is_upper p \<and> r \<noteq> [] \<and> hd r = CHR ''_'' \<and> list_all is_word (tl r)
      then map_option (\<lambda>(a, b, c). (p, k, a, b, c)) (match_three (tl r))
      else None)"

section \<open>The parser\<close>

definition joinList :: "string list \<Rightarrow> string" where
  "joinList items = (case items of [] \<Rightarrow> [] | i # is \<Rightarrow> fold (\<lambda>s out. out @ '', '' @ s) is i)"

record parsed_protocol =
  pp_pattern :: byte
  pp_dh :: byte
  pp_cipher :: byte
  pp_hash :: byte
  pp_psk :: int

text \<open>A lookup of a Go map: the zero value and false for a missing key.\<close>

definition lookup_byte :: "(string \<times> byte) list \<Rightarrow> string \<Rightarrow> byte \<times> bool" where
  "lookup_byte m k = (case map_of m k of None \<Rightarrow> (0, False) | Some b \<Rightarrow> (b, True))"

definition parseProtocolName :: "string \<Rightarrow> parsed_protocol \<times> err option" where
  "parseProtocolName protoName =
     (case match_protocol protoName of
        None \<Rightarrow> (\<lparr>pp_pattern = 0, pp_dh = 0, pp_cipher = 0, pp_hash = 0, pp_psk = noPSK\<rparr>,
                 Some (New ''invalid protocol name (expected Noise_PT[pskN]_DH_CP_HS)''))
      | Some (p, k, d, c, h) \<Rightarrow>
          let (hs, ok1) = lookup_byte PatternStrByte p;
              (dh, ok2) = lookup_byte DHStrByte d;
              (ci, ok3) = lookup_byte CipherStrByte c;
              (ha, ok4) = lookup_byte HashStrByte h;
              psk = (if k \<noteq> [] then digits_val k else noPSK);
              missing = (if ok1 then [] else [''handshake pattern '' @ p]) @ (if ok2 then [] else [''DH function '' @ d]) @
                (if ok3 then [] else [''cipher function '' @ c]) @ (if ok4 then [] else [''hash function '' @ h])
          in (\<lparr>pp_pattern = hs, pp_dh = dh, pp_cipher = ci, pp_hash = ha, pp_psk = psk\<rparr>,
              if missing \<noteq> [] then Some (Errorf ''unsupported %s'' [AStr (joinList missing)]) else None))"

section \<open>Matching\<close>

lemma find_in: "find P xs = Some x \<Longrightarrow> x \<in> set xs \<and> P x"
  by (induction xs) (auto split: if_splits)

lemma usplits_iff: "(a, b) \<in> set (usplits w) \<longleftrightarrow> w = a @ CHR ''_'' # b"
proof (induction w arbitrary: a)
  case (Cons c w)
  show ?case
  proof (cases a)
    case (Cons x a')
    have "(x # a', b) \<in> apfst (Cons c) ` set (usplits w) \<longleftrightarrow> x = c \<and> (a', b) \<in> set (usplits w)"
      by (auto simp: image_iff) force
    with Cons Cons.IH [of a'] show ?thesis by auto
  qed auto
qed simp

lemma usplits_none: "CHR ''_'' \<notin> set w \<Longrightarrow> usplits w = []"
  by (induction w) auto

lemma usplits_append: "CHR ''_'' \<notin> set a \<Longrightarrow> usplits (a @ CHR ''_'' # b) = (a, b) # map (apfst (\<lambda>x. a @ CHR ''_'' # x)) (usplits b)"
  by (induction a) (auto simp: apfst_compose)

lemma match_two_Some: "match_two w = Some (a, b) \<Longrightarrow> w = a @ CHR ''_'' # b \<and> a \<noteq> [] \<and> b \<noteq> []"
  using find_in [of "\<lambda>(a, b). a \<noteq> [] \<and> b \<noteq> []" "rev (usplits w)" "(a, b)"] by (simp add: match_two_def usplits_iff)

lemma match_two_append:
  assumes "CHR ''_'' \<notin> set a" "CHR ''_'' \<notin> set b" "a \<noteq> []" "b \<noteq> []"
  shows "match_two (a @ CHR ''_'' # b) = Some (a, b)"
  using assms by (simp add: match_two_def usplits_append usplits_none)

lemma match_three_Some:
  assumes "match_three w = Some (a, b, c)"
  shows "w = a @ CHR ''_'' # b @ CHR ''_'' # c \<and> a \<noteq> [] \<and> b \<noteq> [] \<and> c \<noteq> []"
proof -
  from assms obtain r where r: "find (\<lambda>(a, r). a \<noteq> [] \<and> match_two r \<noteq> None) (rev (usplits w)) = Some (a, r)" "match_two r = Some (b, c)"
    by (auto simp: match_three_def split: option.splits)
  from find_in [OF r(1)] have "(a, r) \<in> set (usplits w)" "a \<noteq> []" by auto
  with match_two_Some [OF r(2)] show ?thesis by (simp add: usplits_iff)
qed

lemma match_three_append:
  assumes "CHR ''_'' \<notin> set a" "CHR ''_'' \<notin> set b" "CHR ''_'' \<notin> set c" "a \<noteq> []" "b \<noteq> []" "c \<noteq> []"
  shows "match_three (a @ CHR ''_'' # b @ CHR ''_'' # c) = Some (a, b, c)"
proof -
  have "match_two c = None" using assms(3) by (simp add: match_two_def usplits_none)
  with assms match_two_append [OF assms(2,3,5,6)] show ?thesis
    by (simp add: match_three_def usplits_append usplits_none)
qed

section \<open>What is accepted\<close>

definition format_name :: "string \<Rightarrow> string \<Rightarrow> string \<Rightarrow> string \<Rightarrow> string \<Rightarrow> string" where
  "format_name p k d c h = ''Noise_'' @ p @ (if k = [] then [] else ''psk'' @ k) @ ''_'' @ d @ ''_'' @ c @ ''_'' @ h"

definition psk_digits :: "string set" where
  "psk_digits = {[], ''0'', ''1'', ''2'', ''3''}"

lemma match_psk_Some:
  "match_psk s = (k, r) \<Longrightarrow> k \<in> psk_digits \<and> s = (if k = [] then [] else ''psk'' @ k) @ r"
proof -
  assume m: "match_psk s = (k, r)"
  have "s = ''psk'' @ [s ! 3] @ drop 4 s" if "take 3 s = ''psk''" "3 < length s"
    using that append_take_drop_id [of 3 s] Cons_nth_drop_Suc [of 3 s] by (simp add: numeral_eq_Suc)
  with m show ?thesis by (auto simp: match_psk_def psk_digits_def split: if_splits)
qed

lemma match_psk_format:
  assumes "k \<in> psk_digits"
  shows "match_psk ((if k = [] then [] else ''psk'' @ k) @ CHR ''_'' # w) = (k, CHR ''_'' # w)"
  using assms by (auto simp: match_psk_def psk_digits_def numeral_eq_Suc)

lemma pattern_names: "map_of PatternStrByte p = Some b \<Longrightarrow> length p = 2 \<and> list_all is_upper p"
  by (drule map_of_SomeD) (auto simp: PatternStrByte_def is_upper_def)

definition plain_word :: "string \<Rightarrow> bool" where
  "plain_word w \<longleftrightarrow> w \<noteq> [] \<and> CHR ''_'' \<notin> set w \<and> list_all is_word w"

lemma dh_names: "map_of DHStrByte d = Some b \<Longrightarrow> plain_word d"
  by (drule map_of_SomeD) (auto simp: DHStrByte_def plain_word_def is_word_def)

lemma cipher_names: "map_of CipherStrByte d = Some b \<Longrightarrow> plain_word d"
  by (drule map_of_SomeD) (auto simp: CipherStrByte_def plain_word_def is_word_def)

lemma hash_names: "map_of HashStrByte d = Some b \<Longrightarrow> plain_word d"
  by (drule map_of_SomeD) (auto simp: HashStrByte_def plain_word_def is_word_def)

lemmas part_names = dh_names cipher_names hash_names

lemma match_protocol_Some:
  assumes "match_protocol s = Some (p, k, d, c, h)"
  shows "s = format_name p k d c h \<and> k \<in> psk_digits"
proof -
  obtain k' r where m: "match_psk (drop 8 s) = (k', r)" by fastforce
  with assms have r: "take 6 s = ''Noise_''" "p = take 2 (drop 6 s)" "k' = k" "r \<noteq> []" "hd r = CHR ''_''"
    "match_three (tl r) = Some (d, c, h)"
    by (auto simp: match_protocol_def Let_def split: if_splits)
  have "s = take 6 s @ take 2 (drop 6 s) @ drop 8 s" using take_split3 [of s 6 2] by simp
  moreover have "r = CHR ''_'' # d @ CHR ''_'' # c @ CHR ''_'' # h"
    using match_three_Some [OF r(6)] r(4,5) by (cases r) auto
  ultimately show ?thesis using match_psk_Some [OF m] r by (auto simp: format_name_def)
qed

lemma match_protocol_format:
  assumes "length p = 2" "list_all is_upper p" "k \<in> psk_digits" "plain_word d" "plain_word c" "plain_word h"
  shows "match_protocol (format_name p k d c h) = Some (p, k, d, c, h)"
proof -
  let ?w = "d @ CHR ''_'' # c @ CHR ''_'' # h" and ?s = "format_name p k d c h"
  have s: "?s = ''Noise_'' @ p @ ((if k = [] then [] else ''psk'' @ k) @ CHR ''_'' # ?w)" by (simp add: format_name_def)
  have "take 6 ?s = ''Noise_''" "take 2 (drop 6 ?s) = p" "drop 8 ?s = (if k = [] then [] else ''psk'' @ k) @ CHR ''_'' # ?w"
    unfolding s using assms(1) by simp_all
  moreover have "list_all is_word ?w" using assms(4,5,6) by (simp add: plain_word_def) (simp add: is_word_def)
  moreover have "match_three ?w = Some (d, c, h)" using assms(4,5,6) by (simp add: plain_word_def match_three_append)
  ultimately show ?thesis using match_psk_format [OF assms(3)] assms(1,2) by (simp add: match_protocol_def)
qed

text \<open>The two directions of the parser, the first also used where a configuration is built.\<close>

lemma parsed_names:
  assumes a: "parseProtocolName s = (r, None)"
  shows "(\<exists>p k d c h. s = format_name p k d c h \<and> k \<in> psk_digits \<and>
       map_of PatternStrByte p = Some (pp_pattern r) \<and> map_of DHStrByte d = Some (pp_dh r) \<and>
       map_of CipherStrByte c = Some (pp_cipher r) \<and> map_of HashStrByte h = Some (pp_hash r) \<and>
       pp_psk r = (if k = [] then noPSK else digits_val k))"
proof -
  from a obtain p k d c h where m: "match_protocol s = Some (p, k, d, c, h)"
    by (cases "match_protocol s") (auto simp: parseProtocolName_def)
  from a m have "map_of PatternStrByte p = Some (pp_pattern r) \<and> map_of DHStrByte d = Some (pp_dh r) \<and>
      map_of CipherStrByte c = Some (pp_cipher r) \<and> map_of HashStrByte h = Some (pp_hash r) \<and>
      pp_psk r = (if k = [] then noPSK else digits_val k)"
    by (auto simp: parseProtocolName_def lookup_byte_def Let_def split: option.splits if_splits)
  with match_protocol_Some [OF m] show ?thesis by blast
qed

lemma parse_format:
  assumes "k \<in> psk_digits" "map_of PatternStrByte p = Some (pp_pattern r)" "map_of DHStrByte d = Some (pp_dh r)"
    "map_of CipherStrByte c = Some (pp_cipher r)" "map_of HashStrByte h = Some (pp_hash r)"
    "pp_psk r = (if k = [] then noPSK else digits_val k)"
  shows "parseProtocolName (format_name p k d c h) = (r, None)"
proof -
  have "match_protocol (format_name p k d c h) = Some (p, k, d, c, h)"
    using pattern_names [OF assms(2)] assms(1) part_names(1) [OF assms(3)] part_names(2) [OF assms(4)] part_names(3) [OF assms(5)]
    by (intro match_protocol_format) auto
  then show ?thesis using assms by (simp add: parseProtocolName_def lookup_byte_def)
qed

text \<open>
  C39. The protocol names the program accepts are exactly the names of the form
  \<open>Noise_PT[pskN]_DH_CP_HS\<close> whose parts are in the tables, with N from 0 to 3, and the parser
  returns the numbers the tables give for the parts and the psk index.
\<close>

theorem protocol_name_iff:
  "parseProtocolName s = (r, None) \<longleftrightarrow>
    (\<exists>p k d c h. s = format_name p k d c h \<and> k \<in> psk_digits \<and>
       map_of PatternStrByte p = Some (pp_pattern r) \<and> map_of DHStrByte d = Some (pp_dh r) \<and>
       map_of CipherStrByte c = Some (pp_cipher r) \<and> map_of HashStrByte h = Some (pp_hash r) \<and>
       pp_psk r = (if k = [] then noPSK else digits_val k))"
  by (intro iffI) (blast dest: parsed_names, metis parse_format)

theorem protocol_name_iff_witness:
  "parseProtocolName ''Noise_NKpsk2_25519_ChaChaPoly_SHA256'' =
     (\<lparr>pp_pattern = 5, pp_dh = 1, pp_cipher = 1, pp_hash = 3, pp_psk = 2\<rparr>, None)"
proof -
  let ?r = "\<lparr>pp_pattern = 5, pp_dh = 1, pp_cipher = 1, pp_hash = 3, pp_psk = 2\<rparr>"
  have "''Noise_NKpsk2_25519_ChaChaPoly_SHA256'' = format_name ''NK'' ''2'' ''25519'' ''ChaChaPoly'' ''SHA256'' \<and> ''2'' \<in> psk_digits \<and>
       map_of PatternStrByte ''NK'' = Some (pp_pattern ?r) \<and> map_of DHStrByte ''25519'' = Some (pp_dh ?r) \<and>
       map_of CipherStrByte ''ChaChaPoly'' = Some (pp_cipher ?r) \<and> map_of HashStrByte ''SHA256'' = Some (pp_hash ?r) \<and>
       pp_psk ?r = (if ''2'' = [] then noPSK else digits_val ''2'')"
    by (simp add: format_name_def psk_digits_def PatternStrByte_def DHStrByte_def CipherStrByte_def HashStrByte_def
        NOISE_DH_CURVE25519_def digits_val_def digit_val_def)
  then show ?thesis by (intro protocol_name_iff [THEN iffD2]) blast
qed

end
