(* ===== verification/Config.thy ===== *)
theory Config
  imports Protocols
begin

text \<open>
  The configuration of noisecat (pkg/noisecat/conf.go, noise.go, secp256k1_keys.go, validate.go):
  the flags, their validation, and the construction of the Noise configuration with its keys. The
  record \<open>config\<close> is the struct \<open>Config\<close>. The file system, the JSON of key files, the key
  generators and the library's pattern objects are the parameters in \<open>cat_env\<close>; a run is modelled
  for fixed outcomes of the generators.
\<close>

section \<open>Environment and state\<close>

record cat_env =
  env_pattern :: "string \<Rightarrow> hs_pattern"
  env_genkey :: "string option \<times> string option \<times> string option \<Rightarrow> dh_key res"
  env_windows :: bool
  env_stat :: "string \<Rightarrow> nat res"
  env_read :: "string \<Rightarrow> bytes res"
  env_json :: "bytes \<Rightarrow> dh_key res"
  env_marshal :: "dh_key \<Rightarrow> bytes res"
  env_secp_gen :: "dh_key res"
  env_secp_parse :: "bytes \<Rightarrow> unit res"

text \<open>What is used of the library's pattern objects: their names.\<close>

definition patterns_ok :: "cat_env \<Rightarrow> bool" where
  "patterns_ok E \<longleftrightarrow> (\<forall>(n, b) \<in> set PatternStrByte. pat_name (env_pattern E n) = n)"

record config =
  cf_SrcPort :: string
  cf_SrcHost :: string
  cf_DstPort :: string
  cf_DstHost :: string
  cf_ExecuteCmd :: string
  cf_Proxy :: string
  cf_Listen :: bool
  cf_Verbose :: bool
  cf_Daemon :: bool
  cf_Keygen :: bool
  cf_Protocol :: string
  cf_Pattern :: byte
  cf_DHFunc :: byte
  cf_CipherFunc :: byte
  cf_HashFunc :: byte
  cf_PSKPlacement :: int
  cf_PSK :: string
  cf_RStatic :: string
  cf_LStatic :: string
  cf_Transport :: string
  cf_Prologue :: string
  cf_NegotiationData :: string
  cf_Validate :: string
  cf_IPv4Only :: bool
  cf_IPv6Only :: bool
  cf_TimeoutSeconds :: int
  cf_UDP :: bool
  cf_NSFallback :: string
  cf_NSSupport :: string
  cf_NSPolicy :: string

definition splitList :: "string \<Rightarrow> string list" where
  "splitList s = (if s = [] then [] else filter (\<lambda>p. p \<noteq> []) (map TrimSpace (split_on CHR '','' s)))"

definition negotiationEnabled :: "config \<Rightarrow> bool" where
  "negotiationEnabled c = (if cf_Listen c then cf_NSSupport c \<noteq> [] else cf_NSFallback c \<noteq> [])"

definition netLabel :: "config \<Rightarrow> string" where
  "netLabel c = (if cf_UDP c then ''udp'' else ''tcp'')"

definition network :: "config \<Rightarrow> string" where
  "network c = (if cf_IPv4Only c then ''tcp4'' else if cf_IPv6Only c then ''tcp6'' else ''tcp'')"

section \<open>Keys\<close>

text \<open>\<open>warnIfWorldReadable\<close>: the warning it prints, if any (63 is the mask 0o077).\<close>

definition warnIfWorldReadable :: "cat_env \<Rightarrow> string \<Rightarrow> (string \<times> nat) option res" where
  "warnIfWorldReadable E path =
     (if env_windows E then Inr None
      else attempt (wrap ''can't stat keyfile %q: %w'' [AStr path] (env_stat E path)) (\<lambda>mode.
        Inr (if mode AND 63 \<noteq> 0 then Some (path, mode) else None)))"

definition checkLocalKeypair :: "cat_env \<Rightarrow> config \<Rightarrow> string option \<times> string option \<times> string option \<Rightarrow> dh_key res" where
  "checkLocalKeypair E c cs =
     (if cf_LStatic c = [] then env_genkey E cs
      else
        attempt (warnIfWorldReadable E (cf_LStatic c)) (\<lambda>_.
        attempt (wrap ''can't read keyfile %q: %w'' [AStr (cf_LStatic c)] (env_read E (cf_LStatic c))) (\<lambda>data.
        attempt (wrap ''can't parse keyfile %q: %w'' [AStr (cf_LStatic c)] (env_json E data)) (\<lambda>keypair.
        if length (dh_public keypair) \<noteq> 32 \<or> length (dh_private keypair) \<noteq> 32
        then Inl (Errorf ''keyfile %q: expected 32-byte public and private keys'' [AStr (cf_LStatic c)])
        else Inr keypair))))"

definition loadSecp256k1Keypair :: "cat_env \<Rightarrow> string \<Rightarrow> dh_key res" where
  "loadSecp256k1Keypair E path =
     (if path = [] then wrap ''generate secp256k1 keypair: %w'' [] (env_secp_gen E)
      else
        attempt (warnIfWorldReadable E path) (\<lambda>_.
        attempt (wrap ''can't read keyfile %q: %w'' [AStr path] (env_read E path)) (\<lambda>data.
        attempt (wrap ''can't parse keyfile %q: %w'' [AStr path] (env_json E data)) (\<lambda>kf.
        if length (dh_private kf) \<noteq> 32
        then Inl (Errorf ''keyfile %q: secp256k1 private key must be 32 bytes (got %d)'' [AStr path, AInt (int (length (dh_private kf)))])
        else if length (dh_public kf) \<noteq> 33
        then Inl (Errorf ''keyfile %q: secp256k1 public key must be 33 bytes compressed (got %d)'' [AStr path, AInt (int (length (dh_public kf)))])
        else Inr \<lparr>dh_private = dh_private kf, dh_public = dh_public kf\<rparr>))))"

definition GenerateSecp256k1Keypair :: "cat_env \<Rightarrow> bytes res" where
  "GenerateSecp256k1Keypair E = attempt (env_secp_gen E) (\<lambda>k. env_marshal E k)"

definition GenerateKeypair :: "cat_env \<Rightarrow> byte \<Rightarrow> byte \<Rightarrow> byte \<Rightarrow> bytes res" where
  "GenerateKeypair E dh cipher hash =
     attempt (env_genkey E (map_of DHByteObj dh, map_of CipherByteObj cipher, map_of HashByteObj hash)) (\<lambda>k.
     env_marshal E k)"

section \<open>The Noise configuration\<close>

definition checkRemoteStatic :: "config \<Rightarrow> bytes res" where
  "checkRemoteStatic c =
     (if cf_RStatic c = [] then Inl (New ''remote peer static key required (-rstatic)'')
      else attempt (wrap ''invalid remote static key: %w'' [] (b64_decode (cf_RStatic c))) (\<lambda>d.
        if length d \<noteq> 32 then Inl (New ''remote static key must be 32 bytes'') else Inr d))"

text \<open>The part about \<open>-psk\<close>: the key and its placement.\<close>

definition build_psk :: "config \<Rightarrow> string \<Rightarrow> int \<Rightarrow> (bytes \<times> int) res" where
  "build_psk c protoName placement =
     (if cf_PSK c \<noteq> [] then
        if placement = noPSK
        then Inl (New (''-psk set but protocol has no psk modifier '' @ [CHR 0xE2, CHR 0x80, CHR 0x94] @
          '' use e.g. Noise_NKpsk2_25519_AESGCM_SHA256''))
        else (case b64_decode (cf_PSK c) of
                Inl _ \<Rightarrow> Inl (New ''invalid PSK: must be base64-encoded'')
              | Inr psk \<Rightarrow> if length psk \<noteq> 32 then Inl (New ''PSK must decode to 32 bytes'') else Inr (psk, placement))
      else if placement \<noteq> noPSK
      then Inl (Errorf ''protocol %s has a psk modifier but -psk was not provided'' [AStr protoName])
      else Inr ([], 0))"

text \<open>The part about the static keys, by the two letters of the pattern and the role.\<close>

definition build_statics :: "cat_env \<Rightarrow> config \<Rightarrow> string option \<times> string option \<times> string option \<Rightarrow> string \<Rightarrow> noise_config \<Rightarrow> noise_config res" where
  "build_statics E c cs name nc =
     (if cfg_initiator nc then
        attempt (if name ! 0 \<in> set ''XIK'' then attempt (checkLocalKeypair E c cs) (\<lambda>k. Inr (nc\<lparr>static_keypair := k\<rparr>))
                 else Inr nc) (\<lambda>nc1.
        if name ! 1 = CHR ''K'' then attempt (checkRemoteStatic c) (\<lambda>r. Inr (nc1\<lparr>peer_static := Some r\<rparr>)) else Inr nc1)
      else
        attempt (if name ! 0 = CHR ''K'' then attempt (checkRemoteStatic c) (\<lambda>r. Inr (nc\<lparr>peer_static := Some r\<rparr>))
                 else Inr nc) (\<lambda>nc1.
        if name ! 1 \<in> set ''XK'' then attempt (checkLocalKeypair E c cs) (\<lambda>k. Inr (nc1\<lparr>static_keypair := k\<rparr>)) else Inr nc1))"

definition buildNoise25519Config :: "cat_env \<Rightarrow> config \<Rightarrow> string \<Rightarrow> bool \<Rightarrow> noise_config res" where
  "buildNoise25519Config E c protoName initiator =
     (case parseProtocolName protoName of
        (r, Some e) \<Rightarrow> Inl e
      | (r, None) \<Rightarrow>
          if pp_dh r = NOISE_DH_SECP256K1
          then Inl (Errorf ''protocol %q uses secp256k1, which the noisesocket/raw transports cannot speak'' [AStr protoName])
          else
            let cs = (map_of DHByteObj (pp_dh r), map_of CipherByteObj (pp_cipher r), map_of HashByteObj (pp_hash r));
                pat = (case map_of PatternByteObj (pp_pattern r) of None \<Rightarrow> cfg_pattern zero_noise_config | Some n \<Rightarrow> env_pattern E n);
                nc0 = zero_noise_config\<lparr>cipher_suite := cs, cfg_pattern := pat, cfg_initiator := initiator\<rparr>
            in attempt (build_psk c protoName (pp_psk r)) (\<lambda>(psk, placement).
               let nc1 = nc0\<lparr>preshared_key := psk, psk_placement := placement\<rparr> in
               if length (pat_name pat) < 2 then Inl (Errorf ''unsupported pattern: %s'' [AStr (pat_name pat)])
               else build_statics E c cs (pat_name pat) nc1))"

definition buildNoiseConfigForProtocol :: "cat_env \<Rightarrow> config \<Rightarrow> string \<Rightarrow> bool \<Rightarrow> noise_config res" where
  "buildNoiseConfigForProtocol E c = buildNoise25519Config E c"

definition set_protocol :: "parsed_protocol \<Rightarrow> config \<Rightarrow> config" where
  "set_protocol r c = c\<lparr>cf_Pattern := pp_pattern r, cf_DHFunc := pp_dh r, cf_CipherFunc := pp_cipher r,
     cf_HashFunc := pp_hash r, cf_PSKPlacement := pp_psk r\<rparr>"

text \<open>\<open>parseNoise\<close> for secp256k1: the keys only.\<close>

definition parseNoise_secp :: "cat_env \<Rightarrow> config \<Rightarrow> noise_config res" where
  "parseNoise_secp E c =
     attempt (loadSecp256k1Keypair E (cf_LStatic c)) (\<lambda>kp.
     let nc = zero_noise_config\<lparr>cfg_initiator := \<not> cf_Listen c, static_keypair := kp\<rparr> in
     if cf_Listen c then Inr nc
     else if cf_RStatic c = [] then Inl (New ''BOLT-8 initiator requires -rstatic (33-byte compressed secp256k1 pubkey)'')
     else attempt (wrap ''invalid -rstatic: %w'' [] (b64_decode (cf_RStatic c))) (\<lambda>rs.
       if length rs \<noteq> 33 then Inl (New ''-rstatic for secp256k1 must decode to 33 bytes (compressed)'')
       else Inr (nc\<lparr>peer_static := Some rs\<rparr>)))"

definition parseNoise :: "cat_env \<Rightarrow> config \<Rightarrow> config \<times> noise_config res" where
  "parseNoise E c =
     (case parseProtocolName (cf_Protocol c) of
        (r, Some e) \<Rightarrow> (set_protocol r c, Inl e)
      | (r, None) \<Rightarrow>
          let c1 = set_protocol r c in
          if pp_dh r = NOISE_DH_SECP256K1
          then (case parseNoise_secp E c1 of
                  Inl e \<Rightarrow> (c1, Inl e)
                | Inr nc \<Rightarrow> (if cf_Transport c1 = [] \<or> cf_Transport c1 = ''raw'' then c1\<lparr>cf_Transport := ''bolt8''\<rparr> else c1, Inr nc))
          else (c1, buildNoise25519Config E c1 (cf_Protocol c1) (\<not> cf_Listen c1)))"

section \<open>Validation of the flags\<close>

definition validateNegotiation :: "config \<Rightarrow> unit res" where
  "validateNegotiation c =
     (if cf_NSFallback c = [] \<and> cf_NSSupport c = [] \<and> cf_NSPolicy c = [] then Inr ()
      else if cf_Transport c \<noteq> ''noisesocket''
      then Inl (New ''-ns-fallback/-ns-support/-ns-policy require -transport noisesocket'')
      else if cf_Listen c \<and> cf_NSFallback c \<noteq> []
      then Inl (New ''-ns-fallback is a client option; the listener uses -ns-support'')
      else if \<not> cf_Listen c \<and> cf_NSSupport c \<noteq> []
      then Inl (New ''-ns-support is a listener option; the client uses -ns-fallback'')
      else if \<not> cf_Listen c \<and> cf_NSPolicy c \<noteq> []
      then Inl (New ''-ns-policy is a listener option'')
      else if cf_NSPolicy c \<in> {[], ''reject'', ''retry'', ''switch''} then Inr ()
      else Inl (Errorf ''invalid -ns-policy %q: must be reject, retry, or switch'' [AStr (cf_NSPolicy c)]))"

definition valid_port :: "string \<Rightarrow> bool" where
  "valid_port s = (case Atoi s of Inl _ \<Rightarrow> False | Inr p \<Rightarrow> 0 \<le> p \<and> p \<le> 65535)"

text \<open>The checks of \<open>ParseConfig\<close> ahead of the protocol, in their order.\<close>

definition check_flags :: "config \<Rightarrow> unit res" where
  "check_flags c =
     (if cf_Daemon c \<and> \<not> cf_Listen c then Inl (New ''-k requires -l'')
      else if cf_Daemon c \<and> cf_Proxy c = [] \<and> cf_ExecuteCmd c = [] then Inl (New ''-k requires -proxy or -e'')
      else if cf_Proxy c \<noteq> [] \<and> \<not> cf_Listen c then Inl (New ''client mode does not support -proxy'')
      else if cf_Proxy c \<noteq> [] \<and> cf_ExecuteCmd c \<noteq> [] then Inl (New ''-proxy and -e are mutually exclusive'')
      else attempt (if cf_Proxy c \<noteq> [] then wrap ''-proxy must be host:port: %w'' [] (SplitHostPort (cf_Proxy c)) else Inr ([], [])) (\<lambda>_.
        if cf_SrcPort c \<noteq> [] \<and> \<not> valid_port (cf_SrcPort c)
        then Inl (Errorf ''invalid -p source port %q'' [AStr (cf_SrcPort c)])
        else if cf_IPv4Only c \<and> cf_IPv6Only c then Inl (New ''-4 and -6 are mutually exclusive'')
        else if cf_TimeoutSeconds c < 0
        then Inl (Errorf ''invalid -w timeout %d: must be >= 0'' [AInt (cf_TimeoutSeconds c)])
        else if cf_UDP c \<and> cf_Transport c \<noteq> [] \<and> cf_Transport c \<noteq> ''raw''
        then Inl (Errorf ''-u (UDP) is only supported with the raw transport, not %q'' [AStr (cf_Transport c)])
        else validateNegotiation c))"

definition default_proto :: string where
  "default_proto = ''Noise_NN_25519_AESGCM_SHA256''"

definition wa_proto :: string where
  "wa_proto = ''Noise_XX_25519_AESGCM_SHA256''"

text \<open>The flags as main.go registers them, with their defaults.\<close>

definition default_config :: config where
  "default_config = \<lparr>cf_SrcPort = ''0'', cf_SrcHost = [], cf_DstPort = [], cf_DstHost = [], cf_ExecuteCmd = [], cf_Proxy = [],
     cf_Listen = False, cf_Verbose = False, cf_Daemon = False, cf_Keygen = False, cf_Protocol = default_proto,
     cf_Pattern = 0, cf_DHFunc = 0, cf_CipherFunc = 0, cf_HashFunc = 0, cf_PSKPlacement = noPSK, cf_PSK = [], cf_RStatic = [],
     cf_LStatic = [], cf_Transport = ''raw'', cf_Prologue = [], cf_NegotiationData = [], cf_Validate = [], cf_IPv4Only = False,
     cf_IPv6Only = False, cf_TimeoutSeconds = 0, cf_UDP = False, cf_NSFallback = [], cf_NSSupport = [], cf_NSPolicy = []\<rparr>"

definition ParseConfig :: "cat_env \<Rightarrow> config \<Rightarrow> config \<times> noise_config option res" where
  "ParseConfig E c =
     (if cf_Keygen c then
        (case parseProtocolName (cf_Protocol c) of
           (r, Some e) \<Rightarrow> (set_protocol r c, Inl e)
         | (r, None) \<Rightarrow> (set_protocol r c, Inr None))
      else case check_flags c of
        Inl e \<Rightarrow> (c, Inl e)
      | Inr _ \<Rightarrow>
          if cf_Transport c = ''whatsapp'' \<and> cf_Protocol c \<notin> {[], default_proto, wa_proto}
          then (c, Inl (Errorf ''-transport whatsapp only supports Noise_XX_25519_AESGCM_SHA256, not %q'' [AStr (cf_Protocol c)]))
          else
            (case parseNoise E (if cf_Transport c = ''whatsapp'' then c\<lparr>cf_Protocol := wa_proto\<rparr> else c) of
               (c', Inl e) \<Rightarrow> (c', Inl e)
             | (c', Inr nc) \<Rightarrow> (c', Inr (Some nc))))"

section \<open>Key validation\<close>

definition ValidateStaticKey :: "cat_env \<Rightarrow> string \<Rightarrow> byte \<Rightarrow> unit res" where
  "ValidateStaticKey E b64 dh =
     (if b64 = [] then Inl (New ''empty key'')
      else attempt (wrap ''not valid base64: %w'' [] (b64_decode b64)) (\<lambda>raw.
        if dh = NOISE_DH_CURVE25519 then
          (if length raw \<noteq> 32 then Inl (Errorf ''curve25519 public key must be 32 bytes, got %d'' [AInt (int (length raw))]) else Inr ())
        else if dh = NOISE_DH_SECP256K1 then
          (if length raw \<noteq> 33
           then Inl (Errorf ''secp256k1 compressed public key must be 33 bytes, got %d'' [AInt (int (length raw))])
           else wrap ''not a valid secp256k1 point: %w'' [] (env_secp_parse E raw))
        else Inl (Errorf ''unsupported DH function %d'' [AInt (uint dh)])))"

definition ValidateStaticKeyForProtocol :: "cat_env \<Rightarrow> string \<Rightarrow> string \<Rightarrow> unit res" where
  "ValidateStaticKeyForProtocol E b64 protoName =
     (case parseProtocolName protoName of
        (r, Some e) \<Rightarrow> Inl (Wrapf ''can't determine DH function from protocol %q: %w'' [AStr protoName] e)
      | (r, None) \<Rightarrow> ValidateStaticKey E b64 (pp_dh r))"

end
