(* ===== verification/Config_Props.thy ===== *)
theory Config_Props
  imports Config
begin

text \<open>
  What the configuration promises: the flags that pass validation, the completeness of the Noise
  configurations that are built, what the secp256k1 path ignores, and that \<open>-validate\<close> predicts
  whether a key is accepted.
\<close>

section \<open>Lists in flags\<close>

lemma dropWhile_space: "dropWhile is_space s = [] \<or> \<not> is_space (hd (dropWhile is_space s))"
  by (induction s) auto

lemma TrimSpace_subset: "set (TrimSpace s) \<subseteq> set s"
  by (auto simp: TrimSpace_def dest!: set_dropWhileD)

text \<open>The entries of a comma-separated flag are not empty and have no comma.\<close>

lemma splitList_entries: "p \<in> set (splitList s) \<Longrightarrow> p \<noteq> [] \<and> CHR '','' \<notin> set p"
  using TrimSpace_subset split_on_pieces [of _ "CHR '',''" s]
  by (auto simp: splitList_def split: if_splits)

lemma splitList_commas: "splitList '','' = []"
  by (simp add: splitList_def TrimSpace_def)

section \<open>The flags\<close>

lemma build_statics_role: "build_statics E c cs name nc = Inr nc' \<Longrightarrow> cfg_initiator nc' = cfg_initiator nc"
  by (auto simp: build_statics_def split: if_splits)

lemma buildNoise_role: "buildNoise25519Config E c name i = Inr nc \<Longrightarrow> cfg_initiator nc = i"
  by (auto simp: buildNoise25519Config_def Let_def dest!: build_statics_role split: prod.splits option.splits if_splits)

lemma parseNoise_cases:
  assumes "parseNoise E c = (c', Inr nc)"
  obtains (secp) r where "parseProtocolName (cf_Protocol c) = (r, None)" "pp_dh r = NOISE_DH_SECP256K1"
      "parseNoise_secp E (set_protocol r c) = Inr nc"
      "c' = (if cf_Transport c = [] \<or> cf_Transport c = ''raw'' then (set_protocol r c)\<lparr>cf_Transport := ''bolt8''\<rparr> else set_protocol r c)"
  | (noise) r where "parseProtocolName (cf_Protocol c) = (r, None)" "pp_dh r \<noteq> NOISE_DH_SECP256K1"
      "buildNoise25519Config E (set_protocol r c) (cf_Protocol c) (\<not> cf_Listen c) = Inr nc" "c' = set_protocol r c"
proof (cases "parseProtocolName (cf_Protocol c)")
  case (Pair r e)
  have t: "cf_Transport (set_protocol r c) = cf_Transport c" "cf_Protocol (set_protocol r c) = cf_Protocol c"
    "cf_Listen (set_protocol r c) = cf_Listen c" by (simp_all add: set_protocol_def)
  from Pair assms have e: "e = None" by (cases e) (simp_all add: parseNoise_def)
  show ?thesis
  proof (cases "pp_dh r = NOISE_DH_SECP256K1")
    case True
    show ?thesis
    proof (cases "parseNoise_secp E (set_protocol r c)")
      case (Inl x)
      with Pair assms e True show ?thesis by (simp add: parseNoise_def)
    next
      case (Inr nc')
      have "parseNoise E c = (if cf_Transport c = [] \<or> cf_Transport c = ''raw'' then (set_protocol r c)\<lparr>cf_Transport := ''bolt8''\<rparr>
          else set_protocol r c, Inr nc')"
        unfolding parseNoise_def by (simp add: Pair e True Inr t Let_def)
      note same = pair_same [OF this assms]
      have nc: "nc' = nc" by (rule sum.inject(2) [THEN iffD1, OF same [THEN conjunct2]])
      note c = same [THEN conjunct1]
      show ?thesis by (rule secp [OF Pair [unfolded e] True Inr [unfolded nc] c])
    qed
  next
    case False
    have "parseNoise E c = (set_protocol r c, buildNoise25519Config E (set_protocol r c) (cf_Protocol c) (\<not> cf_Listen c))"
      unfolding parseNoise_def Pair e prod.case option.case Let_def t if_not_P [OF False] by (rule refl)
    note same = pair_same [OF this assms]
    show ?thesis by (rule noise [OF Pair [unfolded e] False same [THEN conjunct2] same [THEN conjunct1]])
  qed
qed

lemma secp_Inr:
  "parseNoise_secp E c = Inr nc \<longleftrightarrow>
     (\<exists>kp. loadSecp256k1Keypair E (cf_LStatic c) = Inr kp \<and>
       (if cf_Listen c then nc = zero_noise_config\<lparr>cfg_initiator := False, static_keypair := kp\<rparr>
        else cf_RStatic c \<noteq> [] \<and> (\<exists>rs. b64_decode (cf_RStatic c) = Inr rs \<and> length rs = 33 \<and>
          nc = zero_noise_config\<lparr>cfg_initiator := True, static_keypair := kp, peer_static := Some rs\<rparr>)))"
proof (cases "cf_Listen c")
  case True
  show ?thesis unfolding parseNoise_secp_def Let_def try_eq_Inr if_P [OF True] sum.inject
    by (simp only: True not_True_eq_False eq_commute [of nc])
next
  case False
  show ?thesis unfolding parseNoise_secp_def Let_def try_eq_Inr wrap_eq_Inr if_not_P [OF False] if_Inl_Inr sum.inject not_not
    by (simp only: False not_False_eq_True eq_commute [of nc])
qed

lemma parseNoise_secp_role: "parseNoise_secp E c = Inr nc \<Longrightarrow> cfg_initiator nc = (\<not> cf_Listen c)"
  unfolding secp_Inr by (cases "cf_Listen c") auto

lemma parseNoise_role:
  assumes "parseNoise E c = (c', Inr nc)"
  shows "cfg_initiator nc = (\<not> cf_Listen c) \<and> cf_Listen c' = cf_Listen c \<and> cf_Protocol c' = cf_Protocol c"
  using assms
proof (cases rule: parseNoise_cases)
  case (secp r)
  with parseNoise_secp_role [OF secp(3)] show ?thesis by (simp add: set_protocol_def)
next
  case (noise r)
  with buildNoise_role [OF noise(3)] show ?thesis by (simp add: set_protocol_def)
qed

lemma ParseConfig_Inr:
  assumes "ParseConfig E c = (c', Inr (Some nc))"
  shows "check_flags c = Inr ()" "parseNoise E (if cf_Transport c = ''whatsapp'' then c\<lparr>cf_Protocol := wa_proto\<rparr> else c) = (c', Inr nc)"
  using assms by (auto simp: ParseConfig_def split: if_splits prod.splits option.splits sum.splits)

text \<open>
  C37. The flags that pass validation are consistent: \<open>-k\<close> comes with \<open>-l\<close> and something to run,
  \<open>-proxy\<close> with \<open>-l\<close>, without \<open>-e\<close> and with a host and a port, the source port is a number from 0
  to 65535, \<open>-4\<close> and \<open>-6\<close> exclude each other, the timeout is not negative, UDP goes with the raw
  transport, the negotiation flags with NoiseSocket and the right role; the Noise configuration
  has the role of the flags, and the WhatsApp transport has its fixed protocol.
\<close>

theorem parse_config_consistent:
  assumes "ParseConfig E c = (c', Inr (Some nc))"
  shows "(cf_Daemon c \<longrightarrow> cf_Listen c \<and> (cf_Proxy c \<noteq> [] \<or> cf_ExecuteCmd c \<noteq> [])) \<and>
    (cf_Proxy c \<noteq> [] \<longrightarrow> cf_Listen c \<and> cf_ExecuteCmd c = [] \<and> (\<exists>h p. SplitHostPort (cf_Proxy c) = Inr (h, p))) \<and>
    (cf_SrcPort c \<noteq> [] \<longrightarrow> (\<exists>p. Atoi (cf_SrcPort c) = Inr p \<and> 0 \<le> p \<and> p \<le> 65535)) \<and>
    \<not> (cf_IPv4Only c \<and> cf_IPv6Only c) \<and> 0 \<le> cf_TimeoutSeconds c \<and>
    (cf_UDP c \<longrightarrow> cf_Transport c = [] \<or> cf_Transport c = ''raw'') \<and>
    (cf_NSFallback c \<noteq> [] \<longrightarrow> cf_Transport c = ''noisesocket'' \<and> \<not> cf_Listen c) \<and>
    (cf_NSSupport c \<noteq> [] \<longrightarrow> cf_Transport c = ''noisesocket'' \<and> cf_Listen c) \<and>
    (cf_NSPolicy c \<noteq> [] \<longrightarrow> cf_Transport c = ''noisesocket'' \<and> cf_Listen c \<and> cf_NSPolicy c \<in> {''reject'', ''retry'', ''switch''}) \<and>
    cfg_initiator nc = (\<not> cf_Listen c) \<and> cf_Listen c' = cf_Listen c \<and>
    (cf_Transport c = ''whatsapp'' \<longrightarrow> cf_Protocol c' = wa_proto)"
proof -
  let ?c = "if cf_Transport c = ''whatsapp'' then c\<lparr>cf_Protocol := wa_proto\<rparr> else c"
  note f = ParseConfig_Inr(1) [OF assms] and p = ParseConfig_Inr(2) [OF assms]
  from f have flags: "\<not> (cf_Daemon c \<and> \<not> cf_Listen c)" "\<not> (cf_Daemon c \<and> cf_Proxy c = [] \<and> cf_ExecuteCmd c = [])"
    "\<not> (cf_Proxy c \<noteq> [] \<and> \<not> cf_Listen c)" "\<not> (cf_Proxy c \<noteq> [] \<and> cf_ExecuteCmd c \<noteq> [])"
    "cf_Proxy c \<noteq> [] \<Longrightarrow> \<exists>h p. SplitHostPort (cf_Proxy c) = Inr (h, p)"
    "\<not> (cf_SrcPort c \<noteq> [] \<and> \<not> valid_port (cf_SrcPort c))" "\<not> (cf_IPv4Only c \<and> cf_IPv6Only c)" "\<not> cf_TimeoutSeconds c < 0"
    "\<not> (cf_UDP c \<and> cf_Transport c \<noteq> [] \<and> cf_Transport c \<noteq> ''raw'')" and n: "validateNegotiation c = Inr ()"
    by (simp_all add: check_flags_def split: if_splits)
  have neg: "(cf_NSFallback c \<noteq> [] \<longrightarrow> cf_Transport c = ''noisesocket'' \<and> \<not> cf_Listen c) \<and>
    (cf_NSSupport c \<noteq> [] \<longrightarrow> cf_Transport c = ''noisesocket'' \<and> cf_Listen c) \<and>
    (cf_NSPolicy c \<noteq> [] \<longrightarrow> cf_Transport c = ''noisesocket'' \<and> cf_Listen c \<and> cf_NSPolicy c \<in> {''reject'', ''retry'', ''switch''})"
    using n by (auto simp: validateNegotiation_def split: if_splits)
  have port: "cf_SrcPort c \<noteq> [] \<longrightarrow> (\<exists>p. Atoi (cf_SrcPort c) = Inr p \<and> 0 \<le> p \<and> p \<le> 65535)"
    using flags(6) by (auto simp: valid_port_def split: sum.splits)
  from parseNoise_role [OF p] have "cfg_initiator nc = (\<not> cf_Listen c)" "cf_Listen c' = cf_Listen c"
    "cf_Transport c = ''whatsapp'' \<longrightarrow> cf_Protocol c' = wa_proto" by (auto split: if_splits)
  with flags neg port show ?thesis by auto
qed

definition ex_key :: dh_key where
  "ex_key = \<lparr>dh_private = replicate 32 1, dh_public = replicate 32 2\<rparr>"

definition ex_env :: cat_env where
  "ex_env = \<lparr>env_pattern = (\<lambda>n. \<lparr>pat_name = n, pat_messages = 2\<rparr>), env_genkey = (\<lambda>_. Inr ex_key), env_windows = False,
     env_stat = (\<lambda>_. Inr 384), env_read = (\<lambda>_. Inr []), env_json = (\<lambda>_. Inr ex_key), env_marshal = (\<lambda>_. Inr []),
     env_secp_gen = Inr \<lparr>dh_private = replicate 32 1, dh_public = replicate 33 2\<rparr>, env_secp_parse = (\<lambda>_. Inr ())\<rparr>"

definition ex_daemon :: config where
  "ex_daemon = default_config\<lparr>cf_Listen := True, cf_Daemon := True, cf_Proxy := ''localhost:80''\<rparr>"

fun gives_noise :: "config \<times> noise_config option res \<Rightarrow> bool" where
  "gives_noise (c, Inr (Some nc)) = True"
| "gives_noise _ = False"

lemma gives_noiseE: "gives_noise r \<Longrightarrow> \<exists>c nc. r = (c, Inr (Some nc))"
  by (cases r rule: gives_noise.cases) auto

lemma ex_daemon_ok: "gives_noise (ParseConfig ex_env ex_daemon)"
  by code_simp

theorem parse_config_consistent_witness:
  "\<exists>c' nc. ParseConfig ex_env ex_daemon = (c', Inr (Some nc)) \<and> \<not> cfg_initiator nc \<and>
     (\<exists>h p. SplitHostPort ''localhost:80'' = Inr (h, p))"
proof -
  obtain c' nc where p: "ParseConfig ex_env ex_daemon = (c', Inr (Some nc))"
    using gives_noiseE [OF ex_daemon_ok] by blast
  have "cf_Proxy ex_daemon = ''localhost:80''" "cf_Listen ex_daemon" by (simp_all add: ex_daemon_def)
  with parse_config_consistent [OF p] p show ?thesis by auto
qed

section \<open>The Noise configuration is complete\<close>

text \<open>
  Which keys a pattern needs, read off the Noise specification: a side has a static key unless its
  letter is N, and knows the peer's static key beforehand when the peer's letter is K.
\<close>

definition needs_local :: "string \<Rightarrow> bool \<Rightarrow> bool" where
  "needs_local name initiator \<longleftrightarrow> name ! (if initiator then 0 else 1) \<noteq> CHR ''N''"

definition needs_remote :: "string \<Rightarrow> bool \<Rightarrow> bool" where
  "needs_remote name initiator \<longleftrightarrow> name ! (if initiator then 1 else 0) = CHR ''K''"

definition genkey_ok :: "cat_env \<Rightarrow> bool" where
  "genkey_ok E \<longleftrightarrow> (\<forall>cs k. env_genkey E cs = Inr k \<longrightarrow> length (dh_private k) = 32 \<and> length (dh_public k) = 32)"

lemma local_key_32:
  assumes "checkLocalKeypair E c cs = Inr k" "genkey_ok E"
  shows "length (dh_private k) = 32 \<and> length (dh_public k) = 32"
proof -
  obtain a b d where "cs = (a, b, d)" by (cases cs)
  with assms show ?thesis by (auto simp: checkLocalKeypair_def genkey_ok_def split: if_splits)
qed

lemma remote_key_Inr:
  "checkRemoteStatic c = Inr d \<longleftrightarrow> cf_RStatic c \<noteq> [] \<and> b64_decode (cf_RStatic c) = Inr d \<and> length d = 32"
  by (auto simp: checkRemoteStatic_def)

text \<open>One step of \<open>build_statics\<close>: an optional field.\<close>

lemma opt_field_Inr:
  "(if b then attempt m (\<lambda>k. Inr (f k)) else Inr nc) = Inr z \<longleftrightarrow>
     (if b then \<exists>k. m = Inr k \<and> z = f k else z = nc)"
  by auto

lemma build_statics_complete:
  assumes "build_statics E c cs name nc = Inr nc'" "genkey_ok E" "name \<in> fst ` set PatternStrByte"
  shows "cipher_suite nc' = cipher_suite nc \<and> cfg_pattern nc' = cfg_pattern nc \<and> cfg_initiator nc' = cfg_initiator nc \<and>
    preshared_key nc' = preshared_key nc \<and> psk_placement nc' = psk_placement nc \<and>
    (needs_local name (cfg_initiator nc) \<longrightarrow> length (dh_private (static_keypair nc')) = 32 \<and> length (dh_public (static_keypair nc')) = 32) \<and>
    (needs_remote name (cfg_initiator nc) \<longrightarrow>
      (\<exists>d. peer_static nc' = Some d \<and> length d = 32 \<and> b64_decode (cf_RStatic c) = Inr d))"
proof -
  have l: "needs_local name True \<longleftrightarrow> name ! 0 \<in> set ''XIK''" "needs_local name False \<longleftrightarrow> name ! 1 \<in> set ''XK''"
    using assms(3) by (auto simp: needs_local_def PatternStrByte_def)
  have k: "checkLocalKeypair E c cs = Inr k \<Longrightarrow> length (dh_private k) = 32 \<and> length (dh_public k) = 32" for k
    by (rule local_key_32 [OF _ assms(2)])
  show ?thesis
  proof (cases "cfg_initiator nc")
    case True
    with assms(1) obtain nc1 where "if name ! 0 \<in> set ''XIK'' then \<exists>k. checkLocalKeypair E c cs = Inr k \<and> nc1 = nc\<lparr>static_keypair := k\<rparr> else nc1 = nc"
      "if name ! 1 = CHR ''K'' then \<exists>r. checkRemoteStatic c = Inr r \<and> nc' = nc1\<lparr>peer_static := Some r\<rparr> else nc' = nc1"
      unfolding build_statics_def if_P [OF True] try_eq_Inr opt_field_Inr by blast
    with True l(1) k show ?thesis
      by (auto simp: needs_remote_def remote_key_Inr split: if_splits)
  next
    case False
    with assms(1) obtain nc1 where "if name ! 0 = CHR ''K'' then \<exists>r. checkRemoteStatic c = Inr r \<and> nc1 = nc\<lparr>peer_static := Some r\<rparr> else nc1 = nc"
      "if name ! 1 \<in> set ''XK'' then \<exists>k. checkLocalKeypair E c cs = Inr k \<and> nc' = nc1\<lparr>static_keypair := k\<rparr> else nc' = nc1"
      unfolding build_statics_def if_not_P [OF False] try_eq_Inr opt_field_Inr by blast
    with False l(2) k show ?thesis
      by (auto simp: needs_remote_def remote_key_Inr split: if_splits)
  qed
qed

definition suite_of :: "parsed_protocol \<Rightarrow> string option \<times> string option \<times> string option" where
  "suite_of r = (map_of DHByteObj (pp_dh r), map_of CipherByteObj (pp_cipher r), map_of HashByteObj (pp_hash r))"

lemma buildNoise_Inr:
  assumes "buildNoise25519Config E c name i = Inr nc"
  obtains r psk pl where "parseProtocolName name = (r, None)" "pp_dh r \<noteq> NOISE_DH_SECP256K1"
    "build_psk c name (pp_psk r) = Inr (psk, pl)"
    "let pat = (case map_of PatternByteObj (pp_pattern r) of None \<Rightarrow> cfg_pattern zero_noise_config | Some n \<Rightarrow> env_pattern E n)
     in build_statics E c (suite_of r) (pat_name pat) (zero_noise_config\<lparr>cipher_suite := suite_of r, cfg_pattern := pat,
          cfg_initiator := i, preshared_key := psk, psk_placement := pl\<rparr>) = Inr nc"
proof (cases "parseProtocolName name")
  case (Pair r e)
  with assms have e: "e = None" by (cases e) (simp_all add: buildNoise25519Config_def)
  from assms have d: "pp_dh r \<noteq> NOISE_DH_SECP256K1"
    unfolding buildNoise25519Config_def Pair e prod.case option.case by (rule contrapos_pn) simp
  from assms obtain x where x: "build_psk c name (pp_psk r) = Inr x"
    "let pat = (case map_of PatternByteObj (pp_pattern r) of None \<Rightarrow> cfg_pattern zero_noise_config | Some n \<Rightarrow> env_pattern E n)
     in build_statics E c (suite_of r) (pat_name pat) (zero_noise_config\<lparr>cipher_suite := suite_of r, cfg_pattern := pat,
          cfg_initiator := i, preshared_key := fst x, psk_placement := snd x\<rparr>) = Inr nc"
    unfolding buildNoise25519Config_def Pair e prod.case option.case if_not_P [OF d] Let_def suite_of_def [symmetric]
      try_eq_Inr case_prod_beta if_Inl_Inr fst_conv snd_conv option.case by blast
  show ?thesis by (rule that [OF Pair [unfolded e] d _ x(2)]) (simp add: x(1))
qed

lemma build_statics_peer:
  assumes "build_statics E c cs name nc = Inr nc'" "peer_static nc = None"
  shows "cfg_prologue nc' = cfg_prologue nc \<and> (peer_static nc' = None \<or> (\<exists>d. peer_static nc' = Some d \<and> length d = 32))"
proof (cases "cfg_initiator nc")
  case True
  with assms(1) obtain nc1 where "if name ! 0 \<in> set ''XIK'' then \<exists>k. checkLocalKeypair E c cs = Inr k \<and> nc1 = nc\<lparr>static_keypair := k\<rparr> else nc1 = nc"
    "if name ! 1 = CHR ''K'' then \<exists>r. checkRemoteStatic c = Inr r \<and> nc' = nc1\<lparr>peer_static := Some r\<rparr> else nc' = nc1"
    unfolding build_statics_def if_P [OF True] try_eq_Inr opt_field_Inr by blast
  then have "peer_static nc1 = None" "cfg_prologue nc1 = cfg_prologue nc" using assms(2) by (auto split: if_splits)
  with \<open>if name ! 1 = CHR ''K'' then _ else _\<close> show ?thesis by (auto simp: remote_key_Inr split: if_splits)
next
  case False
  with assms(1) obtain nc1 where 1: "if name ! 0 = CHR ''K'' then \<exists>r. checkRemoteStatic c = Inr r \<and> nc1 = nc\<lparr>peer_static := Some r\<rparr> else nc1 = nc"
    "if name ! 1 \<in> set ''XK'' then \<exists>k. checkLocalKeypair E c cs = Inr k \<and> nc' = nc1\<lparr>static_keypair := k\<rparr> else nc' = nc1"
    unfolding build_statics_def if_not_P [OF False] try_eq_Inr opt_field_Inr by blast
  from 1(2) have "peer_static nc' = peer_static nc1" "cfg_prologue nc' = cfg_prologue nc1" by (auto split: if_splits)
  with 1(1) assms(2) show ?thesis by (auto simp: remote_key_Inr split: if_splits)
qed

text \<open>What the handshake of the library transports relies on.\<close>

lemma buildNoise_peer:
  assumes "buildNoise25519Config E c name i = Inr nc"
  shows "cfg_prologue nc = [] \<and> (peer_static nc = None \<or> (\<exists>d. peer_static nc = Some d \<and> length d = 32))"
  using assms
proof (rule buildNoise_Inr)
  fix r psk pl
  assume "let pat = (case map_of PatternByteObj (pp_pattern r) of None \<Rightarrow> cfg_pattern zero_noise_config | Some n \<Rightarrow> env_pattern E n)
     in build_statics E c (suite_of r) (pat_name pat) (zero_noise_config\<lparr>cipher_suite := suite_of r, cfg_pattern := pat,
          cfg_initiator := i, preshared_key := psk, psk_placement := pl\<rparr>) = Inr nc"
  from build_statics_peer [OF this [unfolded Let_def]] show ?thesis by (simp add: zero_noise_config_def)
qed

lemma tables_agree:
  "map_of PatternStrByte p = Some b \<Longrightarrow> map_of PatternByteObj b = Some p"
  "map_of DHStrByte d = Some b \<Longrightarrow> b \<noteq> NOISE_DH_SECP256K1 \<Longrightarrow> map_of DHByteObj b = Some d"
  "map_of CipherStrByte ci = Some b \<Longrightarrow> map_of CipherByteObj b = Some ci"
  "map_of HashStrByte h = Some b \<Longrightarrow> map_of HashByteObj b = Some h"
  by ((drule map_of_SomeD, auto simp: PatternStrByte_def PatternByteObj_def DHStrByte_def DHByteObj_def CipherStrByte_def
    CipherByteObj_def HashStrByte_def HashByteObj_def NOISE_DH_SECP256K1_def NOISE_DH_CURVE25519_def)[1])+

lemma build_psk_Inr:
  "build_psk c name pl = Inr (psk, at) \<longleftrightarrow>
     (if cf_PSK c = [] then pl = noPSK \<and> psk = [] \<and> at = 0
      else pl \<noteq> noPSK \<and> b64_decode (cf_PSK c) = Inr psk \<and> length psk = 32 \<and> at = pl)"
  by (auto simp: build_psk_def split: sum.splits)

lemma psk_digit_set: "k \<in> psk_digits \<Longrightarrow> k \<noteq> [] \<Longrightarrow> digits_val k \<noteq> noPSK"
  by (auto simp: psk_digits_def noPSK_def digits_val_def digit_val_def)

text \<open>
  C36. A Noise configuration that is built for a protocol name is complete: the name has the
  documented form and is not a secp256k1 one, the library objects are the ones named, the role is
  the requested one, a 32-byte pre-shared key is set, at the placement of the name, exactly when
  the name has a psk modifier, the 32-byte local key pair is there when the pattern gives this side a static key
  and the 32-byte remote key from \<open>-rstatic\<close> when the pattern has it known beforehand.
\<close>

theorem built_config_complete:
  assumes "buildNoise25519Config E c name i = Inr nc" "patterns_ok E" "genkey_ok E"
  shows "\<exists>p k d ci h. name = format_name p k d ci h \<and> d = ''25519'' \<and> cipher_suite nc = (Some d, Some ci, Some h) \<and>
    cfg_pattern nc = env_pattern E p \<and> pat_name (cfg_pattern nc) = p \<and> cfg_initiator nc = i \<and>
    (if k = [] then preshared_key nc = [] else length (preshared_key nc) = 32 \<and> psk_placement nc = digits_val k) \<and>
    (needs_local p i \<longrightarrow> length (dh_private (static_keypair nc)) = 32 \<and> length (dh_public (static_keypair nc)) = 32) \<and>
    (needs_remote p i \<longrightarrow> (\<exists>rs. peer_static nc = Some rs \<and> length rs = 32 \<and> b64_decode (cf_RStatic c) = Inr rs))"
  using assms(1)
proof (rule buildNoise_Inr)
  fix r psk pl
  assume r: "parseProtocolName name = (r, None)" and ns: "pp_dh r \<noteq> NOISE_DH_SECP256K1"
    and psk: "build_psk c name (pp_psk r) = Inr (psk, pl)"
    and st: "let pat = (case map_of PatternByteObj (pp_pattern r) of None \<Rightarrow> cfg_pattern zero_noise_config | Some n \<Rightarrow> env_pattern E n)
     in build_statics E c (suite_of r) (pat_name pat) (zero_noise_config\<lparr>cipher_suite := suite_of r, cfg_pattern := pat,
          cfg_initiator := i, preshared_key := psk, psk_placement := pl\<rparr>) = Inr nc"
  from parsed_names [OF r] obtain p k d ci h where n: "name = format_name p k d ci h" "k \<in> psk_digits"
    "map_of PatternStrByte p = Some (pp_pattern r)" "map_of DHStrByte d = Some (pp_dh r)"
    "map_of CipherStrByte ci = Some (pp_cipher r)" "map_of HashStrByte h = Some (pp_hash r)"
    "pp_psk r = (if k = [] then noPSK else digits_val k)" by blast
  have d: "d = ''25519''" using n(4) ns by (auto simp: DHStrByte_def split: if_splits)
  have p: "p \<in> fst ` set PatternStrByte" using map_of_SomeD [OF n(3)] by force
  then have pat: "pat_name (env_pattern E p) = p" using assms(2) by (auto simp: patterns_ok_def)
  have suite: "suite_of r = (Some d, Some ci, Some h)"
    using tables_agree(2) [OF n(4) ns] tables_agree(3) [OF n(5)] tables_agree(4) [OF n(6)] by (simp add: suite_of_def)
  from build_statics_complete [OF st [unfolded tables_agree(1) [OF n(3)] option.case Let_def pat] assms(3) p]
  have f: "cipher_suite nc = suite_of r" "cfg_pattern nc = env_pattern E p" "cfg_initiator nc = i" "preshared_key nc = psk"
    "psk_placement nc = pl"
    "needs_local p i \<longrightarrow> length (dh_private (static_keypair nc)) = 32 \<and> length (dh_public (static_keypair nc)) = 32"
    "needs_remote p i \<longrightarrow> (\<exists>rs. peer_static nc = Some rs \<and> length rs = 32 \<and> b64_decode (cf_RStatic c) = Inr rs)" by simp_all
  have k: "if k = [] then preshared_key nc = [] else length (preshared_key nc) = 32 \<and> psk_placement nc = digits_val k"
  proof (cases "k = []")
    case True
    with psk n(7) show ?thesis unfolding f(4) build_psk_Inr by (simp split: if_splits)
  next
    case False
    with psk n(7) psk_digit_set [OF n(2) False] show ?thesis unfolding f(4,5) build_psk_Inr by (simp split: if_splits)
  qed
  have "cipher_suite nc = (Some d, Some ci, Some h)" "pat_name (cfg_pattern nc) = p"
    unfolding f(1,2) by (rule suite, rule pat)
  with n(1) d f(2,3,6,7) k show ?thesis
    by - (rule exI [of _ p], rule exI [of _ k], rule exI [of _ d], rule exI [of _ ci], rule exI [of _ h],
      intro conjI)
qed

text \<open>A configuration with all three kinds of key: the responder of \<open>KXpsk2\<close>.\<close>

definition ex_kx :: config where
  "ex_kx = default_config\<lparr>cf_Listen := True, cf_PSK := b64_encode (replicate 32 5), cf_RStatic := b64_encode (replicate 32 7)\<rparr>"

definition ex_kx_name :: string where
  "ex_kx_name = ''Noise_KXpsk2_25519_ChaChaPoly_BLAKE2s''"

lemma ex_env_ok: "patterns_ok ex_env" "genkey_ok ex_env"
  by (simp_all add: patterns_ok_def genkey_ok_def ex_env_def ex_key_def)

lemma ex_kx_name_parsed:
  "parseProtocolName ex_kx_name = (\<lparr>pp_pattern = 12, pp_dh = 1, pp_cipher = 1, pp_hash = 1, pp_psk = 2\<rparr>, None)"
  by code_simp

lemma ex_kx_ok: "\<exists>nc. buildNoise25519Config ex_env ex_kx ex_kx_name False = Inr nc \<and> pat_name (cfg_pattern nc) = ''KX''"
proof -
  have "build_psk ex_kx ex_kx_name 2 = Inr (replicate 32 5, 2)"
    by (simp add: build_psk_Inr ex_kx_def default_config_def noPSK_def)
  moreover have "checkRemoteStatic ex_kx = Inr (replicate 32 7)"
    by (simp add: remote_key_Inr ex_kx_def default_config_def)
  moreover have "checkLocalKeypair ex_env ex_kx cs = Inr ex_key" for cs
    by (simp add: checkLocalKeypair_def ex_kx_def default_config_def ex_env_def)
  ultimately show ?thesis
    by (simp add: buildNoise25519Config_def ex_kx_name_parsed build_statics_def Let_def PatternByteObj_def ex_env_def
        NOISE_DH_SECP256K1_def)
qed

theorem built_config_complete_witness:
  "\<exists>nc rs. buildNoise25519Config ex_env ex_kx ex_kx_name False = Inr nc \<and> pat_name (cfg_pattern nc) = ''KX'' \<and>
     length (dh_private (static_keypair nc)) = 32 \<and> peer_static nc = Some rs \<and> length rs = 32"
proof -
  obtain nc where b: "buildNoise25519Config ex_env ex_kx ex_kx_name False = Inr nc" "pat_name (cfg_pattern nc) = ''KX''"
    using ex_kx_ok by blast
  have "needs_local ''KX'' False" "needs_remote ''KX'' False" by code_simp+
  with built_config_complete [OF b(1) ex_env_ok] b show ?thesis by auto
qed

section \<open>Validation of a key predicts its acceptance\<close>

text \<open>
  \<open>-validate\<close> predicts what a connection attempt does with the key: for a Curve25519 protocol
  a key is reported valid exactly when it is accepted as \<open>-rstatic\<close> and its 32 bytes are the key used; for
  a secp256k1 protocol exactly when the initiator's configuration with it can be built from a good
  local key and its point parses, which is the check of the BOLT-8 dialer.
\<close>

theorem validate_predicts:
  assumes "parseProtocolName proto = (r, None)" "loadSecp256k1Keypair E (cf_LStatic c) = Inr kp" "\<not> cf_Listen c"
  shows "ValidateStaticKeyForProtocol E key proto = Inr () \<longleftrightarrow>
    (if pp_dh r = NOISE_DH_CURVE25519 then \<exists>d. checkRemoteStatic (c\<lparr>cf_RStatic := key\<rparr>) = Inr d \<and> length d = 32
     else \<exists>nc d. parseNoise_secp E (c\<lparr>cf_RStatic := key\<rparr>) = Inr nc \<and> peer_static nc = Some d \<and> env_secp_parse E d = Inr ())"
proof -
  from parsed_names [OF assms(1)] obtain d where "map_of DHStrByte d = Some (pp_dh r)" by blast
  then have dh: "pp_dh r = NOISE_DH_CURVE25519 \<or> pp_dh r = NOISE_DH_SECP256K1" by (auto simp: DHStrByte_def split: if_splits)
  have v: "ValidateStaticKeyForProtocol E key proto = ValidateStaticKey E key (pp_dh r)"
    by (simp add: ValidateStaticKeyForProtocol_def assms(1))
  show ?thesis
  proof (cases "pp_dh r = NOISE_DH_CURVE25519")
    case True
    then show ?thesis unfolding v by (auto simp: ValidateStaticKey_def remote_key_Inr)
  next
    case False
    with dh have s: "pp_dh r = NOISE_DH_SECP256K1" by blast
    have "ValidateStaticKey E key (pp_dh r) = Inr () \<longleftrightarrow>
        key \<noteq> [] \<and> (\<exists>d. b64_decode key = Inr d \<and> length d = 33 \<and> env_secp_parse E d = Inr ())"
      using False by (auto simp: ValidateStaticKey_def s)
    also have "\<dots> \<longleftrightarrow> (\<exists>nc d. parseNoise_secp E (c\<lparr>cf_RStatic := key\<rparr>) = Inr nc \<and> peer_static nc = Some d \<and> env_secp_parse E d = Inr ())"
      unfolding secp_Inr using assms(2,3) by auto
    finally show ?thesis unfolding v using False by simp
  qed
qed

theorem validate_predicts_witness:
  "ValidateStaticKeyForProtocol ex_env (b64_encode (replicate 33 2)) ''Noise_XK_secp256k1_ChaChaPoly_SHA256'' = Inr ()"
proof -
  let ?n = "''Noise_XK_secp256k1_ChaChaPoly_SHA256''" and ?k = "b64_encode (replicate 33 2)" and ?c = "default_config"
  have p: "parseProtocolName ?n = (\<lparr>pp_pattern = 8, pp_dh = 3, pp_cipher = 1, pp_hash = 3, pp_psk = -1\<rparr>, None)" by code_simp
  have l: "loadSecp256k1Keypair ex_env (cf_LStatic ?c) = Inr \<lparr>dh_private = replicate 32 1, dh_public = replicate 33 2\<rparr>"
    by (simp add: loadSecp256k1Keypair_def default_config_def ex_env_def)
  have n: "\<not> cf_Listen ?c" by (simp add: default_config_def)
  have "\<exists>nc d. parseNoise_secp ex_env (?c\<lparr>cf_RStatic := ?k\<rparr>) = Inr nc \<and> peer_static nc = Some d \<and> env_secp_parse ex_env d = Inr ()"
    unfolding secp_Inr using l n by (simp add: ex_env_def)
  then show ?thesis using validate_predicts [OF p l n, of ?k] by (simp add: NOISE_DH_CURVE25519_def)
qed

section \<open>What the secp256k1 path ignores\<close>

text \<open>
  For a secp256k1 protocol name the pattern, the cipher and the hash of the name, a psk
  modifier and \<open>-psk\<close> have no effect on the Noise configuration: two flag sets that differ only
  there give the same result, so a pre-shared key is silently unused.
\<close>

theorem secp_options_ignored:
  assumes "parseProtocolName p = (r, None)" "pp_dh r = NOISE_DH_SECP256K1"
    and "parseProtocolName p' = (r', None)" "pp_dh r' = NOISE_DH_SECP256K1"
  shows "snd (parseNoise E (c\<lparr>cf_Protocol := p, cf_PSK := k\<rparr>)) = snd (parseNoise E (c\<lparr>cf_Protocol := p', cf_PSK := k'\<rparr>))"
proof -
  have *: "snd (parseNoise E (c\<lparr>cf_Protocol := p, cf_PSK := k\<rparr>)) = parseNoise_secp E c"
    if "parseProtocolName p = (r, None)" "pp_dh r = NOISE_DH_SECP256K1" for p r k
  proof -
    let ?c = "set_protocol r (c\<lparr>cf_Protocol := p, cf_PSK := k\<rparr>)"
    have "cf_Listen ?c = cf_Listen c" "cf_LStatic ?c = cf_LStatic c" "cf_RStatic ?c = cf_RStatic c"
      by (simp_all add: set_protocol_def)
    then have "parseNoise_secp E ?c = parseNoise_secp E c" by (simp only: parseNoise_secp_def)
    then show ?thesis using that by (simp add: parseNoise_def Let_def split: sum.split)
  qed
  from * [OF assms(1,2), of k] * [OF assms(3,4), of k'] show ?thesis by simp
qed

theorem secp_options_ignored_witness:
  "snd (parseNoise ex_env (default_config\<lparr>cf_Protocol := ''Noise_XK_secp256k1_ChaChaPoly_SHA256'', cf_PSK := []\<rparr>)) =
   snd (parseNoise ex_env (default_config\<lparr>cf_Protocol := ''Noise_NNpsk0_secp256k1_AESGCM_BLAKE2b'', cf_PSK := ''no key''\<rparr>))"
proof -
  have "parseProtocolName ''Noise_XK_secp256k1_ChaChaPoly_SHA256'' =
      (\<lparr>pp_pattern = 8, pp_dh = 3, pp_cipher = 1, pp_hash = 3, pp_psk = -1\<rparr>, None)"
    "parseProtocolName ''Noise_NNpsk0_secp256k1_AESGCM_BLAKE2b'' =
      (\<lparr>pp_pattern = 4, pp_dh = 3, pp_cipher = 2, pp_hash = 2, pp_psk = 0\<rparr>, None)" by code_simp+
  from secp_options_ignored [OF this(1) _ this(2)] show ?thesis by (simp add: NOISE_DH_SECP256K1_def)
qed

end
