(* ===== verification/Transports.thy ===== *)
theory Transports
  imports Raw NS_Guarantees Bolt8_Handshake WA_Conn Config_Props
begin

text \<open>
  The five transports as \<open>Dial\<close>, \<open>Listen\<close> and \<open>Accept\<close> (raw.go, the end of raw/conn.go,
  noisesocket.go, bolt8.go, whatsapp.go, udp.go), their dispatch, and the aliases of
  pkg/noisenet. The operating system's sockets, KCP, the websocket
  library and the clock are the parameters in \<open>net_env\<close>; a run is modelled for a fixed outcome of
  them. A deadline is not state here: its expiry is a failing read or write of the connection's script.
\<close>

section \<open>Environment\<close>

record ('hs, 'cs, 'sk, 'pk, 'fe) libs =
  lib_noise :: "('hs, 'cs) noise_lib"
  lib_crypto :: crypto
  lib_curve :: "('sk, 'pk) curve"
  lib_dh :: wa_dh
  lib_xed :: "'fe xed_lib"
  lib_now :: "64 word \<times> nat"

text \<open>
  \<open>dial_tcp\<close> takes the dialer's timeout (nanoseconds) and local address, the network and the
  address. \<open>timer_first\<close> tells whether the timer of \<open>DialWithDialer\<close> beats the handshake. The two
  scripts are the entropy of the connection that is made.
\<close>

record 'sk net_env =
  resolve_tcp :: "string \<Rightarrow> string \<Rightarrow> string res"
  dial_tcp :: "int \<Rightarrow> string option \<Rightarrow> string \<Rightarrow> string \<Rightarrow> net res"
  listen_tcp :: "string \<Rightarrow> string \<Rightarrow> unit res"
  dial_kcp :: "string \<Rightarrow> net res"
  listen_kcp :: "string \<Rightarrow> unit res"
  dial_ws :: "int \<Rightarrow> string \<Rightarrow> net res"
  timer_first :: bool
  rand_sk :: "(string + 'sk) list"
  rand_x :: "(string + bytes) list"

datatype ('hs, 'cs, 'sk, 'pk) any_conn =
    RawConn "('hs, 'cs) raw_conn"
  | NsConn "('hs, 'cs) ns_conn"
  | BoltConn "('sk, 'pk) bolt_conn"
  | WaConn wa_conn

record options =
  o_prologue :: bytes
  o_negotiation_data :: bytes
  o_dial_timeout :: int
  o_negotiation :: "negotiation option"

text \<open>
  What opening a connection gives: on the left the error and, where a connection had been opened before the
  failure, that connection as it was given up. \<open>abandon\<close> is the close in the error paths.
\<close>

type_synonym 'a dialed = "(net option \<times> err) + 'a"

fun no_conn :: "'a res \<Rightarrow> 'a dialed" where
  "no_conn (Inl e) = Inl (None, e)"
| "no_conn (Inr x) = Inr x"

lemma no_conn_eq_Inr [simp]: "no_conn m = Inr x \<longleftrightarrow> m = Inr x"
  by (cases m) auto

lemma no_conn_eq_Inl [simp]: "no_conn m = Inl y \<longleftrightarrow> (\<exists>e. m = Inl e \<and> y = (None, e))"
  by (cases m) auto

definition abandon :: "net \<Rightarrow> err \<Rightarrow> 'a dialed" where
  "abandon n e = Inl (Some (fst (conn_close n)), e)"

definition nil_config :: err where
  "nil_config = Panic ''nil pointer dereference: noise.Config''"

text \<open>A local address as the dialers resolve it: \<open>blank\<close> are the strings that mean none.\<close>

definition local_addr :: "'sk net_env \<Rightarrow> string set \<Rightarrow> string \<Rightarrow> string \<Rightarrow> string option res" where
  "local_addr V blank nw addr =
     (if addr \<in> blank then Inr None else attempt (resolve_tcp V nw addr) (\<lambda>a. Inr (Some a)))"

section \<open>raw\<close>

definition raw_applyPrologue :: "noise_config option \<Rightarrow> bytes \<Rightarrow> noise_config option res" where
  "raw_applyPrologue cfg prologue =
     (case cfg of None \<Rightarrow> Inl nil_config
      | Some c \<Rightarrow> Inr (Some (if cfg_prologue c = [] then c\<lparr>cfg_prologue := prologue\<rparr> else c)))"

text \<open>
  \<open>DialWithDialer\<close>: \<open>timeout\<close> and \<open>deadline\<close> are the dialer's, a deadline as the time until it. The
  handshake runs in a goroutine when there is a timeout, and the first of timer and handshake decides.
\<close>

definition dialer_timeout :: "int \<Rightarrow> int option \<Rightarrow> int" where
  "dialer_timeout timeout deadline =
     (case deadline of None \<Rightarrow> timeout | Some d \<Rightarrow> if timeout = 0 \<or> d < timeout then d else timeout)"

definition timeoutError :: err where
  "timeoutError = New ''noise: DialWithDialer timed out''"

definition DialWithDialer :: "('hs, 'cs) noise_lib \<Rightarrow> 'sk net_env \<Rightarrow> int \<Rightarrow> int option \<Rightarrow> string \<Rightarrow> string \<Rightarrow> string \<Rightarrow>
    noise_config option \<Rightarrow> ('hs, 'cs) raw_conn dialed" where
  "DialWithDialer L V tmo deadline nw addr localAddr config =
     (let timeout = dialer_timeout tmo deadline in
      case config of
        None \<Rightarrow> Inl (None, New ''empty noise.Config'')
      | Some cfg \<Rightarrow>
          attempt (no_conn (wrap ''invalid source address %q: %w'' [AStr localAddr] (local_addr V {[], '':0''} nw localAddr))) (\<lambda>la.
          attempt (no_conn (dial_tcp V tmo la nw addr)) (\<lambda>rawConn.
          case raw_Handshake L (raw_Client rawConn cfg) of
            (c, e) \<Rightarrow>
              (case (if timeout \<noteq> 0 \<and> timer_first V then Some timeoutError else e) of
                 Some e' \<Rightarrow> abandon (r_net c) e' | None \<Rightarrow> Inr c))))"

definition raw_dial_plain :: "('hs, 'cs) noise_lib \<Rightarrow> 'sk net_env \<Rightarrow> string \<Rightarrow> string \<Rightarrow> string \<Rightarrow>
    noise_config option \<Rightarrow> ('hs, 'cs) raw_conn dialed" where
  "raw_dial_plain L V nw addr localAddr config = DialWithDialer L V 0 None nw addr localAddr config"

definition raw_Dial :: "('hs, 'cs, 'sk, 'pk, 'fe) libs \<Rightarrow> 'sk net_env \<Rightarrow> string \<Rightarrow> string \<Rightarrow> string \<Rightarrow> noise_config option \<Rightarrow>
    options \<Rightarrow> ('hs, 'cs, 'sk, 'pk) any_conn dialed" where
  "raw_Dial B V nw addr localAddr cfg opts =
     attempt (no_conn (if o_prologue opts \<noteq> [] then raw_applyPrologue cfg (o_prologue opts) else Inr cfg)) (\<lambda>cfg'.
     attempt (DialWithDialer (lib_noise B) V (o_dial_timeout opts) None nw addr localAddr cfg') (\<lambda>c.
     Inr (RawConn c)))"

text \<open>Every listener of the transports, with what its \<open>Accept\<close> uses.\<close>

datatype 'sk any_listener =
    RawListener noise_config
  | NsListener "noise_config option" options
  | BoltListener 'sk
  | WaListener "noise_config option" int
  | UdpListener "noise_config option"

definition raw_listen_plain :: "'sk net_env \<Rightarrow> string \<Rightarrow> string \<Rightarrow> noise_config option \<Rightarrow> 'sk any_listener res" where
  "raw_listen_plain V nw laddr config =
     (case config of
        None \<Rightarrow> Inl (New ''noise: no Config set'')
      | Some cfg \<Rightarrow> attempt (listen_tcp V nw laddr) (\<lambda>_. Inr (RawListener cfg)))"

definition raw_Listen :: "'sk net_env \<Rightarrow> string \<Rightarrow> string \<Rightarrow> noise_config option \<Rightarrow> options \<Rightarrow> 'sk any_listener res" where
  "raw_Listen V nw laddr cfg opts =
     attempt (if o_prologue opts \<noteq> [] then raw_applyPrologue cfg (o_prologue opts) else Inr cfg) (\<lambda>cfg'.
     raw_listen_plain V nw laddr cfg')"

section \<open>noisesocket\<close>

definition ns_Dial :: "'sk net_env \<Rightarrow> string \<Rightarrow> string \<Rightarrow> string \<Rightarrow> noise_config option \<Rightarrow>
    options \<Rightarrow> ('hs, 'cs, 'sk, 'pk) any_conn dialed" where
  "ns_Dial V nw addr localAddr cfg opts =
     (if cfg = None \<and> (case o_negotiation opts of None \<Rightarrow> True | Some _ \<Rightarrow> False)
      then Inl (None, New ''noisesocket: nil noise.Config'')
      else
        attempt (no_conn (local_addr V {[]} nw localAddr)) (\<lambda>la.
        attempt (no_conn (dial_tcp V (o_dial_timeout opts) la nw addr)) (\<lambda>raw.
        Inr (NsConn (case o_negotiation opts of
               Some neg \<Rightarrow> ClientWithNegotiation raw neg (o_prologue opts)
             | None \<Rightarrow> ns_Client raw (the cfg) (o_negotiation_data opts) (o_prologue opts))))))"

definition ns_Listen :: "'sk net_env \<Rightarrow> string \<Rightarrow> string \<Rightarrow> noise_config option \<Rightarrow> options \<Rightarrow> 'sk any_listener res" where
  "ns_Listen V nw laddr cfg opts =
     (if cfg = None \<and> (case o_negotiation opts of None \<Rightarrow> True | Some _ \<Rightarrow> False)
      then Inl (New ''noisesocket: nil noise.Config'')
      else attempt (listen_tcp V nw laddr) (\<lambda>_. Inr (NsListener cfg opts)))"

definition ns_Accept :: "noise_config option \<Rightarrow> options \<Rightarrow> net res \<Rightarrow> ('hs, 'cs) ns_conn dialed" where
  "ns_Accept cfg opts accepted =
     attempt (no_conn accepted) (\<lambda>raw.
       Inr (case o_negotiation opts of
              Some neg \<Rightarrow> ServerWithNegotiation raw neg (o_prologue opts)
            | None \<Rightarrow> ns_Server raw (the cfg) (o_negotiation_data opts) (o_prologue opts)))"

section \<open>bolt8\<close>

definition localPrivFromCfg :: "('sk, 'pk) curve \<Rightarrow> noise_config option \<Rightarrow> 'sk res" where
  "localPrivFromCfg E cfg =
     (case cfg of
        None \<Rightarrow> Inl (New ''bolt8: nil noise.Config'')
      | Some c \<Rightarrow>
          if length (dh_private (static_keypair c)) \<noteq> 32 then Inl (New ''bolt8: missing 32-byte local static key (use -lstatic)'')
          else Inr (priv_of_bytes E (dh_private (static_keypair c))))"

definition bolt_Dial :: "('hs, 'cs, 'sk, 'pk, 'fe) libs \<Rightarrow> 'sk net_env \<Rightarrow> string \<Rightarrow> string \<Rightarrow> string \<Rightarrow> noise_config option \<Rightarrow>
    options \<Rightarrow> ('hs, 'cs, 'sk, 'pk) any_conn dialed" where
  "bolt_Dial B V nw addr localAddr cfg opts =
     attempt (no_conn (localPrivFromCfg (lib_curve B) cfg)) (\<lambda>priv.
     case peer_static (the cfg) of
       None \<Rightarrow> Inl (None, New ''bolt8: initiator requires -rstatic (33-byte compressed secp256k1 pubkey)'')
     | Some ps \<Rightarrow>
         (case parse_pub (lib_curve B) ps of
            Inl _ \<Rightarrow> Inl (None, New ''bolt8: invalid -rstatic; want 33-byte compressed secp256k1'')
          | Inr remote \<Rightarrow>
              attempt (no_conn (local_addr V {[]} nw localAddr)) (\<lambda>la.
              attempt (no_conn (dial_tcp V (o_dial_timeout opts) la nw addr)) (\<lambda>raw.
              Inr (BoltConn (bolt_Client raw priv (Some remote) (rand_sk V)))))))"

definition bolt_Listen :: "('hs, 'cs, 'sk, 'pk, 'fe) libs \<Rightarrow> 'sk net_env \<Rightarrow> string \<Rightarrow> string \<Rightarrow> noise_config option \<Rightarrow>
    'sk any_listener res" where
  "bolt_Listen B V nw laddr cfg =
     attempt (localPrivFromCfg (lib_curve B) cfg) (\<lambda>priv.
     attempt (listen_tcp V nw laddr) (\<lambda>_. Inr (BoltListener priv)))"

definition bolt_Accept :: "'sk \<Rightarrow> (string + 'sk) list \<Rightarrow> net res \<Rightarrow> ('sk, 'pk) bolt_conn dialed" where
  "bolt_Accept priv r accepted = attempt (no_conn accepted) (\<lambda>raw. Inr (bolt_Server raw priv r))"

section \<open>whatsapp\<close>

definition defaultHandshakeTimeout :: int where
  "defaultHandshakeTimeout = 20 * 1000000000"

definition endpointURL :: string where
  "endpointURL = ''wss://web.whatsapp.com/ws/chat''"

definition keypairFromConfig :: "wa_dh \<Rightarrow> noise_config option \<Rightarrow> (string + bytes) list \<Rightarrow> (string + bytes) list \<times> dhKeypair res" where
  "keypairFromConfig D cfg r =
     (case cfg of
        Some c \<Rightarrow>
          if length (dh_private (static_keypair c)) = 32 \<and> length (dh_public (static_keypair c)) = 32
          then (r, Inr \<lparr>kp_priv = dh_private (static_keypair c), kp_pub = dh_public (static_keypair c)\<rparr>)
          else generateKeypair D r
      | None \<Rightarrow> generateKeypair D r)"

text \<open>The end of both dial functions: the handshake over the new connection.\<close>

definition wa_client_over :: "('hs, 'cs, 'sk, 'pk, 'fe) libs \<Rightarrow> dhKeypair \<Rightarrow> bytes option \<Rightarrow> (string + bytes) list \<Rightarrow> net \<Rightarrow> wa_conn dialed" where
  "wa_client_over B clientStatic rootKey r nc =
     (case clientHandshake (lib_crypto B) (lib_dh B) (lib_xed B) (lib_now B) clientStatic [] rootKey (newClientFramedConn nc, r) of
        ((f, r'), Inl e) \<Rightarrow> abandon (f_net f) e
      | ((f, r'), Inr hs) \<Rightarrow> Inr (newConn f hs r'))"

definition dialBackend :: "('hs, 'cs, 'sk, 'pk, 'fe) libs \<Rightarrow> 'sk net_env \<Rightarrow> bytes \<Rightarrow> dhKeypair \<Rightarrow> (string + bytes) list \<Rightarrow> int \<Rightarrow> wa_conn dialed" where
  "dialBackend B V rootKey clientStatic r timeout =
     attempt (no_conn (dial_ws V timeout endpointURL)) (wa_client_over B clientStatic (Some rootKey) r)"

definition dialPeer :: "('hs, 'cs, 'sk, 'pk, 'fe) libs \<Rightarrow> 'sk net_env \<Rightarrow> string \<Rightarrow> string \<Rightarrow> string \<Rightarrow> dhKeypair \<Rightarrow>
    (string + bytes) list \<Rightarrow> int \<Rightarrow> wa_conn dialed" where
  "dialPeer B V nw addr localAddr clientStatic r timeout =
     (let la = (case local_addr V {[], '':0''} nw localAddr of Inl _ \<Rightarrow> None | Inr a \<Rightarrow> a) in
      attempt (no_conn (dial_tcp V timeout la nw addr)) (wa_client_over B clientStatic None r))"

definition wa_timeout :: "int \<Rightarrow> int" where
  "wa_timeout t = (if t \<le> 0 then defaultHandshakeTimeout else t)"

definition wa_Dial :: "('hs, 'cs, 'sk, 'pk, 'fe) libs \<Rightarrow> 'sk net_env \<Rightarrow> bytes \<Rightarrow> string \<Rightarrow> string \<Rightarrow> string \<Rightarrow> noise_config option \<Rightarrow>
    options \<Rightarrow> ('hs, 'cs, 'sk, 'pk) any_conn dialed" where
  "wa_Dial B V rootKey nw addr localAddr cfg opts =
     (case keypairFromConfig (lib_dh B) cfg (rand_x V) of
        (r, Inl e) \<Rightarrow> Inl (None, e)
      | (r, Inr clientStatic) \<Rightarrow>
          let timeout = wa_timeout (o_dial_timeout opts);
              host = (case SplitHostPort addr of Inl _ \<Rightarrow> [] | Inr (h, _) \<Rightarrow> h)
          in attempt (if host = [] then dialBackend B V rootKey clientStatic r timeout
                      else dialPeer B V nw addr localAddr clientStatic r timeout) (\<lambda>c. Inr (WaConn c)))"

definition wa_Listen :: "'sk net_env \<Rightarrow> string \<Rightarrow> string \<Rightarrow> noise_config option \<Rightarrow> options \<Rightarrow> 'sk any_listener res" where
  "wa_Listen V nw laddr cfg opts =
     attempt (listen_tcp V nw laddr) (\<lambda>_. Inr (WaListener cfg (o_dial_timeout opts)))"

definition wa_Accept :: "wa_dh \<Rightarrow> (string + bytes) list \<Rightarrow> noise_config option \<Rightarrow> net res \<Rightarrow> wa_conn dialed" where
  "wa_Accept D r cfg accepted =
     attempt (no_conn accepted) (\<lambda>raw.
       case keypairFromConfig D cfg r of
         (r', Inl e) \<Rightarrow> abandon raw e
       | (r', Inr serverStatic) \<Rightarrow>
           Inr (newDeferredServerConn \<lparr>f_net = raw, f_writeHeader = False, f_readHeader = True\<rparr> serverStatic r'))"

section \<open>udp\<close>

definition udp_applyPrologue :: "noise_config option \<Rightarrow> bytes \<Rightarrow> noise_config option" where
  "udp_applyPrologue cfg prologue =
     map_option (\<lambda>c. if prologue \<noteq> [] \<and> cfg_prologue c = [] then c\<lparr>cfg_prologue := prologue\<rparr> else c) cfg"

definition udp_Dial :: "('hs, 'cs, 'sk, 'pk, 'fe) libs \<Rightarrow> 'sk net_env \<Rightarrow> string \<Rightarrow> noise_config option \<Rightarrow> options \<Rightarrow>
    ('hs, 'cs, 'sk, 'pk) any_conn dialed" where
  "udp_Dial B V addr cfg opts =
     attempt (no_conn (dial_kcp V addr)) (\<lambda>session.
       case udp_applyPrologue cfg (o_prologue opts) of
         None \<Rightarrow> Inl (Some session, nil_config)
       | Some cfg' \<Rightarrow>
           (case raw_Handshake (lib_noise B) (raw_Client session cfg') of
              (c, Some e) \<Rightarrow> abandon (r_net c) e
            | (c, None) \<Rightarrow> Inr (RawConn c)))"

definition udp_Listen :: "'sk net_env \<Rightarrow> string \<Rightarrow> noise_config option \<Rightarrow> options \<Rightarrow> 'sk any_listener res" where
  "udp_Listen V laddr cfg opts =
     attempt (listen_kcp V laddr) (\<lambda>_. Inr (UdpListener (udp_applyPrologue cfg (o_prologue opts))))"

text \<open>
  With a nil configuration the accepted connection panics when its handshake starts; the model
  reports that here.
\<close>

definition udp_Accept :: "noise_config option \<Rightarrow> net res \<Rightarrow> ('hs, 'cs) raw_conn dialed" where
  "udp_Accept cfg accepted =
     attempt (no_conn accepted) (\<lambda>session. case cfg of None \<Rightarrow> Inl (Some session, nil_config) | Some c \<Rightarrow> Inr (raw_Server session c))"

section \<open>The interface\<close>

text \<open>\<open>Accept\<close> of any listener; the argument is what the operating system's accept returned.\<close>

definition any_Accept :: "('hs, 'cs, 'sk, 'pk, 'fe) libs \<Rightarrow> 'sk net_env \<Rightarrow> 'sk any_listener \<Rightarrow> net res \<Rightarrow>
    ('hs, 'cs, 'sk, 'pk) any_conn dialed" where
  "any_Accept B V l accepted =
     (case l of
        RawListener cfg \<Rightarrow> attempt (no_conn accepted) (\<lambda>raw. Inr (RawConn (raw_Server raw cfg)))
      | NsListener cfg opts \<Rightarrow> attempt (ns_Accept cfg opts accepted) (\<lambda>c. Inr (NsConn c))
      | BoltListener priv \<Rightarrow> attempt (bolt_Accept priv (rand_sk V) accepted) (\<lambda>c. Inr (BoltConn c))
      | WaListener cfg t \<Rightarrow> attempt (wa_Accept (lib_dh B) (rand_x V) cfg accepted) (\<lambda>c. Inr (WaConn c))
      | UdpListener cfg \<Rightarrow> attempt (udp_Accept cfg accepted) (\<lambda>c. Inr (RawConn c)))"

datatype transport = RawTransport | NsTransport | BoltTransport | WaTransport bytes | UdpTransport

definition wa_New :: transport where
  "wa_New = WaTransport WACertPubKey"

fun transport_name :: "transport \<Rightarrow> string" where
  "transport_name RawTransport = ''raw''"
| "transport_name NsTransport = ''noisesocket''"
| "transport_name BoltTransport = ''bolt8''"
| "transport_name (WaTransport _) = ''whatsapp''"
| "transport_name UdpTransport = ''udp''"

fun any_Dial :: "('hs, 'cs, 'sk, 'pk, 'fe) libs \<Rightarrow> 'sk net_env \<Rightarrow> transport \<Rightarrow> string \<Rightarrow> string \<Rightarrow> string \<Rightarrow> noise_config option \<Rightarrow>
    options \<Rightarrow> ('hs, 'cs, 'sk, 'pk) any_conn dialed" where
  "any_Dial B V RawTransport nw addr la cfg opts = raw_Dial B V nw addr la cfg opts"
| "any_Dial B V NsTransport nw addr la cfg opts = ns_Dial V nw addr la cfg opts"
| "any_Dial B V BoltTransport nw addr la cfg opts = bolt_Dial B V nw addr la cfg opts"
| "any_Dial B V (WaTransport rootKey) nw addr la cfg opts = wa_Dial B V rootKey nw addr la cfg opts"
| "any_Dial B V UdpTransport nw addr la cfg opts = udp_Dial B V addr cfg opts"

fun any_Listen :: "('hs, 'cs, 'sk, 'pk, 'fe) libs \<Rightarrow> 'sk net_env \<Rightarrow> transport \<Rightarrow> string \<Rightarrow> string \<Rightarrow> noise_config option \<Rightarrow>
    options \<Rightarrow> 'sk any_listener res" where
  "any_Listen B V RawTransport nw laddr cfg opts = raw_Listen V nw laddr cfg opts"
| "any_Listen B V NsTransport nw laddr cfg opts = ns_Listen V nw laddr cfg opts"
| "any_Listen B V BoltTransport nw laddr cfg opts = bolt_Listen B V nw laddr cfg"
| "any_Listen B V (WaTransport rootKey) nw laddr cfg opts = wa_Listen V nw laddr cfg opts"
| "any_Listen B V UdpTransport nw laddr cfg opts = udp_Listen V laddr cfg opts"

lemma abandon_Inl: "abandon n e = Inl (Some n', e') \<longleftrightarrow> e' = e \<and> n' = fst (conn_close n)"
  by (auto simp: abandon_def)

lemma attempt_no_conn_Inl [simp]:
  "attempt (no_conn m) f = Inl (Some n, e) \<longleftrightarrow> (\<exists>x. m = Inr x \<and> f x = Inl (Some n, e))"
  by (cases m) auto

lemma closed_after: "net_closed (fst (conn_close n))"
  by (simp add: conn_close_def)

lemma wa_client_over_closed: "wa_client_over B k rk r m = Inl (Some n, e) \<Longrightarrow> net_closed n"
  by (auto simp: wa_client_over_def abandon_Inl closed_after split: prod.splits sum.splits)

lemma lift_conn_Inl: "attempt m (\<lambda>c. Inr (f c)) = Inl y \<longleftrightarrow> m = Inl y"
  by (cases m) auto

text \<open>A dial that fails after it had opened a connection has closed it.\<close>

lemma failed_dial_closed:
  assumes "any_Dial B V tp nw addr la (Some nc) opts = Inl (Some n, e)"
  shows "net_closed n"
proof (cases tp)
  case RawTransport
  with assms show ?thesis
    by (auto simp: raw_Dial_def DialWithDialer_def lift_conn_Inl raw_applyPrologue_def abandon_Inl closed_after Let_def split_beta
        split: option.splits if_splits)
next
  case NsTransport
  with assms show ?thesis by (auto simp: ns_Dial_def split: if_splits)
next
  case BoltTransport
  with assms show ?thesis
    by (cases "peer_static nc"; cases "parse_pub (lib_curve B) (the (peer_static nc))") (auto simp: bolt_Dial_def)
next
  case (WaTransport k)
  with assms show ?thesis
    by (auto simp: wa_Dial_def dialBackend_def dialPeer_def lift_conn_Inl Let_def wa_client_over_closed
        split: prod.splits sum.splits if_splits)
next
  case UdpTransport
  with assms show ?thesis
    by (auto simp: udp_Dial_def udp_applyPrologue_def abandon_Inl closed_after split_beta split: option.splits)
qed

section \<open>noisenet\<close>

text \<open>The compatibility package pkg/noisenet re-exports the raw transport.\<close>

definition noisenet_Server :: "net \<Rightarrow> noise_config \<Rightarrow> ('hs, 'cs) raw_conn" where
  "noisenet_Server n cfg = raw_Server n cfg"

definition noisenet_Client :: "net \<Rightarrow> noise_config \<Rightarrow> ('hs, 'cs) raw_conn" where
  "noisenet_Client n cfg = raw_Client n cfg"

definition noisenet_Listen :: "'sk net_env \<Rightarrow> string \<Rightarrow> string \<Rightarrow> noise_config option \<Rightarrow> 'sk any_listener res" where
  "noisenet_Listen V nw laddr config = raw_listen_plain V nw laddr config"

definition noisenet_Dial :: "('hs, 'cs) noise_lib \<Rightarrow> 'sk net_env \<Rightarrow> string \<Rightarrow> string \<Rightarrow> string \<Rightarrow>
    noise_config option \<Rightarrow> ('hs, 'cs) raw_conn dialed" where
  "noisenet_Dial L V nw addr localAddr config = raw_dial_plain L V nw addr localAddr config"

definition noisenet_DialWithDialer :: "('hs, 'cs) noise_lib \<Rightarrow> 'sk net_env \<Rightarrow> int \<Rightarrow> int option \<Rightarrow> string \<Rightarrow> string \<Rightarrow> string \<Rightarrow>
    noise_config option \<Rightarrow> ('hs, 'cs) raw_conn dialed" where
  "noisenet_DialWithDialer L V timeout deadline nw addr localAddr config = DialWithDialer L V timeout deadline nw addr localAddr config"

end
