(* ===== verification/Netcat.thy ===== *)
theory Netcat
  imports Transports
begin

text \<open>
  pkg/noisecat/net.go and timeout.go: the choice of the transport, the options handed to it, the
  idle timeout, and the client and the server from the configuration to the parameters of the
  runner. Fatal errors (a message on standard error and exit status 1) are the left values.
\<close>

section \<open>The transport of a configuration\<close>

definition resolveTransport :: "config \<Rightarrow> transport res" where
  "resolveTransport c =
     (if cf_UDP c then
        (if cf_DHFunc c = NOISE_DH_SECP256K1 then Inl (New ''-u (UDP) cannot speak secp256k1'') else Inr UdpTransport)
      else
        let name = (if cf_Transport c = [] then ''raw'' else cf_Transport c) in
        if name = ''raw'' then
          (if cf_DHFunc c = NOISE_DH_SECP256K1 then Inl (New ''transport=raw cannot speak secp256k1; use -transport bolt8'')
           else Inr RawTransport)
        else if name = ''noisesocket'' then
          (if cf_DHFunc c = NOISE_DH_SECP256K1
           then Inl (New ''transport=noisesocket cannot speak secp256k1; use -transport bolt8'') else Inr NsTransport)
        else if name = ''bolt8'' then
          (if cf_DHFunc c \<noteq> NOISE_DH_SECP256K1
           then Inl (New ''transport=bolt8 only supports secp256k1; the chosen DH function is not'') else Inr BoltTransport)
        else if name = ''whatsapp'' then
          (if cf_DHFunc c \<noteq> NOISE_DH_CURVE25519
           then Inl (New ''transport=whatsapp requires Curve25519 (Noise_XX_25519_AESGCM_SHA256)'') else Inr wa_New)
        else Inl (Errorf ''unknown transport %q (expected: raw, noisesocket, bolt8, whatsapp)'' [AStr name]))"

text \<open>\<open>time.Duration(n) * time.Second\<close>: a product of signed 64-bit integers.\<close>

definition seconds :: "int \<Rightarrow> int" where
  "seconds n = sint (word_of_int n * 1000000000 :: 64 word)"

definition transportOptions :: "cat_env \<Rightarrow> config \<Rightarrow> options" where
  "transportOptions E c =
     (let prologue = (if cf_Prologue c = [] \<and> cf_Transport c = ''bolt8'' then ''lightning'' else cf_Prologue c);
          neg = \<lparr>build_config = buildNoiseConfigForProtocol E c,
                 app_data = (if cf_Listen c then [] else str_bytes (cf_NegotiationData c)),
                 proposed = (if cf_Listen c then [] else cf_Protocol c),
                 fallback = (if cf_Listen c then [] else splitList (cf_NSFallback c)),
                 supported = (if cf_Listen c then splitList (cf_NSSupport c) else []),
                 policy = (if cf_Listen c then cf_NSPolicy c else [])\<rparr>
      in \<lparr>o_prologue = str_bytes prologue, o_negotiation_data = str_bytes (cf_NegotiationData c),
          o_dial_timeout = seconds (cf_TimeoutSeconds c),
          o_negotiation = (if cf_Transport c = ''noisesocket'' \<and> negotiationEnabled c then Some neg else None)\<rparr>)"

section \<open>The idle timeout\<close>

text \<open>
  \<open>idleConn\<close> with the deadline it last set, in nanoseconds. Its \<open>Read\<close> and \<open>Write\<close> take those of the
  wrapped connection and the time at which the call returns.
\<close>

record 'c idle_conn =
  i_conn :: 'c
  i_idle :: int
  i_deadline :: int

datatype 'c net_conn = Plain 'c | Idle "'c idle_conn"

definition bump :: "int \<Rightarrow> 'c idle_conn \<Rightarrow> 'c idle_conn" where
  "bump now c = c\<lparr>i_deadline := now + i_idle c\<rparr>"

definition newIdleConn :: "int \<Rightarrow> 'c \<Rightarrow> int \<Rightarrow> 'c net_conn" where
  "newIdleConn now c idle =
     (if idle \<le> 0 then Plain c else Idle (bump now \<lparr>i_conn = c, i_idle = idle, i_deadline = 0\<rparr>))"

definition idle_Read :: "('c \<Rightarrow> 'c \<times> bytes res) \<Rightarrow> int \<Rightarrow> 'c idle_conn \<Rightarrow> 'c idle_conn \<times> bytes res" where
  "idle_Read rd now c =
     (case rd (i_conn c) of
        (c', r) \<Rightarrow>
          let ic = c\<lparr>i_conn := c'\<rparr> in
          ((case r of Inr b \<Rightarrow> if b \<noteq> [] then bump now ic else ic | Inl _ \<Rightarrow> ic), r))"

definition idle_Write :: "('c \<Rightarrow> 'c \<times> nat \<times> err option) \<Rightarrow> int \<Rightarrow> 'c idle_conn \<Rightarrow> 'c idle_conn \<times> nat \<times> err option" where
  "idle_Write wr now c =
     (case wr (i_conn c) of
        (c', n, e) \<Rightarrow>
          let ic = c\<lparr>i_conn := c'\<rparr> in
          (if 0 < n then bump now ic else ic, n, e))"

text \<open>\<open>CloseWrite\<close>: \<open>None\<close> for a connection that has none.\<close>

definition idle_CloseWrite :: "('c \<Rightarrow> 'c \<times> io_err option) option \<Rightarrow> 'c idle_conn \<Rightarrow> 'c idle_conn \<times> io_err option" where
  "idle_CloseWrite cw c =
     (case cw of None \<Rightarrow> (c, None) | Some f \<Rightarrow> (let (c', e) = f (i_conn c) in (c\<lparr>i_conn := c'\<rparr>, e)))"

section \<open>Client and server\<close>

record 'c params =
  p_conn :: "'c net_conn"
  p_proxy :: string
  p_exec :: string

definition newParams :: "int \<Rightarrow> config \<Rightarrow> 'c \<Rightarrow> 'c params" where
  "newParams now c conn =
     \<lparr>p_conn = newIdleConn now conn (seconds (cf_TimeoutSeconds c)), p_proxy = cf_Proxy c, p_exec = cf_ExecuteCmd c\<rparr>"

text \<open>\<open>StartClient\<close> up to the call of the runner.\<close>

definition StartClient :: "('hs, 'cs, 'sk, 'pk, 'fe) libs \<Rightarrow> 'sk net_env \<Rightarrow> cat_env \<Rightarrow> int \<Rightarrow> config \<Rightarrow> noise_config \<Rightarrow>
    ('hs, 'cs, 'sk, 'pk) any_conn params res" where
  "StartClient B V E now c nc =
     attempt (wrap ''%s'' [] (resolveTransport c)) (\<lambda>tp.
     let netAddress = JoinHostPort (cf_DstHost c) (cf_DstPort c);
         localAddress = JoinHostPort (cf_SrcHost c) (cf_SrcPort c)
     in case any_Dial B V tp (network c) netAddress localAddress (Some nc) (transportOptions E c) of
          Inl (_, e) \<Rightarrow> Inl (Wrapf ''can't connect to %s/tcp: %s'' [AStr netAddress] e)
        | Inr conn \<Rightarrow> Inr (newParams now c conn))"

text \<open>
  \<open>StartServer\<close>: \<open>accepts\<close> is what the listener's accept returns, with the time and the entropy of each
  connection; an exhausted list is a listener nothing more happens to. The result are the
  connections handed to the runner.
\<close>

fun accept_loop :: "('hs, 'cs, 'sk, 'pk, 'fe) libs \<Rightarrow> config \<Rightarrow> 'sk any_listener \<Rightarrow> ('sk net_env \<times> int \<times> net res) list \<Rightarrow>
    ('hs, 'cs, 'sk, 'pk) any_conn params list" where
  "accept_loop B c l [] = []"
| "accept_loop B c l ((V, now, a) # as) =
     (case any_Accept B V l a of
        Inl e \<Rightarrow> []
      | Inr conn \<Rightarrow> newParams now c conn # accept_loop B c l as)"

definition StartServer :: "('hs, 'cs, 'sk, 'pk, 'fe) libs \<Rightarrow> 'sk net_env \<Rightarrow> cat_env \<Rightarrow> config \<Rightarrow> noise_config \<Rightarrow>
    ('sk net_env \<times> int \<times> net res) list \<Rightarrow> ('hs, 'cs, 'sk, 'pk) any_conn params list res" where
  "StartServer B V E c nc accepts =
     attempt (wrap ''%s'' [] (resolveTransport c)) (\<lambda>tp.
     attempt (wrap ''can't listen: %s'' [] (any_Listen B V tp (network c) (JoinHostPort (cf_SrcHost c) (cf_SrcPort c))
                (Some nc) (transportOptions E c))) (\<lambda>l.
     if \<not> cf_Daemon c then
       (case accepts of
          [] \<Rightarrow> Inr []
        | (W, now, a) # _ \<Rightarrow>
            (case any_Accept B W l a of
               Inl (_, e) \<Rightarrow> Inl (Wrapf ''can't accept connection: %s'' [] e)
             | Inr conn \<Rightarrow> Inr [newParams now c conn]))
     else Inr (accept_loop B c l accepts)))"

end
