(* ===== verification/Any_Conn.thy ===== *)
theory Any_Conn
  imports Transports
begin

text \<open>
  The connections of the five transports behind Go's \<open>net.Conn\<close> interface: its dynamic dispatch and
  the stream contract of all of them at once.
\<close>

section \<open>Dispatch\<close>

fun any_Write :: "('hs, 'cs, 'sk, 'pk, 'fe) libs \<Rightarrow> bytes \<Rightarrow> ('hs, 'cs, 'sk, 'pk) any_conn \<Rightarrow>
    ('hs, 'cs, 'sk, 'pk) any_conn \<times> nat \<times> err option" where
  "any_Write B p (RawConn c) = apfst RawConn (raw_Write (lib_noise B) p c)"
| "any_Write B p (NsConn c) = apfst NsConn (ns_Write (lib_noise B) p c)"
| "any_Write B p (BoltConn c) = apfst BoltConn (bolt_Write (lib_crypto B) (lib_curve B) p c)"
| "any_Write B p (WaConn c) = apfst WaConn (wa_Write (lib_crypto B) (lib_dh B) p c)"

fun any_Read :: "('hs, 'cs, 'sk, 'pk, 'fe) libs \<Rightarrow> nat \<Rightarrow> ('hs, 'cs, 'sk, 'pk) any_conn \<Rightarrow>
    ('hs, 'cs, 'sk, 'pk) any_conn \<times> bytes res" where
  "any_Read B k (RawConn c) = apfst RawConn (raw_Read (lib_noise B) k c)"
| "any_Read B k (NsConn c) = apfst NsConn (ns_Read (lib_noise B) k c)"
| "any_Read B k (BoltConn c) = apfst BoltConn (bolt_Read (lib_crypto B) (lib_curve B) k c)"
| "any_Read B k (WaConn c) = apfst WaConn (wa_Read (lib_crypto B) (lib_dh B) k c)"

fun any_Close :: "('hs, 'cs, 'sk, 'pk) any_conn \<Rightarrow> ('hs, 'cs, 'sk, 'pk) any_conn \<times> io_err option" where
  "any_Close (RawConn c) = apfst RawConn (raw_Close c)"
| "any_Close (NsConn c) = apfst NsConn (ns_Close c)"
| "any_Close (BoltConn c) = apfst BoltConn (bolt_Close c)"
| "any_Close (WaConn c) = apfst WaConn (wa_Close c)"

fun any_CloseWrite :: "('hs, 'cs, 'sk, 'pk) any_conn \<Rightarrow> ('hs, 'cs, 'sk, 'pk) any_conn \<times> io_err option" where
  "any_CloseWrite (RawConn c) = apfst RawConn (raw_CloseWrite c)"
| "any_CloseWrite (NsConn c) = apfst NsConn (ns_CloseWrite c)"
| "any_CloseWrite (BoltConn c) = apfst BoltConn (bolt_CloseWrite c)"
| "any_CloseWrite (WaConn c) = apfst WaConn (wa_CloseWrite c)"

fun any_net :: "('hs, 'cs, 'sk, 'pk) any_conn \<Rightarrow> net" where
  "any_net (RawConn c) = r_net c"
| "any_net (NsConn c) = s_net c"
| "any_net (BoltConn c) = b_net c"
| "any_net (WaConn c) = wa_net c"

fun any_feed :: "read_event list \<Rightarrow> ('hs, 'cs, 'sk, 'pk) any_conn \<Rightarrow> ('hs, 'cs, 'sk, 'pk) any_conn" where
  "any_feed es (RawConn c) = RawConn (raw_feed es c)"
| "any_feed es (NsConn c) = NsConn (ns_feed es c)"
| "any_feed es (BoltConn c) = BoltConn (bolt_feed es c)"
| "any_feed es (WaConn c) = WaConn (wa_feed es c)"

section \<open>Streams\<close>

abbreviation raw_link :: "('hs, 'cs) noise_lib \<Rightarrow> ('cs \<Rightarrow> 'cs \<Rightarrow> bool) \<Rightarrow>
    ('hs, 'cs) raw_conn \<Rightarrow> ('hs, 'cs) raw_conn \<Rightarrow> bytes \<Rightarrow> bool" where
  "raw_link L R \<equiv> channel_link (raw_dec L) (raw_sync L R) raw_live (\<lambda>c. the (r_out c)) (\<lambda>c. the (r_in c)) r_buf r_net"

fun any_link :: "('hs, 'cs, 'sk, 'pk, 'fe) libs \<Rightarrow> ('cs \<Rightarrow> 'cs \<Rightarrow> bool) \<Rightarrow>
    ('hs, 'cs, 'sk, 'pk) any_conn \<Rightarrow> ('hs, 'cs, 'sk, 'pk) any_conn \<Rightarrow> bytes \<Rightarrow> bool" where
  "any_link B R (RawConn a) (RawConn b) q = raw_link (lib_noise B) R a b q"
| "any_link B R (NsConn a) (NsConn b) q = ns_link (lib_noise B) R a b q"
| "any_link B R (BoltConn a) (BoltConn b) q = bolt_link (lib_crypto B) a b q"
| "any_link B R (WaConn a) (WaConn b) q = wa_link (lib_crypto B) a b q"
| "any_link B R _ _ q = False"

fun any_peers_at :: "('hs, 'cs, 'sk, 'pk, 'fe) libs \<Rightarrow> ('cs \<Rightarrow> 'cs \<Rightarrow> bool) \<Rightarrow> bytes \<Rightarrow> bytes \<Rightarrow>
    ('hs, 'cs, 'sk, 'pk) any_conn \<Rightarrow> ('hs, 'cs, 'sk, 'pk) any_conn \<Rightarrow> bool" where
  "any_peers_at B R x y (RawConn a) (RawConn b) = raw_peers_at (lib_noise B) R x y a b"
| "any_peers_at B R x y (NsConn a) (NsConn b) = ns_peers_at (lib_noise B) R x y a b"
| "any_peers_at B R x y (BoltConn a) (BoltConn b) = bolt_peers_at (lib_crypto B) x y a b"
| "any_peers_at B R x y (WaConn a) (WaConn b) = wa_peers_at (lib_crypto B) x y a b"
| "any_peers_at B R x y _ _ = False"

abbreviation any_peers :: "('hs, 'cs, 'sk, 'pk, 'fe) libs \<Rightarrow> ('cs \<Rightarrow> 'cs \<Rightarrow> bool) \<Rightarrow>
    ('hs, 'cs, 'sk, 'pk) any_conn \<Rightarrow> ('hs, 'cs, 'sk, 'pk) any_conn \<Rightarrow> bool" where
  "any_peers B R \<equiv> any_peers_at B R [] []"

lemma any_peers_link:
  assumes "any_peers B R a b"
  shows "any_link B R a b []" "any_link B R b a []"
  using assms by (cases a; cases b; simp add: raw_peers_link ns_peers_link bolt_peers_link wa_peers_link)+

interpretation any: stream_conn "any_Write B" "any_Read B" any_net any_feed "any_link B R" for B R
proof (unfold_locales, goal_cases)
  case (1 a b q p a' n es)
  then show ?case
    by (cases a; cases b) (auto simp: apfst_def map_prod_def split: prod.splits
      intro: raw.wr_link nsc.wr_link bolt.wr_link wa.wr_link)
next
  case (2 b a q p a' n)
  then show ?case
    by (cases a; cases b) (auto simp: apfst_def map_prod_def split: prod.splits
      intro: raw.wr_other nsc.wr_other bolt.wr_other wa.wr_other)
next
  case (3 a b q k b' d)
  then show ?case
    by (cases a; cases b) (auto simp: apfst_def map_prod_def split: prod.splits
      dest: raw.rd_link nsc.rd_link bolt.rd_link wa.rd_link)
next
  case (4 b a q q' k b' d)
  then show ?case
    by (cases a; cases b) (auto simp: apfst_def map_prod_def split: prod.splits
      intro: raw.rd_other nsc.rd_other bolt.rd_other wa.rd_other)
next
  case (5 b a q es)
  then show ?case
    by (cases a; cases b) (auto intro: raw.feed_other nsc.feed_other bolt.feed_other wa.feed_other)
qed

section \<open>Connections whose handshake is deferred\<close>

text \<open>The handshake that the first Write or Read of a connection runs; it is done once.\<close>

fun any_Handshake :: "('hs, 'cs, 'sk, 'pk, 'fe) libs \<Rightarrow> ('hs, 'cs, 'sk, 'pk) any_conn \<Rightarrow>
    ('hs, 'cs, 'sk, 'pk) any_conn \<times> err option" where
  "any_Handshake B (RawConn c) = apfst RawConn (raw_Handshake (lib_noise B) c)"
| "any_Handshake B (NsConn c) = apfst NsConn (ns_Handshake (lib_noise B) c)"
| "any_Handshake B (BoltConn c) = apfst BoltConn (bolt_Handshake (lib_crypto B) (lib_curve B) c)"
| "any_Handshake B (WaConn c) = apfst WaConn (ensureHandshake (lib_crypto B) (lib_dh B) c)"

lemma apfst_conn_iff [simp]:
  "apfst RawConn r = (RawConn a, e) \<longleftrightarrow> r = (a, e)" "apfst NsConn s = (NsConn b, e) \<longleftrightarrow> s = (b, e)"
  "apfst BoltConn t = (BoltConn c, e) \<longleftrightarrow> t = (c, e)" "apfst WaConn u = (WaConn d, e) \<longleftrightarrow> u = (d, e)"
  by (cases r; cases s; cases t; cases u; simp)+

text \<open>
  The two ends of a connection as a dialer and a listener return them, \<open>a0\<close> and \<open>b0\<close>: their handshakes
  complete over what their scripts hold, as \<open>a\<close> and \<open>b\<close>, with \<open>x\<close> and \<open>y\<close> left to receive behind the
  handshake. An end whose handshake is already complete is its own \<open>a\<close>.
\<close>

definition any_ready :: "('hs, 'cs, 'sk, 'pk, 'fe) libs \<Rightarrow> ('cs \<Rightarrow> 'cs \<Rightarrow> bool) \<Rightarrow> bytes \<Rightarrow> bytes \<Rightarrow>
    ('hs, 'cs, 'sk, 'pk) any_conn \<Rightarrow> ('hs, 'cs, 'sk, 'pk) any_conn \<Rightarrow>
    ('hs, 'cs, 'sk, 'pk) any_conn \<Rightarrow> ('hs, 'cs, 'sk, 'pk) any_conn \<Rightarrow> bool" where
  "any_ready B R x y a0 b0 a b \<longleftrightarrow>
     any_Handshake B a0 = (a, None) \<and> any_Handshake B b0 = (b, None) \<and> any_peers_at B R x y a b \<and>
     prefix (concat (tx (any_net a0))) (concat (tx (any_net a))) \<and> prefix (concat (tx (any_net b0))) (concat (tx (any_net b)))"

text \<open>What \<open>b\<close> is still to receive after the handshake is the beginning of what the other end, \<open>a\<close> then and
  \<open>a'\<close> now, has sent since; \<open>carried_all\<close>: it is all of it.\<close>

definition carried :: "('hs, 'cs, 'sk, 'pk) any_conn \<Rightarrow> ('hs, 'cs, 'sk, 'pk) any_conn \<Rightarrow> bytes \<Rightarrow> bool" where
  "carried a a' y \<longleftrightarrow> prefix (concat (tx (any_net a)) @ y) (concat (tx (any_net a')))"

definition carried_all :: "('hs, 'cs, 'sk, 'pk) any_conn \<Rightarrow> ('hs, 'cs, 'sk, 'pk) any_conn \<Rightarrow> bytes \<Rightarrow> bool" where
  "carried_all a a' y \<longleftrightarrow> concat (tx (any_net a')) = concat (tx (any_net a)) @ y"

abbreviation any_calls :: "('hs, 'cs, 'sk, 'pk, 'fe) libs \<Rightarrow> call list \<Rightarrow> ('hs, 'cs, 'sk, 'pk) any_conn \<Rightarrow>
    ('hs, 'cs, 'sk, 'pk) any_conn \<times> (bool \<times> bool) \<times> bytes \<times> bytes" where
  "any_calls B cs \<equiv> run_calls (any_Write B) (any_Read B) cs True True"

lemma apfst_eq_pair: "apfst f r = (a, z) \<longleftrightarrow> (\<exists>c. r = (c, z) \<and> a = f c)"
  by (cases r) auto

lemma run_calls_image:
  assumes "\<And>p c. wr' p (f c) = apfst f (wr p c)" "\<And>k c. rd' k (f c) = apfst f (rd k c)"
  shows "run_calls wr' rd' cs wok rok (f c) = apfst f (run_calls wr rd cs wok rok c)"
proof (induction cs arbitrary: c wok rok)
  case (Cons x cs)
  show ?case
  proof (cases x)
    case (CallWrite p)
    obtain c1 n e where "wr p c = (c1, n, e)" by (metis surj_pair)
    with Cons.IH CallWrite assms(1) [of p c] show ?thesis
      by (cases wok) (simp_all add: apsnd_apfst_commute)
  next
    case (CallRead k)
    obtain c1 r where "rd k c = (c1, r)" by (metis surj_pair)
    with Cons.IH CallRead assms(2) [of k c] show ?thesis
      by (cases rok; cases r) (simp_all add: apsnd_apfst_commute)
  qed
qed simp

lemma any_calls_simps:
  "any_calls B cs (RawConn c) = apfst RawConn (run_calls (raw_Write (lib_noise B)) (raw_Read (lib_noise B)) cs True True c)"
  "any_calls B cs (NsConn d) = apfst NsConn (run_calls (ns_Write (lib_noise B)) (ns_Read (lib_noise B)) cs True True d)"
  "any_calls B cs (BoltConn e) = apfst BoltConn
     (run_calls (bolt_Write (lib_crypto B) (lib_curve B)) (bolt_Read (lib_crypto B) (lib_curve B)) cs True True e)"
  "any_calls B cs (WaConn g) = apfst WaConn
     (run_calls (wa_Write (lib_crypto B) (lib_dh B)) (wa_Read (lib_crypto B) (lib_dh B)) cs True True g)"
  by (rule run_calls_image; simp)+

text \<open>Calls on an end run its handshake first and then are calls on the end after it.\<close>

lemma raw_deferred:
  assumes "raw_Handshake L c0 = (c, None)" "r_complete c"
  shows "raw_Write L p c0 = raw_Write L p c \<or> (\<exists>e. raw_Write L p c0 = (c0, 0, Some e) \<and> raw_Write L p c = (c, 0, Some e))"
    "raw_Read L k c0 = raw_Read L k c"
proof -
  have "r_client c = r_client c0 \<and> r_config c = r_config c0"
    using assms(1) by (auto simp: raw_Handshake_def Let_def split: if_splits sum.splits prod.splits)
  moreover have "raw_Handshake L c = (c, None)" using assms(2) by (simp add: raw_Handshake_def)
  ultimately show "raw_Write L p c0 = raw_Write L p c \<or> (\<exists>e. raw_Write L p c0 = (c0, 0, Some e) \<and> raw_Write L p c = (c, 0, Some e))"
    "raw_Read L k c0 = raw_Read L k c"
    using assms(1) by (simp_all add: raw_Write_def raw_Read_def)
qed

lemma ns_deferred:
  assumes "ns_Handshake L c0 = (c, None)" "s_done c"
  shows "ns_Write L p c0 = ns_Write L p c" "ns_Read L k c0 = ns_Read L k c"
proof -
  have "ns_Handshake L c = (c, None)" using assms(2) by (simp add: ns_Handshake_def)
  with assms(1) show "ns_Write L p c0 = ns_Write L p c" "ns_Read L k c0 = ns_Read L k c"
    by (simp_all add: ns_Write_def ns_Read_def)
qed

lemma bolt_deferred:
  assumes "bolt_Handshake C E c0 = (c, None)" "b_done c"
  shows "bolt_Write C E p c0 = bolt_Write C E p c" "bolt_Read C E k c0 = bolt_Read C E k c"
proof -
  have "bolt_Handshake C E c = (c, None)" using assms(2) by (simp add: bolt_Handshake_def)
  with assms(1) show "bolt_Write C E p c0 = bolt_Write C E p c" "bolt_Read C E k c0 = bolt_Read C E k c"
    by (simp_all add: bolt_Write_def bolt_Read_def)
qed

lemma wa_deferred:
  assumes "ensureHandshake C D c0 = (c, None)" "wa_live c"
  shows "wa_Write C D p c0 = wa_Write C D p c"
    "wa_Read C D k c0 = wa_Read C D k c \<or> k = 0 \<and> wa_Read C D k c0 = (c0, Inr []) \<and> wa_Read C D k c = (c, Inr [])"
  using assms(1) wa_live_ready [OF assms(2)] by (simp_all add: wa_Write_def wa_Read_def)

fun any_live :: "('hs, 'cs, 'sk, 'pk) any_conn \<Rightarrow> bool" where
  "any_live (RawConn c) = r_complete c"
| "any_live (NsConn c) = s_done c"
| "any_live (BoltConn c) = b_done c"
| "any_live (WaConn c) = wa_live c"

lemma any_calls_first:
  assumes "any_Handshake B c0 = (c, None)" "any_live c"
  shows "(any_Write B p c0 = any_Write B p c \<or> (\<exists>e. any_Write B p c0 = (c0, 0, Some e) \<and> any_Write B p c = (c, 0, Some e))) \<and>
    (any_Read B k c0 = any_Read B k c \<or> any_Read B k c0 = (c0, Inr []) \<and> any_Read B k c = (c, Inr []))"
proof (cases c0)
  case (RawConn d)
  with assms obtain d' where "c = RawConn d'" "raw_Handshake (lib_noise B) d = (d', None)" "r_complete d'"
    by (cases "raw_Handshake (lib_noise B) d") auto
  with RawConn raw_deferred(1) [of "lib_noise B" d d' p] raw_deferred(2) [of "lib_noise B" d d' k] show ?thesis by auto
next
  case (NsConn d)
  with assms obtain d' where "c = NsConn d'" "ns_Handshake (lib_noise B) d = (d', None)" "s_done d'"
    by (cases "ns_Handshake (lib_noise B) d") auto
  with NsConn ns_deferred [of "lib_noise B" d d'] show ?thesis by simp
next
  case (BoltConn d)
  with assms obtain d' where "c = BoltConn d'" "bolt_Handshake (lib_crypto B) (lib_curve B) d = (d', None)" "b_done d'"
    by (cases "bolt_Handshake (lib_crypto B) (lib_curve B) d") auto
  with BoltConn bolt_deferred [of "lib_crypto B" "lib_curve B" d d'] show ?thesis by simp
next
  case (WaConn d)
  with assms obtain d' where "c = WaConn d'" "ensureHandshake (lib_crypto B) (lib_dh B) d = (d', None)" "wa_live d'"
    by (cases "ensureHandshake (lib_crypto B) (lib_dh B) d") auto
  with WaConn wa_deferred(1) [of "lib_crypto B" "lib_dh B" d d' p] wa_deferred(2) [of "lib_crypto B" "lib_dh B" d d' k] show ?thesis by auto
qed

lemma any_calls_deferred:
  assumes "any_Handshake B c0 = (c, None)" "any_live c" "any_calls B cs c0 = (c', f, w, g)"
  shows "\<exists>c1. any_calls B cs c = (c1, f, w, g) \<and> (c1 = c' \<or> c1 = c \<and> c' = c0)"
  by (rule run_calls_deferred [OF _ _ assms(3)]) (use any_calls_first [OF assms(1,2)] in blast)+

text \<open>The ends after the handshake, for the record layer of each transport.\<close>

lemma raw_peers_joined: "raw_peers_at L R x y a b \<Longrightarrow>
  ends_joined (raw_sync L R) raw_live (\<lambda>c. the (r_out c)) (\<lambda>c. the (r_in c)) r_buf r_net a b \<and> avail (rx (r_net b)) = y"
  by (simp add: raw_peers_at_def ends_joined_def raw_sync_def)

lemma ns_peers_joined: "ns_peers_at L R x y a b \<Longrightarrow>
  ends_joined (ns_sync L R) ns_live (\<lambda>c. the (s_out c)) (\<lambda>c. the (s_in c)) s_buf s_net a b \<and> avail (rx (s_net b)) = y"
  by (simp add: ns_peers_at_def ends_joined_def ns_sync_def)

lemma bolt_peers_joined: "bolt_peers_at C x y a b \<Longrightarrow>
  ends_joined (bolt_sync C) b_done bolt_out bolt_in b_buf b_net a b \<and> avail (rx (b_net b)) = y"
  by (simp add: bolt_peers_at_def ends_joined_def bolt_sync_def)

lemma wa_peers_joined: "wa_peers_at C x y a b \<Longrightarrow>
  ends_joined (wa_sync C) wa_live wa_out wa_in w_buf wa_net a b \<and> avail (rx (wa_net b)) = y"
  by (simp add: wa_peers_at_def ends_joined_def wa_sync_def)

lemma any_peers_flip: "any_peers_at B R x y a b \<Longrightarrow> any_peers_at B R y x b a"
  by (cases a; cases b) (auto simp: raw_peers_at_def ns_peers_at_def bolt_peers_at_def wa_peers_at_def)

lemma any_peers_live: "any_peers_at B R x y a b \<Longrightarrow> any_live a \<and> any_live b"
  by (cases a; cases b) (auto simp: raw_peers_at_def raw_live_def ns_peers_at_def ns_live_def bolt_peers_at_def wa_peers_at_def)

lemma any_joined_prefix:
  assumes "any_peers_at B R x y a b" "any_calls B ca a = (a', fa, wa, ga)" "any_calls B cb b = (b', fb, wb, gb)"
    and "concat (tx (any_net a')) = concat (tx (any_net a)) @ s" "prefix y s"
  shows "prefix gb wa"
proof (cases a)
  case (RawConn c)
  with assms obtain d where b: "b = RawConn d" "raw_peers_at (lib_noise B) R x y c d" by (cases b) auto
  from raw_peers_joined [OF b(2)] assms(2-5) show ?thesis
    by (auto simp: RawConn b(1) any_calls_simps apfst_eq_pair intro: raw.calls_prefix)
next
  case (NsConn c)
  with assms obtain d where b: "b = NsConn d" "ns_peers_at (lib_noise B) R x y c d" by (cases b) auto
  from ns_peers_joined [OF b(2)] assms(2-5) show ?thesis
    by (auto simp: NsConn b(1) any_calls_simps apfst_eq_pair intro: nsc.calls_prefix)
next
  case (BoltConn c)
  with assms obtain d where b: "b = BoltConn d" "bolt_peers_at (lib_crypto B) x y c d" by (cases b) auto
  from bolt_peers_joined [OF b(2)] assms(2-5) show ?thesis
    by (auto simp: BoltConn b(1) any_calls_simps apfst_eq_pair intro: bolt.calls_prefix)
next
  case (WaConn c)
  with assms obtain d where b: "b = WaConn d" "wa_peers_at (lib_crypto B) x y c d" by (cases b) auto
  from wa_peers_joined [OF b(2)] assms(2-5) show ?thesis
    by (auto simp: WaConn b(1) any_calls_simps apfst_eq_pair intro: wa.calls_prefix)
qed

lemma any_joined_complete:
  assumes "any_peers_at B R x y a b" "any_calls B ca a = (a', (True, ra), wa, ga)" "any_calls B cb b = (b', (True, False), wb, gb)"
    and "concat (tx (any_net a')) = concat (tx (any_net a)) @ y" "\<And>r. a \<noteq> RawConn r"
  shows "gb = wa"
proof (cases a)
  case (RawConn c)
  with assms(5) show ?thesis by blast
next
  case (NsConn c)
  with assms obtain d where b: "b = NsConn d" "ns_peers_at (lib_noise B) R x y c d" by (cases b) auto
  from ns_peers_joined [OF b(2)] assms(2-4) show ?thesis
    by (auto simp: NsConn b(1) any_calls_simps apfst_eq_pair intro: nsc.calls_complete)
next
  case (BoltConn c)
  with assms obtain d where b: "b = BoltConn d" "bolt_peers_at (lib_crypto B) x y c d" by (cases b) auto
  from bolt_peers_joined [OF b(2)] assms(2-4) show ?thesis
    by (auto simp: BoltConn b(1) any_calls_simps apfst_eq_pair intro: bolt.calls_complete)
next
  case (WaConn c)
  with assms obtain d where b: "b = WaConn d" "wa_peers_at (lib_crypto B) x y c d" by (cases b) auto
  from wa_peers_joined [OF b(2)] assms(2-4) show ?thesis
    by (auto simp: WaConn b(1) any_calls_simps apfst_eq_pair intro: wa.calls_complete)
qed

text \<open>The same for ends that have still to run their handshakes.\<close>

lemma any_ready_flip: "any_ready B R x y a0 b0 a b \<Longrightarrow> any_ready B R y x b0 a0 b a"
  by (auto simp: any_ready_def any_peers_flip)

text \<open>What makes two ends ready: the raw and the WhatsApp client have run their handshakes when they dialled.\<close>

lemma raw_ready:
  "raw_peers_at (lib_noise B) R x y a b \<Longrightarrow> raw_Handshake (lib_noise B) b0 = (b, None) \<Longrightarrow> tx (r_net b0) = [] \<Longrightarrow>
    any_ready B R x y (RawConn a) (RawConn b0) (RawConn a) (RawConn b)"
  by (simp add: any_ready_def raw_Handshake_def [of _ a] raw_peers_at_def raw_live_def)

lemma ns_ready:
  "ns_peers_at (lib_noise B) R x y a b \<Longrightarrow> ns_Handshake (lib_noise B) a0 = (a, None) \<Longrightarrow> ns_Handshake (lib_noise B) b0 = (b, None) \<Longrightarrow>
    tx (s_net a0) = [] \<Longrightarrow> tx (s_net b0) = [] \<Longrightarrow> any_ready B R x y (NsConn a0) (NsConn b0) (NsConn a) (NsConn b)"
  by (simp add: any_ready_def)

lemma bolt_ready:
  "bolt_peers_at (lib_crypto B) x y a b \<Longrightarrow> bolt_Handshake (lib_crypto B) (lib_curve B) a0 = (a, None) \<Longrightarrow>
    bolt_Handshake (lib_crypto B) (lib_curve B) b0 = (b, None) \<Longrightarrow> tx (b_net a0) = [] \<Longrightarrow> tx (b_net b0) = [] \<Longrightarrow>
    any_ready B R x y (BoltConn a0) (BoltConn b0) (BoltConn a) (BoltConn b)"
  by (simp add: any_ready_def)

lemma wa_ready:
  "wa_peers_at (lib_crypto B) x y a b \<Longrightarrow> ensureHandshake (lib_crypto B) (lib_dh B) b0 = (b, None) \<Longrightarrow> tx (wa_net b0) = [] \<Longrightarrow>
    any_ready B R x y (WaConn a) (WaConn b0) (WaConn a) (WaConn b)"
  by (simp add: any_ready_def wa_live_ready wa_peers_at_def)

lemma any_ready_calls:
  assumes "any_ready B R x y a0 b0 a b" "any_calls B ca a0 = (a', fa, wa, ga)" "any_calls B cb b0 = (b', fb, wb, gb)"
  obtains a1 b1 where "any_calls B ca a = (a1, fa, wa, ga)" "any_calls B cb b = (b1, fb, wb, gb)"
    "a1 = a' \<or> a1 = a \<and> a' = a0"
proof -
  from assms(1) have h: "any_Handshake B a0 = (a, None)" "any_live a" "any_Handshake B b0 = (b, None)" "any_live b"
    by (auto simp: any_ready_def dest: any_peers_live)
  from any_calls_deferred [OF h(1,2) assms(2)] any_calls_deferred [OF h(3,4) assms(3)] that show ?thesis by blast
qed

lemma any_ready_sent:
  assumes "any_ready B R x y a0 b0 a b" "a1 = a' \<or> a1 = a \<and> a' = a0" "concat (tx (any_net a')) = concat (tx (any_net a)) @ s"
  shows "concat (tx (any_net a1)) = concat (tx (any_net a)) @ s"
proof -
  have "s = []" if "a' = a0"
    using assms(1,3) that by (auto simp: any_ready_def prefix_def)
  with assms(2,3) show ?thesis by auto
qed

lemma any_ready_prefix:
  assumes "any_ready B R x y a0 b0 a b" "any_calls B ca a0 = (a', fa, wa, ga)" "any_calls B cb b0 = (b', fb, wb, gb)"
    and "carried a a' y"
  shows "prefix gb wa"
proof -
  obtain a1 b1 where r: "any_calls B ca a = (a1, fa, wa, ga)" "any_calls B cb b = (b1, fb, wb, gb)"
    "a1 = a' \<or> a1 = a \<and> a' = a0" by (rule any_ready_calls [OF assms(1-3)])
  from assms(4) obtain z where z: "concat (tx (any_net a')) = concat (tx (any_net a)) @ (y @ z)" by (auto simp: carried_def prefix_def)
  have "any_peers_at B R x y a b" using assms(1) by (simp add: any_ready_def)
  from any_joined_prefix [OF this r(1,2) any_ready_sent [OF assms(1) r(3) z]] show ?thesis by simp
qed

lemma any_ready_complete:
  assumes "any_ready B R x y a0 b0 a b" "any_calls B ca a0 = (a', (True, ra), wa, ga)"
    and "any_calls B cb b0 = (b', (True, False), wb, gb)" "carried_all a a' y" "\<And>r. a \<noteq> RawConn r"
  shows "gb = wa"
proof -
  obtain a1 b1 where r: "any_calls B ca a = (a1, (True, ra), wa, ga)" "any_calls B cb b = (b1, (True, False), wb, gb)"
    "a1 = a' \<or> a1 = a \<and> a' = a0" by (rule any_ready_calls [OF assms(1-3)])
  have s: "concat (tx (any_net a')) = concat (tx (any_net a)) @ y" using assms(4) by (simp add: carried_all_def)
  have "any_peers_at B R x y a b" using assms(1) by (simp add: any_ready_def)
  from any_joined_complete [OF this r(1,2) any_ready_sent [OF assms(1) r(3) s] assms(5)] show ?thesis .
qed

section \<open>An instance\<close>

text \<open>Libraries and a network that satisfy the hypotheses, for the witnesses.\<close>

definition ex_V :: "byte net_env" where
  "ex_V = \<lparr>resolve_tcp = (\<lambda>_ a. Inr a), dial_tcp = (\<lambda>_ _ _ _. Inr (fresh_net [Data [0], Data [1, 1]])),
     listen_tcp = (\<lambda>_ _. Inr ()), dial_kcp = (\<lambda>_. Inr (fresh_net [])), listen_kcp = (\<lambda>_. Inr ()),
     dial_ws = (\<lambda>_ _. Inr (fresh_net [])), timer_first = False, rand_sk = [], rand_x = [Inr (replicate 32 4)]\<rparr>"

definition ex_libs :: "(nat, nat, byte, byte, bytes) libs" where
  "ex_libs = \<lparr>lib_noise = ex_lib, lib_crypto = ex_crypto, lib_curve = ex_curve, lib_dh = ex_wa, lib_xed = ex_xed, lib_now = (0, 0)\<rparr>"

definition ex_opts :: options where
  "ex_opts = \<lparr>o_prologue = [], o_negotiation_data = [], o_dial_timeout = 0, o_negotiation = None\<rparr>"

end
