(* ===== verification/Netcat_Props.thy ===== *)
theory Netcat_Props
  imports Netcat Any_Conn
begin

text \<open>
  What pkg/noisecat/net.go promises: the transport a parsed configuration runs over, where the
  client connects to, the prologue it is opened with, the timeouts, and the session a client and
  a server configuration make over the raw transport.
\<close>

section \<open>The transport\<close>

text \<open>The compatibility table of net.go and README, on the flags and the DH function of the protocol.\<close>

definition transport_table :: "bool \<Rightarrow> string \<Rightarrow> bool \<Rightarrow> transport option" where
  "transport_table udp t secp =
     (if udp then if secp then None else Some UdpTransport
      else if t \<in> {[], ''raw''} then Some (if secp then BoltTransport else RawTransport)
      else map_of (if secp then [(''bolt8'', BoltTransport)] else [(''noisesocket'', NsTransport), (''whatsapp'', wa_New)]) t)"

lemma parsed_dh:
  assumes "parseProtocolName s = (r, None)"
  shows "pp_dh r = NOISE_DH_CURVE25519 \<or> pp_dh r = NOISE_DH_SECP256K1"
proof -
  from parsed_names [OF assms] obtain d where "map_of DHStrByte d = Some (pp_dh r)" by blast
  then show ?thesis by (auto simp: DHStrByte_def split: if_splits)
qed

lemma wa_proto_parsed:
  "parseProtocolName wa_proto = (\<lparr>pp_pattern = 9, pp_dh = 1, pp_cipher = 2, pp_hash = 3, pp_psk = -1\<rparr>, None)"
  by code_simp

text \<open>The configuration after \<open>ParseConfig\<close>, field by field, as net.go uses it.\<close>

lemma parsed_fields:
  assumes "ParseConfig E c = (c', Inr (Some nc))"
  obtains r where "parseProtocolName (cf_Protocol c') = (r, None)" "cf_DHFunc c' = pp_dh r" "cf_UDP c' = cf_UDP c"
    "cf_Transport c' = (if pp_dh r = NOISE_DH_SECP256K1 \<and> cf_Transport c \<in> {[], ''raw''} then ''bolt8'' else cf_Transport c)"
    "cf_Transport c = ''whatsapp'' \<longrightarrow> pp_dh r = NOISE_DH_CURVE25519"
    "pp_dh r \<noteq> NOISE_DH_SECP256K1 \<longrightarrow> buildNoise25519Config E c' (cf_Protocol c') (\<not> cf_Listen c) = Inr nc"
    "cf_Listen c' = cf_Listen c" "cf_Prologue c' = cf_Prologue c"
proof -
  let ?c = "if cf_Transport c = ''whatsapp'' then c\<lparr>cf_Protocol := wa_proto\<rparr> else c"
  have same: "cf_Transport ?c = cf_Transport c" "cf_UDP ?c = cf_UDP c" "cf_Listen ?c = cf_Listen c" "cf_Prologue ?c = cf_Prologue c"
    "cf_Transport c = ''whatsapp'' \<longrightarrow> cf_Protocol ?c = wa_proto" by simp_all
  from ParseConfig_Inr(2) [OF assms] show ?thesis
  proof (cases rule: parseNoise_cases)
    case (secp r)
    have "cf_Transport c \<noteq> ''whatsapp''"
      using secp(1,2) wa_proto_parsed same(5) by (auto simp: NOISE_DH_SECP256K1_def)
    with secp same(1-4) show ?thesis by (intro that [of r]) (simp_all add: set_protocol_def)
  next
    case (noise r)
    with same parsed_dh [OF noise(1)] show ?thesis by (intro that [of r]) (simp_all add: set_protocol_def)
  qed
qed

text \<open>
  C35. The transport that runs is the one the compatibility table gives for the flags and the
  protocol of the parsed configuration: UDP only with Curve25519, secp256k1 always over BOLT-8 (also
  when the raw transport was asked for), BOLT-8 only with secp256k1, and everything else refused.
\<close>

theorem transport_matches_table:
  assumes "ParseConfig E c = (c', Inr (Some nc))"
  shows "\<exists>r. parseProtocolName (cf_Protocol c') = (r, None) \<and>
    (case resolveTransport c' of Inl _ \<Rightarrow> None | Inr tp \<Rightarrow> Some tp) =
      transport_table (cf_UDP c) (cf_Transport c) (pp_dh r = NOISE_DH_SECP256K1)"
  using assms
proof (rule parsed_fields)
  fix r
  assume p: "parseProtocolName (cf_Protocol c') = (r, None)" and d: "cf_DHFunc c' = pp_dh r" "cf_UDP c' = cf_UDP c"
    and t: "cf_Transport c' = (if pp_dh r = NOISE_DH_SECP256K1 \<and> cf_Transport c \<in> {[], ''raw''} then ''bolt8'' else cf_Transport c)"
    and w: "cf_Transport c = ''whatsapp'' \<longrightarrow> pp_dh r = NOISE_DH_CURVE25519"
  have "(case resolveTransport c' of Inl _ \<Rightarrow> None | Inr tp \<Rightarrow> Some tp) =
      transport_table (cf_UDP c) (cf_Transport c) (pp_dh r = NOISE_DH_SECP256K1)"
  proof (cases "pp_dh r = NOISE_DH_SECP256K1")
    case True
    then have "pp_dh r \<noteq> NOISE_DH_CURVE25519" by (simp add: NOISE_DH_SECP256K1_def NOISE_DH_CURVE25519_def)
    with True w d t show ?thesis by (simp add: resolveTransport_def transport_table_def Let_def)
  next
    case False
    with parsed_dh [OF p] have "pp_dh r = NOISE_DH_CURVE25519" by blast
    with False d t show ?thesis
      by (simp add: resolveTransport_def transport_table_def Let_def NOISE_DH_SECP256K1_def NOISE_DH_CURVE25519_def)
  qed
  with p show ?thesis by blast
qed

theorem transport_matches_table_witness:
  "\<exists>c' nc r. ParseConfig ex_env ex_daemon = (c', Inr (Some nc)) \<and> parseProtocolName (cf_Protocol c') = (r, None) \<and>
     (case resolveTransport c' of Inl _ \<Rightarrow> None | Inr tp \<Rightarrow> Some tp) =
       transport_table False ''raw'' (pp_dh r = NOISE_DH_SECP256K1)"
proof -
  obtain c' nc where p: "ParseConfig ex_env ex_daemon = (c', Inr (Some nc))"
    using gives_noiseE [OF ex_daemon_ok] by blast
  have "cf_UDP ex_daemon = False" "cf_Transport ex_daemon = ''raw''" by (simp_all add: ex_daemon_def default_config_def)
  with transport_matches_table [OF p] p show ?thesis by metis
qed

section \<open>Timeouts\<close>

lemma seconds_eq: "seconds n = (n * 1000000000 + 2 ^ 63) mod 2 ^ 64 - 2 ^ 63"
  using int_word_sint [where 'a = 64, of "n * 1000000000"] by (simp add: seconds_def)

lemma seconds_exact: "0 \<le> n \<Longrightarrow> n \<le> 9223372036 \<Longrightarrow> seconds n = n * 1000000000"
  by (simp add: seconds_eq)

text \<open>
  For \<open>-w\<close> up to 9223372036 the timeouts are exactly that many seconds, both for dialing and for
  the idle connection, whose first deadline lies that far ahead, and zero means no idle timeout; one second more overflows the
  64-bit duration to a negative one, and the connection silently has no idle timeout at all.
\<close>

theorem timeout_bounds:
  assumes "0 \<le> cf_TimeoutSeconds c" "cf_TimeoutSeconds c \<le> 9223372036" "cf_TimeoutSeconds big = 9223372037"
  shows "o_dial_timeout (transportOptions E c) = cf_TimeoutSeconds c * 1000000000 \<and>
    p_conn (newParams now c x) =
      (if cf_TimeoutSeconds c = 0 then Plain x
       else Idle \<lparr>i_conn = x, i_idle = cf_TimeoutSeconds c * 1000000000, i_deadline = now + cf_TimeoutSeconds c * 1000000000\<rparr>) \<and>
    o_dial_timeout (transportOptions E big) < 0 \<and> p_conn (newParams now big x) = Plain x"
  using seconds_exact [OF assms(1,2)] assms
  by (auto simp: transportOptions_def Let_def newParams_def newIdleConn_def bump_def seconds_eq [of 9223372037])

theorem timeout_bounds_witness:
  "p_conn (newParams 5 (default_config\<lparr>cf_TimeoutSeconds := 2\<rparr>) ()) =
     Idle \<lparr>i_conn = (), i_idle = 2000000000, i_deadline = 2000000005\<rparr>"
  using timeout_bounds [of "default_config\<lparr>cf_TimeoutSeconds := 2\<rparr>" "default_config\<lparr>cf_TimeoutSeconds := 9223372037\<rparr>" ex_env 5 "()"]
  by simp

section \<open>Where the WhatsApp transport connects to\<close>

text \<open>
  The WhatsApp dialer run on the address that the client joins from its two arguments: without a
  host it goes to WhatsApp's backend, with a host free of brackets to the peer, and with an IPv6 host
  already in brackets - which the joining puts into a second pair - silently to the backend too,
  because the error of \<open>SplitHostPort\<close> is dropped.
\<close>

theorem wa_dial_target:
  assumes "keypairFromConfig (lib_dh B) cfg (rand_x V) = (r, Inr kp)" "\<forall>x \<in> set port. x \<notin> set ''[:]''"
  shows "wa_Dial B V key nw (JoinHostPort [] port) la cfg opts =
      attempt (dialBackend B V key kp r (wa_timeout (o_dial_timeout opts))) (\<lambda>c. Inr (WaConn c)) \<and>
    (host \<noteq> [] \<and> CHR ''['' \<notin> set host \<and> CHR '']'' \<notin> set host \<longrightarrow>
      wa_Dial B V key nw (JoinHostPort host port) la cfg opts =
      attempt (dialPeer B V nw (JoinHostPort host port) la kp r (wa_timeout (o_dial_timeout opts))) (\<lambda>c. Inr (WaConn c))) \<and>
    (CHR '':'' \<in> set host \<and> CHR '']'' \<notin> set host \<longrightarrow>
      wa_Dial B V key nw (JoinHostPort (''['' @ host @ '']'') port) la cfg opts =
      attempt (dialBackend B V key kp r (wa_timeout (o_dial_timeout opts))) (\<lambda>c. Inr (WaConn c)))"
proof -
  have p: "CHR '':'' \<notin> set port" "CHR ''['' \<notin> set port" "CHR '']'' \<notin> set port" using assms(2) by auto
  have d: "wa_Dial B V key nw addr la cfg opts =
      attempt (if (case SplitHostPort addr of Inl _ \<Rightarrow> [] | Inr (h, _) \<Rightarrow> h) = []
        then dialBackend B V key kp r (wa_timeout (o_dial_timeout opts))
        else dialPeer B V nw addr la kp r (wa_timeout (o_dial_timeout opts))) (\<lambda>c. Inr (WaConn c))" for addr
    by (simp add: wa_Dial_def assms(1) Let_def)
  have "CHR '':'' \<in> set host \<and> CHR '']'' \<notin> set host \<longrightarrow> (\<exists>e. SplitHostPort (JoinHostPort (''['' @ host @ '']'') port) = Inl e)"
    using split_bracketed_host p(1) by blast
  then show ?thesis
    unfolding d using split_join_host [OF _ _ p, of "[]"] split_join_host [OF _ _ p, of host] by auto
qed

theorem wa_dial_target_witness:
  "\<exists>r kp. keypairFromConfig (lib_dh ex_libs) None (rand_x ex_V) = (r, Inr kp) \<and>
     wa_Dial ex_libs ex_V WACertPubKey ''tcp'' (JoinHostPort ''[::1]'' ''4444'') '':0'' None ex_opts =
     attempt (dialBackend ex_libs ex_V WACertPubKey kp r (wa_timeout (o_dial_timeout ex_opts))) (\<lambda>c. Inr (WaConn c))"
proof -
  obtain r kp where k: "keypairFromConfig (lib_dh ex_libs) None (rand_x ex_V) = (r, Inr kp)"
    by (simp add: keypairFromConfig_def generateKeypair_def ex_libs_def ex_V_def ex_wa_def)
  from wa_dial_target [OF k, of "''4444''" WACertPubKey "''tcp''" "'':0''" ex_opts "''::1''"] k show ?thesis by auto
qed

section \<open>The application prologue\<close>

lemma raw_prologue_set:
  assumes "cfg_prologue nc = []"
  shows "(if p \<noteq> [] then raw_applyPrologue (Some nc) p else Inr (Some nc)) = Inr (Some (nc\<lparr>cfg_prologue := p\<rparr>))"
  using assms by (auto simp: raw_applyPrologue_def)

lemma udp_prologue_set:
  assumes "cfg_prologue nc = []"
  shows "udp_applyPrologue (Some nc) p = Some (nc\<lparr>cfg_prologue := p\<rparr>)"
  using assms by (auto simp: udp_applyPrologue_def)

lemma dial_raw_prologue:
  assumes "cfg_prologue nc = []"
  shows "any_Dial B V RawTransport nw addr la (Some nc) opts =
    attempt (DialWithDialer (lib_noise B) V (o_dial_timeout opts) None nw addr la
      (Some (nc\<lparr>cfg_prologue := o_prologue opts\<rparr>))) (\<lambda>x. Inr (RawConn x))"
  unfolding any_Dial.simps raw_Dial_def raw_prologue_set [OF assms] no_conn.simps attempt.simps ..

lemma listen_raw_prologue:
  assumes "cfg_prologue nc = []"
  shows "any_Listen B V RawTransport nw addr (Some nc) opts =
    attempt (listen_tcp V nw addr) (\<lambda>_. Inr (RawListener (nc\<lparr>cfg_prologue := o_prologue opts\<rparr>)))"
  unfolding any_Listen.simps raw_Listen_def raw_prologue_set [OF assms] attempt.simps raw_listen_plain_def option.case ..

lemma parsed_noise_config:
  assumes "ParseConfig E c = (c', Inr (Some nc))" "cf_DHFunc c' \<noteq> NOISE_DH_SECP256K1"
  shows "cfg_prologue nc = [] \<and> (peer_static nc = None \<or> (\<exists>d. peer_static nc = Some d \<and> length d = 32)) \<and>
    cfg_initiator nc = (\<not> cf_Listen c) \<and> o_prologue (transportOptions E c') = str_bytes (cf_Prologue c) \<or> cf_Transport c' = ''bolt8''"
  using assms(1)
proof (rule parsed_fields)
  fix r
  assume "cf_DHFunc c' = pp_dh r" and b: "pp_dh r \<noteq> NOISE_DH_SECP256K1 \<longrightarrow> buildNoise25519Config E c' (cf_Protocol c') (\<not> cf_Listen c) = Inr nc"
    and p: "cf_Prologue c' = cf_Prologue c"
  with assms(2) have "buildNoise25519Config E c' (cf_Protocol c') (\<not> cf_Listen c) = Inr nc" by simp
  from buildNoise_peer [OF this] buildNoise_role [OF this] p show ?thesis by (simp add: transportOptions_def Let_def)
qed

section \<open>A session\<close>

text \<open>
  C26. From the flags to the session: a client and a server configuration that parse and run over the
  raw transport, on a network that connects them and carries each other's handshake messages in any
  chunks, with any data \<open>x\<close>, \<open>y\<close> behind them, start the client's runner on a connection whose handshake
  is complete and the server's runner on one that completes it at its first use; the two are then ready
  for data, each with exactly the bytes behind the handshake left to receive, and have the same
  fingerprint, each for its own prologue. The hypotheses on the Noise library are that its handshake
  states of the two configurations match.
\<close>

theorem netcat_raw_session:
  assumes "ParseConfig E c = (c', Inr (Some nc))" "ParseConfig F s = (s', Inr (Some ns))"
    and "resolveTransport c' = Inr RawTransport" "resolveTransport s' = Inr RawTransport" "\<not> cf_Daemon s'"
    and lib: "handshake_pair (lib_noise B) R P" "cipher_pair (lib_noise B) R"
      "new_handshake (lib_noise B) (nc\<lparr>cfg_prologue := str_bytes (cf_Prologue c)\<rparr>) = Inr hc"
      "new_handshake (lib_noise B) (ns\<lparr>cfg_prologue := str_bytes (cf_Prologue s)\<rparr>) = Inr hs" "P (Suc k) hc hs"
      "pat_messages (cfg_pattern nc) = Suc k" "pat_messages (cfg_pattern ns) = Suc k"
    and network: "local_addr V {[], '':0''} (network c') (JoinHostPort (cf_SrcHost c') (cf_SrcPort c')) = Inr la"
      "dial_tcp V (seconds (cf_TimeoutSeconds c')) la (network c') (JoinHostPort (cf_DstHost c') (cf_DstPort c')) = Inr (fresh_net ec)"
      "\<not> timer_first V" "listen_tcp W (network s') (JoinHostPort (cf_SrcHost s') (cf_SrcPort s')) = Inr ()"
    and wire: "all_data ec" "avail ec = concat (map raw_frame (odds (honest (lib_noise B) (Suc k) hc hs))) @ x"
      "all_data es" "avail es = concat (map raw_frame (evens (honest (lib_noise B) (Suc k) hc hs))) @ y"
  shows "\<exists>cl sv0 sv. StartClient B V E t c' nc = Inr (newParams t c' (RawConn cl)) \<and>
    StartServer B W F s' ns ((X, u, Inr (fresh_net es)) # as) = Inr [newParams u s' (RawConn sv0)] \<and>
    any_ready B R x y (RawConn cl) (RawConn sv0) (RawConn cl) (RawConn sv) \<and>
    raw_Fingerprint (lib_noise B) cl = raw_Fingerprint (lib_noise B) sv"
proof -
  let ?nc = "nc\<lparr>cfg_prologue := str_bytes (cf_Prologue c)\<rparr>" and ?ns = "ns\<lparr>cfg_prologue := str_bytes (cf_Prologue s)\<rparr>"
  have raw: "cf_DHFunc x \<noteq> NOISE_DH_SECP256K1 \<and> cf_Transport x \<noteq> ''bolt8''" if "resolveTransport x = Inr RawTransport" for x
    using that by (auto simp: resolveTransport_def wa_New_def Let_def split: if_splits)
  from parsed_noise_config [OF assms(1)] raw [OF assms(3)]
  have c: "cfg_prologue nc = []" "o_prologue (transportOptions E c') = str_bytes (cf_Prologue c)"
    "peer_static nc = None \<or> (\<exists>d. peer_static nc = Some d \<and> length d = 32)" by blast+
  from parsed_noise_config [OF assms(2)] raw [OF assms(4)]
  have s: "cfg_prologue ns = []" "o_prologue (transportOptions F s') = str_bytes (cf_Prologue s)"
    "peer_static ns = None \<or> (\<exists>d. peer_static ns = Some d \<and> length d = 32)" by blast+
  from raw_handshake_both [OF lib(1-5), of ec x es y] lib(6,7) c(3) s(3) wire
  obtain cl sv where h: "raw_Handshake (lib_noise B) (raw_Client (fresh_net ec) ?nc) = (cl, None)"
    "raw_Handshake (lib_noise B) (raw_Server (fresh_net es) ?ns) = (sv, None)" "raw_peers_at (lib_noise B) R x y cl sv"
    "raw_Fingerprint (lib_noise B) cl = raw_Fingerprint (lib_noise B) sv" by auto
  have o: "o_dial_timeout (transportOptions E c') = seconds (cf_TimeoutSeconds c')" by (simp add: transportOptions_def Let_def)
  have "StartClient B V E t c' nc = Inr (newParams t c' (RawConn cl))"
    unfolding StartClient_def assms(3) wrap.simps attempt.simps Let_def dial_raw_prologue [OF c(1)] c(2) o DialWithDialer_def
    by (simp add: network h(1))
  moreover have "StartServer B W F s' ns ((X, u, Inr (fresh_net es)) # as) = Inr [newParams u s' (RawConn (raw_Server (fresh_net es) ?ns))]"
    unfolding StartServer_def assms(4) wrap.simps attempt.simps Let_def listen_raw_prologue [OF s(1)] s(2)
    by (simp add: network assms(5) any_Accept_def)
  moreover have "tx (r_net (raw_Server (fresh_net es) ?ns)) = []" by (simp add: raw_Server_def raw_new_def fresh_net_def)
  ultimately show ?thesis using raw_ready [OF h(3,2)] h(4) by blast
qed

fun the_noise :: "config \<times> noise_config option res \<Rightarrow> noise_config" where
  "the_noise (c, Inr (Some nc)) = nc"
| "the_noise _ = zero_noise_config"

definition ex_listen :: config where
  "ex_listen = default_config\<lparr>cf_Listen := True\<rparr>"

text \<open>What the witness needs of the two parsed configurations.\<close>

definition ex_ready :: "config \<Rightarrow> bool" where
  "ex_ready c = (let r = ParseConfig ex_env c in gives_noise r \<and> pat_messages (cfg_pattern (the_noise r)) = 2 \<and>
     resolveTransport (fst r) = Inr RawTransport \<and> \<not> cf_Daemon (fst r))"

lemma ex_ready_both: "ex_ready default_config" "ex_ready ex_listen"
  by code_simp+

theorem netcat_raw_session_witness:
  "\<exists>c' nc s' ns cl sv0 sv. ParseConfig ex_env default_config = (c', Inr (Some nc)) \<and> ParseConfig ex_env ex_listen = (s', Inr (Some ns)) \<and>
     StartClient ex_libs ex_V ex_env 0 c' nc = Inr (newParams 0 c' (RawConn cl)) \<and>
     StartServer ex_libs ex_V ex_env s' ns [(ex_V, 0, Inr (fresh_net [Data [0, 1], Data [1]]))] = Inr [newParams 0 s' (RawConn sv0)] \<and>
     raw_Handshake ex_lib sv0 = (sv, None) \<and> raw_peers ex_lib (=) cl sv"
proof -
  have get: "\<exists>c' nc. ParseConfig ex_env c = (c', Inr (Some nc)) \<and> pat_messages (cfg_pattern nc) = Suc 1 \<and>
      resolveTransport c' = Inr RawTransport \<and> \<not> cf_Daemon c'" if "ex_ready c" for c
  proof -
    from that have g: "gives_noise (ParseConfig ex_env c)" by (simp add: ex_ready_def Let_def)
    from gives_noiseE [OF this] obtain c' nc where "ParseConfig ex_env c = (c', Inr (Some nc))" by blast
    with that show ?thesis by (simp add: ex_ready_def Let_def)
  qed
  obtain c' nc where c: "ParseConfig ex_env default_config = (c', Inr (Some nc))" "pat_messages (cfg_pattern nc) = Suc 1"
    "resolveTransport c' = Inr RawTransport" using get [OF ex_ready_both(1)] by blast
  obtain s' ns where s: "ParseConfig ex_env ex_listen = (s', Inr (Some ns))" "pat_messages (cfg_pattern ns) = Suc 1"
    "resolveTransport s' = Inr RawTransport" "\<not> cf_Daemon s'" using get [OF ex_ready_both(2)] by blast
  have l: "lib_noise ex_libs = ex_lib" by (simp add: ex_libs_def)
  have h: "new_handshake ex_lib (x\<lparr>cfg_prologue := p\<rparr>) = Inr 2" if "pat_messages (cfg_pattern x) = Suc 1" for x p
    using that by (simp add: ex_lib_def)
  have p: "ex_pair (Suc 1) 2 2" by (simp add: ex_pair_def)
  obtain la where la: "local_addr ex_V {[], '':0''} (network c') (JoinHostPort (cf_SrcHost c') (cf_SrcPort c')) = Inr la"
    by (cases "JoinHostPort (cf_SrcHost c') (cf_SrcPort c') \<in> {[], '':0''}") (simp_all add: local_addr_def ex_V_def)
  have f: "raw_frame [1] = [0, 1, 1]" by (simp add: raw_frame_def put16_eq)
  from netcat_raw_session [OF c(1) s(1) c(3) s(3,4), of ex_libs "(=)" ex_pair 2 2 1 ex_V la "[Data [0], Data [1, 1]]" ex_V
      "[]" "[Data [0, 1], Data [1]]" "[]" 0 ex_V 0 "[]", unfolded l ex_honest]
  show ?thesis
    using c s h [OF c(2)] h [OF s(2)] p la ex_handshake_pair ex_cipher_pair by (auto simp: f ex_V_def any_ready_def l)
qed

end
