(* ===== verification/Runners.thy ===== *)
theory Runners
  imports Netcat
begin

text \<open>
  pkg/noisecat/runners.go: what runs over an established connection. \<open>handleIO\<close> starts two
  goroutines that copy in the two directions, and the main goroutine collects their two reports,
  with a timer after the first that closes everything. Its model is a step relation: every
  interleaving of the two copies, the main goroutine and the timer is a sequence of steps.

  An endpoint (the secured connection, the writer and the reader of the local side, which are one
  connection for a proxy) is the script of what its reads return - an exhausted script is a read
  that blocks - and of what its writes do: succeed, fail, or stall. \<open>e_cancel\<close> tells whether closing it makes a blocked
  read or a stalled write return, as it does for sockets and pipes but not for a terminal.
\<close>

section \<open>Endpoints\<close>

datatype src_event = Chunk bytes | SrcEOF | SrcErr err

text \<open>What a write does; an exhausted script means that writes succeed. A write that fails or stalls has taken some
  of the bytes; one that stalls returns only when the endpoint is closed under it.\<close>

datatype wr_event = WrOk | WrErr nat err | WrStall nat

datatype close_kind = HalfClose | OnlyClose | NoCloser

record endpoint =
  e_rx :: "src_event list"
  e_tx :: bytes
  e_wr :: "wr_event list"
  e_kind :: close_kind
  e_cancel :: bool
  e_wshut :: bool
  e_closed :: bool

definition fresh_ep :: "close_kind \<Rightarrow> bool \<Rightarrow> src_event list \<Rightarrow> wr_event list \<Rightarrow> endpoint" where
  "fresh_ep k cancel evs ws = \<lparr>e_rx = evs, e_tx = [], e_wr = ws, e_kind = k, e_cancel = cancel, e_wshut = False, e_closed = False\<rparr>"

definition ep_close :: "endpoint \<Rightarrow> endpoint" where
  "ep_close e = (if e_kind e = NoCloser then e else e\<lparr>e_closed := True\<rparr>)"

definition signalEndOfWrite :: "endpoint \<Rightarrow> endpoint" where
  "signalEndOfWrite e =
     (case e_kind e of
        HalfClose \<Rightarrow> if e_closed e then e else e\<lparr>e_wshut := True\<rparr>
      | OnlyClose \<Rightarrow> e\<lparr>e_closed := True\<rparr>
      | NoCloser \<Rightarrow> e)"

section \<open>handleIO\<close>

datatype dir = SNT | RCV

datatype epid = EConn | EW | ER

text \<open>The state of a copy: before a read, in a read, before the write of what was read, in that write, after the
  copy, and after the report.\<close>

datatype phase = Ready | InRead | Writing bytes | InWrite bytes | Ending | Reported

record progress =
  pr_dir :: dir
  pr_bytes :: nat
  pr_err :: "err option"

datatype main_phase = FirstWait | SecondWait | Returned

datatype timer = TOff | TArmed | TFired | TStopped

record hio =
  h_same :: bool
  h_ep :: "epid \<Rightarrow> endpoint"
  h_phase :: "dir \<Rightarrow> phase"
  h_count :: "dir \<Rightarrow> nat"
  h_err :: "dir \<Rightarrow> err option"
  h_ch :: "progress list"
  h_main :: main_phase
  h_timer :: timer
  h_once :: bool

definition src_of :: "bool \<Rightarrow> dir \<Rightarrow> epid" where
  "src_of same d = (case d of SNT \<Rightarrow> if same then EW else ER | RCV \<Rightarrow> EConn)"

definition dst_of :: "dir \<Rightarrow> epid" where
  "dst_of d = (case d of SNT \<Rightarrow> EConn | RCV \<Rightarrow> EW)"

definition handleIO_start :: "endpoint \<Rightarrow> endpoint \<Rightarrow> endpoint option \<Rightarrow> hio" where
  "handleIO_start conn w r =
     \<lparr>h_same = (r = None), h_ep = (\<lambda>i. case i of EConn \<Rightarrow> conn | EW \<Rightarrow> w | ER \<Rightarrow> (case r of None \<Rightarrow> w | Some x \<Rightarrow> x)),
      h_phase = (\<lambda>_. Ready), h_count = (\<lambda>_. 0), h_err = (\<lambda>_. None), h_ch = [], h_main = FirstWait, h_timer = TOff,
      h_once = False\<rparr>"

text \<open>
  What a read in progress returns, if it can return: the endpoint after it, the next phase and the
  error that ends the copy. \<open>write_result\<close> is the same of a write in progress (the endpoint, the count and
  the error); \<open>write_refused\<close> is a write that fails when it is called.
\<close>

definition read_result :: "endpoint \<Rightarrow> (endpoint \<times> phase \<times> err option) option" where
  "read_result e =
     (if e_closed e \<and> e_cancel e then Some (e, Ending, Some (Io ErrClosed))
      else case e_rx e of
        [] \<Rightarrow> None
      | Chunk b # es \<Rightarrow> Some (e\<lparr>e_rx := es\<rparr>, if b = [] then Ready else Writing b, None)
      | SrcEOF # es \<Rightarrow> Some (e, Ending, None)
      | SrcErr x # es \<Rightarrow> Some (e, Ending, Some x))"

definition write_refused :: "endpoint \<Rightarrow> err option" where
  "write_refused e =
     (if e_closed e then Some (Io ErrClosed) else if e_wshut e then Some (Io (IoErr ''broken pipe'')) else None)"

definition write_result :: "bytes \<Rightarrow> endpoint \<Rightarrow> (endpoint \<times> nat \<times> err option) option" where
  "write_result b e =
     (let stop = e_closed e \<and> e_cancel e in
      case e_wr e of
        [] \<Rightarrow> Some (if stop then (e, 0, Some (Io ErrClosed)) else (e\<lparr>e_tx := e_tx e @ b\<rparr>, length b, None))
      | WrOk # ws \<Rightarrow> Some (if stop then (e, 0, Some (Io ErrClosed)) else (e\<lparr>e_tx := e_tx e @ b, e_wr := ws\<rparr>, length b, None))
      | WrErr k x # ws \<Rightarrow> Some (e\<lparr>e_tx := e_tx e @ take k b, e_wr := ws\<rparr>, length (take k b), Some x)
      | WrStall k # ws \<Rightarrow>
          (if stop then Some (e\<lparr>e_tx := e_tx e @ take k b, e_wr := ws\<rparr>, length (take k b), Some (Io ErrClosed)) else None))"

text \<open>\<open>fullClose\<close>, whose body runs once: the connection, the writer and a reader that is another one.\<close>

definition fullClose :: "hio \<Rightarrow> hio" where
  "fullClose s =
     (if h_once s then s
      else s\<lparr>h_once := True, h_ep := (\<lambda>i. if i = ER \<and> h_same s then h_ep s i else ep_close (h_ep s i))\<rparr>)"

definition set_dir :: "dir \<Rightarrow> phase \<Rightarrow> err option \<Rightarrow> epid \<Rightarrow> endpoint \<Rightarrow> hio \<Rightarrow> hio" where
  "set_dir d p x i e s = s\<lparr>h_phase := (h_phase s)(d := p), h_err := (h_err s)(d := x), h_ep := (h_ep s)(i := e)\<rparr>"

definition src :: "hio \<Rightarrow> dir \<Rightarrow> endpoint" where
  "src s d = h_ep s (src_of (h_same s) d)"

definition dst :: "hio \<Rightarrow> dir \<Rightarrow> endpoint" where
  "dst s d = h_ep s (dst_of d)"

inductive hstep :: "hio \<Rightarrow> hio \<Rightarrow> bool" where
  call_read: "h_phase s d = Ready \<Longrightarrow> \<not> e_closed (src s d) \<Longrightarrow>
    hstep s (set_dir d InRead None (src_of (h_same s) d) (src s d) s)"
| call_closed: "h_phase s d = Ready \<Longrightarrow> e_closed (src s d) \<Longrightarrow>
    hstep s (set_dir d Ending (Some (Io ErrClosed)) (src_of (h_same s) d) (src s d) s)"
| read_returns: "h_phase s d = InRead \<Longrightarrow> read_result (src s d) = Some (e, p, x) \<Longrightarrow>
    hstep s (set_dir d p x (src_of (h_same s) d) e s)"
| call_write: "h_phase s d = Writing b \<Longrightarrow> write_refused (dst s d) = None \<Longrightarrow>
    hstep s (set_dir d (InWrite b) None (dst_of d) (dst s d) s)"
| call_refused: "h_phase s d = Writing b \<Longrightarrow> write_refused (dst s d) = Some x \<Longrightarrow>
    hstep s (set_dir d Ending (Some x) (dst_of d) (dst s d) s)"
| write_returns: "h_phase s d = InWrite b \<Longrightarrow> write_result b (dst s d) = Some (e, n, x) \<Longrightarrow>
    hstep s ((set_dir d (if x = None then Ready else Ending) x (dst_of d) e s)\<lparr>h_count := (h_count s)(d := h_count s d + n)\<rparr>)"
| report: "h_phase s d = Ending \<Longrightarrow>
    hstep s ((set_dir d Reported (h_err s d) (dst_of d) (signalEndOfWrite (dst s d)) s)
      \<lparr>h_ch := h_ch s @ [\<lparr>pr_dir = d, pr_bytes = h_count s d, pr_err = h_err s d\<rparr>]\<rparr>)"
| first: "h_main s = FirstWait \<Longrightarrow> h_ch s = p # ps \<Longrightarrow> hstep s (s\<lparr>h_main := SecondWait, h_ch := ps, h_timer := TArmed\<rparr>)"
| timeout: "h_timer s = TArmed \<Longrightarrow> hstep s (fullClose (s\<lparr>h_timer := TFired\<rparr>))"
| second: "h_main s = SecondWait \<Longrightarrow> h_ch s = p # ps \<Longrightarrow>
    hstep s (fullClose (s\<lparr>h_main := Returned, h_ch := ps, h_timer := (if h_timer s = TArmed then TStopped else h_timer s)\<rparr>))"

inductive hreach :: "hio \<Rightarrow> hio \<Rightarrow> bool" for s0 where
  start: "hreach s0 s0"
| step: "hreach s0 s \<Longrightarrow> hstep s t \<Longrightarrow> hreach s0 t"

section \<open>Frame facts\<close>

lemma dir_cases: "d = SNT \<or> d = RCV"
  by (cases d) auto

lemma src_of_inj [simp]: "src_of same d = src_of same d' \<longleftrightarrow> d = d'"
  by (cases d; cases d') (auto simp: src_of_def)

lemma dst_of_inj [simp]: "dst_of d = dst_of d' \<longleftrightarrow> d = d'"
  by (cases d; cases d') (auto simp: dst_of_def)

text \<open>The bytes a script delivers before it ends.\<close>

fun stream :: "src_event list \<Rightarrow> bytes" where
  "stream (Chunk b # es) = b @ stream es"
| "stream _ = []"

lemma src_set_dir [simp]:
  "src (set_dir d p x i e s) d' = (if src_of (h_same s) d' = i then e else src s d')"
  "dst (set_dir d p x i e s) d' = (if dst_of d' = i then e else dst s d')"
  by (simp_all add: src_def dst_def set_dir_def)

lemma set_dir_fields [simp]:
  "h_phase (set_dir d p x i e s) = (h_phase s)(d := p)" "h_err (set_dir d p x i e s) = (h_err s)(d := x)"
  "h_same (set_dir d p x i e s) = h_same s" "h_ch (set_dir d p x i e s) = h_ch s" "h_main (set_dir d p x i e s) = h_main s"
  "h_timer (set_dir d p x i e s) = h_timer s" "h_once (set_dir d p x i e s) = h_once s" "h_count (set_dir d p x i e s) = h_count s"
  "h_ep (set_dir d p x i e s) = (h_ep s)(i := e)"
  by (simp_all add: set_dir_def)

lemma src_dst_frame [simp]:
  "src (s\<lparr>h_count := c\<rparr>) = src s" "dst (s\<lparr>h_count := c\<rparr>) = dst s"
  "src (s\<lparr>h_ch := q\<rparr>) = src s" "dst (s\<lparr>h_ch := q\<rparr>) = dst s"
  "src (s\<lparr>h_main := m, h_ch := q, h_timer := t\<rparr>) = src s" "dst (s\<lparr>h_main := m, h_ch := q, h_timer := t\<rparr>) = dst s"
  "src (s\<lparr>h_main := m\<rparr>) = src s" "dst (s\<lparr>h_main := m\<rparr>) = dst s"
  "src (s\<lparr>h_timer := t\<rparr>) = src s" "dst (s\<lparr>h_timer := t\<rparr>) = dst s"
  by (simp_all add: src_def dst_def fun_eq_iff)

lemma ep_close_fields [simp]:
  "e_rx (ep_close e) = e_rx e" "e_tx (ep_close e) = e_tx e" "e_wr (ep_close e) = e_wr e" "e_kind (ep_close e) = e_kind e"
  "e_cancel (ep_close e) = e_cancel e" "e_wshut (ep_close e) = e_wshut e"
  "e_closed (ep_close e) \<longleftrightarrow> e_closed e \<or> e_kind e \<noteq> NoCloser"
  by (simp_all add: ep_close_def)

lemma signal_fields [simp]:
  "e_rx (signalEndOfWrite e) = e_rx e" "e_tx (signalEndOfWrite e) = e_tx e" "e_wr (signalEndOfWrite e) = e_wr e"
  "e_kind (signalEndOfWrite e) = e_kind e" "e_cancel (signalEndOfWrite e) = e_cancel e"
  "e_closed (signalEndOfWrite e) \<longleftrightarrow> e_closed e \<or> e_kind e = OnlyClose"
  by (simp_all add: signalEndOfWrite_def split: close_kind.split)

lemma fullClose_fields [simp]:
  "h_phase (fullClose s) = h_phase s" "h_err (fullClose s) = h_err s" "h_same (fullClose s) = h_same s" "h_ch (fullClose s) = h_ch s"
  "h_main (fullClose s) = h_main s" "h_timer (fullClose s) = h_timer s" "h_once (fullClose s)"
  by (simp_all add: fullClose_def)

lemma fullClose_ep:
  "h_ep (fullClose s) i = (if h_once s \<or> i = ER \<and> h_same s then h_ep s i else ep_close (h_ep s i))"
  by (simp add: fullClose_def)

lemma fullClose_src [simp]: "src (fullClose s) d = (if h_once s then src s d else ep_close (src s d))"
  and fullClose_dst [simp]: "dst (fullClose s) d = (if h_once s then dst s d else ep_close (dst s d))"
  by (auto simp: src_def dst_def fullClose_ep src_of_def dst_of_def split: dir.splits)

lemma read_result_fields:
  assumes "read_result e = Some (e', p, x)"
  shows "e_tx e' = e_tx e" "e_wr e' = e_wr e" "e_kind e' = e_kind e" "e_cancel e' = e_cancel e" "e_wshut e' = e_wshut e" "e_closed e' = e_closed e"
  using assms by (auto simp: read_result_def split: if_splits list.splits src_event.splits)

lemma write_result_fields:
  assumes "write_result b e = Some (e', n, x)"
  shows "e_rx e' = e_rx e" "e_kind e' = e_kind e" "e_cancel e' = e_cancel e" "e_wshut e' = e_wshut e" "e_closed e' = e_closed e"
  using assms by (auto simp: write_result_def Let_def split: if_splits list.splits wr_event.splits)

section \<open>What has been written is what was read\<close>

text \<open>The bytes of one direction: \<open>D\<close> is everything its source has to deliver.\<close>

definition copied :: "bytes \<Rightarrow> src_event list \<Rightarrow> bytes \<Rightarrow> phase \<Rightarrow> err option \<Rightarrow> bool" where
  "copied D evs out p x =
     (case p of
        Writing b \<Rightarrow> D = out @ b @ stream evs
      | InWrite b \<Rightarrow> D = out @ b @ stream evs
      | Ready \<Rightarrow> D = out @ stream evs
      | InRead \<Rightarrow> D = out @ stream evs
      | _ \<Rightarrow> (if x = None then D = out else prefix out D))"

lemma copied_read:
  "copied D (e_rx e) out InRead y \<Longrightarrow> read_result e = Some (e', p, x) \<Longrightarrow> copied D (e_rx e') out p x"
  by (auto simp: copied_def read_result_def split: if_splits list.splits src_event.splits)

lemma copied_write:
  assumes "copied D evs (e_tx e) (InWrite b) y" "write_result b e = Some (e', n, x)"
  shows "copied D evs (e_tx e') (if x = None then Ready else Ending) x"
proof -
  have "prefix (take k b) (b @ r)" for k r by (metis append_assoc append_take_drop_id prefixI)
  with assms show ?thesis
    by (auto simp: copied_def write_result_def Let_def split: if_splits list.splits wr_event.splits)
qed

lemma src_is_dst: "src_of (h_same s) d = dst_of d' \<Longrightarrow> src s d = dst s d'"
  by (simp add: src_def dst_def)

text \<open>A step of one direction does not touch what the other direction reads or has written.\<close>

lemma set_src_frame:
  assumes "e_tx e = e_tx (src s d)"
  shows "e_tx (dst (set_dir d p x (src_of (h_same s) d) e s) d') = e_tx (dst s d')"
    "d' \<noteq> d \<Longrightarrow> src (set_dir d p x (src_of (h_same s) d) e s) d' = src s d'"
  using assms src_is_dst [of s d d'] by auto

lemma set_dst_frame:
  assumes "e_rx e = e_rx (dst s d)"
  shows "e_rx (src (set_dir d p x (dst_of d) e s) d') = e_rx (src s d')"
    "d' \<noteq> d \<Longrightarrow> dst (set_dir d p x (dst_of d) e s) d' = dst s d'"
  using assms src_is_dst [of s d' d] by auto

definition copies :: "bytes \<Rightarrow> hio \<Rightarrow> dir \<Rightarrow> bool" where
  "copies D s d \<longleftrightarrow> copied D (e_rx (src s d)) (e_tx (dst s d)) (h_phase s d) (h_err s d)"

lemma hstep_copies: "hstep s t \<Longrightarrow> copies D s d' \<Longrightarrow> copies D t d'"
proof (induction rule: hstep.induct)
  case (call_read s d)
  with set_src_frame [of "src s d" s d] show ?case
    by (cases "d' = d") (simp_all add: copies_def copied_def)
next
  case (call_closed s d)
  with set_src_frame [of "src s d" s d] show ?case
    by (cases "d' = d") (auto simp: copies_def copied_def)
next
  case (read_returns s d e p x)
  with set_src_frame [of e s d] read_result_fields(1) [OF read_returns(2)]
    copied_read [OF _ read_returns(2), of D "e_tx (dst s d)" "h_err s d"] show ?case
    by (cases "d' = d") (simp_all add: copies_def del: src_set_dir(2))
next
  case (call_write s d b)
  with set_dst_frame [of "dst s d" s d] show ?case
    by (cases "d' = d") (simp_all add: copies_def copied_def del: src_set_dir(1))
next
  case (call_refused s d b x)
  with set_dst_frame [of "dst s d" s d] show ?case
    by (cases "d' = d") (auto simp: copies_def copied_def simp del: src_set_dir(1))
next
  case (write_returns s d b e n x)
  with set_dst_frame [of e s d] write_result_fields(1) [OF write_returns(2)]
    copied_write [OF _ write_returns(2), of D "e_rx (src s d)" "h_err s d"] show ?case
    by (cases "d' = d") (simp_all add: copies_def del: src_set_dir(1))
next
  case (report s d)
  with set_dst_frame [of "signalEndOfWrite (dst s d)" s d] show ?case
    by (cases "d' = d") (simp_all add: copies_def copied_def del: src_set_dir(1))
qed (simp_all add: copies_def)

lemma hreach_copies: "hreach s0 s \<Longrightarrow> copies D s0 d \<Longrightarrow> copies D s d"
  by (induction rule: hreach.induct) (blast intro: hstep_copies)+

section \<open>The main goroutine, the timer and the closing\<close>

definition reported :: "hio \<Rightarrow> dir \<Rightarrow> bool" where
  "reported s d \<longleftrightarrow> h_phase s d = Reported"

text \<open>
  The invariant of the coordination: reports in the channel and received ones add up, the timer runs
  between the two, and the endpoints are closed by \<open>fullClose\<close> only - or, when an endpoint has no
  half-close, by the end of the copy that writes to it.
\<close>

definition reports :: "hio \<Rightarrow> nat" where
  "reports s = of_bool (reported s SNT) + of_bool (reported s RCV)"

definition hinv :: "hio \<Rightarrow> bool" where
  "hinv s \<longleftrightarrow>
     length (h_ch s) + (case h_main s of FirstWait \<Rightarrow> 0 | SecondWait \<Rightarrow> 1 | Returned \<Rightarrow> 2) = reports s \<and>
     (h_main s = FirstWait \<longleftrightarrow> h_timer s = TOff) \<and>
     (h_main s = SecondWait \<longrightarrow> h_timer s = TArmed \<and> \<not> h_once s \<or> h_timer s = TFired \<and> h_once s) \<and>
     (h_main s = FirstWait \<longrightarrow> \<not> h_once s) \<and> (h_main s = Returned \<longrightarrow> h_once s \<and> h_timer s \<noteq> TArmed) \<and>
     (h_once s \<longrightarrow> (\<forall>i. (i = ER \<longrightarrow> \<not> h_same s) \<and> e_kind (h_ep s i) \<noteq> NoCloser \<longrightarrow> e_closed (h_ep s i)))"

lemma hinv_start: "\<not> e_closed conn \<Longrightarrow> hinv (handleIO_start conn w r)"
  by (simp add: hinv_def handleIO_start_def reports_def reported_def)

lemma hstep_hinv: "hstep s t \<Longrightarrow> hinv s \<Longrightarrow> hinv t"
proof (induction rule: hstep.induct)
  case (call_read s d)
  then show ?case by (cases d) (auto simp: hinv_def reports_def reported_def src_def)
next
  case (call_closed s d)
  then show ?case by (cases d) (auto simp: hinv_def reports_def reported_def src_def)
next
  case (read_returns s d e p x)
  moreover have "p \<noteq> Reported" using read_returns(2) by (auto simp: read_result_def split: if_splits list.splits src_event.splits)
  ultimately show ?case using read_result_fields [OF read_returns(2)]
    by (cases d) (auto simp: hinv_def reports_def reported_def src_def)
next
  case (call_write s d b)
  then show ?case by (cases d) (auto simp: hinv_def reports_def reported_def dst_def)
next
  case (call_refused s d b x)
  then show ?case by (cases d) (auto simp: hinv_def reports_def reported_def dst_def)
next
  case (write_returns s d b e n x)
  then show ?case using write_result_fields [OF write_returns(2)]
    by (cases d) (auto simp: hinv_def reports_def reported_def dst_def)
next
  case (report s d)
  then show ?case by (cases d) (auto simp: hinv_def reports_def reported_def dst_def)
next
  case (first s p ps)
  then show ?case by (auto simp: hinv_def reports_def reported_def)
next
  case (timeout s)
  then show ?case by (cases "h_main s") (auto simp: hinv_def reports_def reported_def fullClose_ep)
next
  case (second s p ps)
  then show ?case by (auto simp: hinv_def reports_def reported_def fullClose_ep)
qed

lemma hreach_hinv: "hreach s0 s \<Longrightarrow> hinv s0 \<Longrightarrow> hinv s"
  by (induction rule: hreach.induct) (blast intro: hstep_hinv)+

lemma hinv_working:
  assumes "hinv s" "h_timer s \<noteq> TFired" "h_phase s d \<noteq> Reported"
  shows "\<not> h_once s"
  using assms by (cases "h_main s"; cases d) (auto simp: hinv_def reports_def reported_def of_bool_def split: if_splits)

lemma hinv_returned: "hinv s \<Longrightarrow> h_main s = Returned \<Longrightarrow> h_phase s d = Reported \<and> h_once s \<and> h_ch s = []"
  by (cases d) (auto simp: hinv_def reports_def reported_def of_bool_def split: if_splits)

section \<open>Undisturbed runs deliver everything\<close>

fun clean :: "src_event list \<Rightarrow> bool" where
  "clean (Chunk b # es) = clean es"
| "clean (SrcEOF # es) = True"
| "clean _ = False"

text \<open>
  The kinds under which the end of one copy leaves the other one its source: the connection has a
  half-close, and so has the writer when it is also the reader.
\<close>

definition safe_kinds :: "hio \<Rightarrow> bool" where
  "safe_kinds s \<longleftrightarrow> e_kind (h_ep s EConn) = HalfClose \<and> (h_same s \<longrightarrow> e_kind (h_ep s EW) = HalfClose)"

lemma safe_kinds_src: "safe_kinds s \<Longrightarrow> src_of (h_same s) d' = dst_of d \<Longrightarrow> e_kind (dst s d) = HalfClose"
  by (cases d; cases d') (auto simp: safe_kinds_def src_of_def dst_of_def dst_def split: if_splits)

definition undisturbed :: "hio \<Rightarrow> dir \<Rightarrow> bool" where
  "undisturbed s d \<longleftrightarrow> h_err s d = None \<and> clean (e_rx (src s d)) \<and> e_wr (dst s d) = [] \<and>
     (e_wshut (dst s d) \<or> e_closed (dst s d) \<longrightarrow> h_phase s d = Reported \<or> h_once s) \<and> (e_closed (src s d) \<longrightarrow> h_once s)"

lemma hstep_kinds: "hstep s t \<Longrightarrow> h_same t = h_same s \<and> e_kind (h_ep t i) = e_kind (h_ep s i)"
proof (induction rule: hstep.induct)
  case (read_returns s d e p x)
  with read_result_fields(3) [OF read_returns(2)] show ?case by (simp add: src_def)
next
  case (write_returns s d b e n x)
  with write_result_fields(2) [OF write_returns(2)] show ?case by (simp add: dst_def)
qed (simp_all add: src_def dst_def fullClose_ep)

lemma hstep_fired: "hstep s t \<Longrightarrow> hinv s \<Longrightarrow> h_timer s = TFired \<Longrightarrow> h_timer t = TFired"
  by (induction rule: hstep.induct) (auto simp: hinv_def)

lemma hstep_undisturbed:
  assumes "hstep s t" "hinv s" "safe_kinds s" "h_timer s \<noteq> TFired" "\<forall>d. undisturbed s d"
  shows "h_timer t = TFired \<or> undisturbed t d'"
  using assms
proof (induction rule: hstep.induct)
  case (call_read s d)
  then show ?case
    by (cases "d' = d") (auto simp: undisturbed_def dest!: src_is_dst [OF sym])
next
  case (call_closed s d)
  from call_closed(2,6) have "h_once s" by (auto simp: undisturbed_def)
  with hinv_working [OF call_closed(3,5), of d] call_closed(1) show ?case by simp
next
  case (read_returns s d e p x)
  have o: "\<not> h_once s" using hinv_working [OF read_returns(3,5), of d] read_returns(1) by simp
  note f = read_result_fields [OF read_returns(2)]
  from read_returns(6) o have "\<not> e_closed (src s d)" "clean (e_rx (src s d))" by (auto simp: undisturbed_def)
  then have "x = None" "clean (e_rx e)" using read_returns(2)
    by (auto simp: read_result_def split: if_splits list.splits src_event.splits)
  with o show ?case using read_returns(6) [rule_format, of d'] read_returns(1) f src_is_dst [of s d d']
    by (cases "d' = d") (auto simp: undisturbed_def)
next
  case (call_write s d b)
  have o: "\<not> h_once s" using hinv_working [OF call_write(3,5), of d] call_write(1) by simp
  then show ?case using call_write(6) [rule_format, of d'] call_write(1) src_is_dst [of s d' d]
    by (cases "d' = d") (auto simp: undisturbed_def)
next
  case (call_refused s d b x)
  have o: "\<not> h_once s" using hinv_working [OF call_refused(3,5), of d] call_refused(1) by simp
  with call_refused(6) [rule_format, of d] call_refused(1) have "write_refused (dst s d) = None"
    by (auto simp: undisturbed_def write_refused_def)
  with call_refused(2) show ?case by simp
next
  case (write_returns s d b e n x)
  have o: "\<not> h_once s" using hinv_working [OF write_returns(3,5), of d] write_returns(1) by simp
  note f = write_result_fields [OF write_returns(2)]
  from write_returns(6) [rule_format, of d] o write_returns(1) have w: "\<not> e_closed (dst s d)" "\<not> e_wshut (dst s d)" "e_wr (dst s d) = []"
    by (auto simp: undisturbed_def)
  then have "x = None" "e_wr e = []" using write_returns(2) by (auto simp: write_result_def Let_def)
  then show ?case using write_returns(6) [rule_format, of d'] write_returns(1) f src_is_dst [of s d' d] o w
    by (cases "d' = d") (auto simp: undisturbed_def)
next
  case (report s d)
  show ?case using report(1) report(5) [rule_format, of d'] safe_kinds_src [OF report(3), of d' d] src_is_dst [of s d' d]
    by (cases "d' = d") (auto simp: undisturbed_def)
next
  case (second s p ps)
  then show ?case by (auto simp: undisturbed_def)
qed (auto simp: undisturbed_def)

section \<open>Every run comes to an end\<close>

fun phase_weight :: "phase \<Rightarrow> nat" where
  "phase_weight Ready = 3"
| "phase_weight InRead = 2"
| "phase_weight (Writing _) = 5"
| "phase_weight (InWrite _) = 4"
| "phase_weight Ending = 1"
| "phase_weight Reported = 0"

definition dir_weight :: "hio \<Rightarrow> dir \<Rightarrow> nat" where
  "dir_weight s d = phase_weight (h_phase s d) + 4 * length (e_rx (src s d))"

definition main_weight :: "hio \<Rightarrow> nat" where
  "main_weight s = (case h_main s of FirstWait \<Rightarrow> 4 | SecondWait \<Rightarrow> 2 | Returned \<Rightarrow> 0) + of_bool (h_timer s = TArmed)"

definition hmeasure :: "hio \<Rightarrow> nat" where
  "hmeasure s = dir_weight s SNT + dir_weight s RCV + main_weight s"

lemma hmeasure_dir:
  assumes "dir_weight t d < dir_weight s d" "\<And>d'. d' \<noteq> d \<Longrightarrow> dir_weight t d' = dir_weight s d'" "main_weight t = main_weight s"
  shows "hmeasure t < hmeasure s"
  using assms(1,3) assms(2) [of SNT] assms(2) [of RCV] by (cases d) (simp_all add: hmeasure_def)

lemma hmeasure_main:
  assumes "\<And>d. dir_weight t d = dir_weight s d" "main_weight t < main_weight s"
  shows "hmeasure t < hmeasure s"
  using assms by (simp add: hmeasure_def)

lemma hstep_measure: "hstep s t \<Longrightarrow> hinv s \<Longrightarrow> hmeasure t < hmeasure s"
proof (induction rule: hstep.induct)
  case (call_read s d)
  then show ?case
    by (intro hmeasure_dir [of _ d]) (auto simp: dir_weight_def main_weight_def)
next
  case (call_closed s d)
  then show ?case
    by (intro hmeasure_dir [of _ d]) (auto simp: dir_weight_def main_weight_def)
next
  case (read_returns s d e p x)
  then have "phase_weight p + 4 * length (e_rx e) < 2 + 4 * length (e_rx (src s d))"
    by (auto simp: read_result_def split: if_splits list.splits src_event.splits)
  with read_returns(1) show ?case
    by (intro hmeasure_dir [of _ d]) (auto simp: dir_weight_def main_weight_def)
next
  case (call_write s d b)
  note f = set_dst_frame(1) [of "dst s d", OF refl]
  from call_write(1) show ?case
    by (intro hmeasure_dir [of _ d]) (auto simp: dir_weight_def main_weight_def f simp del: src_set_dir)
next
  case (call_refused s d b x)
  note f = set_dst_frame(1) [of "dst s d", OF refl]
  from call_refused(1) show ?case
    by (intro hmeasure_dir [of _ d]) (auto simp: dir_weight_def main_weight_def f simp del: src_set_dir)
next
  case (write_returns s d b e n x)
  note f = set_dst_frame(1) [OF write_result_fields(1) [OF write_returns(2)]]
  from write_returns(1) show ?case
    by (intro hmeasure_dir [of _ d]) (auto simp: dir_weight_def main_weight_def f simp del: src_set_dir)
next
  case (report s d)
  note f = set_dst_frame(1) [of "signalEndOfWrite (dst s d)", OF signal_fields(1)]
  from report(1) show ?case
    by (intro hmeasure_dir [of _ d]) (auto simp: dir_weight_def main_weight_def f simp del: src_set_dir)
next
  case (first s p ps)
  then show ?case by (intro hmeasure_main) (auto simp: dir_weight_def main_weight_def)
next
  case (timeout s)
  then show ?case by (intro hmeasure_main) (auto simp: dir_weight_def main_weight_def split: main_phase.splits)
next
  case (second s p ps)
  then show ?case by (intro hmeasure_main) (auto simp: dir_weight_def main_weight_def)
qed

lemma hstep_fixed: "hstep s t \<Longrightarrow> e_cancel (h_ep t i) = e_cancel (h_ep s i)"
proof (induction rule: hstep.induct)
  case (read_returns s d e p x)
  with read_result_fields(4) [OF read_returns(2)] show ?case by (simp add: src_def)
next
  case (write_returns s d b e n x)
  with write_result_fields(3) [OF write_returns(2)] show ?case by (simp add: dst_def)
qed (simp_all add: src_def dst_def fullClose_ep)

text \<open>Endpoints whose close wakes up a blocked read and a stalled write: the connection, the writer and a reader of
  its own.\<close>

definition wakeable :: "hio \<Rightarrow> bool" where
  "wakeable s \<longleftrightarrow> (\<forall>i. (i = ER \<longrightarrow> \<not> h_same s) \<longrightarrow> e_cancel (h_ep s i) \<and> e_kind (h_ep s i) \<noteq> NoCloser)"

lemma hstep_wakeable: "hstep s t \<Longrightarrow> wakeable s \<Longrightarrow> wakeable t"
  using hstep_fixed [of s t] hstep_kinds [of s t] by (simp add: wakeable_def)

lemma wakeable_closed:
  assumes "hinv s" "wakeable s" "h_once s"
  shows "e_closed (src s d) \<and> e_cancel (src s d)" "e_closed (dst s d) \<and> e_cancel (dst s d)"
proof -
  have "e_closed (h_ep s i) \<and> e_cancel (h_ep s i)" if "i = ER \<longrightarrow> \<not> h_same s" for i
    using assms that unfolding hinv_def wakeable_def by blast
  moreover have "src_of (h_same s) d = ER \<longrightarrow> \<not> h_same s" "dst_of d \<noteq> ER" by (cases d; simp add: src_of_def dst_of_def)+
  ultimately show "e_closed (src s d) \<and> e_cancel (src s d)" "e_closed (dst s d) \<and> e_cancel (dst s d)"
    unfolding src_def dst_def by blast+
qed

lemma read_call_progress: "h_phase s d = Ready \<Longrightarrow> \<exists>t. hstep s t"
  by (cases "e_closed (src s d)") (blast intro: hstep.intros)+

lemma write_call_progress: "h_phase s d = Writing b \<Longrightarrow> \<exists>t. hstep s t"
  by (cases "write_refused (dst s d)") (blast intro: hstep.intros)+

lemma write_progress:
  assumes "h_phase s d = InWrite b" "write_result b (dst s d) \<noteq> None"
  shows "\<exists>t. hstep s t"
proof -
  from assms(2) obtain e n x where "write_result b (dst s d) = Some (e, n, x)" by auto
  from write_returns [OF assms(1) this] show ?thesis by blast
qed

lemma dir_progress:
  assumes "hinv s" "wakeable s" "h_once s" "h_phase s d \<noteq> Reported"
  shows "\<exists>t. hstep s t"
proof (cases "h_phase s d")
  case InRead
  from wakeable_closed(1) [OF assms(1-3)] have "read_result (src s d) = Some (src s d, Ending, Some (Io ErrClosed))"
    unfolding read_result_def by simp
  from read_returns [OF InRead this] show ?thesis by blast
next
  case (InWrite b)
  from wakeable_closed(2) [OF assms(1-3)] have "write_result b (dst s d) \<noteq> None"
    unfolding write_result_def Let_def by (auto split: list.split wr_event.split)
  from write_progress [OF InWrite this] show ?thesis .
next
  case Ending
  from report [OF this] show ?thesis by blast
qed (use assms(4) read_call_progress write_call_progress in blast)+

lemma second_progress:
  assumes "hinv s" "wakeable s" "h_main s = SecondWait"
  shows "\<exists>t. hstep s t"
proof (cases "h_timer s = TArmed")
  case True
  from timeout [OF this] show ?thesis by blast
next
  case False
  with assms(1,3) have o: "h_once s" by (simp add: hinv_def)
  show ?thesis
  proof (cases "\<exists>d. h_phase s d \<noteq> Reported")
    case True
    with dir_progress [OF assms(1,2) o] show ?thesis by blast
  next
    case False
    with assms(1,3) have "length (h_ch s) = 1" by (simp add: hinv_def reports_def reported_def)
    then obtain p where "h_ch s = [p]" by (cases "h_ch s") auto
    from second [OF assms(3) this] show ?thesis by blast
  qed
qed

lemma hstep_second: "hstep s t \<Longrightarrow> h_main s \<noteq> FirstWait \<Longrightarrow> h_main t \<noteq> FirstWait"
  by (induction rule: hstep.induct) auto

lemma hreach_inv:
  assumes "hreach s t" "hinv s" "wakeable s" "h_main s \<noteq> FirstWait"
  shows "hinv t \<and> wakeable t \<and> h_main t \<noteq> FirstWait"
  using assms by (induction rule: hreach.induct) (auto intro: hstep_hinv hstep_wakeable dest: hstep_second)

lemma no_infinite_run:
  assumes "\<And>i. hstep (f i) (f (Suc i))" "hinv (f 0)"
  shows False
proof -
  have inv: "hinv (f i)" for i by (induction i) (use assms hstep_hinv in blast)+
  have "hmeasure (f i) + i \<le> hmeasure (f 0)" for i
  proof (induction i)
    case (Suc i)
    with hstep_measure [OF assms(1) inv, of i] show ?case by linarith
  qed simp
  from this [of "Suc (hmeasure (f 0))"] show False by simp
qed

text \<open>A source that ends: its reads never block for good.\<close>

fun ends :: "src_event list \<Rightarrow> bool" where
  "ends [] = False"
| "ends (Chunk b # es) = ends es"
| "ends (_ # es) = True"

lemma hstep_ends: "hstep s t \<Longrightarrow> ends (e_rx (src s d)) \<Longrightarrow> ends (e_rx (src t d))"
proof (induction rule: hstep.induct)
  case (read_returns s d' e p x)
  then have "ends (e_rx (src s d')) \<Longrightarrow> ends (e_rx e)"
    by (auto simp: read_result_def split: if_splits list.splits src_event.splits)
  with read_returns show ?case by auto
next
  case (call_write s d' b)
  with set_dst_frame(1) [of "dst s d'", OF refl] show ?case by (simp del: src_set_dir)
next
  case (call_refused s d' b x)
  with set_dst_frame(1) [of "dst s d'", OF refl] show ?case by (simp del: src_set_dir)
next
  case (write_returns s d' b e n x)
  with set_dst_frame(1) [OF write_result_fields(1) [OF write_returns(2)]] show ?case by (simp del: src_set_dir)
next
  case (report s d')
  with set_dst_frame(1) [OF signal_fields(1)] show ?case by (simp del: src_set_dir)
qed auto

text \<open>A destination whose writes never stall.\<close>

definition flows :: "endpoint \<Rightarrow> bool" where
  "flows e \<longleftrightarrow> (\<forall>v \<in> set (e_wr e). case v of WrStall k \<Rightarrow> False | _ \<Rightarrow> True)"

lemma flows_write: "flows e \<Longrightarrow> write_result b e \<noteq> None"
  by (auto simp: flows_def write_result_def Let_def split: list.splits wr_event.splits)

lemma flows_same: "e_wr e' = e_wr e \<Longrightarrow> flows e' = flows e"
  by (simp add: flows_def)

lemma hstep_flows: "hstep s t \<Longrightarrow> flows (h_ep s i) \<Longrightarrow> flows (h_ep t i)"
proof (induction rule: hstep.induct)
  case (read_returns s d e p x)
  with read_result_fields(2) [OF read_returns(2)] show ?case by (auto simp: flows_def src_def)
next
  case (write_returns s d b e n x)
  then have "flows (dst s d) \<Longrightarrow> flows e"
    by (auto simp: flows_def write_result_def Let_def split: if_splits list.splits wr_event.splits)
  with write_returns show ?case by (auto simp: dst_def)
qed (auto simp: src_def dst_def fullClose_ep flows_def)

lemma first_progress:
  assumes "hinv s" "h_main s = FirstWait" "ends (e_rx (src s d))" "flows (dst s d)"
  shows "\<exists>t. hstep s t"
proof (cases "h_phase s d")
  case InRead
  from assms(3) have "read_result (src s d) \<noteq> None"
    by (cases "e_rx (src s d)") (auto simp: read_result_def split: src_event.splits)
  then obtain e p x where "read_result (src s d) = Some (e, p, x)" by auto
  from read_returns [OF InRead this] show ?thesis by blast
next
  case (InWrite b)
  from write_progress [OF InWrite flows_write [OF assms(4)]] show ?thesis .
next
  case Ending
  from report [OF this] show ?thesis by blast
next
  case Reported
  then have "0 < reports s" by (cases d) (simp_all add: reports_def reported_def)
  with assms(1,2) obtain p ps where "h_ch s = p # ps" by (cases "h_ch s") (auto simp: hinv_def)
  from first [OF assms(2) this] show ?thesis by blast
qed (use read_call_progress write_call_progress in blast)+

lemma run_bounded:
  assumes "\<And>i. i < n \<Longrightarrow> hstep (f i) (f (Suc i))" "hinv (f 0)"
  shows "n \<le> hmeasure (f 0)"
proof -
  have "i \<le> n \<longrightarrow> hinv (f i) \<and> hmeasure (f i) + i \<le> hmeasure (f 0)" for i
  proof (induction i)
    case (Suc i)
    then show ?case using hstep_measure [OF assms(1), of i] hstep_hinv [OF assms(1), of i] by auto
  qed (simp add: assms(2))
  from this [of n] show ?thesis by simp
qed

section \<open>An executable scheduler\<close>

text \<open>The steps as moves that a schedule picks: a copy, the main goroutine or the timer.\<close>

datatype move = Copy dir | Main | Timer

definition hmove :: "move \<Rightarrow> hio \<Rightarrow> hio option" where
  "hmove m s =
     (case m of
        Copy d \<Rightarrow>
          (case h_phase s d of
             Ready \<Rightarrow>
               Some (if e_closed (src s d) then set_dir d Ending (Some (Io ErrClosed)) (src_of (h_same s) d) (src s d) s
                     else set_dir d InRead None (src_of (h_same s) d) (src s d) s)
           | InRead \<Rightarrow> map_option (\<lambda>(e, p, x). set_dir d p x (src_of (h_same s) d) e s) (read_result (src s d))
           | Writing b \<Rightarrow>
               Some (case write_refused (dst s d) of
                 None \<Rightarrow> set_dir d (InWrite b) None (dst_of d) (dst s d) s
               | Some x \<Rightarrow> set_dir d Ending (Some x) (dst_of d) (dst s d) s)
           | InWrite b \<Rightarrow>
               map_option (\<lambda>(e, n, x). (set_dir d (if x = None then Ready else Ending) x (dst_of d) e s)
                 \<lparr>h_count := (h_count s)(d := h_count s d + n)\<rparr>) (write_result b (dst s d))
           | Ending \<Rightarrow>
               Some ((set_dir d Reported (h_err s d) (dst_of d) (signalEndOfWrite (dst s d)) s)
                 \<lparr>h_ch := h_ch s @ [\<lparr>pr_dir = d, pr_bytes = h_count s d, pr_err = h_err s d\<rparr>]\<rparr>)
           | Reported \<Rightarrow> None)
      | Main \<Rightarrow>
          (case (h_main s, h_ch s) of
             (FirstWait, p # ps) \<Rightarrow> Some (s\<lparr>h_main := SecondWait, h_ch := ps, h_timer := TArmed\<rparr>)
           | (SecondWait, p # ps) \<Rightarrow>
               Some (fullClose (s\<lparr>h_main := Returned, h_ch := ps,
                 h_timer := (if h_timer s = TArmed then TStopped else h_timer s)\<rparr>))
           | _ \<Rightarrow> None)
      | Timer \<Rightarrow> (if h_timer s = TArmed then Some (fullClose (s\<lparr>h_timer := TFired\<rparr>)) else None))"

lemma second_stop:
  "h_main s = SecondWait \<Longrightarrow> h_ch s = p # ps \<Longrightarrow> h_timer s = TArmed \<Longrightarrow>
    hstep s (fullClose (s\<lparr>h_main := Returned, h_ch := ps, h_timer := TStopped\<rparr>))"
  using second [of s p ps] by simp

lemma second_plain:
  "h_main s = SecondWait \<Longrightarrow> h_ch s = p # ps \<Longrightarrow> h_timer s \<noteq> TArmed \<Longrightarrow>
    hstep s (fullClose (s\<lparr>h_main := Returned, h_ch := ps\<rparr>))"
  using second [of s p ps] by simp

lemmas move_intros = hstep.intros second_stop second_plain

lemma hmove_step:
  assumes "hmove m s = Some t"
  shows "hstep s t"
proof (cases "\<exists>d b. m = Copy d \<and> h_phase s d = InWrite b")
  case True
  then obtain d b where d: "m = Copy d" "h_phase s d = InWrite b" by blast
  with assms obtain e n x where w: "write_result b (dst s d) = Some (e, n, x)"
    and t: "t = (set_dir d (if x = None then Ready else Ending) x (dst_of d) e s)\<lparr>h_count := (h_count s)(d := h_count s d + n)\<rparr>"
    by (auto simp: hmove_def)
  show ?thesis unfolding t by (rule write_returns [OF d(2) w])
next
  case False
  with assms show ?thesis
    by (auto simp: hmove_def intro: move_intros split: move.splits phase.splits prod.splits main_phase.splits list.splits option.splits if_splits)
qed

lemma step_hmove: "hstep s t \<Longrightarrow> \<exists>m. hmove m s = Some t"
proof (induction rule: hstep.induct)
  case (call_read s d)
  then show ?case by (intro exI [of _ "Copy d"]) (simp add: hmove_def)
next
  case (call_closed s d)
  then show ?case by (intro exI [of _ "Copy d"]) (simp add: hmove_def)
next
  case (read_returns s d e p x)
  then show ?case by (intro exI [of _ "Copy d"]) (simp add: hmove_def)
next
  case (call_write s d b)
  then show ?case by (intro exI [of _ "Copy d"]) (simp add: hmove_def)
next
  case (call_refused s d b x)
  then show ?case by (intro exI [of _ "Copy d"]) (simp add: hmove_def)
next
  case (write_returns s d b e n x)
  then show ?case by (intro exI [of _ "Copy d"]) (simp add: hmove_def)
next
  case (report s d)
  then show ?case by (intro exI [of _ "Copy d"]) (simp add: hmove_def)
next
  case (first s p ps)
  then show ?case by (intro exI [of _ Main]) (simp add: hmove_def)
next
  case (timeout s)
  then show ?case by (intro exI [of _ Timer]) (simp add: hmove_def)
next
  case (second s p ps)
  then show ?case by (intro exI [of _ Main]) (simp add: hmove_def)
qed

fun hrun :: "move list \<Rightarrow> hio \<Rightarrow> hio" where
  "hrun [] s = s"
| "hrun (m # ms) s = (case hmove m s of None \<Rightarrow> hrun ms s | Some t \<Rightarrow> hrun ms t)"

lemma hreach_trans: "hreach s t \<Longrightarrow> hreach s0 s \<Longrightarrow> hreach s0 t"
  by (induction rule: hreach.induct) (auto intro: hreach.step)

lemma hrun_reach: "hreach s (hrun ms s)"
proof (induction ms arbitrary: s)
  case (Cons m ms)
  show ?case
  proof (cases "hmove m s")
    case (Some t)
    from hreach.step [OF hreach.start hmove_step [OF this]] Cons.IH [of t] Some show ?thesis
      by (auto intro: hreach_trans)
  qed (simp add: Cons.IH)
qed (simp add: hreach.start)

section \<open>The runners\<close>

record run_env =
  dial_proxy :: "string \<Rightarrow> endpoint res"
  shell_parse :: "string \<Rightarrow> string list res"
  run_cmd :: "string list \<Rightarrow> err option"

text \<open>What a runner does with the connection before it is closed for good.\<close>

datatype route = ProxyFailed err | CopyWith endpoint "endpoint option" | CmdFailed err | CmdRan "string list" "err option"

definition proxyConn :: "run_env \<Rightarrow> string \<Rightarrow> route" where
  "proxyConn E proxy =
     (case dial_proxy E proxy of
        Inl e \<Rightarrow> ProxyFailed (Wrapf ''can't connect to proxy target: %s'' [] e)
      | Inr p \<Rightarrow> CopyWith p None)"

definition executeCmd :: "run_env \<Rightarrow> string \<Rightarrow> route" where
  "executeCmd E cmd =
     (case shell_parse E cmd of
        Inl e \<Rightarrow> CmdFailed (Wrapf ''can't parse -e command: %s'' [] e)
      | Inr args \<Rightarrow> if args = [] then CmdFailed (New ''can't parse -e command: empty'') else CmdRan args (run_cmd E args))"

definition Router :: "run_env \<Rightarrow> endpoint \<Rightarrow> endpoint \<Rightarrow> 'c params \<Rightarrow> route" where
  "Router E stdout stdin p =
     (if p_proxy p \<noteq> [] then proxyConn E (p_proxy p)
      else if p_exec p \<noteq> [] then executeCmd E (p_exec p)
      else CopyWith stdout (Some stdin))"

section \<open>What handleIO guarantees\<close>

lemma copies_start:
  assumes "e_tx conn = []" "e_tx w = []"
  shows "copies (stream (e_rx (src (handleIO_start conn w r) d))) (handleIO_start conn w r) d"
  using assms by (cases d) (simp_all add: copies_def copied_def handleIO_start_def dst_def dst_of_def)

lemma src_start:
  "src (handleIO_start conn w r) SNT = (case r of None \<Rightarrow> w | Some x \<Rightarrow> x)" "src (handleIO_start conn w r) RCV = conn"
  by (simp_all add: handleIO_start_def src_def src_of_def split: option.split)

text \<open>What closing everything must be able to end: reads and writes of the connection, the writer and the reader.\<close>

definition local_ends :: "endpoint \<Rightarrow> endpoint option \<Rightarrow> endpoint list" where
  "local_ends w r = w # (case r of None \<Rightarrow> [] | Some x \<Rightarrow> [x])"

lemma wakeable_start:
  assumes "\<forall>x \<in> set (conn # local_ends w r). e_cancel x \<and> e_kind x \<noteq> NoCloser"
  shows "wakeable (handleIO_start conn w r)"
  using assms by (auto simp: wakeable_def local_ends_def handleIO_start_def split: epid.split option.splits)

lemma dst_conn: "dst s SNT = h_ep s EConn" "dst s RCV = h_ep s EW"
  by (simp_all add: dst_def dst_of_def)

text \<open>
  Whatever the interleaving of the two copies, the main goroutine and the timer, whatever fails and
  whenever everything is closed: what has been written to the secured connection is at every moment a
  prefix of what the local reader delivers, and what has been written to the local writer a prefix of
  what the connection delivers. Nothing is lost in the middle, reordered or duplicated.
\<close>

lemma handle_io_prefix:
  assumes "hreach (handleIO_start conn w r) s" "e_tx conn = []" "e_tx w = []"
  shows "prefix (e_tx (h_ep s EConn)) (stream (e_rx (case r of None \<Rightarrow> w | Some x \<Rightarrow> x))) \<and>
    prefix (e_tx (h_ep s EW)) (stream (e_rx conn))"
proof -
  have "prefix (e_tx (dst s d)) (stream (e_rx (src (handleIO_start conn w r) d)))" for d
    using hreach_copies [OF assms(1) copies_start [OF assms(2,3)], of d]
    by (auto simp: copies_def copied_def split: phase.splits if_splits)
  from this [of SNT] this [of RCV] show ?thesis by (simp add: src_start dst_conn)
qed

definition ex_a :: endpoint where
  "ex_a = fresh_ep HalfClose True [Chunk [1, 2], Chunk [3], SrcEOF] []"

definition ex_b :: endpoint where
  "ex_b = fresh_ep HalfClose True [Chunk [7], SrcEOF] []"

definition ex_schedule :: "move list" where
  "ex_schedule = [Copy SNT, Copy SNT, Copy RCV, Copy SNT, Copy RCV, Copy SNT, Copy SNT, Copy SNT, Copy SNT, Main, Copy RCV, Copy RCV,
     Copy RCV, Copy RCV, Copy RCV, Copy RCV, Copy RCV, Copy RCV, Copy RCV, Main]"

lemma undisturbed_reach:
  assumes "hreach s0 s" "hinv s0" "safe_kinds s0" "\<forall>d. undisturbed s0 d"
  shows "safe_kinds s \<and> hinv s \<and> (h_timer s \<noteq> TFired \<longrightarrow> (\<forall>d. undisturbed s d))"
  using assms
proof (induction rule: hreach.induct)
  case (step s t)
  then have IH: "safe_kinds s" "hinv s" "h_timer s \<noteq> TFired \<longrightarrow> (\<forall>d. undisturbed s d)" by blast+
  have "safe_kinds t" using hstep_kinds [OF step(2)] IH(1) by (simp add: safe_kinds_def)
  moreover have "\<forall>d. undisturbed t d" if "h_timer t \<noteq> TFired"
    using hstep_undisturbed [OF step(2) IH(2,1)] IH(3) hstep_fired [OF step(2) IH(2)] that by blast
  ultimately show ?case using hstep_hinv [OF step(2) IH(2)] by blast
qed blast

definition ready_ep :: "endpoint \<Rightarrow> bool" where
  "ready_ep e \<longleftrightarrow> e_tx e = [] \<and> e_wr e = [] \<and> \<not> e_closed e \<and> \<not> e_wshut e"

lemma hreach_kinds: "hreach s0 s \<Longrightarrow> h_same s = h_same s0 \<and> e_kind (h_ep s i) = e_kind (h_ep s0 i)"
proof (induction rule: hreach.induct)
  case (step s t)
  with hstep_kinds [OF step(2), of i] show ?case by simp
qed simp

lemma handle_io_delivered:
  assumes "hreach (handleIO_start conn w r) s" "h_main s = Returned" "h_timer s \<noteq> TFired"
    and "ready_ep conn" "ready_ep w" "r = None \<or> (\<exists>x. r = Some x \<and> \<not> e_closed x)"
    and "clean (e_rx conn)" "clean (e_rx (case r of None \<Rightarrow> w | Some x \<Rightarrow> x))"
    and "e_kind conn = HalfClose" "r = None \<longrightarrow> e_kind w = HalfClose"
  shows "e_tx (h_ep s EConn) = stream (e_rx (case r of None \<Rightarrow> w | Some x \<Rightarrow> x)) \<and> e_tx (h_ep s EW) = stream (e_rx conn) \<and>
    e_closed (h_ep s EConn) \<and> (e_kind w \<noteq> NoCloser \<longrightarrow> e_closed (h_ep s EW)) \<and>
    (\<forall>x. r = Some x \<and> e_kind x \<noteq> NoCloser \<longrightarrow> e_closed (h_ep s ER))"
proof -
  let ?s0 = "handleIO_start conn w r"
  have i: "hinv ?s0" by (rule hinv_start) (use assms(4) in \<open>simp add: ready_ep_def\<close>)
  have k: "safe_kinds ?s0" using assms(9,10) by (simp add: safe_kinds_def handleIO_start_def)
  have "undisturbed ?s0 d" for d
    using assms(4-8) by (cases d) (auto simp: undisturbed_def src_start dst_conn ready_ep_def, auto simp: handleIO_start_def)
  then have "\<forall>d. undisturbed ?s0 d" by blast
  from undisturbed_reach [OF assms(1) i k this] assms(3) have u: "safe_kinds s" "hinv s" "h_err s d = None" for d
    by (auto simp: undisturbed_def)
  note f = hinv_returned [OF u(2) assms(2)]
  have "e_tx (dst s d) = stream (e_rx (src ?s0 d))" for d
    using hreach_copies [OF assms(1) copies_start, of d] assms(4,5) f [of d] u(3) [of d]
    by (simp add: ready_ep_def copies_def copied_def)
  moreover have c: "e_closed (h_ep s i)" if "i = ER \<longrightarrow> \<not> h_same s" "e_kind (h_ep s i) \<noteq> NoCloser" for i
    using u(2) f that unfolding hinv_def by blast
  have kinds: "h_same s = (r = None)" "e_kind (h_ep s EConn) = e_kind conn" "e_kind (h_ep s EW) = e_kind w"
    "r = Some x \<Longrightarrow> e_kind (h_ep s ER) = e_kind x" for x
    using hreach_kinds [OF assms(1)] by (simp_all add: handleIO_start_def)
  have "e_closed (h_ep s EConn) \<and> (e_kind w \<noteq> NoCloser \<longrightarrow> e_closed (h_ep s EW)) \<and>
      (\<forall>x. r = Some x \<and> e_kind x \<noteq> NoCloser \<longrightarrow> e_closed (h_ep s ER))"
    using c [of EConn] c [of EW] c [of ER] kinds assms(9) by auto
  ultimately show ?thesis using src_start dst_conn by metis
qed


definition ex_out :: endpoint where
  "ex_out = fresh_ep OnlyClose True [] []"

definition ex_in :: endpoint where
  "ex_in = fresh_ep OnlyClose True [Chunk [7], SrcEOF] []"


text \<open>
  Once one direction is done, \<open>handleIO\<close> always returns: if closing the endpoints wakes up a
  blocked read and a stalled write - as for sockets and pipes -, then from every state in which the main goroutine waits for the second
  report, every run of steps is finite and no run can get stuck before the return.
\<close>

theorem handle_io_returns:
  assumes "hreach (handleIO_start conn w r) s" "h_main s = SecondWait" "\<not> e_closed conn"
    and "\<forall>x \<in> set (conn # local_ends w r). e_cancel x \<and> e_kind x \<noteq> NoCloser"
  shows "(\<forall>t. hreach s t \<and> (\<nexists>u. hstep t u) \<longrightarrow> h_main t = Returned) \<and> (\<nexists>f. f 0 = s \<and> (\<forall>i. hstep (f i) (f (Suc i))))"
proof -
  let ?s0 = "handleIO_start conn w r"
  from wakeable_start [OF assms(4)] hinv_start [OF assms(3), of w r] have "hinv ?s0 \<and> wakeable ?s0" by blast
  with assms(1) have w: "hinv s \<and> wakeable s"
    by (induction rule: hreach.induct) (auto intro: hstep_hinv hstep_wakeable)
  have "h_main t = Returned" if "hreach s t" "\<nexists>u. hstep t u" for t
  proof -
    from hreach_inv [OF that(1)] w assms(2) have "hinv t" "wakeable t" "h_main t \<noteq> FirstWait" by auto
    with second_progress [of t] that(2) show ?thesis by (cases "h_main t") auto
  qed
  with no_infinite_run w show ?thesis by blast
qed

text \<open>
  C33. As soon as one of the two sources ends - the peer closes, or the local input is over - and the writes of that
  direction do not stall, \<open>handleIO\<close> is bound to return, provided that closing the connection, the local writer and the local
  reader wakes up the reads and writes that are blocked in them (sockets and pipes; not a terminal, see
  \<open>handle_io_terminal_hangs\<close>). Whatever the schedule, no state it can reach is stuck before the return, also
  when the other source never delivers anything again and the writes of the other direction stall, and the
  number of steps is bounded by a measure of the start (the lengths of the two scripts). Both hypotheses are needed:
  \<open>handle_io_terminal_hangs\<close>, \<open>handle_io_stall_hangs\<close>.
\<close>

theorem handle_io_completes:
  assumes "\<not> e_closed conn" "\<forall>x \<in> set (conn # local_ends w r). e_cancel x \<and> e_kind x \<noteq> NoCloser"
    and "ends (e_rx conn) \<and> flows w \<or> ends (e_rx (case r of None \<Rightarrow> w | Some x \<Rightarrow> x)) \<and> flows conn"
  shows "(\<forall>s. hreach (handleIO_start conn w r) s \<and> h_main s \<noteq> Returned \<longrightarrow> (\<exists>t. hstep s t)) \<and>
    (\<forall>f n. f 0 = handleIO_start conn w r \<and> (\<forall>i < n. hstep (f i) (f (Suc i))) \<longrightarrow>
      n \<le> 4 * (length (e_rx conn) + length (e_rx (case r of None \<Rightarrow> w | Some x \<Rightarrow> x))) + 10)"
proof -
  let ?s0 = "handleIO_start conn w r"
  have "dst ?s0 RCV = w" "dst ?s0 SNT = conn" by (simp_all add: dst_conn handleIO_start_def)
  with assms(3) obtain d where d: "ends (e_rx (src ?s0 d))" "flows (dst ?s0 d)" using src_start by metis
  have inv: "hinv s \<and> wakeable s \<and> ends (e_rx (src s d)) \<and> flows (dst s d)" if "hreach ?s0 s" for s
    using that hinv_start [OF assms(1), of w r] wakeable_start [OF assms(2)] d
    by (induction rule: hreach.induct) (auto intro: hstep_hinv hstep_wakeable hstep_ends hstep_flows simp: dst_def)
  have "\<exists>t. hstep s t" if "hreach ?s0 s" "h_main s \<noteq> Returned" for s
    using inv [OF that(1)] that(2) first_progress [of s d] second_progress [of s] by (cases "h_main s") auto
  moreover have "hmeasure ?s0 = 4 * (length (e_rx conn) + length (e_rx (case r of None \<Rightarrow> w | Some x \<Rightarrow> x))) + 10"
    unfolding hmeasure_def dir_weight_def src_start by (simp add: main_weight_def handleIO_start_def)
  with run_bounded hinv_start [OF assms(1), of w r]
  have "n \<le> 4 * (length (e_rx conn) + length (e_rx (case r of None \<Rightarrow> w | Some x \<Rightarrow> x))) + 10"
    if "f 0 = ?s0" "\<forall>i < n. hstep (f i) (f (Suc i))" for f n using that by metis
  ultimately show ?thesis by blast
qed

text \<open>The peer has closed; the local input sends a chunk on which the connection's write stalls.\<close>

definition ex_peer_closed :: endpoint where
  "ex_peer_closed = fresh_ep HalfClose True [SrcEOF] [WrStall 1]"

definition ex_sender :: endpoint where
  "ex_sender = fresh_ep OnlyClose True [Chunk [1, 2]] []"

definition ex_stalled :: "move list" where
  "ex_stalled = [Copy SNT, Copy SNT, Copy SNT, Copy RCV, Copy RCV, Copy RCV, Main]"

theorem handle_io_completes_witness:
  "h_phase (hrun ex_stalled (handleIO_start ex_peer_closed ex_out (Some ex_sender))) SNT = InWrite [1, 2] \<and>
   Option.is_none (hmove (Copy SNT) (hrun ex_stalled (handleIO_start ex_peer_closed ex_out (Some ex_sender)))) \<and>
   (\<exists>t. hstep (hrun ex_stalled (handleIO_start ex_peer_closed ex_out (Some ex_sender))) t)"
proof -
  have "\<not> e_closed ex_peer_closed" "ends (e_rx ex_peer_closed) \<and> flows ex_out"
    "\<forall>x \<in> set (ex_peer_closed # local_ends ex_out (Some ex_sender)). e_cancel x \<and> e_kind x \<noteq> NoCloser"
    by (simp_all add: ex_peer_closed_def ex_sender_def ex_out_def fresh_ep_def flows_def local_ends_def)
  moreover have "h_main (hrun ex_stalled (handleIO_start ex_peer_closed ex_out (Some ex_sender))) \<noteq> Returned" by code_simp
  ultimately have "\<exists>t. hstep (hrun ex_stalled (handleIO_start ex_peer_closed ex_out (Some ex_sender))) t"
    using handle_io_completes [of ex_peer_closed ex_out "Some ex_sender"] hrun_reach by blast
  moreover have "h_phase (hrun ex_stalled (handleIO_start ex_peer_closed ex_out (Some ex_sender))) SNT = InWrite [1, 2] \<and>
      Option.is_none (hmove (Copy SNT) (hrun ex_stalled (handleIO_start ex_peer_closed ex_out (Some ex_sender))))" by code_simp
  ultimately show ?thesis by blast
qed

definition ex_half :: "move list" where
  "ex_half = [Copy SNT, Copy SNT, Copy SNT, Copy SNT, Copy SNT, Copy SNT, Copy SNT, Main]"

theorem handle_io_returns_witness:
  "h_main (hrun ex_half (handleIO_start ex_a ex_b None)) = SecondWait \<and>
   (\<nexists>f. f 0 = hrun ex_half (handleIO_start ex_a ex_b None) \<and> (\<forall>i. hstep (f i) (f (Suc i))))"
proof -
  have m: "h_main (hrun ex_half (handleIO_start ex_a ex_b None)) = SecondWait" by code_simp
  have "\<not> e_closed ex_a" "\<forall>x \<in> set (ex_a # local_ends ex_b None). e_cancel x \<and> e_kind x \<noteq> NoCloser"
    by (simp_all add: ex_a_def ex_b_def fresh_ep_def local_ends_def)
  from handle_io_returns [OF hrun_reach m this] m show ?thesis by blast
qed

lemma hrun_stuck:
  assumes "Option.is_none (hmove (Copy SNT) s) \<and> Option.is_none (hmove (Copy RCV) s) \<and> Option.is_none (hmove Main s) \<and>
    Option.is_none (hmove Timer s)"
  shows "\<nexists>t. hstep s t"
proof -
  have "hmove m s = None" for m
    using assms by (cases m; cases "case m of Copy d \<Rightarrow> d | _ \<Rightarrow> SNT") (auto simp: Option.is_none_def)
  then show ?thesis using step_hmove by fastforce
qed

text \<open>
  The safety timer does not break every deadlock: in chat mode on a terminal - whose close does not
  wake up the read in progress - \<open>handleIO\<close> can reach a state after the peer has closed and the timer has
  closed everything in which nothing can happen any more and the call has not returned.
\<close>

definition ex_terminal :: endpoint where
  "ex_terminal = fresh_ep OnlyClose False [] []"

theorem handle_io_terminal_hangs:
  "\<exists>s. hreach (handleIO_start ex_peer_closed ex_out (Some ex_terminal)) s \<and>
     h_timer s = TFired \<and> h_main s = SecondWait \<and> (\<nexists>t. hstep s t)"
proof -
  let ?s = "hrun [Copy SNT, Copy RCV, Copy RCV, Copy RCV, Main, Timer] (handleIO_start ex_peer_closed ex_out (Some ex_terminal))"
  have "\<nexists>t. hstep ?s t" by (rule hrun_stuck) code_simp
  moreover have "h_timer ?s = TFired \<and> h_main ?s = SecondWait" by code_simp
  ultimately show ?thesis using hrun_reach by blast
qed

text \<open>
  And the timer is armed by the first report only: when the peer has sent data and closed, but the local writer stalls
  on the data and the local input is silent, no direction is done and the call waits for good.
\<close>

theorem handle_io_stall_hangs:
  "\<exists>s. hreach (handleIO_start (fresh_ep HalfClose True [Chunk [1], SrcEOF] []) (fresh_ep OnlyClose True [] [WrStall 0])
       (Some (fresh_ep OnlyClose True [] []))) s \<and> h_timer s = TOff \<and> h_main s = FirstWait \<and> (\<nexists>t. hstep s t)"
proof -
  let ?s = "hrun [Copy SNT, Copy RCV, Copy RCV, Copy RCV]
    (handleIO_start (fresh_ep HalfClose True [Chunk [1], SrcEOF] []) (fresh_ep OnlyClose True [] [WrStall 0])
       (Some (fresh_ep OnlyClose True [] [])))"
  have "\<nexists>t. hstep ?s t" by (rule hrun_stuck) code_simp
  moreover have "h_timer ?s = TOff \<and> h_main ?s = FirstWait" by code_simp
  ultimately show ?thesis using hrun_reach by blast
qed

end
