(* ===== verification/No_Panic.thy ===== *)
theory No_Panic
  imports Any_Conn
begin

text \<open>
  Type soundness of the connections: a well-formedness invariant for each transport's state that the
  constructors establish and every operation keeps, and under which no operation ends in a run-time
  panic, whatever the peer sends and however the connection below fails.
\<close>

section \<open>Errors that are not panics\<close>

fun panics :: "err \<Rightarrow> bool" where
  "panics (Panic _) = True"
| "panics (Wrapf _ _ e) = panics e"
| "panics _ = False"

definition calm :: "'a res \<Rightarrow> bool" where
  "calm m \<longleftrightarrow> (case m of Inl e \<Rightarrow> \<not> panics e | Inr _ \<Rightarrow> True)"

definition calm_opt :: "err option \<Rightarrow> bool" where
  "calm_opt x \<longleftrightarrow> (case x of None \<Rightarrow> True | Some e \<Rightarrow> \<not> panics e)"

text \<open>The rules that carry \<open>calm\<close> through the sequencing of fallible computations.\<close>

named_theorems calm_simps \<open>results without a panic\<close>

lemma calm_basic [simp, calm_simps]:
  "calm (Inr x)" "calm (Inl e) \<longleftrightarrow> \<not> panics e" "calm_opt None" "calm_opt (Some e) \<longleftrightarrow> \<not> panics e"
  by (simp_all add: calm_def calm_opt_def)

lemma calm_attempt [simp]: "calm (attempt m f) \<longleftrightarrow> calm m \<and> (\<forall>x. m = Inr x \<longrightarrow> calm (f x))"
  by (cases m) simp_all

lemma calm_wrap [simp]: "calm (wrap s as m) \<longleftrightarrow> calm m"
  by (cases m) simp_all

lemma calm_if: "calm (if b then m else m') \<longleftrightarrow> (b \<longrightarrow> calm m) \<and> (\<not> b \<longrightarrow> calm m')"
  by simp

lemma calm_Inl: "calm m \<Longrightarrow> m = Inl e \<Longrightarrow> \<not> panics e"
  by simp

lemma calm_generate_key [simp]: "calm (snd (generate_key r))"
  by (induction r rule: generate_key.induct) simp_all

lemma generate_key_calm: "generate_key r = (r', x) \<Longrightarrow> calm x"
  using calm_generate_key [of r] by simp

lemma calm_io [simp]: "calm_opt (map_option Io x)"
  by (cases x) simp_all

section \<open>raw\<close>

text \<open>
  What the code relies on of the Noise library's handshake states: \<open>Q k hs\<close> says that \<open>k\<close> messages are left; the
  cipher states come with the last message and not before. \<open>cfg_ok\<close> says that the pattern of a configuration
  has a message, as all of the library's patterns have.
\<close>

definition handshake_counts :: "('hs, 'cs) noise_lib \<Rightarrow> (nat \<Rightarrow> 'hs \<Rightarrow> bool) \<Rightarrow> bool" where
  "handshake_counts L Q \<longleftrightarrow>
     (\<forall>cfg hs. new_handshake L cfg = Inr hs \<longrightarrow> Q (pat_messages (cfg_pattern cfg)) hs) \<and>
     (\<forall>k hs hs' msg cs. Q (Suc k) hs \<and> hs_write L hs = (hs', Inr (msg, cs)) \<longrightarrow>
        (if k = 0 then cs \<noteq> None else cs = None \<and> Q k hs')) \<and>
     (\<forall>k hs hs' msg cs. Q (Suc k) hs \<and> hs_read L hs msg = (hs', Inr cs) \<longrightarrow>
        (if k = 0 then cs \<noteq> None else cs = None \<and> Q k hs'))"

lemma handshake_countsD:
  assumes "handshake_counts L Q"
  shows "new_handshake L cfg = Inr hs \<Longrightarrow> Q (pat_messages (cfg_pattern cfg)) hs"
    and "Q (Suc k) hs \<Longrightarrow> hs_write L hs = (hs', Inr (msg, cs)) \<Longrightarrow> if k = 0 then cs \<noteq> None else cs = None \<and> Q k hs'"
    and "Q (Suc k) hs \<Longrightarrow> hs_read L hs msg = (hs', Inr cs) \<Longrightarrow> if k = 0 then cs \<noteq> None else cs = None \<and> Q k hs'"
  using assms unfolding handshake_counts_def by blast+

definition cfg_ok :: "noise_config \<Rightarrow> bool" where
  "cfg_ok cfg \<longleftrightarrow> 0 < pat_messages (cfg_pattern cfg)"

definition raw_ok :: "('hs, 'cs) raw_conn \<Rightarrow> bool" where
  "raw_ok c \<longleftrightarrow> cfg_ok (r_config c) \<and> (r_complete c \<longrightarrow> r_in c \<noteq> None \<and> r_out c \<noteq> None)"

lemma raw_hs_loop_calm: "raw_hs_loop L m w n hs cs = (n', hs', r) \<Longrightarrow> calm r"
proof (induction L m w n hs cs rule: raw_hs_loop.induct)
  case (2 L m w n hs cs)
  then show ?case by (auto simp: Let_def split: if_splits prod.splits sum.splits option.splits)
qed auto

lemma raw_hs_loop_done:
  "raw_hs_loop L m w n hs cs = (n', hs', Inr x) \<Longrightarrow> m = 0 \<and> cs \<noteq> None \<or> 0 < m \<and> Q m hs \<Longrightarrow>
    handshake_counts L Q \<Longrightarrow> x \<noteq> None"
proof (induction L m w n hs cs rule: raw_hs_loop.induct)
  case (2 L m w n hs cs)
  note c = handshake_countsD(2,3) [OF "2.prems"(3)]
  show ?case
  proof (cases w)
    case True
    with "2.prems"(1) obtain h1 msg cs' n1 where l: "hs_write L hs = (h1, Inr (msg, cs'))" "\<not> 0xFFFF < length msg"
      "conn_write (raw_frame msg) n = (n1, None)" "raw_hs_loop L m (\<not> w) n1 h1 cs' = (n', hs', Inr x)"
      by (auto split: prod.splits sum.splits if_splits option.splits)
    from c(1) [OF _ l(1), of m] "2.prems"(2) have "m = 0 \<and> cs' \<noteq> None \<or> 0 < m \<and> Q m h1" by (auto split: if_splits)
    from "2.IH"(1) [OF True l(1) [symmetric] refl refl l(2) l(3) [symmetric] refl l(4) this "2.prems"(3)] show ?thesis .
  next
    case False
    with "2.prems"(1) obtain n1 h n2 msg h1 cs' where l: "readBytes 2 n = (n1, Inr h)" "\<not> max_msg_len < get16 (h ! 0) (h ! 1)"
      "readBytes (get16 (h ! 0) (h ! 1)) n1 = (n2, Inr msg)" "hs_read L hs msg = (h1, Inr cs')"
      "raw_hs_loop L m (\<not> w) n2 h1 cs' = (n', hs', Inr x)"
      by (auto simp: Let_def split: prod.splits sum.splits if_splits option.splits)
    from c(2) [OF _ l(4), of m] "2.prems"(2) have "m = 0 \<and> cs' \<noteq> None \<or> 0 < m \<and> Q m h1" by (auto split: if_splits)
    from "2.IH"(2) [OF False l(1) [symmetric] refl refl l(2) l(3) [symmetric] refl l(4) [symmetric] refl l(5) this "2.prems"(3)] show ?thesis .
  qed
qed auto

lemma raw_Handshake_ok:
  assumes "handshake_counts L Q" "raw_ok c" "raw_Handshake L c = (c', e)"
  shows "calm_opt e \<and> raw_ok c' \<and> (e = None \<longrightarrow> r_complete c')"
  using assms(2,3)
    handshake_countsD(1) [OF assms(1), of "r_config c"]
    raw_hs_loop_done [OF _ _ assms(1), of "pat_messages (cfg_pattern (r_config c))" "r_client c" "r_net c"]
    raw_hs_loop_calm [of L "pat_messages (cfg_pattern (r_config c))" "r_client c" "r_net c"]
  by (fastforce simp: raw_Handshake_def raw_ok_def cfg_ok_def Let_def split: if_splits sum.splits prod.splits)

lemma raw_write_loop_ok:
  "raw_write_loop L n data c = (c', m, e) \<Longrightarrow> raw_ok c \<Longrightarrow> r_complete c \<Longrightarrow> calm_opt e \<and> raw_ok c'"
proof (induction L n data c rule: raw_write_loop.induct)
  case (1 L n data c)
  show ?case
  proof (cases "data = []")
    case False
    from "1.prems"(2,3) obtain cs where o: "r_out c = Some cs" by (auto simp: raw_ok_def)
    show ?thesis
      using "1.prems" False o "1.IH" [OF False o refl]
      by (subst (asm) raw_write_loop.simps) (auto simp: raw_ok_def Let_def split: prod.splits sum.splits if_splits option.splits)
  qed (use "1.prems" in \<open>simp add: raw_write_loop.simps\<close>)
qed

lemma raw_Write_ok:
  assumes "handshake_counts L Q" "raw_ok c" "raw_Write L p c = (c', n, e)"
  shows "calm_opt e \<and> raw_ok c'"
proof -
  obtain c1 x where h: "raw_Handshake L c = (c1, x)" by (cases "raw_Handshake L c")
  from raw_Handshake_ok [OF assms(1,2) h] assms(2,3) h show ?thesis
    by (auto simp: raw_Write_def split: if_splits option.splits dest: raw_write_loop_ok)
qed

lemma raw_fill_ok:
  assumes "raw_fill L k sofar c = (c', r)" "raw_ok c" "r_complete c"
  shows "calm r \<and> raw_ok c'"
  using assms
  by (auto simp: raw_fill_def raw_ok_def Let_def split: prod.splits sum.splits if_splits option.splits)

lemma raw_Read_ok:
  assumes "handshake_counts L Q" "raw_ok c" "raw_Read L k c = (c', r)"
  shows "calm r \<and> raw_ok c'"
proof -
  obtain c1 x where h: "raw_Handshake L c = (c1, x)" by (cases "raw_Handshake L c")
  from raw_Handshake_ok [OF assms(1,2) h] assms(2,3) h raw_fill_ok [of L k "r_buf c1" "c1\<lparr>r_buf := []\<rparr>" c' r]
  show ?thesis by (auto simp: raw_Read_def raw_ok_def split: if_splits option.splits)
qed

section \<open>noisesocket\<close>

text \<open>A negotiation's configuration factory does not panic and gives usable configurations.\<close>

definition neg_ok :: "negotiation \<Rightarrow> bool" where
  "neg_ok neg \<longleftrightarrow> (\<forall>p i. calm (build_config neg p i) \<and> (\<forall>cfg. build_config neg p i = Inr cfg \<longrightarrow> cfg_ok cfg))"

text \<open>
  The one panic of the code that a peer can reach: a responder whose policy is retry or switch indexes the first
  of its supported protocols, and there may be none. \<open>unnamed_conn\<close> is a connection whose handshake is such a
  responder.
\<close>

abbreviation index_panic :: err where
  "index_panic \<equiv> Panic ''index out of range [0] with length 0''"

definition unnamed :: "negotiation \<Rightarrow> bool" where
  "unnamed neg \<longleftrightarrow> supported neg = [] \<and> policy neg \<in> {''retry'', ''switch''}"

definition unnamed_conn :: "('hs, 'cs) ns_conn \<Rightarrow> bool" where
  "unnamed_conn c \<longleftrightarrow> \<not> s_client c \<and> (\<exists>neg. s_neg c = Some neg \<and> unnamed neg)"

definition ns_keys :: "('hs, 'cs) ns_conn \<Rightarrow> bool" where
  "ns_keys c \<longleftrightarrow> s_in c \<noteq> None \<and> s_out c \<noteq> None"

definition ns_ok :: "('hs, 'cs) ns_conn \<Rightarrow> bool" where
  "ns_ok c \<longleftrightarrow> (s_done c \<longrightarrow> ns_keys c) \<and> (case s_neg c of None \<Rightarrow> (\<exists>cfg. s_cfg c = Some cfg \<and> cfg_ok cfg) | Some neg \<Rightarrow> neg_ok neg)"

text \<open>What a handshake leaves as it was.\<close>

definition ns_same :: "('hs, 'cs) ns_conn \<Rightarrow> ('hs, 'cs) ns_conn \<Rightarrow> bool" where
  "ns_same c c' \<longleftrightarrow> s_neg c' = s_neg c \<and> s_cfg c' = s_cfg c \<and> s_client c' = s_client c"

lemma ns_same_unnamed: "ns_same c c' \<Longrightarrow> unnamed_conn c' = unnamed_conn c"
  by (simp add: ns_same_def unnamed_conn_def)

lemma ns_keys_assign: "cs \<noteq> None \<Longrightarrow> ns_keys (assign_opt cs c)"
  by (auto simp: assign_opt_def assignCipherStates_def ns_keys_def)

lemma ns_assign_fields [simp]:
  "s_neg (assign_opt cs c) = s_neg c" "s_cfg (assign_opt cs c) = s_cfg c" "s_done (assign_opt cs c) = s_done c"
  "s_client (assign_opt cs c) = s_client c"
  by (simp_all add: assign_opt_def assignCipherStates_def split: option.split)

lemma ns_keys_upd [simp]:
  "ns_keys (c\<lparr>s_hs := h\<rparr>) = ns_keys c" "ns_keys (c\<lparr>s_net := n\<rparr>) = ns_keys c" "ns_keys (c\<lparr>s_done := b\<rparr>) = ns_keys c"
  "ns_keys (c\<lparr>s_hs := h, s_net := n\<rparr>) = ns_keys c" "ns_keys (c\<lparr>s_hs := h, s_done := b\<rparr>) = ns_keys c"
  by (simp_all add: ns_keys_def)

lemma calm_readLengthPrefixed: "readLengthPrefixed n = (n', r) \<Longrightarrow> calm r"
  by (auto simp: readLengthPrefixed_def Let_def split: prod.splits sum.splits if_splits)

lemma calm_readHandshakeFrame: "readHandshakeFrame n = (n', r) \<Longrightarrow> calm r"
  using calm_readLengthPrefixed by (fastforce simp: readHandshakeFrame_def split: prod.splits sum.splits)

lemma calm_writeHandshakeFrame: "writeHandshakeFrame neg msg n = (n', e) \<Longrightarrow> calm_opt e"
  by (auto simp: writeHandshakeFrame_def split: prod.splits if_splits option.splits)

lemma writeFrameAndRecord_same:
  "writeFrameAndRecord neg msg c = (c', r) \<Longrightarrow> calm r \<and> ns_same c c' \<and> s_done c' = s_done c"
  by (auto simp: writeFrameAndRecord_def ns_same_def Let_def split: prod.splits if_splits option.splits)

text \<open>The outcome of a handshake: no panic, and after success both cipher states are there.\<close>

definition ns_outcome :: "('hs, 'cs) ns_conn \<Rightarrow> ('hs, 'cs) ns_conn \<times> err option \<Rightarrow> bool" where
  "ns_outcome c o' \<longleftrightarrow> calm_opt (snd o') \<and> ns_same c (fst o') \<and> (snd o' = None \<longrightarrow> ns_keys (fst o')) \<and>
     (snd o' \<noteq> None \<longrightarrow> s_done (fst o') = s_done c)"

text \<open>The outcome of a responder that found no protocol to name.\<close>

definition ns_crash :: "('hs, 'cs) ns_conn \<Rightarrow> ('hs, 'cs) ns_conn \<times> err option \<Rightarrow> bool" where
  "ns_crash c o' \<longleftrightarrow> snd o' = Some index_panic \<and> ns_same c (fst o') \<and> s_done (fst o') = s_done c"

lemma ns_hs_loop_ok:
  "handshake_counts L Q \<Longrightarrow> m = 0 \<and> ns_keys c \<or> 0 < m \<and> Q m hs \<Longrightarrow>
    ns_outcome c (ns_hs_loop L m w first hs c) \<and> s_done (fst (ns_hs_loop L m w first hs c)) = s_done c"
proof (induction L m w first hs c rule: ns_hs_loop.induct)
  case (1 L w first hs c)
  then show ?case by (simp add: ns_outcome_def ns_same_def)
next
  case (2 L m w first hs c)
  have next_state: "m = 0 \<and> ns_keys (assign_opt cs x) \<or> 0 < m \<and> Q m h"
    if "if m = 0 then cs \<noteq> None else cs = None \<and> Q m h" for cs h and x :: "('a, 'b) ns_conn"
    using that ns_keys_assign [of cs x] by (auto split: if_splits)
  from "2.prems"(2) have q: "Q (Suc m) hs" by simp
  show ?case
  proof (cases w)
    case True
    obtain h1 r where w: "hs_write L hs = (h1, r)" by (cases "hs_write L hs")
    show ?thesis
    proof (cases r)
      case (Inl e)
      with w True show ?thesis by (simp add: ns_outcome_def ns_same_def)
    next
      case (Inr mc)
      obtain msg cs where mc: "mc = (msg, cs)" by (cases mc)
      let ?nd = "if first \<and> s_client c then s_neg_data c else []"
      obtain n e where f: "writeHandshakeFrame ?nd msg (s_net c) = (n, e)" by (cases "writeHandshakeFrame ?nd msg (s_net c)")
      note calm_writeHandshakeFrame [OF f]
      moreover note next_state [OF handshake_countsD(2) [OF "2.prems"(1) q w [unfolded Inr mc]], of "c\<lparr>s_net := n\<rparr>"]
      ultimately show ?thesis
        using w Inr mc True f "2.IH"(1) [OF True refl w [symmetric] Inr mc [symmetric] f [symmetric], OF _ "2.prems"(1)]
        by (cases e) (auto simp: Let_def ns_outcome_def ns_same_def)
    qed
  next
    case False
    obtain n r where f: "readHandshakeFrame (s_net c) = (n, r)" by (cases "readHandshakeFrame (s_net c)")
    show ?thesis
    proof (cases r)
      case (Inl e)
      with f False calm_readHandshakeFrame [OF f] show ?thesis by (simp add: ns_outcome_def ns_same_def)
    next
      case (Inr nm)
      obtain nd msg where nm: "nm = (nd, msg)" by (cases nm)
      show ?thesis
      proof (cases "first \<and> \<not> s_client c \<and> \<not> bytesEqual nd (s_neg_data c)")
        case True
        with f Inr nm False show ?thesis by (simp add: ns_outcome_def ns_same_def)
      next
        case go: False
        obtain h1 x where rd: "hs_read L hs msg = (h1, x)" by (cases "hs_read L hs msg")
        show ?thesis
        proof (cases x)
          case (Inl e)
          with f Inr nm False go rd show ?thesis by (auto simp: ns_outcome_def ns_same_def)
        next
          case x: (Inr cs)
          note next_state [OF handshake_countsD(3) [OF "2.prems"(1) q rd [unfolded x]], of "c\<lparr>s_net := n\<rparr>"]
          with "2.IH"(2) [OF False f [symmetric] Inr nm [symmetric] go rd [symmetric] x "2.prems"(1)] f Inr nm False go rd x
          show ?thesis by (auto simp: ns_outcome_def ns_same_def)
        qed
      qed
    qed
  qed
qed

lemma ns_handshake_accept_ok:
  assumes "handshake_counts L Q" "cfg_ok cfg"
  shows "ns_outcome c (ns_handshake_accept L cfg c)"
proof (cases "new_handshake L (cfg\<lparr>cfg_prologue := buildPrologue (s_neg_data c) (s_prologue c)\<rparr>)")
  case (Inr hs)
  from handshake_countsD(1) [OF assms(1) Inr] assms(2)
  have "0 < pat_messages (cfg_pattern cfg) \<and> Q (pat_messages (cfg_pattern cfg)) hs" by (simp add: cfg_ok_def)
  with ns_hs_loop_ok [OF assms(1), of "pat_messages (cfg_pattern cfg)" c hs "s_client c" True] Inr show ?thesis
    by (auto simp: ns_handshake_accept_def ns_outcome_def ns_same_def split: prod.splits option.splits)
qed (simp add: ns_handshake_accept_def ns_outcome_def ns_same_def)

lemma ns_outcome_trans:
  "ns_outcome c1 o' \<Longrightarrow> ns_same c c1 \<Longrightarrow> s_done c1 = s_done c \<Longrightarrow> ns_outcome c o'"
  by (auto simp: ns_outcome_def ns_same_def)

lemma driveFrom_loop_ok:
  "handshake_counts L Q \<Longrightarrow> m = 0 \<and> ns_keys c \<or> 0 < m \<and> Q m hs \<Longrightarrow>
    ns_outcome c (driveFrom_loop L m i ini hs pending c)"
proof (induction L m i ini hs pending c rule: driveFrom_loop.induct)
  case (1 L i ini hs pending c)
  then show ?case by (simp add: ns_outcome_def ns_same_def)
next
  case (2 L m i ini hs pending c)
  have next_state: "m = 0 \<and> ns_keys (assign_opt cs x) \<or> 0 < m \<and> Q m h"
    if "if m = 0 then cs \<noteq> None else cs = None \<and> Q m h" for cs h and x :: "('a, 'b) ns_conn"
    using that ns_keys_assign [of cs x] by (auto split: if_splits)
  from "2.prems"(2) have q: "Q (Suc m) hs" by simp
  show ?case
  proof (cases "(i mod 2 = 0) = ini")
    case True
    obtain h1 r where w: "hs_write L hs = (h1, r)" by (cases "hs_write L hs")
    show ?thesis
    proof (cases r)
      case (Inl e)
      with w True show ?thesis by (simp add: ns_outcome_def ns_same_def)
    next
      case (Inr mc)
      obtain msg cs where mc: "mc = (msg, cs)" by (cases mc)
      obtain c1 fb where f: "writeFrameAndRecord [] msg c = (c1, fb)" by (cases "writeFrameAndRecord [] msg c")
      note s = writeFrameAndRecord_same [OF f]
      show ?thesis
      proof (cases fb)
        case fb: (Inl e)
        with s w Inr mc True f show ?thesis by (simp add: ns_outcome_def ns_same_def)
      next
        case fb: (Inr b)
        note next_state [OF handshake_countsD(2) [OF "2.prems"(1) q w [unfolded Inr mc]], of c1]
        from "2.IH"(1) [OF True w [symmetric] Inr mc [symmetric] f [symmetric] fb "2.prems"(1) this] s w Inr mc True f fb
        show ?thesis by (auto intro: ns_outcome_trans simp: ns_same_def)
      qed
    qed
  next
    case False
    let ?f = "if pending \<noteq> [] then (s_net c, Inr ([], pending)) else readHandshakeFrame (s_net c)"
    obtain n r where f: "?f = (n, r)" by (cases ?f)
    show ?thesis
    proof (cases r)
      case (Inl e)
      with f have "\<not> panics e" using calm_readHandshakeFrame [of "s_net c" n r] by (simp split: if_splits)
      with f False Inl show ?thesis by (simp add: ns_outcome_def ns_same_def)
    next
      case (Inr nm)
      obtain nd msg where nm: "nm = (nd, msg)" by (cases nm)
      obtain h1 x where rd: "hs_read L hs msg = (h1, x)" by (cases "hs_read L hs msg")
      show ?thesis
      proof (cases x)
        case (Inl e)
        with f \<open>r = Inr nm\<close> nm False rd show ?thesis by (simp add: ns_outcome_def ns_same_def)
      next
        case x: (Inr cs)
        note next_state [OF handshake_countsD(3) [OF "2.prems"(1) q rd [unfolded x]], of "c\<lparr>s_net := n\<rparr>"]
        from "2.IH"(2) [OF False f [symmetric] Inr nm [symmetric] rd [symmetric] x "2.prems"(1) this] f Inr nm False rd x
        show ?thesis by (auto intro: ns_outcome_trans simp: ns_same_def)
      qed
    qed
  qed
qed

lemma driveFrom_ok:
  assumes "handshake_counts L Q" "j < t" "Q (t - j) hs"
  shows "ns_outcome c (driveFrom L hs t ini j pending c)"
  unfolding driveFrom_def by (rule driveFrom_loop_ok [OF assms(1)]) (use assms(2,3) in simp)

lemma calm_BuildConfig: "neg_ok neg \<Longrightarrow> calm (BuildConfig neg p i)"
  by (simp add: BuildConfig_def neg_ok_def)

lemma calm_newHS: "calm (newHS L cfg p)"
  by (simp add: newHS_def split: sum.split)

lemma newHS_Inr:
  assumes "handshake_counts L Q" "neg_ok neg" "BuildConfig neg q i = Inr cfg" "newHS L cfg p = Inr hs"
  shows "0 < pat_messages (cfg_pattern cfg) \<and> Q (pat_messages (cfg_pattern cfg)) hs"
  using handshake_countsD(1) [OF assms(1), of "cfg\<lparr>cfg_prologue := p\<rparr>" hs] assms(2-4)
  by (auto simp: newHS_def neg_ok_def cfg_ok_def BuildConfig_def split: sum.splits)

lemma calm_b64 [simp]: "calm (b64_decode v)"
  by (simp add: b64_decode_def split: option.split)

lemma calm_parse_field: "calm (parse_field k v st)"
  by (cases st) (simp add: parse_field_def)

lemma calm_parse_fields [simp]: "calm (parse_fields fs st)"
  by (induction fs st rule: parse_fields.induct) (simp_all add: calm_parse_field split: option.split)

lemma calm_parseNeg [simp]: "calm (parseNeg b)"
  by (auto simp: parseNeg_def split: prod.splits)

lemma negotiation_calm:
  "parseNeg b = Inl e \<Longrightarrow> \<not> panics e" "newHS L cfg q = Inl e \<Longrightarrow> \<not> panics e"
  "BuildConfig neg p i = Inl e \<Longrightarrow> neg_ok neg \<Longrightarrow> \<not> panics e"
  using calm_Inl [OF calm_parseNeg] calm_Inl [OF calm_newHS] calm_Inl [OF calm_BuildConfig] by blast+

lemma init_react_ok:
  assumes "handshake_counts L Q" "neg_ok neg" "1 < nmsgs \<and> Q (nmsgs - 1) hs"
    and "init_react L neg nmsgs hs sent rneg rmsg transcript c = Inl o'"
  shows "ns_outcome c o'"
proof (cases "rneg = []")
  case True
  with assms(3,4) driveFrom_ok [OF assms(1), of 1 nmsgs hs] show ?thesis by (auto simp: init_react_def)
next
  case False
  have "ns_outcome c (driveFrom L hs2 (pat_messages (cfg_pattern scfg)) False 0 rmsg c)"
    if "BuildConfig neg q i = Inr scfg" "newHS L scfg p = Inr hs2" for q i scfg p hs2
    using newHS_Inr [OF assms(1,2) that] by (intro driveFrom_ok [OF assms(1)]) simp_all
  with False assms(2,4) show ?thesis
    by (auto simp: init_react_def ns_outcome_def [of c "(c, Some e)" for e] ns_same_def
      dest: negotiation_calm split: sum.splits if_splits)
qed

lemma negotiateInitiator_loop_ok:
  "handshake_counts L Q \<Longrightarrow> neg_ok neg \<Longrightarrow> ns_outcome c (negotiateInitiator_loop L neg k proto transcript c)"
proof (induction k arbitrary: proto transcript c)
  case 0
  then show ?case by (simp add: ns_outcome_def ns_same_def)
next
  case (Suc k)
  have fail: "ns_outcome c (c', Some e)" if "\<not> panics e" "ns_same c c'" "s_done c' = s_done c" for c' e
    using that by (simp add: ns_outcome_def)
  show ?case
  proof (cases "BuildConfig neg proto True")
    case (Inl e)
    with calm_Inl [OF calm_BuildConfig [OF Suc.prems(2)] Inl] show ?thesis by (simp add: fail ns_same_def)
  next
    case cfg: (Inr cfg)
    let ?neg = "encodeProposal proto (app_data neg)"
    show ?thesis
    proof (cases "newHS L cfg (prologueWith c ?neg transcript)")
      case (Inl e)
      with calm_Inl [OF calm_newHS Inl] cfg show ?thesis by (simp add: fail ns_same_def)
    next
      case hs: (Inr hs)
      note q = newHS_Inr [OF Suc.prems cfg hs]
      obtain h1 r where w: "hs_write L hs = (h1, r)" by (cases "hs_write L hs")
      show ?thesis
      proof (cases r)
        case (Inl e)
        with cfg hs w show ?thesis by (simp add: fail ns_same_def)
      next
        case mc: (Inr mc)
        obtain msg cs where m: "mc = (msg, cs)" by (cases mc)
        show ?thesis
        proof (cases cs)
          case (Some x)
          with cfg hs w mc m show ?thesis by (simp add: fail ns_same_def)
        next
          case None
          obtain n where n: "pat_messages (cfg_pattern cfg) = Suc n" using q by (cases "pat_messages (cfg_pattern cfg)") auto
          with handshake_countsD(2) [OF Suc.prems(1) _ w [unfolded mc m], of n] q None
          have k: "1 < pat_messages (cfg_pattern cfg) \<and> Q (pat_messages (cfg_pattern cfg) - 1) h1" by (auto split: if_splits)
          obtain c1 fb where f: "writeFrameAndRecord ?neg msg c = (c1, fb)" by (cases "writeFrameAndRecord ?neg msg c")
          note s = writeFrameAndRecord_same [OF f]
          show ?thesis
          proof (cases fb)
            case (Inl e)
            with s f cfg hs w mc m None show ?thesis by (simp add: fail)
          next
            case fb: (Inr b)
            obtain n1 rr where rd: "readHandshakeFrame (s_net c1) = (n1, rr)" by (cases "readHandshakeFrame (s_net c1)")
            let ?c = "c1\<lparr>s_net := n1\<rparr>"
            have same: "ns_same c ?c" "s_done ?c = s_done c" using s by (simp_all add: ns_same_def)
            show ?thesis
            proof (cases rr)
              case (Inl e)
              with calm_readHandshakeFrame [OF rd] same rd f fb cfg hs w mc m None show ?thesis by (simp add: fail)
            next
              case rr: (Inr nm)
              obtain rneg rmsg where nm: "nm = (rneg, rmsg)" by (cases nm)
              let ?r = "init_react L neg (pat_messages (cfg_pattern cfg)) h1 b rneg rmsg transcript ?c"
              have e: "negotiateInitiator_loop L neg (Suc k) proto transcript c =
                  (case ?r of Inl done \<Rightarrow> done | Inr (proto', transcript') \<Rightarrow> negotiateInitiator_loop L neg k proto' transcript' ?c)"
                using rr nm rd f fb cfg hs w mc m None by (simp add: Let_def)
              show ?thesis
              proof (cases ?r)
                case (Inl o')
                from ns_outcome_trans [OF init_react_ok [OF Suc.prems k Inl] same] Inl e show ?thesis by simp
              next
                case (Inr pt)
                obtain p' t' where "pt = (p', t')" by (cases pt)
                with ns_outcome_trans [OF Suc.IH [OF Suc.prems, of ?c p' t'] same] Inr e show ?thesis by simp
              qed
            qed
          qed
        qed
      qed
    qed
  qed
qed

lemma supported0_Inl: "supported0 neg = Inl e \<Longrightarrow> supported neg = [] \<and> e = index_panic"
  by (auto simp: supported0_def split: list.splits)

lemma ns_crash_trans:
  "ns_crash c1 o' \<Longrightarrow> ns_same c c1 \<Longrightarrow> s_done c1 = s_done c \<Longrightarrow> ns_crash c o'"
  by (auto simp: ns_crash_def ns_same_def)

lemma resp_policy_ok:
  assumes "handshake_counts L Q" "neg_ok neg" "resp_policy L neg proto recvFrame transcript c = r"
  shows "case r of Inl o' \<Rightarrow> ns_outcome c o' \<or> (unnamed neg \<and> ns_crash c o')
    | Inr (c', t) \<Rightarrow> ns_same c c' \<and> s_done c' = s_done c"
proof (cases "\<exists>e. supported0 neg = Inl e \<and> (policy neg = ''retry'' \<or> policy neg = ''switch'')")
  case True
  then have "unnamed neg" "r = Inl (c, Some index_panic)"
    using supported0_Inl [of neg] assms(3) by (auto simp: unnamed_def resp_policy_def)
  then show ?thesis by (simp add: ns_crash_def ns_same_def)
next
  case named: False
  have s: "calm x \<and> ns_same c c1 \<and> s_done c1 = s_done c" if "writeFrameAndRecord n m c = (c1, x)" for n m c1 x
    using writeFrameAndRecord_same [OF that] .
  have fail: "ns_outcome c (c', Some e)" if "\<not> panics e" "ns_same c c'" "s_done c' = s_done c" for c' e
    using that by (simp add: ns_outcome_def)
  have refl: "ns_same c c" by (simp add: ns_same_def)
  let ?pol = "if policy neg = [] then ''reject'' else policy neg"
  consider "?pol = ''reject''" | "?pol = ''retry''" | "?pol = ''switch''" | "?pol \<notin> {''reject'', ''retry'', ''switch''}" by blast
  then show ?thesis
  proof cases
    case 1
    obtain c1 x where w: "writeFrameAndRecord (encodeResponse actReject [] (reject_reason proto)) [] c = (c1, x)"
      by (cases "writeFrameAndRecord (encodeResponse actReject [] (reject_reason proto)) [] c")
    from s [OF w] have "ns_outcome c (c1, Some (case x of Inl e \<Rightarrow> e
        | Inr fb \<Rightarrow> Errorf ''noisesocket: rejected initiator: %s'' [AStr (reject_reason proto)]))"
      by (intro fail) (auto split: sum.split)
    moreover have "r = Inl (c1, Some (case x of Inl e \<Rightarrow> e
        | Inr fb \<Rightarrow> Errorf ''noisesocket: rejected initiator: %s'' [AStr (reject_reason proto)]))"
      using 1 w assms(3) by (cases x) (simp_all add: resp_policy_def)
    ultimately show ?thesis by simp
  next
    case 2
    with named obtain t where t: "supported0 neg = Inr t"
      by (cases "supported0 neg") (auto split: if_splits)
    obtain c1 x where w: "writeFrameAndRecord (encodeResponse actRetry t []) [] c = (c1, x)"
      by (cases "writeFrameAndRecord (encodeResponse actRetry t []) [] c")
    with s [OF w] 2 t assms(3) show ?thesis by (cases x) (auto simp: resp_policy_def fail)
  next
    case 3
    with named obtain t where t: "supported0 neg = Inr t"
      by (cases "supported0 neg") (auto split: if_splits)
    show ?thesis
    proof (cases "BuildConfig neg t True")
      case (Inl e)
      with 3 t assms(3) negotiation_calm(3) [OF Inl assms(2)] show ?thesis by (auto simp: resp_policy_def fail refl)
    next
      case cfg: (Inr cfg)
      let ?n = "encodeResponse actSwitch t []"
      show ?thesis
      proof (cases "newHS L cfg (prologueWith c ?n (transcript @ recvFrame))")
        case (Inl e)
        with 3 t cfg assms(3) negotiation_calm(2) [OF Inl] show ?thesis by (auto simp: resp_policy_def fail refl)
      next
        case hs: (Inr hs)
        note q = newHS_Inr [OF assms(1,2) cfg hs]
        obtain h1 r1 where w: "hs_write L hs = (h1, r1)" by (cases "hs_write L hs")
        show ?thesis
        proof (cases "\<exists>m. r1 = Inr (m, None)")
          case False
          then obtain e where "r = Inl (c, Some e)" "\<not> panics e"
            using 3 t cfg hs w assms(3) by (cases r1) (auto simp: resp_policy_def split: option.splits)
          then show ?thesis by (simp add: fail refl)
        next
          case True
          then obtain m where m: "r1 = Inr (m, None)" by blast
          obtain n where n: "pat_messages (cfg_pattern cfg) = Suc n" using q by (cases "pat_messages (cfg_pattern cfg)") auto
          with handshake_countsD(2) [OF assms(1) _ w [unfolded m], of n] q
          have k: "1 < pat_messages (cfg_pattern cfg)" "Q (pat_messages (cfg_pattern cfg) - 1) h1" by (auto split: if_splits)
          obtain c1 x where f: "writeFrameAndRecord ?n m c = (c1, x)" by (cases "writeFrameAndRecord ?n m c")
          note same = s [OF f]
          show ?thesis
          proof (cases x)
            case (Inl e)
            with 3 t cfg hs w m f same assms(3) show ?thesis by (auto simp: resp_policy_def fail)
          next
            case (Inr fb)
            with 3 t cfg hs w m f assms(3) have "r = Inl (driveFrom L h1 (pat_messages (cfg_pattern cfg)) True 1 [] c1)"
              by (auto simp: resp_policy_def)
            with ns_outcome_trans [OF driveFrom_ok [OF assms(1) k]] same show ?thesis by simp
          qed
        qed
      qed
    qed
  next
    case 4
    with assms(3) show ?thesis by (auto simp: resp_policy_def fail refl)
  qed
qed

lemma negotiateResponder_loop_ok:
  "handshake_counts L Q \<Longrightarrow> neg_ok neg \<Longrightarrow> ns_outcome c (negotiateResponder_loop L neg k transcript c) \<or>
    (unnamed neg \<and> ns_crash c (negotiateResponder_loop L neg k transcript c))"
proof (induction k arbitrary: transcript c)
  case 0
  then show ?case by (simp add: ns_outcome_def ns_same_def)
next
  case (Suc k)
  obtain n r where f: "readHandshakeFrame (s_net c) = (n, r)" by (cases "readHandshakeFrame (s_net c)")
  let ?c = "c\<lparr>s_net := n\<rparr>"
  have same: "ns_same c ?c" "s_done ?c = s_done c" by (simp_all add: ns_same_def)
  have fail: "ns_outcome c (?c, Some e)" if "\<not> panics e" for e
    using that same by (simp add: ns_outcome_def)
  show ?case
  proof (cases r)
    case (Inl e)
    with f calm_readHandshakeFrame [OF f] show ?thesis by (simp add: fail)
  next
    case r: (Inr im)
    obtain ineg imsg where im: "im = (ineg, imsg)" by (cases im)
    show ?thesis
    proof (cases "parseNeg ineg")
      case (Inl e)
      with f r im negotiation_calm(1) [OF Inl] show ?thesis by (simp add: fail)
    next
      case p: (Inr m)
      show ?thesis
      proof (cases "Action m \<noteq> []")
        case True
        with f r im p show ?thesis by (simp add: fail)
      next
        case act: False
        show ?thesis
        proof (cases "supports (Proto m) (supported neg)")
          case True
          show ?thesis
          proof (cases "BuildConfig neg (Proto m) False")
            case (Inl e)
            with f r im p act True negotiation_calm(3) [OF Inl Suc.prems(2)] show ?thesis by (simp add: fail)
          next
            case cfg: (Inr cfg)
            show ?thesis
            proof (cases "newHS L cfg (prologueWith ?c ineg transcript)")
              case (Inl e)
              with f r im p act True cfg negotiation_calm(2) [OF Inl] show ?thesis by (simp add: fail)
            next
              case (Inr hs)
              have "ns_outcome ?c (driveFrom L hs (pat_messages (cfg_pattern cfg)) False 0 imsg ?c)"
                using newHS_Inr [OF Suc.prems cfg Inr] by (intro driveFrom_ok [OF Suc.prems(1)]) simp_all
              from ns_outcome_trans [OF this same] f r im p act True cfg Inr show ?thesis by simp
            qed
          qed
        next
          case False
          let ?r = "resp_policy L neg (Proto m) (frameBytes ineg imsg) transcript ?c"
          have e: "negotiateResponder_loop L neg (Suc k) transcript c =
              (case ?r of Inl done \<Rightarrow> done | Inr (c', transcript') \<Rightarrow> negotiateResponder_loop L neg k transcript' c')"
            using f r im p act False by (simp add: Let_def)
          have ok: "case ?r of Inl o' \<Rightarrow> ns_outcome ?c o' \<or> (unnamed neg \<and> ns_crash ?c o')
              | Inr (c', t) \<Rightarrow> ns_same ?c c' \<and> s_done c' = s_done ?c"
            by (rule resp_policy_ok [OF Suc.prems refl])
          show ?thesis
          proof (cases ?r)
            case (Inl o')
            with ok have "ns_outcome ?c o' \<or> (unnamed neg \<and> ns_crash ?c o')" by simp
            with ns_outcome_trans [OF _ same] ns_crash_trans [OF _ same] have "ns_outcome c o' \<or> (unnamed neg \<and> ns_crash c o')" by blast
            moreover have "negotiateResponder_loop L neg (Suc k) transcript c = o'" unfolding e Inl by simp
            ultimately show ?thesis by simp
          next
            case (Inr ct)
            obtain c2 t where ct: "ct = (c2, t)" by (cases ct)
            with ok Inr same have "ns_same c c2" "s_done c2 = s_done c" by (auto simp: ns_same_def)
            with ns_outcome_trans [of c2] ns_crash_trans [of c2] Suc.IH [OF Suc.prems, of c2 t]
            have "ns_outcome c (negotiateResponder_loop L neg k t c2) \<or> (unnamed neg \<and> ns_crash c (negotiateResponder_loop L neg k t c2))"
              by blast
            moreover have "negotiateResponder_loop L neg (Suc k) transcript c = negotiateResponder_loop L neg k t c2"
              unfolding e Inr ct by simp
            ultimately show ?thesis by simp
          qed
        qed
      qed
    qed
  qed
qed

text \<open>What a call may end in: no panic, except that of a responder with no protocol to name.\<close>

definition ns_calm :: "('hs, 'cs) ns_conn \<Rightarrow> err option \<Rightarrow> bool" where
  "ns_calm c e \<longleftrightarrow> calm_opt e \<or> (unnamed_conn c \<and> e = Some index_panic)"

lemma ns_calm_None [simp]: "ns_calm c None"
  by (simp add: ns_calm_def)

lemma ns_Handshake_ok:
  assumes "handshake_counts L Q" "ns_ok c" "ns_Handshake L c = (c', e)"
  shows "ns_calm c e \<and> ns_ok c' \<and> ns_same c c' \<and> (e = None \<longrightarrow> ns_keys c')"
proof (cases "s_done c")
  case True
  with assms(2,3) show ?thesis by (auto simp: ns_Handshake_def ns_ok_def ns_same_def)
next
  case False
  have "ns_outcome c (ns_Handshake L c) \<or> (unnamed_conn c \<and> ns_crash c (ns_Handshake L c))"
  proof (cases "s_neg c")
    case None
    with assms(2) obtain cfg where "s_cfg c = Some cfg" "cfg_ok cfg" by (auto simp: ns_ok_def)
    with False None ns_handshake_accept_ok [OF assms(1), of cfg] show ?thesis by (simp add: ns_Handshake_def)
  next
    case (Some neg)
    with assms(2) have "neg_ok neg" by (simp add: ns_ok_def)
    with False Some negotiateInitiator_loop_ok [OF assms(1), of neg c maxNegAttempts "proposed neg" "[]"]
      negotiateResponder_loop_ok [OF assms(1), of neg c maxNegAttempts "[]"] show ?thesis
      by (auto simp: ns_Handshake_def handshakeNegotiated_def negotiateInitiator_def negotiateResponder_def unnamed_conn_def)
  qed
  then show ?thesis
  proof
    assume "ns_outcome c (ns_Handshake L c)"
    with assms(2,3) False show ?thesis
      by (cases e) (auto simp: ns_outcome_def ns_ok_def ns_same_def ns_calm_def split: option.splits)
  next
    assume "unnamed_conn c \<and> ns_crash c (ns_Handshake L c)"
    with assms(2,3) False show ?thesis
      by (auto simp: ns_crash_def ns_ok_def ns_same_def ns_calm_def split: option.splits)
  qed
qed

lemma ns_write_loop_ok:
  "ns_write_loop L sent p c = (c', m, e) \<Longrightarrow> ns_ok c \<Longrightarrow> ns_keys c \<Longrightarrow> calm_opt e \<and> ns_ok c' \<and> ns_same c c'"
proof (induction L sent p c rule: ns_write_loop.induct)
  case (1 L sent p c)
  show ?case
  proof (cases "p = []")
    case False
    from "1.prems"(3) obtain cs where o: "s_out c = Some cs" by (auto simp: ns_keys_def)
    have w: "calm_opt x" if "writeLengthPrefixed ct n = (n', x)" for ct n n' x
      using that by (auto simp: writeLengthPrefixed_def split: prod.splits if_splits option.splits)
    show ?thesis
      using "1.prems" False o "1.IH" [OF False o refl refl] w
      by (subst (asm) ns_write_loop.simps)
        (fastforce simp: ns_ok_def ns_keys_def ns_same_def Let_def split: prod.splits sum.splits if_splits option.splits)
  qed (use "1.prems" in \<open>simp add: ns_write_loop.simps ns_same_def\<close>)
qed

lemma ns_Write_ok:
  assumes "handshake_counts L Q" "ns_ok c" "ns_Write L p c = (c', n, e)"
  shows "ns_calm c e \<and> ns_ok c' \<and> ns_same c c'"
proof -
  obtain c1 x where h: "ns_Handshake L c = (c1, x)" by (cases "ns_Handshake L c")
  note o = ns_Handshake_ok [OF assms(1,2) h]
  show ?thesis
  proof (cases x)
    case None
    with assms(3) h o ns_write_loop_ok [of L 0 p c1 c' n e] show ?thesis
      by (auto simp: ns_Write_def ns_same_def ns_calm_def)
  qed (use assms(3) h o in \<open>auto simp: ns_Write_def\<close>)
qed

lemma ns_read_frame_ok:
  assumes "ns_read_frame L k c = (c', r)" "ns_ok c" "ns_keys c"
  shows "calm r \<and> ns_ok c' \<and> ns_same c c'"
  using assms calm_readLengthPrefixed [of "s_net c"]
  by (fastforce simp: ns_read_frame_def ns_ok_def ns_keys_def ns_same_def Let_def split: prod.splits sum.splits if_splits option.splits)

lemma ns_Read_ok:
  assumes "handshake_counts L Q" "ns_ok c" "ns_Read L k c = (c', r)"
  shows "ns_calm c (case r of Inl e \<Rightarrow> Some e | Inr d \<Rightarrow> None) \<and> ns_ok c' \<and> ns_same c c'"
proof -
  obtain c1 x where h: "ns_Handshake L c = (c1, x)" by (cases "ns_Handshake L c")
  note o = ns_Handshake_ok [OF assms(1,2) h]
  show ?thesis
  proof (cases x)
    case None
    with assms(3) h o ns_read_frame_ok [of L k c1 c' r] show ?thesis
      by (cases r) (auto simp: ns_Read_def ns_same_def ns_calm_def split: if_splits)
  qed (use assms(3) h o in \<open>auto simp: ns_Read_def\<close>)
qed

section \<open>bolt8\<close>

lemma calm_cipher [simp]: "calm (encryptWithAD C k n ad p)" "calm (decryptWithAD C k n ad p)"
  by (simp_all add: encryptWithAD_def decryptWithAD_def split: option.split)

lemma calm_bolt_parts [simp]:
  "calm (bolt_parse E m b)" "calm (init_act1 C E rs e)" "calm (init_act23 C E ls e buf h ck)" "calm (resp_act1 C E ls buf)"
  "calm (resp_act2 C E e re h ck)" "calm (resp_act3 C E e buf h ck k2)"
  by (auto simp: bolt_parse_def init_act1_def init_act23_def resp_act1_def resp_act2_def resp_act3_def Let_def
      split: prod.splits sum.splits)

lemma calm_bolt_io:
  "act_write m b n = (n', r) \<Longrightarrow> calm r" "act_read m k n = (n', q) \<Longrightarrow> calm q" "bolt_ephemeral eph x = (y, s) \<Longrightarrow> calm s"
  by (auto simp: act_write_def act_read_def bolt_ephemeral_def split: prod.splits option.splits sum.splits dest: generate_key_calm)

lemma bolt_parts_Inl:
  "init_act1 C E rs e = Inl x \<Longrightarrow> \<not> panics x" "init_act23 C E ls e buf h ck = Inl x \<Longrightarrow> \<not> panics x"
  "resp_act1 C E ls buf = Inl x \<Longrightarrow> \<not> panics x" "resp_act2 C E e re h ck = Inl x \<Longrightarrow> \<not> panics x"
  "resp_act3 C E e buf h ck k2 = Inl x \<Longrightarrow> \<not> panics x" "encryptWithAD C k n ad p = Inl x \<Longrightarrow> \<not> panics x"
  "decryptWithAD C k n ad p = Inl x \<Longrightarrow> \<not> panics x"
  using calm_bolt_parts calm_cipher calm_Inl by metis+

lemma runInitiator_calm: "runInitiator C E ls rs eph s = (s', r) \<Longrightarrow> calm r"
  by (auto simp: runInitiator_def split: prod.splits sum.splits dest: calm_bolt_io bolt_parts_Inl)

lemma runResponder_calm: "runResponder C E ls eph s = (s', r) \<Longrightarrow> calm r"
  by (auto simp: runResponder_def split: prod.splits sum.splits dest: calm_bolt_io bolt_parts_Inl)

lemma bolt_Handshake_calm: "bolt_Handshake C E c = (c', e) \<Longrightarrow> calm_opt e"
  by (auto simp: bolt_Handshake_def split: if_splits option.splits prod.splits sum.splits dest: runInitiator_calm runResponder_calm)

lemma writeMessage_calm: "writeMessage C m c = (c', e) \<Longrightarrow> calm_opt e"
  by (auto simp: writeMessage_def Let_def split: sum.splits prod.splits option.splits dest: bolt_parts_Inl)

lemma bolt_write_loop_calm: "bolt_write_loop C sent p c = (c', n, e) \<Longrightarrow> calm_opt e"
proof (induction C sent p c rule: bolt_write_loop.induct)
  case (1 C sent p c)
  show ?case
  proof (cases "p = []")
    case False
    let ?n = "if bolt_MaxMessageLen < length p then bolt_MaxMessageLen else length p"
    obtain c1 x where w: "writeMessage C (take ?n p) c = (c1, x)" by (cases "writeMessage C (take ?n p) c")
    with "1.prems" False "1.IH" [OF False refl w [symmetric]] writeMessage_calm [OF w] show ?thesis
      by (subst (asm) bolt_write_loop.simps) (auto simp: Let_def split: option.splits)
  qed (use "1.prems" in \<open>simp add: bolt_write_loop.simps\<close>)
qed

lemma bolt_Write_calm: "bolt_Write C E p c = (c', n, e) \<Longrightarrow> calm_opt e"
  using bolt_Handshake_calm [of C E c] bolt_write_loop_calm [of C 0 p]
  by (fastforce simp: bolt_Write_def split: prod.splits option.splits)

text \<open>The decrypted length has two bytes, because 18 were read and the tag takes 16.\<close>

lemma bolt_read_frame_calm:
  assumes "crypto_ok C" "bolt_read_frame C k c = (c', r)"
  shows "calm r"
proof -
  have two: "\<not> length p < 2" if "readFull (2 + macSize) n = (n', Inr lc)" "decryptWithAD C key i [] lc = Inr p" for n n' lc key i p
  proof -
    have "length lc = 18" using that(1) full.rd_length [of "2 + macSize" n] by (simp add: macSize_def)
    with that(2) crypto_open_length [OF assms(1)] show ?thesis
      by (fastforce simp: decryptWithAD_def split: if_splits option.splits)
  qed
  from assms(2) two show ?thesis
    by (auto simp: bolt_read_frame_def Let_def split: prod.splits sum.splits if_splits dest: bolt_parts_Inl)
qed

lemma bolt_Read_calm:
  assumes "crypto_ok C" "bolt_Read C E k c = (c', r)"
  shows "calm r"
  using assms(2) bolt_Handshake_calm [of C E c] bolt_read_frame_calm [OF assms(1)]
  by (fastforce simp: bolt_Read_def split: prod.splits option.splits if_splits)

section \<open>whatsapp\<close>

lemma calm_pbParse_loop: "calm (pbParse_loop b out)"
  by (induction b out rule: pbParse_loop.induct) (subst pbParse_loop.simps, simp add: Let_def split: prod.split)

lemma calm_pbParse [simp]: "calm (pbParse b)"
  by (simp add: pbParse_def calm_pbParse_loop)

lemma calm_messages [simp]:
  "calm (unmarshalClientHello b)" "calm (unmarshalClientFinish b)" "calm (unmarshalServerHello b)"
  "calm (parseDetails b)" "calm (parseNoiseCert b)" "calm (checkCertValidity now d)"
  by (auto simp: unmarshalClientHello_def unmarshalClientFinish_def unmarshalServerHello_def parseDetails_def parseNoiseCert_def
      checkCertValidity_def Let_def split: option.split)

lemma calm_verifyServerCert [simp]: "calm (verifyServerCert X now c s k)"
  by (simp add: verifyServerCert_def Let_def split: option.split prod.split)

lemma calm_wa_steps [simp]:
  "calm (gcmPrepare k)" "calm (nh_start C p h nh)" "calm (mixIntoKey C d nh)" "calm (mixSharedSecretIntoKey C D a b nh)"
  "calm (snd (nh_decrypt C ct nh))" "calm (snd (generateKeypair D r))"
  by (auto simp: gcmPrepare_def nh_start_def mixIntoKey_def mixSharedSecretIntoKey_def nh_decrypt_def generateKeypair_def Let_def
      split: prod.splits sum.splits option.splits dest: generate_key_calm)

lemma nh_decrypt_calm: "nh_decrypt C ct nh = (nh', r) \<Longrightarrow> calm r"
  using calm_wa_steps(5) [of C ct nh] by simp

lemma generateKeypair_calm: "generateKeypair D x = (y, r) \<Longrightarrow> calm r"
  using calm_wa_steps(6) [of D x] by simp

lemma calm_client_process [simp]: "calm (client_process C D X now eph cs pl root nh b)"
  by (auto simp: client_process_def Let_def split: prod.split option.split dest: nh_decrypt_calm)

lemma calm_server_parts [simp]:
  "calm (client_result C nh s)" "calm (server_reply C D st p se ce nh)" "calm (server_process C D se nh m)"
  by (auto simp: client_result_def server_reply_def server_process_def Let_def split: prod.split option.split dest: nh_decrypt_calm)

lemma framed_calm: "writeFrame p f = (f', e) \<Longrightarrow> calm_opt e" "readFrame f = (f', r) \<Longrightarrow> calm r"
  by (auto simp: writeFrame_def readFrame_def readFrame_body_def Let_def split: prod.splits sum.splits if_splits option.splits)

lemma wa_parts_Inl:
  "nh_start C p h nh = Inl x \<Longrightarrow> \<not> panics x" "unmarshalClientHello b = Inl x \<Longrightarrow> \<not> panics x"
  "server_reply C D st p se ce nh = Inl x \<Longrightarrow> \<not> panics x"
  using calm_wa_steps calm_messages calm_server_parts calm_Inl by metis+

lemma serverHandshake_calm: "serverHandshake C D st p s = (s', r) \<Longrightarrow> calm r"
  by (auto simp: serverHandshake_def split: prod.splits sum.splits option.splits
      dest: framed_calm generateKeypair_calm wa_parts_Inl)

definition wa_keys :: "wa_conn \<Rightarrow> bool" where
  "wa_keys c \<longleftrightarrow> w_writeKey c \<noteq> None \<and> w_readKey c \<noteq> None"

definition wa_ok :: "wa_conn \<Rightarrow> bool" where
  "wa_ok c \<longleftrightarrow> calm_opt (w_hsErr c) \<and> (w_hsFn c = None \<or> w_hsOnce c \<and> w_hsErr c = None \<longrightarrow> wa_keys c) \<and>
     (\<not> w_hsOnce c \<longrightarrow> w_hsErr c = None)"

lemma ensureHandshake_ok:
  assumes "wa_ok c" "ensureHandshake C D c = (c', e)"
  shows "calm_opt e \<and> wa_ok c' \<and> (e = None \<longrightarrow> wa_keys c')"
  using assms serverHandshake_calm
  by (fastforce simp: ensureHandshake_def wa_ok_def wa_keys_def Let_def split: option.splits if_splits prod.splits sum.splits)

lemma wa_write_loop_ok:
  "wa_write_loop C sent p c = (c', m, e) \<Longrightarrow> wa_ok c \<Longrightarrow> wa_keys c \<Longrightarrow> calm_opt e \<and> wa_ok c'"
proof (induction C sent p c rule: wa_write_loop.induct)
  case (1 C sent p c)
  show ?case
  proof (cases "p = []")
    case False
    from "1.prems"(3) obtain key where o: "w_writeKey c = Some key" by (auto simp: wa_keys_def)
    show ?thesis
      using "1.prems" False o "1.IH" [OF False refl o refl refl] framed_calm(1)
      by (subst (asm) wa_write_loop.simps) (fastforce simp: wa_ok_def wa_keys_def Let_def split: prod.splits option.splits)
  qed (use "1.prems" in \<open>simp add: wa_write_loop.simps\<close>)
qed

lemma wa_Write_ok:
  assumes "wa_ok c" "wa_Write C D p c = (c', n, e)"
  shows "calm_opt e \<and> wa_ok c'"
proof -
  obtain c1 x where h: "ensureHandshake C D c = (c1, x)" by (cases "ensureHandshake C D c")
  from ensureHandshake_ok [OF assms(1) h] assms(2) h show ?thesis
    by (auto simp: wa_Write_def split: option.splits dest: wa_write_loop_ok)
qed

lemma wa_read_frame_ok:
  assumes "wa_read_frame C k c = (c', r)" "wa_ok c" "wa_keys c"
  shows "calm r \<and> wa_ok c'"
  using assms framed_calm(2) [of "w_framed c"]
  by (fastforce simp: wa_read_frame_def wa_ok_def wa_keys_def split: prod.splits sum.splits option.splits)

lemma wa_Read_ok:
  assumes "wa_ok c" "wa_Read C D k c = (c', r)"
  shows "calm r \<and> wa_ok c'"
proof -
  obtain c1 x where h: "ensureHandshake C D c = (c1, x)" by (cases "ensureHandshake C D c")
  have "wa_ok (c1\<lparr>w_buf := b\<rparr>) = wa_ok c1" for b by (simp add: wa_ok_def wa_keys_def)
  with ensureHandshake_ok [OF assms(1) h] assms h show ?thesis
    by (auto simp: wa_Read_def split: option.splits if_splits dest: wa_read_frame_ok)
qed

section \<open>Every connection\<close>

fun any_ok :: "('hs, 'cs, 'sk, 'pk) any_conn \<Rightarrow> bool" where
  "any_ok (RawConn c) = raw_ok c"
| "any_ok (NsConn c) = ns_ok c"
| "any_ok (BoltConn c) = True"
| "any_ok (WaConn c) = wa_ok c"

text \<open>The calls a runner makes on a connection, and what they report.\<close>

datatype conn_op = OpWrite bytes | OpRead nat | OpCloseWrite | OpClose

fun any_step :: "('hs, 'cs, 'sk, 'pk, 'fe) libs \<Rightarrow> conn_op \<Rightarrow> ('hs, 'cs, 'sk, 'pk) any_conn \<Rightarrow>
    ('hs, 'cs, 'sk, 'pk) any_conn \<times> err option" where
  "any_step B (OpWrite p) c = (case any_Write B p c of (c', n, e) \<Rightarrow> (c', e))"
| "any_step B (OpRead k) c = apsnd (\<lambda>r. case r of Inl e \<Rightarrow> Some e | Inr d \<Rightarrow> None) (any_Read B k c)"
| "any_step B OpCloseWrite c = apsnd (map_option Io) (any_CloseWrite c)"
| "any_step B OpClose c = apsnd (map_option Io) (any_Close c)"

fun any_run :: "('hs, 'cs, 'sk, 'pk, 'fe) libs \<Rightarrow> conn_op list \<Rightarrow> ('hs, 'cs, 'sk, 'pk) any_conn \<Rightarrow>
    ('hs, 'cs, 'sk, 'pk) any_conn \<times> err option list" where
  "any_run B [] c = (c, [])"
| "any_run B (a # as) c = (case any_step B a c of (c', e) \<Rightarrow> apsnd (Cons e) (any_run B as c'))"

text \<open>The connections on which the one panic can happen, and what a call on any connection may end in.\<close>

fun any_unnamed :: "('hs, 'cs, 'sk, 'pk) any_conn \<Rightarrow> bool" where
  "any_unnamed (NsConn c) = unnamed_conn c"
| "any_unnamed _ = False"

definition any_calm :: "('hs, 'cs, 'sk, 'pk) any_conn \<Rightarrow> err option \<Rightarrow> bool" where
  "any_calm c e \<longleftrightarrow> calm_opt e \<or> (any_unnamed c \<and> e = Some index_panic)"

lemma close_ok:
  "raw_ok (fst (raw_Close c)) = raw_ok c" "raw_ok (fst (raw_CloseWrite c)) = raw_ok c"
  "ns_ok (fst (ns_Close d)) = ns_ok d" "ns_ok (fst (ns_CloseWrite d)) = ns_ok d"
  "unnamed_conn (fst (ns_Close d)) = unnamed_conn d" "unnamed_conn (fst (ns_CloseWrite d)) = unnamed_conn d"
  "wa_ok (fst (wa_Close w)) = wa_ok w" "wa_ok (fst (wa_CloseWrite w)) = wa_ok w"
  by (simp_all add: raw_Close_def raw_CloseWrite_def ns_Close_def ns_CloseWrite_def wa_Close_def wa_CloseWrite_def
      raw_ok_def ns_ok_def ns_keys_def wa_ok_def wa_keys_def unnamed_conn_def split_beta split: option.split)

lemma any_step_ok:
  assumes "handshake_counts (lib_noise B) Q" "crypto_ok (lib_crypto B)" "any_ok c" "any_step B a c = (c', e)"
  shows "any_calm c e \<and> any_ok c' \<and> any_unnamed c' = any_unnamed c"
proof (cases a)
  case (OpWrite p)
  with assms show ?thesis
    by (cases c) (auto simp: apfst_def map_prod_def any_calm_def ns_calm_def ns_same_unnamed split: prod.splits
        dest: raw_Write_ok ns_Write_ok bolt_Write_calm wa_Write_ok)
next
  case (OpRead k)
  with assms show ?thesis
  proof (cases c)
    case (NsConn d)
    obtain d' r where d: "ns_Read (lib_noise B) k d = (d', r)" by (cases "ns_Read (lib_noise B) k d")
    from ns_Read_ok [OF assms(1) _ d] assms(3,4) NsConn OpRead d show ?thesis
      by (auto simp: apfst_def apsnd_def map_prod_def any_calm_def ns_calm_def ns_same_unnamed)
  qed (auto simp: apfst_def apsnd_def map_prod_def any_calm_def split: prod.splits sum.splits
        dest: raw_Read_ok bolt_Read_calm wa_Read_ok)
next
  case OpCloseWrite
  with assms(3,4) show ?thesis
    by (cases c) (auto simp: apfst_def apsnd_def map_prod_def split_beta any_calm_def close_ok)
next
  case OpClose
  with assms(3,4) show ?thesis
    by (cases c) (auto simp: apfst_def apsnd_def map_prod_def split_beta any_calm_def close_ok)
qed

lemma any_run_ok:
  assumes "handshake_counts (lib_noise B) Q" "crypto_ok (lib_crypto B)"
  shows "any_ok c \<Longrightarrow> any_run B as c = (c', es) \<Longrightarrow> (\<forall>e \<in> set es. any_calm c e) \<and> any_ok c'"
proof (induction as arbitrary: c c' es)
  case (Cons a as)
  obtain c1 e where s: "any_step B a c = (c1, e)" by (cases "any_step B a c")
  obtain c2 fs where r: "any_run B as c1 = (c2, fs)" by (cases "any_run B as c1")
  from any_step_ok [OF assms Cons.prems(1) s] Cons.IH [OF _ r] Cons.prems(2) s r show ?case by (auto simp: any_calm_def)
qed simp

section \<open>Opening\<close>

text \<open>The configuration and the options a connection is opened with.\<close>

definition open_ok :: "noise_config option \<Rightarrow> options \<Rightarrow> bool" where
  "open_ok cfg opts \<longleftrightarrow> (\<forall>c. cfg = Some c \<longrightarrow> cfg_ok c) \<and> (\<forall>neg. o_negotiation opts = Some neg \<longrightarrow> neg_ok neg)"

lemma new_ok:
  "raw_ok (raw_Client n cfg) = cfg_ok cfg" "raw_ok (raw_Server n cfg) = cfg_ok cfg"
  "ns_ok (ns_Client n cfg nd p) = cfg_ok cfg" "ns_ok (ns_Server n cfg nd p) = cfg_ok cfg"
  "ns_ok (ClientWithNegotiation n neg p) = neg_ok neg" "ns_ok (ServerWithNegotiation n neg p) = neg_ok neg"
  "wa_ok (newConn f hs r)" "wa_ok (newDeferredServerConn f kp r)"
  by (simp_all add: raw_Client_def raw_Server_def raw_new_def raw_ok_def ns_Client_def ns_Server_def ClientWithNegotiation_def
      ServerWithNegotiation_def ns_new_def ns_ok_def newConn_def newDeferredServerConn_def wa_ok_def wa_keys_def)

lemma cfg_ok_prologue [simp]: "cfg_ok (c\<lparr>cfg_prologue := p\<rparr>) = cfg_ok c"
  by (simp add: cfg_ok_def)

lemma DialWithDialer_ok:
  assumes "handshake_counts L Q" "\<And>c. cfg = Some c \<Longrightarrow> cfg_ok c" "DialWithDialer L V t d nw addr la cfg = Inr c"
  shows "raw_ok c"
proof -
  from assms(3) obtain nc n where "cfg = Some nc" "raw_Handshake L (raw_Client n nc) = (c, None)"
    by (auto simp: DialWithDialer_def abandon_def Let_def split_beta prod_eq_iff split: option.splits if_splits)
  with raw_Handshake_ok [OF assms(1), of "raw_Client n nc" c None] assms(2) show ?thesis by (simp add: new_ok)
qed

lemma wa_client_over_ok: "wa_client_over B k root r n = Inr c \<Longrightarrow> wa_ok c"
  by (auto simp: wa_client_over_def abandon_def new_ok split: prod.splits sum.splits)

lemma wa_Accept_ok: "wa_Accept D r cfg acc = Inr c \<Longrightarrow> wa_ok c"
  by (cases "keypairFromConfig D cfg r"; cases "snd (keypairFromConfig D cfg r)")
    (auto simp: wa_Accept_def abandon_def new_ok)

lemma any_Dial_ok:
  assumes "handshake_counts (lib_noise B) Q" "open_ok cfg opts" "any_Dial B V tp nw addr la cfg opts = Inr c"
  shows "any_ok c"
proof (cases tp)
  case RawTransport
  with assms(3) obtain cfg' r where "DialWithDialer (lib_noise B) V (o_dial_timeout opts) None nw addr la cfg' = Inr r" "c = RawConn r"
    "(if o_prologue opts \<noteq> [] then raw_applyPrologue cfg (o_prologue opts) else Inr cfg) = Inr cfg'"
    by (auto simp: raw_Dial_def)
  with DialWithDialer_ok [OF assms(1), of cfg'] assms(2) show ?thesis
    by (auto simp: open_ok_def raw_applyPrologue_def split: if_splits option.splits)
next
  case NsTransport
  with assms(2,3) show ?thesis
    by (cases cfg; cases "o_negotiation opts") (auto simp: ns_Dial_def open_ok_def new_ok)
next
  case BoltTransport
  with assms(3) show ?thesis
    by (cases "peer_static (the cfg)"; cases "parse_pub (lib_curve B) (the (peer_static (the cfg)))") (auto simp: bolt_Dial_def)
next
  case (WaTransport k)
  with assms(3) show ?thesis
    by (auto simp: wa_Dial_def dialBackend_def dialPeer_def Let_def dest: wa_client_over_ok split: prod.splits sum.splits if_splits)
next
  case UdpTransport
  with assms(3) obtain n nc r where u: "udp_applyPrologue cfg (o_prologue opts) = Some nc" "c = RawConn r"
    "raw_Handshake (lib_noise B) (raw_Client n nc) = (r, None)"
    by (auto simp: udp_Dial_def abandon_def split_beta prod_eq_iff split: option.splits)
  with assms(2) have "cfg_ok nc" by (auto simp: open_ok_def udp_applyPrologue_def split: if_splits)
  with raw_Handshake_ok [OF assms(1) _ u(3)] u(2) show ?thesis by (simp add: new_ok)
qed

lemma any_Accept_ok:
  assumes "open_ok cfg opts" "any_Listen B W tp nw addr cfg opts = Inr l" "any_Accept B V l acc = Inr c"
  shows "any_ok c"
proof (cases tp)
  case RawTransport
  with assms(1,2) obtain nc where "l = RawListener nc" "cfg_ok nc"
    by (auto simp: raw_Listen_def raw_listen_plain_def raw_applyPrologue_def open_ok_def split: if_splits option.splits)
  with assms(3) show ?thesis by (auto simp: any_Accept_def new_ok)
next
  case NsTransport
  with assms(2) have "l = NsListener cfg opts" "cfg \<noteq> None \<or> o_negotiation opts \<noteq> None"
    by (auto simp: ns_Listen_def split: if_splits)
  with assms(1,3) show ?thesis
    by (cases cfg; cases "o_negotiation opts") (auto simp: any_Accept_def ns_Accept_def open_ok_def new_ok)
next
  case BoltTransport
  with assms(2,3) show ?thesis by (auto simp: bolt_Listen_def any_Accept_def)
next
  case (WaTransport k)
  with assms(2,3) show ?thesis
    using wa_Accept_ok [of "lib_dh B" "rand_x V" cfg acc] by (auto simp: wa_Listen_def any_Accept_def)
next
  case UdpTransport
  with assms(2) have "l = UdpListener (udp_applyPrologue cfg (o_prologue opts))" by (auto simp: udp_Listen_def)
  with assms(1,3) show ?thesis
    by (auto simp: any_Accept_def udp_Accept_def udp_applyPrologue_def open_ok_def new_ok split: option.splits if_splits)
qed

lemma any_Dial_unnamed:
  assumes "any_Dial B V tp nw addr la cfg opts = Inr c" shows "\<not> any_unnamed c"
proof (cases tp)
  case NsTransport
  with assms show ?thesis
    by (cases cfg; cases "o_negotiation opts")
      (auto simp: ns_Dial_def ns_Client_def ClientWithNegotiation_def ns_new_def unnamed_conn_def)
next
  case BoltTransport
  with assms show ?thesis
    by (cases "peer_static (the cfg)"; cases "parse_pub (lib_curve B) (the (peer_static (the cfg)))") (auto simp: bolt_Dial_def)
next
  case UdpTransport
  with assms obtain r where "c = RawConn r" by (auto simp: udp_Dial_def abandon_def split_beta split: option.splits)
  then show ?thesis by simp
qed (use assms in \<open>auto simp: raw_Dial_def wa_Dial_def Let_def split: prod.splits sum.splits if_splits\<close>)

lemma any_Accept_unnamed:
  assumes "any_Listen B W tp nw addr cfg opts = Inr l" "any_Accept B V l acc = Inr c" "any_unnamed c"
  shows "tp = NsTransport \<and> (\<exists>neg. o_negotiation opts = Some neg \<and> unnamed neg)"
proof (cases tp)
  case NsTransport
  with assms(1) have l: "l = NsListener cfg opts" by (auto simp: ns_Listen_def split: if_splits)
  with assms(2,3) NsTransport show ?thesis
    by (cases cfg; cases "o_negotiation opts")
      (auto simp: any_Accept_def ns_Accept_def ns_Server_def ServerWithNegotiation_def ns_new_def unnamed_conn_def)
next
  case RawTransport
  with assms(1) obtain nc where "l = RawListener nc" by (auto simp: raw_Listen_def raw_listen_plain_def split: if_splits option.splits)
  with assms(2,3) show ?thesis by (auto simp: any_Accept_def)
next
  case BoltTransport
  with assms show ?thesis by (auto simp: bolt_Listen_def any_Accept_def)
next
  case (WaTransport k)
  with assms show ?thesis by (auto simp: wa_Listen_def any_Accept_def)
next
  case UdpTransport
  with assms(1) obtain nc where "l = UdpListener nc" by (auto simp: udp_Listen_def)
  with assms(2,3) show ?thesis by (auto simp: any_Accept_def)
qed

text \<open>
  C3. Panics. On a connection that any transport's Dial or Accept returned, take any sequence of writes, reads
  and closes, whatever the peer sends, whatever fails below, also after earlier errors and with the handshake
  still to be run. A call that ends in a nil pointer or an index out of range can only be the responder's index of
  its first supported protocol, and only if the connection was accepted by the NoiseSocket transport, its
  negotiation has an empty list of supported protocols, and its policy is retry or switch. No other call panics,
  and the state stays well-formed. The hypotheses: the handshake library gives its cipher states with the last message of the pattern
  and not before, the AEAD tag has 16 bytes, and the configurations given (or built by the negotiation's factory,
  which does not itself panic) have a pattern with a message.
\<close>

theorem no_operation_panics:
  assumes "handshake_counts (lib_noise B) Q" "crypto_ok (lib_crypto B)" "open_ok cfg opts"
    and "any_Dial B V tp nw addr la cfg opts = Inr c \<or>
      (\<exists>W l acc. any_Listen B W tp nw addr cfg opts = Inr l \<and> any_Accept B V l acc = Inr c)"
    and "any_run B calls c = (c', es)"
  shows "(\<forall>e. Some e \<in> set es \<and> panics e \<longrightarrow>
      e = Panic ''index out of range [0] with length 0'' \<and>
      (\<exists>W l acc. any_Listen B W NsTransport nw addr cfg opts = Inr l \<and> any_Accept B V l acc = Inr c) \<and>
      tp = NsTransport \<and>
      (\<exists>neg. o_negotiation opts = Some neg \<and> supported neg = [] \<and> policy neg \<in> {''retry'', ''switch''})) \<and> any_ok c'"
proof -
  have "any_ok c" using assms(4) any_Dial_ok [OF assms(1,3)] any_Accept_ok [OF assms(3)] by blast
  note run = any_run_ok [OF assms(1,2) this assms(5)]
  show ?thesis
  proof (intro conjI allI impI)
    fix e assume e: "Some e \<in> set es \<and> panics e"
    with run have c: "any_calm c (Some e)" by blast
    with e show "e = index_panic" by (simp add: any_calm_def)
    from c e have u: "any_unnamed c" by (simp add: any_calm_def)
    with assms(4) any_Dial_unnamed obtain W l acc where
      a: "any_Listen B W tp nw addr cfg opts = Inr l" "any_Accept B V l acc = Inr c" by blast
    from any_Accept_unnamed [OF a u]
    show "tp = NsTransport" "\<exists>neg. o_negotiation opts = Some neg \<and> supported neg = [] \<and> policy neg \<in> {''retry'', ''switch''}"
      by (auto simp: unnamed_def)
    with a show "\<exists>W l acc. any_Listen B W NsTransport nw addr cfg opts = Inr l \<and> any_Accept B V l acc = Inr c" by blast
  qed (use run in blast)
qed

lemma ex_counts: "handshake_counts ex_lib (\<lambda>k hs. hs = k)"
  by (auto simp: handshake_counts_def ex_lib_def)

theorem no_operation_panics_witness:
  "\<exists>c c' es. any_Dial ex_libs ex_V NsTransport ''tcp'' ''a:1'' [] (Some (ex_config True)) ex_opts = Inr c \<and>
     any_run ex_libs [OpWrite [1], OpRead 4, OpClose, OpWrite [2]] c = (c', es) \<and> list_all calm_opt es \<and> any_ok c'"
proof -
  obtain c where c: "any_Dial ex_libs ex_V NsTransport ''tcp'' ''a:1'' [] (Some (ex_config True)) ex_opts = Inr c"
    by (simp add: ns_Dial_def ex_opts_def ex_V_def local_addr_def)
  obtain c' es where r: "any_run ex_libs [OpWrite [1], OpRead 4, OpClose, OpWrite [2]] c = (c', es)"
    by (metis surj_pair)
  have "handshake_counts (lib_noise ex_libs) (\<lambda>k hs. hs = k)" "crypto_ok (lib_crypto ex_libs)"
    by (simp_all add: ex_libs_def ex_counts ex_crypto_ok)
  moreover have "open_ok (Some (ex_config True)) ex_opts"
    by (simp add: open_ok_def cfg_ok_def ex_config_def ex_opts_def)
  ultimately have "(\<forall>e. Some e \<in> set es \<and> panics e \<longrightarrow> (\<exists>neg. o_negotiation ex_opts = Some neg)) \<and> any_ok c'"
    using no_operation_panics [OF _ _ _ disjI1 [OF c] r] by blast
  then have "list_all calm_opt es \<and> any_ok c'"
    by (auto simp: ex_opts_def list_all_iff calm_opt_def split: option.split)
  then show ?thesis using c r by blast
qed

end
