(* ===== verification/Session.thy ===== *)
theory Session
  imports Any_Conn Runners NS_Agreement
begin

text \<open>
  From one terminal to the other: \<open>handleIO\<close> at both ends of a connection over any transport. The copying
  sees the connection as an endpoint (what it reads, what it writes), the transport as a session of writes
  and reads; \<open>runs_over\<close> is the interface between the two.
\<close>

section \<open>The copying over a connection\<close>

text \<open>
  The endpoint of a run of \<open>handleIO\<close> that started on \<open>conn\<close> and is in state \<open>s\<close> is one end of a session in which
  that end wrote \<open>w\<close> and read \<open>g\<close>: what the transport took of the writes is the beginning of what was written to
  the endpoint, and what the endpoint delivers is the beginning of what the transport's reads returned.
\<close>

definition runs_over :: "endpoint \<Rightarrow> hio \<Rightarrow> bytes \<Rightarrow> bytes \<Rightarrow> bool" where
  "runs_over conn s w g \<longleftrightarrow> prefix w (e_tx (h_ep s EConn)) \<and> prefix (stream (e_rx conn)) g"

abbreviation local_input :: "endpoint \<Rightarrow> endpoint option \<Rightarrow> endpoint" where
  "local_input w r \<equiv> (case r of None \<Rightarrow> w | Some x \<Rightarrow> x)"

lemma one_way:
  assumes "runs_over connA sA wa ga" "runs_over connB sB wb gb" "prefix gb wa"
    and "prefix (e_tx (h_ep sA EConn)) x" "prefix y (stream (e_rx connB))"
  shows "prefix y x"
  using assms prefix_order.trans unfolding runs_over_def by metis

text \<open>
  A call of \<open>handleIO\<close> that nothing disturbs and that has returned: both sources end regularly, no write
  fails, no end of one copy closes what the other reads, and the safety timer has not fired.
\<close>

definition undisturbed_run :: "endpoint \<Rightarrow> endpoint \<Rightarrow> endpoint option \<Rightarrow> hio \<Rightarrow> bool" where
  "undisturbed_run conn w r s \<longleftrightarrow> hreach (handleIO_start conn w r) s \<and> h_main s = Returned \<and> h_timer s \<noteq> TFired \<and>
     ready_ep conn \<and> ready_ep w \<and> (case r of None \<Rightarrow> True | Some x \<Rightarrow> \<not> e_closed x) \<and> clean (e_rx conn) \<and> clean (e_rx (local_input w r)) \<and>
     e_kind conn = HalfClose \<and> (r = None \<longrightarrow> e_kind w = HalfClose)"

lemma undisturbed_delivers:
  assumes "undisturbed_run conn w r s"
  shows "e_tx (h_ep s EConn) = stream (e_rx (local_input w r)) \<and> e_tx (h_ep s EW) = stream (e_rx conn)"
proof -
  have "r = None \<or> (\<exists>x. r = Some x \<and> \<not> e_closed x)" using assms by (auto simp: undisturbed_run_def split: option.splits)
  with assms handle_io_delivered [of conn w r s] show ?thesis by (simp add: undisturbed_run_def)
qed

text \<open>The transport took all that was written to the endpoint, and the endpoint delivers all that was read.\<close>

definition runs_whole :: "endpoint \<Rightarrow> hio \<Rightarrow> bytes \<Rightarrow> bytes \<Rightarrow> bool" where
  "runs_whole conn s w g \<longleftrightarrow> e_tx (h_ep s EConn) = w \<and> stream (e_rx conn) = g"

section \<open>From one terminal to the other\<close>

text \<open>
  C1. End to end: two noisecats over the connections \<open>a0\<close>, \<open>b0\<close> that a dialer and a listener of one transport
  return - raw, NoiseSocket, BOLT-8, WhatsApp or, over KCP, raw again -, with their handshakes still to be
  run by the first Write or Read where the transport defers them. Each end calls Write and Read on its
  connection in any order and with any buffers, each of the two until it fails, at any point of a frame, and
  the network delivers to each the beginning of what the other one sends. Each end copies between its
  connection and its local side. Whatever the chunks, the interleavings of the two copies and the timers at
  the two ends, and whatever fails or is closed: what comes out at one side is at every moment a prefix of what went in at the other, in both
  directions.
\<close>

theorem noisecat_end_to_end:
  assumes "any_ready B R x y a0 b0 a b"
    and "any_calls B ca a0 = (a', fa, wa, ga)" "any_calls B cb b0 = (b', fb, wb, gb)" "carried a a' y" "carried b b' x"
    and "hreach (handleIO_start connA outA inA) sA" "runs_over connA sA wa ga"
    and "hreach (handleIO_start connB outB inB) sB" "runs_over connB sB wb gb"
    and "e_tx connA = []" "e_tx outA = []" "e_tx connB = []" "e_tx outB = []"
  shows "prefix (e_tx (h_ep sB EW)) (stream (e_rx (local_input outA inA))) \<and>
    prefix (e_tx (h_ep sA EW)) (stream (e_rx (local_input outB inB)))"
proof -
  have p: "prefix gb wa" "prefix ga wb"
    by (rule any_ready_prefix [OF assms(1-4)]) (rule any_ready_prefix [OF any_ready_flip [OF assms(1)] assms(3,2,5)])
  from handle_io_prefix [OF assms(6,10,11)] handle_io_prefix [OF assms(8,12,13)]
    one_way [OF assms(7,9) p(1)] one_way [OF assms(9,7) p(2)] show ?thesis by blast
qed

text \<open>
  C2. Nothing is lost: over NoiseSocket, BOLT-8 and WhatsApp, when the network has delivered to each end all
  the other has sent, at each end every Write has succeeded and the Reads have gone on until one failed - as
  it does at the end of the stream, while the Writes may go on -, and both calls of \<open>handleIO\<close> return undisturbed, then exactly what went in at one side has come out at the
  other, in both directions. (The raw transport is left out: its Read drops buffered bytes when the next
  frame fails.)
\<close>

theorem noisecat_delivers_everything:
  assumes "any_ready B R x y a0 b0 a b" "\<And>r. a \<noteq> RawConn r"
    and "any_calls B ca a0 = (a', (True, False), wa, ga)" "any_calls B cb b0 = (b', (True, False), wb, gb)"
    and "carried_all a a' y" "carried_all b b' x"
    and "undisturbed_run connA outA inA sA" "runs_whole connA sA wa ga"
    and "undisturbed_run connB outB inB sB" "runs_whole connB sB wb gb"
  shows "e_tx (h_ep sB EW) = stream (e_rx (local_input outA inA)) \<and> e_tx (h_ep sA EW) = stream (e_rx (local_input outB inB))"
proof -
  have b: "b \<noteq> RawConn r" for r
    using assms(1,2) by (cases a; cases b) (auto simp: any_ready_def)
  have "gb = wa" by (rule any_ready_complete [OF assms(1,3,4,5,2)])
  moreover have "ga = wb" by (rule any_ready_complete [OF any_ready_flip [OF assms(1)] assms(4,3,6) b])
  ultimately show ?thesis
    using undisturbed_delivers [OF assms(7)] undisturbed_delivers [OF assms(9)] assms(8,10) by (simp add: runs_whole_def)
qed

section \<open>An instance\<close>

text \<open>A client and a server over NoiseSocket with their handshakes deferred; the client's data are in the
  same chunk as its handshake message.\<close>

definition ex_deferred :: "bool \<Rightarrow> read_event list \<Rightarrow> (nat, nat) ns_conn" where
  "ex_deferred client es = ns_new client (fresh_net es) (Some (ex_config client)) None [] []"

definition ex_opened :: "bool \<Rightarrow> read_event list \<Rightarrow> (nat, nat) ns_conn" where
  "ex_opened client es = (ex_deferred client [])\<lparr>s_net := (fresh_net es)\<lparr>tx := [frameBytes [] [1]]\<rparr>, s_hs := Some 0,
     s_out := Some 0, s_in := Some 0, s_done := True\<rparr>"

lemma ex_handshake:
  obtains es where "ns_Handshake ex_lib (ex_deferred client [Data (frameBytes [] [1] @ x)]) = (ex_opened client es, None)"
    "avail es = x" "all_data es"
proof -
  let ?d = "[Data (frameBytes [] [1] @ x)]"
  let ?c = "ex_deferred client ?d"
  have n: "net_ok (fresh_net e)" "rx (fresh_net e) = e" "tx (fresh_net e) = []" for e
    using net_ok_fresh by (simp_all add: fresh_net_def)
  have h: "hs_write ex_lib (Suc k) = (k, Inr ([1], if k = 0 then Some (0, 0) else None))"
    "hs_read ex_lib (Suc k) m = (k, Inr (if k = 0 then Some (0, 0) else None))" for k m by (simp_all add: ex_lib_def)
  have l: "length [1 :: byte] \<le> max_msg_len" "length [] \<le> MaxMessageLen" by (simp_all add: max_msg_len_def)
  have p: "ns_Handshake ex_lib ?c = ns_finish (ns_hs_loop ex_lib (Suc (Suc 0)) client True (Suc (Suc 0)) ?c)"
    by (simp add: ns_Handshake_def ex_deferred_def ns_new_def ns_handshake_accept_eq ex_lib_def ex_config_def zero_noise_config_def numeral_2_eq_2
        del: ns_hs_loop.simps)
  have f: "s_net ?c = fresh_net ?d" "s_neg_data ?c = []" "s_client ?c = client" by (simp_all add: ex_deferred_def ns_new_def)
  show ?thesis
  proof (cases client)
    case True
    let ?c1 = "?c\<lparr>s_net := (fresh_net ?d)\<lparr>tx := [frameBytes [] [1]]\<rparr>\<rparr>"
    have w: "ns_hs_loop ex_lib (Suc (Suc 0)) True True (Suc (Suc 0)) ?c = ns_hs_loop ex_lib (Suc 0) False False (Suc 0) ?c1"
      using ns_hs_loop_write [of ?c ex_lib "Suc (Suc 0)", OF _ h(1) l(1), of "[]" True "Suc 0"] n f True by (simp add: assign_opt_def del: ns_hs_loop.simps)
    have "net_ok (s_net ?c1)" "avail (rx (s_net ?c1)) = frameBytes [] [1] @ x" by (simp_all add: n) 
    from ns_hs_loop_read [OF this l(1) h(2) [of 0] _ l(2), of False 0] obtain es where
      "ns_hs_loop ex_lib (Suc 0) False False (Suc 0) ?c1 = ns_hs_loop ex_lib 0 True False 0 (assign_opt (Some (0, 0)) (?c1\<lparr>s_net := (s_net ?c1)\<lparr>rx := es\<rparr>\<rparr>))"
      "avail es = x" "all_data es" by (auto simp: n simp del: ns_hs_loop.simps)
    with True w p show ?thesis by (intro that [of es])
      (simp_all add: ex_opened_def ex_deferred_def ns_new_def assign_opt_def assignCipherStates_def fresh_net_def del: ns_hs_loop.simps(2))
  next
    case False
    have "net_ok (s_net ?c)" "avail (rx (s_net ?c)) = frameBytes [] [1] @ x" by (simp_all add: n f) 
    moreover have "hs_read ex_lib (Suc (Suc 0)) [1] = (Suc 0, Inr None)" "True \<and> \<not> s_client ?c \<longrightarrow> [] = s_neg_data ?c"
      by (simp_all add: h ex_deferred_def ns_new_def)
    ultimately obtain es where "ns_hs_loop ex_lib (Suc (Suc 0)) False True (Suc (Suc 0)) ?c =
        ns_hs_loop ex_lib (Suc 0) True False (Suc 0) (assign_opt None (?c\<lparr>s_net := (s_net ?c)\<lparr>rx := es\<rparr>\<rparr>))"
      "avail es = x" "all_data (rx (s_net ?c)) \<Longrightarrow> all_data es" using ns_hs_loop_read [OF _ _ l(1) _ _ l(2)] by metis
    then have r: "ns_hs_loop ex_lib (Suc (Suc 0)) False True (Suc (Suc 0)) ?c = ns_hs_loop ex_lib (Suc 0) True False (Suc 0) (?c\<lparr>s_net := (s_net ?c)\<lparr>rx := es\<rparr>\<rparr>)"
      "avail es = x" "all_data es" by (simp_all add: n f assign_opt_def del: ns_hs_loop.simps)
    let ?c1 = "?c\<lparr>s_net := (s_net ?c)\<lparr>rx := es\<rparr>\<rparr>"
    have "ns_hs_loop ex_lib (Suc 0) True False (Suc 0) ?c1 =
       ns_hs_loop ex_lib 0 False False 0 (assign_opt (Some (0, 0)) (?c1\<lparr>s_net := (s_net ?c1)\<lparr>tx := tx (s_net ?c1) @ [frameBytes [] [1]]\<rparr>\<rparr>))"
      using ns_hs_loop_write [of ?c1 ex_lib "Suc 0", OF _ h(1) l(1), of "[]" False 0] n f by (simp del: ns_hs_loop.simps)
    with False r p show ?thesis by (intro that [of es])
      (simp_all add: ex_opened_def ex_deferred_def ns_new_def assign_opt_def assignCipherStates_def fresh_net_def del: ns_hs_loop.simps(2))
  qed
qed


definition ex_wire :: bytes where
  "ex_wire = put16 20 @ ex_tag 0 @ put16 2 @ [7, 8]"

abbreviation ex_any :: "(nat, nat) ns_conn \<Rightarrow> (nat, nat, byte, byte) any_conn" where
  "ex_any \<equiv> NsConn"

lemma ex_read_end:
  assumes "ns_live c" "s_buf c = []" "avail (rx (s_net c)) = []" "\<not> net_closed (s_net c)" "0 < k"
  shows "\<exists>z e. ns_Read ex_lib k c = (z, Inl e)"
proof -
  from full.rd_short [of "s_net c" 2] assms(3,4) obtain n e where "readFull 2 (s_net c) = (n, Inl e)" by auto
  with assms show ?thesis by (auto simp: ns_Read_def ns_Handshake_def ns_live_def ns_read_frame_def readLengthPrefixed_def)
qed

lemma ex_opened_live: "ns_live (ex_opened i es)" "s_buf (ex_opened i es) = []" "rx (s_net (ex_opened i es)) = es"
  "\<not> net_closed (s_net (ex_opened i es))" "s_in (ex_opened i es) = Some 0"
  by (simp_all add: ns_live_def ex_opened_def ex_deferred_def ns_new_def fresh_net_def)

lemma ex_run:
  obtains a b za zb where
    "any_ready ex_libs (=) [] ex_wire (ex_any (ex_deferred True [Data (frameBytes [] [1])]))
       (ex_any (ex_deferred False [Data (frameBytes [] [1] @ ex_wire)])) (ex_any a) (ex_any b)"
    "any_calls ex_libs [CallWrite [7, 8], CallRead 1] (ex_any (ex_deferred True [Data (frameBytes [] [1])])) =
       (ex_any za, (True, False), [7, 8], [])"
    "any_calls ex_libs [CallRead 2, CallRead 1] (ex_any (ex_deferred False [Data (frameBytes [] [1] @ ex_wire)])) =
       (ex_any zb, (True, False), [], [7, 8])"
    "carried_all (ex_any a) (ex_any za) ex_wire" "carried_all (ex_any b) (ex_any zb) []"
proof -
  have n: "lib_noise ex_libs = ex_lib" by (simp add: ex_libs_def)
  let ?dc = "ex_deferred True [Data (frameBytes [] [1])]" and ?ds = "ex_deferred False [Data (frameBytes [] [1] @ ex_wire)]"
  obtain es where es: "ns_Handshake ex_lib ?dc = (ex_opened True es, None)" "avail es = []" "all_data es"
    using ex_handshake [of True "[]"] by (simp add: append_Nil2) blast
  obtain fs where fs: "ns_Handshake ex_lib ?ds = (ex_opened False fs, None)" "avail fs = ex_wire" "all_data fs"
    by (rule ex_handshake [of False ex_wire])
  let ?a = "ex_opened True es" and ?b = "ex_opened False fs"
  have "ns_peers_at ex_lib (=) [] ex_wire ?a ?b"
    using es fs ex_opened_live by (simp add: ns_peers_at_def ex_cipher_pair, simp add: ex_opened_def)
  with es(1) fs(1) have ready: "any_ready ex_libs (=) [] ex_wire (ex_any ?dc) (ex_any ?ds) (ex_any ?a) (ex_any ?b)"
    by (intro ns_ready) (simp_all add: n ex_deferred_def ns_new_def fresh_net_def)
  let ?a' = "?a\<lparr>s_out := Some 1, s_net := (fresh_net es)\<lparr>tx := [frameBytes [] [1], ex_wire]\<rparr>\<rparr>"
  have "ns_Write ex_lib [7, 8] ?dc = (?a', 2, None)"
    using es(1) by (simp add: ns_Write_def ex_opened_def ex_deferred_def ns_new_def ns_write_loop.simps ex_lib_def ex_encrypt_def
      ex_max_nonce_def fresh_net_def conn_write_def ns_maxBody_def MaxMessageLen_def ex_tag_def putUint16_def writeLengthPrefixed_def ex_wire_def two)
  moreover have "ns_live ?a'" "avail (rx (s_net ?a')) = []" "s_buf ?a' = []" "\<not> net_closed (s_net ?a')"
    using es(2) by (simp_all add: ns_live_def ex_opened_def ex_deferred_def ns_new_def fresh_net_def)
  moreover from this obtain za ea where za: "ns_Read ex_lib 1 ?a' = (za, Inl ea)" using ex_read_end [of ?a' 1] by auto
  moreover have "carried_all (ex_any ?a) (ex_any za) ex_wire"
    using nsc.rd_stop [OF _ za] \<open>ns_live ?a'\<close> by (simp add: carried_all_def, simp add: ex_opened_def)
  ultimately have A: "any_calls ex_libs [CallWrite [7, 8], CallRead 1] (ex_any ?dc) = (ex_any za, (True, False), [7, 8], [])"
    "carried_all (ex_any ?a) (ex_any za) ex_wire"
    by (simp_all add: n)
  have "cs_decrypt ex_lib 0 (ex_tag 0 @ put16 2 @ [7, 8]) = (1, Inr (put16 2 @ [7, 8]))" "ns_body (put16 2 @ [7, 8]) = Some [7, 8]"
    by (simp_all add: ex_lib_def ex_decrypt_def ex_max_nonce_def ex_tag_def ns_body_def put16_eq get16_eq)
  from ns_dec_frame [OF _ this, of "[]"] have dec: "ns_dec ex_lib 0 ex_wire = Some (1, [7, 8], [])" by (simp add: ex_tag_def ex_wire_def)
  then have "\<exists>b'. ns_Read ex_lib 2 ?b = (b', Inr (take 2 [7, 8]))"
    using ex_opened_live fs(2,3) by (intro ns_Read_next) (auto simp: ex_opened_live)
  then obtain b' where b': "ns_Read ex_lib 2 ?b = (b', Inr [7, 8])" by auto
  have "\<not> net_closed (s_net ?b)" "all_data (rx (s_net ?b))" using ex_opened_live fs(3) by simp_all
  from nsc.rd_spec [OF ex_opened_live(1) this(1) b'] dec fs(2)
  have l: "ns_live b'" "avail (rx (s_net b')) = []" "s_buf b' = []" "\<not> net_closed (s_net b')"
    "concat (tx (s_net b')) = concat (tx (s_net ?b))" by (auto simp: ex_opened_live)
  have "ns_Read ex_lib 2 ?ds = (b', Inr [7, 8])" using ns_deferred(2) [OF fs(1)] b' ex_opened_live(1) by (simp add: ns_live_def)
  moreover obtain zb eb where zb: "ns_Read ex_lib 1 b' = (zb, Inl eb)" using ex_read_end [of b' 1] l by auto
  ultimately have "any_calls ex_libs [CallRead 2, CallRead 1] (ex_any ?ds) = (ex_any zb, (True, False), [], [7, 8])" by (simp add: n)
  moreover have "carried_all (ex_any ?b) (ex_any zb) []" using nsc.rd_stop [OF l(1) zb] l(5) by (simp add: carried_all_def)
  ultimately show ?thesis using that [OF ready A(1) _ A(2)] by simp
qed

definition ex_end :: "src_event list \<Rightarrow> endpoint" where
  "ex_end evs = fresh_ep HalfClose True evs []"

theorem noisecat_end_to_end_witness:
  "prefix (e_tx (h_ep (hrun (replicate 4 (Copy RCV))
      (handleIO_start (ex_end [Chunk [7, 8]]) (ex_end []) None)) EW)) (stream [Chunk [7], Chunk [8, 9]]) \<and>
   e_tx (h_ep (hrun (replicate 4 (Copy RCV)) (handleIO_start (ex_end [Chunk [7, 8]]) (ex_end []) None)) EW) = [7, 8]"
proof -
  let ?sA = "hrun (replicate 8 (Copy SNT)) (handleIO_start (ex_end []) (ex_end [Chunk [7], Chunk [8, 9]]) None)"
  let ?sB = "hrun (replicate 4 (Copy RCV)) (handleIO_start (ex_end [Chunk [7, 8]]) (ex_end []) None)"
  obtain a b za zb where r: "any_ready ex_libs (=) [] ex_wire (ex_any (ex_deferred True [Data (frameBytes [] [1])]))
       (ex_any (ex_deferred False [Data (frameBytes [] [1] @ ex_wire)])) (ex_any a) (ex_any b)"
    "any_calls ex_libs [CallWrite [7, 8], CallRead 1] (ex_any (ex_deferred True [Data (frameBytes [] [1])])) =
       (ex_any za, (True, False), [7, 8], [])"
    "any_calls ex_libs [CallRead 2, CallRead 1] (ex_any (ex_deferred False [Data (frameBytes [] [1] @ ex_wire)])) =
       (ex_any zb, (True, False), [], [7, 8])"
    "carried_all (ex_any a) (ex_any za) ex_wire" "carried_all (ex_any b) (ex_any zb) []" by (rule ex_run)
  have c: "carried (ex_any a) (ex_any za) ex_wire" "carried (ex_any b) (ex_any zb) []"
    using r(4,5) by (simp_all add: carried_def carried_all_def)
  have "e_tx (h_ep ?sA EConn) = [7, 8, 9]" by code_simp
  then have "runs_over (ex_end []) ?sA [7, 8] []" "runs_over (ex_end [Chunk [7, 8]]) ?sB [] [7, 8]"
    by (simp_all add: runs_over_def ex_end_def fresh_ep_def)
  from noisecat_end_to_end [OF r(1-3) c hrun_reach this(1) hrun_reach this(2)]
  have "prefix (e_tx (h_ep ?sB EW)) (stream [Chunk [7], Chunk [8, 9]])"
    by (simp add: ex_end_def fresh_ep_def)
  moreover have "e_tx (h_ep ?sB EW) = [7, 8]" by code_simp
  ultimately show ?thesis by blast
qed

definition ex_sending :: hio where
  "ex_sending = hrun (replicate 7 (Copy SNT) @ [Main] @ replicate 3 (Copy RCV) @ [Main])
     (handleIO_start (ex_end [SrcEOF]) (ex_end [Chunk [7, 8], SrcEOF]) None)"

definition ex_receiving :: hio where
  "ex_receiving = hrun (replicate 7 (Copy RCV) @ [Main] @ replicate 3 (Copy SNT) @ [Main])
     (handleIO_start (ex_end [Chunk [7, 8], SrcEOF]) (ex_end [SrcEOF]) None)"

lemma ex_runs: "undisturbed_run (ex_end [SrcEOF]) (ex_end [Chunk [7, 8], SrcEOF]) None ex_sending"
  "undisturbed_run (ex_end [Chunk [7, 8], SrcEOF]) (ex_end [SrcEOF]) None ex_receiving"
  "runs_whole (ex_end [SrcEOF]) ex_sending [7, 8] []" "runs_whole (ex_end [Chunk [7, 8], SrcEOF]) ex_receiving [] [7, 8]"
proof -
  have "h_main ex_sending = Returned \<and> h_timer ex_sending = TStopped \<and> e_tx (h_ep ex_sending EConn) = [7, 8]"
    "h_main ex_receiving = Returned \<and> h_timer ex_receiving = TStopped \<and> e_tx (h_ep ex_receiving EConn) = []" by code_simp+
  then show "undisturbed_run (ex_end [SrcEOF]) (ex_end [Chunk [7, 8], SrcEOF]) None ex_sending"
    "undisturbed_run (ex_end [Chunk [7, 8], SrcEOF]) (ex_end [SrcEOF]) None ex_receiving"
    "runs_whole (ex_end [SrcEOF]) ex_sending [7, 8] []" "runs_whole (ex_end [Chunk [7, 8], SrcEOF]) ex_receiving [] [7, 8]"
    using hrun_reach by (simp_all add: undisturbed_run_def runs_whole_def ready_ep_def ex_end_def fresh_ep_def ex_sending_def ex_receiving_def)
qed

theorem noisecat_delivers_everything_witness: "e_tx (h_ep ex_receiving EW) = [7, 8] \<and> e_tx (h_ep ex_sending EW) = []"
proof -
  obtain a b za zb where r: "any_ready ex_libs (=) [] ex_wire (ex_any (ex_deferred True [Data (frameBytes [] [1])]))
       (ex_any (ex_deferred False [Data (frameBytes [] [1] @ ex_wire)])) (ex_any a) (ex_any b)"
    "any_calls ex_libs [CallWrite [7, 8], CallRead 1] (ex_any (ex_deferred True [Data (frameBytes [] [1])])) =
       (ex_any za, (True, False), [7, 8], [])"
    "any_calls ex_libs [CallRead 2, CallRead 1] (ex_any (ex_deferred False [Data (frameBytes [] [1] @ ex_wire)])) =
       (ex_any zb, (True, False), [], [7, 8])"
    "carried_all (ex_any a) (ex_any za) ex_wire" "carried_all (ex_any b) (ex_any zb) []" by (rule ex_run)
  from noisecat_delivers_everything [OF r(1) _ r(2-5) ex_runs(1,3,2,4)] show ?thesis by (simp add: ex_end_def fresh_ep_def)
qed

end
