(* ===== verification/Netcat_Sessions.thy ===== *)
theory Netcat_Sessions
  imports Netcat_Props NS_Safety Bolt8_Handshake
begin

text \<open>
  From the flags of two programs to a session over BOLT-8, over NoiseSocket with negotiation
  (a proposal that is accepted, retried or switched), and over WhatsApp between two programs.
\<close>

section \<open>BOLT-8\<close>

text \<open>A generated secp256k1 private key is serialised to 32 bytes.\<close>

definition secp_gen_ok :: "cat_env \<Rightarrow> bool" where
  "secp_gen_ok E \<longleftrightarrow> (\<forall>k. env_secp_gen E = Inr k \<longrightarrow> length (dh_private k) = 32)"

text \<open>The keys of a parsed secp256k1 configuration are those of the key file and of \<open>-rstatic\<close>.\<close>

lemma parsed_secp:
  assumes "ParseConfig E c = (c', Inr (Some nc))" "cf_DHFunc c' = NOISE_DH_SECP256K1" "secp_gen_ok E"
  shows "length (dh_private (static_keypair nc)) = 32"
    "\<not> cf_Listen c \<Longrightarrow> \<exists>rs. b64_decode (cf_RStatic c) = Inr rs \<and> peer_static nc = Some rs"
proof -
  let ?c = "if cf_Transport c = ''whatsapp'' then c\<lparr>cf_Protocol := wa_proto\<rparr> else c"
  from ParseConfig_Inr(2) [OF assms(1)] have "length (dh_private (static_keypair nc)) = 32 \<and>
    (\<not> cf_Listen c \<longrightarrow> (\<exists>rs. b64_decode (cf_RStatic c) = Inr rs \<and> peer_static nc = Some rs))"
  proof (cases rule: parseNoise_cases)
    case (secp r)
    from secp(3) [unfolded secp_Inr] obtain kp where
      kp: "loadSecp256k1Keypair E (cf_LStatic (set_protocol r ?c)) = Inr kp" "static_keypair nc = kp" 
      "\<not> cf_Listen c \<longrightarrow> (\<exists>rs. b64_decode (cf_RStatic c) = Inr rs \<and> peer_static nc = Some rs)"
      by (auto simp: set_protocol_def split: if_splits)
    from kp(1) have "length (dh_private kp) = 32" using assms(3) by (auto simp: loadSecp256k1Keypair_def secp_gen_ok_def split: if_splits)
    with kp show ?thesis by simp
  next
    case (noise r)
    with assms(2) show ?thesis by (simp add: set_protocol_def)
  qed
  then show "length (dh_private (static_keypair nc)) = 32"
    "\<not> cf_Listen c \<Longrightarrow> \<exists>rs. b64_decode (cf_RStatic c) = Inr rs \<and> peer_static nc = Some rs" by blast+
qed

lemma resolves_bolt: "resolveTransport c = Inr BoltTransport \<Longrightarrow> cf_DHFunc c = NOISE_DH_SECP256K1"
  by (auto simp: resolveTransport_def wa_New_def Let_def split: if_splits)

text \<open>
  C30. From the flags to a BOLT-8 session: a client and a server configuration that parse and run over
  BOLT-8, where the client's \<open>-rstatic\<close> is the public key of the server's key file, on a network that
  connects them and carries each other's acts in any chunks, with any data \<open>x\<close>, \<open>y\<close> behind them, start
  the client's and the server's runner on connections whose handshake completes at the first use; they
  are then ready for data, each with exactly the bytes behind the acts left to receive, have the same
  fingerprint, and the server has authenticated the key of the client's key file.
\<close>

theorem netcat_bolt_session:
  assumes "ParseConfig E c = (c', Inr (Some nc))" "ParseConfig F s = (s', Inr (Some ns))"
    and "resolveTransport c' = Inr BoltTransport" "resolveTransport s' = Inr BoltTransport" "\<not> cf_Listen c" "\<not> cf_Daemon s'"
    and gen: "secp_gen_ok E" "secp_gen_ok F"
    and lib: "crypto_ok (lib_crypto B)" "curve_ok (lib_curve B)"
    and keys: "li = priv_of_bytes (lib_curve B) (dh_private (static_keypair nc))"
      "lr = priv_of_bytes (lib_curve B) (dh_private (static_keypair ns))"
      "b64_decode (cf_RStatic c) = Inr (ser_pub (lib_curve B) (pub_of (lib_curve B) lr))"
    and network: "local_addr V {[]} (network c') (JoinHostPort (cf_SrcHost c') (cf_SrcPort c')) = Inr la"
      "dial_tcp V (seconds (cf_TimeoutSeconds c')) la (network c') (JoinHostPort (cf_DstHost c') (cf_DstPort c')) = Inr (fresh_net ec)"
      "listen_tcp W (network s') (JoinHostPort (cf_SrcHost s') (cf_SrcPort s')) = Inr ()"
      "rand_sk V = Inr ei # ri" "rand_sk X = Inr er # rr"
    and wire: "bolt_acts (lib_crypto B) (lib_curve B) li lr ei er = (a1, a2, a3)"
      "all_data ec" "avail ec = a2 @ x" "all_data es" "avail es = a1 @ a3 @ y"
  shows "\<exists>cl0 cl sv0 sv. StartClient B V E t c' nc = Inr (newParams t c' (BoltConn cl0)) \<and>
    StartServer B W F s' ns ((X, u, Inr (fresh_net es)) # as) = Inr [newParams u s' (BoltConn sv0)] \<and>
    any_ready B R x y (BoltConn cl0) (BoltConn sv0) (BoltConn cl) (BoltConn sv) \<and> bolt_Fingerprint cl = bolt_Fingerprint sv \<and>
    bolt_RemoteStatic sv = Some (pub_of (lib_curve B) li)"
proof -
  let ?C = "lib_crypto B" and ?E = "lib_curve B"
  note kc = parsed_secp [OF assms(1) resolves_bolt [OF assms(3)] gen(1)] and ks = parsed_secp [OF assms(2) resolves_bolt [OF assms(4)] gen(2)]
  from kc(2) assms(5) keys(3) have rs: "peer_static nc = Some (ser_pub ?E (pub_of ?E lr))" by auto
  have p: "parse_pub ?E (ser_pub ?E k) = Inr k" for k using lib(2) by (simp add: curve_ok_def)
  have o: "o_dial_timeout (transportOptions E c') = seconds (cf_TimeoutSeconds c')" by (simp add: transportOptions_def Let_def)
  have "StartClient B V E t c' nc = Inr (newParams t c' (BoltConn (bolt_Client (fresh_net ec) li (Some (pub_of ?E lr)) (Inr ei # ri))))"
    unfolding StartClient_def assms(3) wrap.simps attempt.simps Let_def any_Dial.simps bolt_Dial_def o
    by (simp add: localPrivFromCfg_def kc(1) rs p keys(1) network)
  moreover have "StartServer B W F s' ns ((X, u, Inr (fresh_net es)) # as) =
      Inr [newParams u s' (BoltConn (bolt_Server (fresh_net es) lr (Inr er # rr)))]"
    unfolding StartServer_def assms(4) wrap.simps attempt.simps Let_def any_Listen.simps bolt_Listen_def
    by (simp add: localPrivFromCfg_def ks(1) keys(2) network assms(6) any_Accept_def bolt_Accept_def)
  moreover obtain a b where h: "bolt_Handshake ?C ?E (bolt_Client (fresh_net ec) li (Some (pub_of ?E lr)) (Inr ei # ri)) = (a, None)"
    "bolt_Handshake ?C ?E (bolt_Server (fresh_net es) lr (Inr er # rr)) = (b, None)" "bolt_peers_at ?C x y a b"
    "bolt_RemoteStatic b = Some (pub_of ?E li)" "bolt_Fingerprint a = bolt_Fingerprint b"
    using bolt_handshake_both [OF lib wire, of ri rr] by blast
  ultimately show ?thesis using bolt_ready [OF h(3,1,2), of R] h(4,5)
    by (force simp: bolt_Client_def bolt_Server_def bolt_new_def fresh_net_def)
qed

definition ex_secp_name :: string where
  "ex_secp_name = ''Noise_XK_secp256k1_ChaChaPoly_SHA256''"

definition ex_bolt_client :: config where
  "ex_bolt_client = default_config\<lparr>cf_Protocol := ex_secp_name, cf_Transport := ''bolt8'',
     cf_RStatic := b64_encode (2 # replicate 32 0)\<rparr>"

definition ex_bolt_server :: config where
  "ex_bolt_server = default_config\<lparr>cf_Protocol := ex_secp_name, cf_Transport := ''bolt8'', cf_Listen := True\<rparr>"

definition ex_env2 :: cat_env where
  "ex_env2 = ex_env\<lparr>env_secp_gen := Inr \<lparr>dh_private = replicate 32 2, dh_public = replicate 33 2\<rparr>\<rparr>"

lemma ex_secp_name_parsed:
  "parseProtocolName ex_secp_name = (\<lparr>pp_pattern = 8, pp_dh = 3, pp_cipher = 1, pp_hash = 3, pp_psk = -1\<rparr>, None)"
  by code_simp

lemma Atoi_zero: "Atoi ''0'' = Inr 0"
  by code_simp

lemma ex_bolt_flags: "check_flags ex_bolt_client = Inr ()" "check_flags ex_bolt_server = Inr ()"
  by (simp_all add: check_flags_def ex_bolt_client_def ex_bolt_server_def default_config_def validateNegotiation_def
      valid_port_def Atoi_zero)

lemma ParseConfig_bolt:
  assumes "\<not> cf_Keygen c" "check_flags c = Inr ()" "cf_Transport c = ''bolt8''" "parseProtocolName (cf_Protocol c) = (r, None)"
    "pp_dh r = NOISE_DH_SECP256K1" "parseNoise_secp E (set_protocol r c) = Inr nc" "\<not> cf_UDP c"
  shows "\<exists>c'. ParseConfig E c = (c', Inr (Some nc)) \<and> resolveTransport c' = Inr BoltTransport \<and> cf_Daemon c' = cf_Daemon c"
  using assms by (simp add: ParseConfig_def parseNoise_def Let_def resolveTransport_def set_protocol_def)

lemma ex_bolt_parsed:
  "\<exists>c' nc. ParseConfig ex_env ex_bolt_client = (c', Inr (Some nc)) \<and> resolveTransport c' = Inr BoltTransport \<and>
     hd (dh_private (static_keypair nc)) = 1"
  "\<exists>s' ns. ParseConfig ex_env2 ex_bolt_server = (s', Inr (Some ns)) \<and> resolveTransport s' = Inr BoltTransport \<and> \<not> cf_Daemon s' \<and>
     hd (dh_private (static_keypair ns)) = 2"
proof -
  let ?r = "\<lparr>pp_pattern = 8, pp_dh = 3, pp_cipher = 1, pp_hash = 3, pp_psk = -1\<rparr>"
  let ?c = "set_protocol ?r ex_bolt_client" and ?s = "set_protocol ?r ex_bolt_server"
  have "\<exists>nc. parseNoise_secp ex_env ?c = Inr nc \<and> hd (dh_private (static_keypair nc)) = 1"
    by (simp add: parseNoise_secp_def loadSecp256k1Keypair_def ex_bolt_client_def default_config_def set_protocol_def ex_env_def Let_def)
  with ParseConfig_bolt [OF _ ex_bolt_flags(1), of ?r ex_env] ex_secp_name_parsed
  show "\<exists>c' nc. ParseConfig ex_env ex_bolt_client = (c', Inr (Some nc)) \<and> resolveTransport c' = Inr BoltTransport \<and>
     hd (dh_private (static_keypair nc)) = 1"
    by (fastforce simp: ex_bolt_client_def default_config_def NOISE_DH_SECP256K1_def)
  have "\<exists>ns. parseNoise_secp ex_env2 ?s = Inr ns \<and> hd (dh_private (static_keypair ns)) = 2"
    by (simp add: parseNoise_secp_def loadSecp256k1Keypair_def ex_bolt_server_def default_config_def set_protocol_def ex_env2_def ex_env_def Let_def)
  with ParseConfig_bolt [OF _ ex_bolt_flags(2), of ?r ex_env2] ex_secp_name_parsed
  show "\<exists>s' ns. ParseConfig ex_env2 ex_bolt_server = (s', Inr (Some ns)) \<and> resolveTransport s' = Inr BoltTransport \<and> \<not> cf_Daemon s' \<and>
     hd (dh_private (static_keypair ns)) = 2"
    by (fastforce simp: ex_bolt_server_def default_config_def NOISE_DH_SECP256K1_def)
qed

theorem netcat_bolt_session_witness:
  "\<exists>c' nc s' ns V es cl0 cl sv0 sv. ParseConfig ex_env ex_bolt_client = (c', Inr (Some nc)) \<and>
     ParseConfig ex_env2 ex_bolt_server = (s', Inr (Some ns)) \<and>
     StartClient ex_libs V ex_env 0 c' nc = Inr (newParams 0 c' (BoltConn cl0)) \<and>
     StartServer ex_libs V ex_env2 s' ns [(V, 0, Inr (fresh_net es))] = Inr [newParams 0 s' (BoltConn sv0)] \<and>
     bolt_Handshake ex_crypto ex_curve cl0 = (cl, None) \<and> bolt_Handshake ex_crypto ex_curve sv0 = (sv, None) \<and>
     bolt_peers ex_crypto cl sv \<and> bolt_RemoteStatic sv = Some 1"
proof -
  obtain c' nc where c: "ParseConfig ex_env ex_bolt_client = (c', Inr (Some nc))" "resolveTransport c' = Inr BoltTransport"
    "hd (dh_private (static_keypair nc)) = 1" using ex_bolt_parsed(1) by blast
  obtain s' ns where s: "ParseConfig ex_env2 ex_bolt_server = (s', Inr (Some ns))" "resolveTransport s' = Inr BoltTransport"
    "\<not> cf_Daemon s'" "hd (dh_private (static_keypair ns)) = 2" using ex_bolt_parsed(2) by blast
  obtain a1 a2 a3 where a: "bolt_acts ex_crypto ex_curve 1 2 7 7 = (a1, a2, a3)"
    by (cases "bolt_acts ex_crypto ex_curve 1 2 7 7") blast
  let ?V = "ex_V\<lparr>dial_tcp := (\<lambda>_ _ _ _. Inr (fresh_net [Data a2])), rand_sk := [Inr 7]\<rparr>"
  have l: "lib_crypto ex_libs = ex_crypto" "lib_curve ex_libs = ex_curve" by (simp_all add: ex_libs_def)
  have g: "secp_gen_ok ex_env" "secp_gen_ok ex_env2" by (simp_all add: secp_gen_ok_def ex_env_def ex_env2_def)
  have n: "\<not> cf_Listen ex_bolt_client" by (simp add: ex_bolt_client_def default_config_def)
  have k: "(1 :: byte) = priv_of_bytes ex_curve (dh_private (static_keypair nc))" "(2 :: byte) = priv_of_bytes ex_curve (dh_private (static_keypair ns))"
    using c(3) s(4) by (simp_all add: ex_curve_def)
  have r: "b64_decode (cf_RStatic ex_bolt_client) = Inr (ser_pub ex_curve (pub_of ex_curve 2))"
    by (simp add: ex_bolt_client_def ex_curve_def)
  obtain la where la: "local_addr ?V {[]} (network c') (JoinHostPort (cf_SrcHost c') (cf_SrcPort c')) = Inr la"
    by (cases "JoinHostPort (cf_SrcHost c') (cf_SrcPort c') = []") (simp_all add: local_addr_def ex_V_def)
  have v: "dial_tcp ?V t a n h = Inr (fresh_net [Data a2])" "listen_tcp ?V n h = Inr ()" "rand_sk ?V = [Inr 7]" for t a n h
    by (simp_all add: ex_V_def)
  have w: "all_data [Data z]" "avail [Data z] = z @ []" "avail [Data (z @ v)] = z @ v @ []" for z v by simp_all
  from netcat_bolt_session [OF c(1) s(1) c(2) s(2) n s(3) g, where B = ex_libs, unfolded l, OF ex_crypto_ok ex_curve_ok k r la v(1,2,3,3) a w(1,2) w(1,3),
      where R = "(=)" and t = 0 and u = 0 and as = "[]"]
  obtain cl0 cl sv0 sv where "StartClient ex_libs ?V ex_env 0 c' nc = Inr (newParams 0 c' (BoltConn cl0))"
    "StartServer ex_libs ?V ex_env2 s' ns [(?V, 0, Inr (fresh_net [Data (a1 @ a3)]))] = Inr [newParams 0 s' (BoltConn sv0)]"
    "bolt_Handshake ex_crypto ex_curve cl0 = (cl, None)" "bolt_Handshake ex_crypto ex_curve sv0 = (sv, None)"
    "bolt_peers ex_crypto cl sv" "bolt_RemoteStatic sv = Some (pub_of ex_curve 1)" by (fastforce simp: any_ready_def l)
  moreover have "pub_of ex_curve 1 = 1" by (simp add: ex_curve_def)
  ultimately show ?thesis using c(1) s(1) by metis
qed

section \<open>NoiseSocket with negotiation\<close>

text \<open>\<open>ParseConfig\<close> only sets the protocol's numbers, and the transport for secp256k1.\<close>

lemma parsed_same:
  assumes "ParseConfig E c = (c', Inr (Some nc))" "cf_Transport c' = ''noisesocket''"
  obtains r where "c' = set_protocol r c"
proof -
  let ?c = "if cf_Transport c = ''whatsapp'' then c\<lparr>cf_Protocol := wa_proto\<rparr> else c"
  have t: "cf_Transport ?c = cf_Transport c" "cf_Transport (set_protocol r ?c) = cf_Transport c" for r
    by (simp_all add: set_protocol_def)
  from ParseConfig_Inr(2) [OF assms(1)] have "\<exists>r. c' = set_protocol r ?c \<and> cf_Transport c = ''noisesocket''"
  proof (cases rule: parseNoise_cases)
    case (secp r)
    show ?thesis
    proof (cases "cf_Transport (set_protocol r ?c) = [] \<or> cf_Transport (set_protocol r ?c) = ''raw''")
      case True
      with secp(4) t have "cf_Transport c' = ''bolt8''" by simp
      with assms(2) show ?thesis by simp
    next
      case False
      with secp(4) t have "c' = set_protocol r ?c" by simp
      with assms(2) t show ?thesis by metis
    qed
  next
    case (noise r)
    with assms(2) t show ?thesis by metis
  qed
  then show ?thesis using that by auto
qed

lemma resolves_ns:
  "resolveTransport c = Inr NsTransport \<Longrightarrow> cf_Transport c = ''noisesocket'' \<and> cf_DHFunc c \<noteq> NOISE_DH_SECP256K1"
  by (auto simp: resolveTransport_def wa_New_def Let_def split: if_splits)

lemma protocol_name_plain:
  assumes "parseProtocolName s = (r, None)"
  shows "s \<noteq> [] \<and> CHR '';'' \<notin> set s"
proof -
  from parsed_names [OF assms] obtain p k d c h where f: "s = format_name p k d c h" "k \<in> psk_digits"
    and m: "map_of PatternStrByte p = Some (pp_pattern r)" "map_of DHStrByte d = Some (pp_dh r)"
      "map_of CipherStrByte c = Some (pp_cipher r)" "map_of HashStrByte h = Some (pp_hash r)" by blast
  from pattern_names [OF m(1)] have p: "CHR '';'' \<notin> set p" by (auto simp: list_all_iff is_upper_def)
  have w: "CHR '';'' \<notin> set x" if "plain_word x" for x using that by (auto simp: plain_word_def list_all_iff is_word_def)
  have k: "CHR '';'' \<notin> set k" using f(2) by (auto simp: psk_digits_def)
  from p k w [OF part_names(1) [OF m(2)]] w [OF part_names(2) [OF m(3)]] w [OF part_names(3) [OF m(4)]] show ?thesis
    by (auto simp: f(1) format_name_def)
qed

text \<open>The options of a client that negotiates, and of a server.\<close>

lemma client_negotiation:
  assumes "cf_Transport c = ''noisesocket''" "\<not> cf_Listen c" "cf_NSFallback c \<noteq> []"
  shows "o_negotiation (transportOptions E c) = Some \<lparr>build_config = buildNoise25519Config E c,
      app_data = str_bytes (cf_NegotiationData c), proposed = cf_Protocol c, fallback = splitList (cf_NSFallback c),
      supported = [], policy = []\<rparr> \<and>
    o_prologue (transportOptions E c) = str_bytes (cf_Prologue c)"
  using assms by (simp add: transportOptions_def negotiationEnabled_def buildNoiseConfigForProtocol_def fun_eq_iff)

lemma server_negotiation:
  assumes "cf_Transport c = ''noisesocket''" "cf_Listen c" "cf_NSSupport c \<noteq> []"
  shows "o_negotiation (transportOptions E c) = Some \<lparr>build_config = buildNoise25519Config E c,
      app_data = [], proposed = [], fallback = [], supported = splitList (cf_NSSupport c), policy = cf_NSPolicy c\<rparr> \<and>
    o_prologue (transportOptions E c) = str_bytes (cf_Prologue c)"
  using assms by (simp add: transportOptions_def negotiationEnabled_def buildNoiseConfigForProtocol_def fun_eq_iff)

text \<open>The connections a client and a server that negotiate start their runners on.\<close>

lemma ns_started:
  assumes "ParseConfig E c = (c', Inr (Some nc))" "ParseConfig F s = (s', Inr (Some ns))"
    and "resolveTransport c' = Inr NsTransport" "resolveTransport s' = Inr NsTransport" "\<not> cf_Daemon s'"
    and flags: "\<not> cf_Listen c" "cf_NSFallback c \<noteq> []" "cf_Listen s" "cf_NSSupport s \<noteq> []" "cf_Prologue s = cf_Prologue c"
    and network: "local_addr V {[]} (network c') (JoinHostPort (cf_SrcHost c') (cf_SrcPort c')) = Inr la"
      "dial_tcp V (seconds (cf_TimeoutSeconds c')) la (network c') (JoinHostPort (cf_DstHost c') (cf_DstPort c')) = Inr (fresh_net ec)"
      "listen_tcp W (network s') (JoinHostPort (cf_SrcHost s') (cf_SrcPort s')) = Inr ()"
  obtains ni nr where
    "StartClient B V E t c' nc = Inr (newParams t c' (NsConn (ClientWithNegotiation (fresh_net ec) ni (str_bytes (cf_Prologue c)))))"
    "StartServer B W F s' ns ((X, u, Inr (fresh_net es)) # as) =
       Inr [newParams u s' (NsConn (ServerWithNegotiation (fresh_net es) nr (str_bytes (cf_Prologue c))))]"
    "build_config ni = buildNoise25519Config E c'" "app_data ni = str_bytes (cf_NegotiationData c)" "proposed ni = cf_Protocol c"
    "fallback ni = splitList (cf_NSFallback c)" "build_config nr = buildNoise25519Config F s'"
    "supported nr = splitList (cf_NSSupport s)" "policy nr = cf_NSPolicy s"
    "buildNoise25519Config E c' (cf_Protocol c) True = Inr nc" "cf_Protocol c \<noteq> []" "CHR '';'' \<notin> set (cf_Protocol c)"
proof -
  note rc = resolves_ns [OF assms(3)] and rs = resolves_ns [OF assms(4)]
  obtain p where c: "c' = set_protocol p c" using parsed_same [OF assms(1) conjunct1 [OF rc]] .
  obtain q where s: "s' = set_protocol q s" using parsed_same [OF assms(2) conjunct1 [OF rs]] .
  have cf: "cf_Listen c' = cf_Listen c" "cf_NSFallback c' = cf_NSFallback c" "cf_Protocol c' = cf_Protocol c"
    "cf_Prologue c' = cf_Prologue c" "cf_NegotiationData c' = cf_NegotiationData c" by (simp_all add: c set_protocol_def)
  have sf: "cf_Listen s' = cf_Listen s" "cf_NSSupport s' = cf_NSSupport s" "cf_Prologue s' = cf_Prologue s" "cf_NSPolicy s' = cf_NSPolicy s"
    by (simp_all add: s set_protocol_def)
  obtain r where r: "parseProtocolName (cf_Protocol c) = (r, None)" "buildNoise25519Config E c' (cf_Protocol c) True = Inr nc"
    by (rule parsed_fields [OF assms(1)]) (use rc flags(1) cf(3) in simp)
  let ?ni = "\<lparr>build_config = buildNoise25519Config E c', app_data = str_bytes (cf_NegotiationData c), proposed = cf_Protocol c,
      fallback = splitList (cf_NSFallback c), supported = [], policy = []\<rparr>"
  let ?nr = "\<lparr>build_config = buildNoise25519Config F s', app_data = [], proposed = [], fallback = [],
      supported = splitList (cf_NSSupport s), policy = cf_NSPolicy s\<rparr>"
  let ?app = "str_bytes (cf_Prologue c)"
  from client_negotiation [of c' E] rc flags(1,2) cf have oc: "o_negotiation (transportOptions E c') = Some ?ni"
    "o_prologue (transportOptions E c') = ?app" by simp_all
  from server_negotiation [of s' F] rs flags(3-5) sf have os: "o_negotiation (transportOptions F s') = Some ?nr"
    "o_prologue (transportOptions F s') = ?app" by simp_all
  have o: "o_dial_timeout (transportOptions E c') = seconds (cf_TimeoutSeconds c')" by (simp add: transportOptions_def Let_def)
  have "StartClient B V E t c' nc = Inr (newParams t c' (NsConn (ClientWithNegotiation (fresh_net ec) ?ni ?app)))"
    unfolding StartClient_def assms(3) wrap.simps attempt.simps Let_def any_Dial.simps ns_Dial_def o oc by (simp add: network)
  moreover have "StartServer B W F s' ns ((X, u, Inr (fresh_net es)) # as) =
      Inr [newParams u s' (NsConn (ServerWithNegotiation (fresh_net es) ?nr ?app))]"
    unfolding StartServer_def assms(4) wrap.simps attempt.simps Let_def any_Listen.simps ns_Listen_def os(1)
    by (simp add: network assms(5) any_Accept_def ns_Accept_def os)
  ultimately show ?thesis
    by (rule that) (use protocol_name_plain [OF r(1)] r(2) in simp_all)
qed

lemma ns_started_ready:
  assumes "ns_Handshake (lib_noise B) (ClientWithNegotiation (fresh_net ec) ni app) = (a, None)"
    and "ns_Handshake (lib_noise B) (ServerWithNegotiation (fresh_net es) nr app) = (b, None)" "ns_peers_at (lib_noise B) R x y a b"
  shows "any_ready B R x y (NsConn (ClientWithNegotiation (fresh_net ec) ni app)) (NsConn (ServerWithNegotiation (fresh_net es) nr app))
    (NsConn a) (NsConn b)"
  by (rule ns_ready [OF assms(3,1,2)]) (simp_all add: ClientWithNegotiation_def ServerWithNegotiation_def ns_new_def fresh_net_def)

lemma configured_plain: "buildNoise25519Config E c q i = Inr nc \<Longrightarrow> q \<noteq> [] \<and> CHR '';'' \<notin> set q"
  using protocol_name_plain by (auto simp: buildNoise25519Config_def split: prod.splits option.splits)

text \<open>
  C27. From the flags to a negotiated NoiseSocket session: a client with \<open>-ns-fallback\<close> whose protocol is
  in the \<open>-ns-support\<close> list of the server, both with the same \<open>-prologue\<close>, on a network that connects
  them and carries each other's frames in any chunks, with any data \<open>x\<close>, \<open>y\<close> behind them, start the
  client's and the server's runner on connections whose handshake completes at the first use: the server
  builds the configuration of the proposed protocol from its own flags, and both ends are then ready for
  data, each with exactly the bytes behind the handshake left to receive, with the same fingerprint.
\<close>

theorem netcat_ns_session:
  assumes "ParseConfig E c = (c', Inr (Some nc))" "ParseConfig F s = (s', Inr (Some ns))"
    and "resolveTransport c' = Inr NsTransport" "resolveTransport s' = Inr NsTransport" "\<not> cf_Daemon s'"
    and flags: "\<not> cf_Listen c" "cf_NSFallback c \<noteq> []" "cf_Listen s" "cf_NSSupport s \<noteq> []" "cf_Prologue s = cf_Prologue c"
      "supports (cf_Protocol c) (splitList (cf_NSSupport s))" "buildNoise25519Config F s' (cf_Protocol c) False = Inr cr"
      "neg = encodeProposal (cf_Protocol c) (str_bytes (cf_NegotiationData c))" "length neg \<le> MaxMessageLen"
    and lib: "handshake_pair (lib_noise B) R P" "cipher_pair (lib_noise B) R" "P (Suc (Suc k)) hc hs"
      "new_handshake (lib_noise B) (nc\<lparr>cfg_prologue := buildPrologue neg (str_bytes (cf_Prologue c))\<rparr>) = Inr hc"
      "new_handshake (lib_noise B) (cr\<lparr>cfg_prologue := buildPrologue neg (str_bytes (cf_Prologue c))\<rparr>) = Inr hs"
      "pat_messages (cfg_pattern nc) = Suc (Suc k)" "pat_messages (cfg_pattern cr) = Suc (Suc k)"
    and network: "local_addr V {[]} (network c') (JoinHostPort (cf_SrcHost c') (cf_SrcPort c')) = Inr la"
      "dial_tcp V (seconds (cf_TimeoutSeconds c')) la (network c') (JoinHostPort (cf_DstHost c') (cf_DstPort c')) = Inr (fresh_net ec)"
      "listen_tcp W (network s') (JoinHostPort (cf_SrcHost s') (cf_SrcPort s')) = Inr ()"
    and wire: "all_data ec" "avail ec = concat (map (frameBytes []) (odds (honest (lib_noise B) (Suc (Suc k)) hc hs))) @ x"
      "all_data es" "avail es = concat (neg_frames neg (evens (honest (lib_noise B) (Suc (Suc k)) hc hs))) @ y"
  shows "\<exists>cl0 cl sv0 sv. StartClient B V E t c' nc = Inr (newParams t c' (NsConn cl0)) \<and>
    StartServer B W F s' ns ((X, u, Inr (fresh_net es)) # as) = Inr [newParams u s' (NsConn sv0)] \<and>
    any_ready B R x y (NsConn cl0) (NsConn sv0) (NsConn cl) (NsConn sv) \<and> ns_Fingerprint (lib_noise B) cl = ns_Fingerprint (lib_noise B) sv"
proof -
  let ?app = "str_bytes (cf_Prologue c)"
  obtain ni nr where n: "StartClient B V E t c' nc = Inr (newParams t c' (NsConn (ClientWithNegotiation (fresh_net ec) ni ?app)))"
    "StartServer B W F s' ns ((X, u, Inr (fresh_net es)) # as) =
      Inr [newParams u s' (NsConn (ServerWithNegotiation (fresh_net es) nr ?app))]"
    "build_config ni = buildNoise25519Config E c'" "app_data ni = str_bytes (cf_NegotiationData c)" "proposed ni = cf_Protocol c"
    "fallback ni = splitList (cf_NSFallback c)" "build_config nr = buildNoise25519Config F s'"
    "supported nr = splitList (cf_NSSupport s)" "policy nr = cf_NSPolicy s"
    "buildNoise25519Config E c' (cf_Protocol c) True = Inr nc" "cf_Protocol c \<noteq> []" "CHR '';'' \<notin> set (cf_Protocol c)"
    by (rule ns_started [OF assms(1-5) flags(1-5) network])
  obtain a b where h: "ns_Handshake (lib_noise B) (ClientWithNegotiation (fresh_net ec) ni ?app) = (a, None)"
    "ns_Handshake (lib_noise B) (ServerWithNegotiation (fresh_net es) nr ?app) = (b, None)"
    "ns_peers_at (lib_noise B) R x y a b" "ns_Fingerprint (lib_noise B) a = ns_Fingerprint (lib_noise B) b"
    by (rule ns_negotiated_both [OF lib(1-3), of ni nc nr cr neg ?app ec x es y]) (use n(3-12) flags lib wire in simp_all)
  from n(1,2) ns_started_ready [OF h(1-3)] h(4) show ?thesis by blast
qed

definition ex_ns_client :: config where
  "ex_ns_client = default_config\<lparr>cf_Transport := ''noisesocket'', cf_NSFallback := ''Noise_XX_25519_AESGCM_SHA256''\<rparr>"

definition ex_ns_server :: config where
  "ex_ns_server = default_config\<lparr>cf_Transport := ''noisesocket'', cf_Listen := True, cf_NSSupport := default_proto\<rparr>"

definition ex_ns_ready :: "config \<Rightarrow> bool" where
  "ex_ns_ready c = (let r = ParseConfig ex_env c in gives_noise r \<and> pat_messages (cfg_pattern (the_noise r)) = Suc (Suc 0) \<and>
     resolveTransport (fst r) = Inr NsTransport \<and> \<not> cf_Daemon (fst r) \<and> cf_Protocol (fst r) = default_proto \<and>
     pp_dh (fst (parseProtocolName default_proto)) = NOISE_DH_CURVE25519)"

lemma ex_ns_ready_both: "ex_ns_ready ex_ns_client" "ex_ns_ready ex_ns_server"
  by code_simp+

lemma ex_ns_readyD:
  assumes "ex_ns_ready c"
  shows "\<exists>c' nc. ParseConfig ex_env c = (c', Inr (Some nc)) \<and> pat_messages (cfg_pattern nc) = Suc (Suc 0) \<and>
    resolveTransport c' = Inr NsTransport \<and> \<not> cf_Daemon c' \<and> buildNoise25519Config ex_env c' default_proto (\<not> cf_Listen c) = Inr nc"
proof -
  have "gives_noise (ParseConfig ex_env c)" using assms by (simp add: ex_ns_ready_def Let_def)
  from gives_noiseE [OF this] obtain c' nc where p: "ParseConfig ex_env c = (c', Inr (Some nc))" by blast
  with assms have r: "pat_messages (cfg_pattern nc) = Suc (Suc 0)" "resolveTransport c' = Inr NsTransport" "\<not> cf_Daemon c'"
    "cf_Protocol c' = default_proto" by (simp_all add: ex_ns_ready_def Let_def)
  obtain q where "parseProtocolName (cf_Protocol c') = (q, None)"
    "pp_dh q \<noteq> NOISE_DH_SECP256K1 \<longrightarrow> buildNoise25519Config ex_env c' (cf_Protocol c') (\<not> cf_Listen c) = Inr nc" "cf_DHFunc c' = pp_dh q"
    by (rule parsed_fields [OF p]) simp
  with resolves_ns [OF r(2)] r(4) have "buildNoise25519Config ex_env c' default_proto (\<not> cf_Listen c) = Inr nc" by simp
  with p r show ?thesis by blast
qed

lemma ex_ns_proposal: "supports default_proto (splitList default_proto)" "length (encodeProposal default_proto []) \<le> MaxMessageLen"
  by code_simp (simp add: encodeProposal_def default_proto_def negVersion_def MaxMessageLen_def)

theorem netcat_ns_session_witness:
  "\<exists>c' nc s' ns V es cl0 cl sv0 sv. ParseConfig ex_env ex_ns_client = (c', Inr (Some nc)) \<and>
     ParseConfig ex_env ex_ns_server = (s', Inr (Some ns)) \<and>
     StartClient ex_libs V ex_env 0 c' nc = Inr (newParams 0 c' (NsConn cl0)) \<and>
     StartServer ex_libs V ex_env s' ns [(V, 0, Inr (fresh_net es))] = Inr [newParams 0 s' (NsConn sv0)] \<and>
     ns_Handshake ex_lib cl0 = (cl, None) \<and> ns_Handshake ex_lib sv0 = (sv, None) \<and> ns_peers ex_lib (=) cl sv"
proof -
  have l: "\<not> cf_Listen ex_ns_client" "cf_NSFallback ex_ns_client \<noteq> []" "cf_Listen ex_ns_server" "default_proto \<noteq> []"
    "cf_Prologue ex_ns_server = cf_Prologue ex_ns_client" "cf_Protocol ex_ns_client = default_proto" "cf_NegotiationData ex_ns_client = []"
    "cf_NSSupport ex_ns_server = default_proto"
    by (simp_all add: ex_ns_client_def ex_ns_server_def default_config_def default_proto_def)
  obtain c' nc where c: "ParseConfig ex_env ex_ns_client = (c', Inr (Some nc))" "pat_messages (cfg_pattern nc) = Suc (Suc 0)"
    "resolveTransport c' = Inr NsTransport" using ex_ns_readyD [OF ex_ns_ready_both(1)] by blast
  obtain s' ns where s: "ParseConfig ex_env ex_ns_server = (s', Inr (Some ns))" "pat_messages (cfg_pattern ns) = Suc (Suc 0)"
    "resolveTransport s' = Inr NsTransport" "\<not> cf_Daemon s'" "buildNoise25519Config ex_env s' default_proto False = Inr ns"
    using ex_ns_readyD [OF ex_ns_ready_both(2)] l(3) by auto
  let ?neg = "encodeProposal default_proto []"
  let ?V = "ex_V\<lparr>dial_tcp := (\<lambda>_ _ _ _. Inr (fresh_net [Data (frameBytes [] [1])]))\<rparr>" and ?es = "[Data (frameBytes ?neg [1])]"
  have b: "lib_noise ex_libs = ex_lib" by (simp add: ex_libs_def)
  have sb: "str_bytes [] = []" by (simp add: str_bytes_def)
  have P: "ex_pair (Suc (Suc 0)) (Suc (Suc 0)) (Suc (Suc 0))" by (simp add: ex_pair_def)
  have h: "new_handshake ex_lib (x\<lparr>cfg_prologue := p\<rparr>) = Inr (Suc (Suc 0))" if "pat_messages (cfg_pattern x) = Suc (Suc 0)" for x p
    using that by (simp add: ex_lib_def)
  obtain la where la: "local_addr ?V {[]} (network c') (JoinHostPort (cf_SrcHost c') (cf_SrcPort c')) = Inr la"
    by (cases "JoinHostPort (cf_SrcHost c') (cf_SrcPort c') = []") (simp_all add: local_addr_def ex_V_def)
  have v: "dial_tcp ?V t a n x = Inr (fresh_net [Data (frameBytes [] [1])])" "listen_tcp ?V n x = Inr ()" for t a n x
    by (simp_all add: ex_V_def)
  obtain cl0 cl sv0 sv where "StartClient ex_libs ?V ex_env 0 c' nc = Inr (newParams 0 c' (NsConn cl0))"
    "StartServer ex_libs ?V ex_env s' ns [(?V, 0, Inr (fresh_net ?es))] = Inr [newParams 0 s' (NsConn sv0)]"
    "ns_Handshake ex_lib cl0 = (cl, None)" "ns_Handshake ex_lib sv0 = (sv, None)" "ns_peers ex_lib (=) cl sv"
    using netcat_ns_session [OF c(1) s(1) c(3) s(3,4), where B = ex_libs, unfolded b l(6-8) sb, OF l(1-5) ex_ns_proposal(1) s(5) refl
      ex_ns_proposal(2) ex_handshake_pair ex_cipher_pair P h [OF c(2)] h [OF s(2)] c(2) s(2) la v(1,2), unfolded ex_honest2, where es = ?es and t = 0 and u = 0 and X = ?V and as = "[]" and x = "[]" and y = "[]"] by (auto simp: any_ready_def b)
  with c(1) s(1) show ?thesis by blast
qed

text \<open>
  C28. From the flags to a session after a retry: a client whose protocol is not in the \<open>-ns-support\<close> list
  of a server with \<open>-ns-policy retry\<close>, while the first protocol \<open>q\<close> of that list is in the client's
  \<open>-ns-fallback\<close>. The client proposes again, with the configuration its flags give for \<open>q\<close>; the two runners
  are started on connections that complete the handshake with \<open>q\<close> at the first use, over a prologue that
  holds \<open>-prologue\<close>, \<open>-ns-negotiation-data\<close> and the dead attempt, and are then ready for data.
\<close>

theorem netcat_ns_retried:
  assumes "ParseConfig E c = (c', Inr (Some nc))" "ParseConfig F s = (s', Inr (Some ns))"
    and "resolveTransport c' = Inr NsTransport" "resolveTransport s' = Inr NsTransport" "\<not> cf_Daemon s'"
    and flags: "\<not> cf_Listen c" "cf_NSFallback c \<noteq> []" "cf_Listen s" "cf_NSSupport s \<noteq> []" "cf_Prologue s = cf_Prologue c"
      "\<not> supports (cf_Protocol c) (splitList (cf_NSSupport s))" "cf_NSPolicy s = ''retry''"
      "splitList (cf_NSSupport s) = q # qs" "q \<in> set (splitList (cf_NSFallback c))"
      "buildNoise25519Config E c' q True = Inr ci" "buildNoise25519Config F s' q False = Inr cr"
    and messages: "neg0 = encodeProposal (cf_Protocol c) (str_bytes (cf_NegotiationData c))" "length neg0 \<le> MaxMessageLen"
      "negr = encodeResponse actRetry q []" "length negr \<le> MaxMessageLen"
      "neg1 = encodeProposal q (str_bytes (cf_NegotiationData c))" "length neg1 \<le> MaxMessageLen"
      "dead = frameBytes neg0 x0 @ frameBytes negr []"
    and lib: "handshake_pair (lib_noise B) R P" "cipher_pair (lib_noise B) R" "P (Suc (Suc k)) hc hs"
      "new_handshake (lib_noise B) (nc\<lparr>cfg_prologue := buildPrologue neg0 (str_bytes (cf_Prologue c))\<rparr>) = Inr h0"
      "hs_write (lib_noise B) h0 = (h0', Inr (x0, None))" "length x0 \<le> MaxMessageLen"
      "new_handshake (lib_noise B) (ci\<lparr>cfg_prologue := buildPrologue neg1 (str_bytes (cf_Prologue c)) @ dead\<rparr>) = Inr hc"
      "new_handshake (lib_noise B) (cr\<lparr>cfg_prologue := buildPrologue neg1 (str_bytes (cf_Prologue c)) @ dead\<rparr>) = Inr hs"
      "pat_messages (cfg_pattern ci) = Suc (Suc k)" "pat_messages (cfg_pattern cr) = Suc (Suc k)"
    and network: "local_addr V {[]} (network c') (JoinHostPort (cf_SrcHost c') (cf_SrcPort c')) = Inr la"
      "dial_tcp V (seconds (cf_TimeoutSeconds c')) la (network c') (JoinHostPort (cf_DstHost c') (cf_DstPort c')) = Inr (fresh_net ec)"
      "listen_tcp W (network s') (JoinHostPort (cf_SrcHost s') (cf_SrcPort s')) = Inr ()"
    and wire: "all_data ec" "avail ec = frameBytes negr [] @ concat (map (frameBytes []) (odds (honest (lib_noise B) (Suc (Suc k)) hc hs))) @ x"
      "all_data es" "avail es = frameBytes neg0 x0 @ concat (neg_frames neg1 (evens (honest (lib_noise B) (Suc (Suc k)) hc hs))) @ y"
  shows "\<exists>cl0 cl sv0 sv. StartClient B V E t c' nc = Inr (newParams t c' (NsConn cl0)) \<and>
    StartServer B W F s' ns ((X, u, Inr (fresh_net es)) # as) = Inr [newParams u s' (NsConn sv0)] \<and>
    any_ready B R x y (NsConn cl0) (NsConn sv0) (NsConn cl) (NsConn sv) \<and> ns_Fingerprint (lib_noise B) cl = ns_Fingerprint (lib_noise B) sv"
proof -
  let ?app = "str_bytes (cf_Prologue c)" and ?L = "lib_noise B"
  obtain ni nr where n: "StartClient B V E t c' nc = Inr (newParams t c' (NsConn (ClientWithNegotiation (fresh_net ec) ni ?app)))"
    "StartServer B W F s' ns ((X, u, Inr (fresh_net es)) # as) =
      Inr [newParams u s' (NsConn (ServerWithNegotiation (fresh_net es) nr ?app))]"
    "build_config ni = buildNoise25519Config E c'" "app_data ni = str_bytes (cf_NegotiationData c)" "proposed ni = cf_Protocol c"
    "fallback ni = splitList (cf_NSFallback c)" "build_config nr = buildNoise25519Config F s'"
    "supported nr = splitList (cf_NSSupport s)" "policy nr = cf_NSPolicy s"
    "buildNoise25519Config E c' (cf_Protocol c) True = Inr nc" "cf_Protocol c \<noteq> []" "CHR '';'' \<notin> set (cf_Protocol c)"
    by (rule ns_started [OF assms(1-5) flags(1-5) network])
  note q = configured_plain [OF flags(10)]
  have "\<exists>a b. ns_Handshake ?L (ClientWithNegotiation (fresh_net ec) ni ?app) = (a, None) \<and>
    ns_Handshake ?L (ServerWithNegotiation (fresh_net es) nr ?app) = (b, None) \<and>
    ns_peers_at ?L R x y a b \<and> ns_Fingerprint ?L a = ns_Fingerprint ?L b"
    by (rule ns_retry_both [OF lib(1-3), of "cf_Protocol c" ni nr q qs neg0 negr neg1 nc ?app h0 h0' x0 ci cr dead])
      (use n(3-12) q flags messages lib wire in simp_all)
  with n(1,2) ns_started_ready [of B ec ni ?app _ es nr _ R x y] show ?thesis by blast
qed

text \<open>
  C29. From the flags to a session after a switch: as for the retry, with \<open>-ns-policy switch\<close>. The server
  starts the handshake with \<open>q\<close>, as the initiator of the configuration its flags give for \<open>q\<close>, and the
  client answers as the responder of its own; both runners are started on connections that complete it at
  the first use, over a prologue that holds \<open>-prologue\<close> and the dead proposal, and are then ready for data.
\<close>

theorem netcat_ns_switched:
  assumes "ParseConfig E c = (c', Inr (Some nc))" "ParseConfig F s = (s', Inr (Some ns))"
    and "resolveTransport c' = Inr NsTransport" "resolveTransport s' = Inr NsTransport" "\<not> cf_Daemon s'"
    and flags: "\<not> cf_Listen c" "cf_NSFallback c \<noteq> []" "cf_Listen s" "cf_NSSupport s \<noteq> []" "cf_Prologue s = cf_Prologue c"
      "\<not> supports (cf_Protocol c) (splitList (cf_NSSupport s))" "cf_NSPolicy s = ''switch''"
      "splitList (cf_NSSupport s) = q # qs" "q \<in> set (splitList (cf_NSFallback c))"
      "buildNoise25519Config F s' q True = Inr cr" "buildNoise25519Config E c' q False = Inr ci"
    and messages: "neg0 = encodeProposal (cf_Protocol c) (str_bytes (cf_NegotiationData c))" "length neg0 \<le> MaxMessageLen"
      "sw = encodeResponse actSwitch q []" "length sw \<le> MaxMessageLen"
    and lib: "handshake_pair (lib_noise B) R P" "cipher_pair (lib_noise B) R" "P (Suc (Suc k)) hs hc"
      "new_handshake (lib_noise B) (nc\<lparr>cfg_prologue := buildPrologue neg0 (str_bytes (cf_Prologue c))\<rparr>) = Inr h0"
      "hs_write (lib_noise B) h0 = (h0', Inr (x0, None))" "length x0 \<le> MaxMessageLen"
      "new_handshake (lib_noise B) (cr\<lparr>cfg_prologue := buildPrologue sw (str_bytes (cf_Prologue c)) @ frameBytes neg0 x0\<rparr>) = Inr hs"
      "new_handshake (lib_noise B) (ci\<lparr>cfg_prologue := buildPrologue sw (str_bytes (cf_Prologue c)) @ frameBytes neg0 x0\<rparr>) = Inr hc"
      "pat_messages (cfg_pattern cr) = Suc (Suc k)" "pat_messages (cfg_pattern ci) = Suc (Suc k)"
    and network: "local_addr V {[]} (network c') (JoinHostPort (cf_SrcHost c') (cf_SrcPort c')) = Inr la"
      "dial_tcp V (seconds (cf_TimeoutSeconds c')) la (network c') (JoinHostPort (cf_DstHost c') (cf_DstPort c')) = Inr (fresh_net ec)"
      "listen_tcp W (network s') (JoinHostPort (cf_SrcHost s') (cf_SrcPort s')) = Inr ()"
    and wire: "all_data ec" "avail ec = concat (neg_frames sw (evens (honest (lib_noise B) (Suc (Suc k)) hs hc))) @ x"
      "all_data es" "avail es = frameBytes neg0 x0 @ concat (map (frameBytes []) (odds (honest (lib_noise B) (Suc (Suc k)) hs hc))) @ y"
  shows "\<exists>cl0 cl sv0 sv. StartClient B V E t c' nc = Inr (newParams t c' (NsConn cl0)) \<and>
    StartServer B W F s' ns ((X, u, Inr (fresh_net es)) # as) = Inr [newParams u s' (NsConn sv0)] \<and>
    any_ready B R x y (NsConn cl0) (NsConn sv0) (NsConn cl) (NsConn sv) \<and> ns_Fingerprint (lib_noise B) cl = ns_Fingerprint (lib_noise B) sv"
proof -
  let ?app = "str_bytes (cf_Prologue c)" and ?L = "lib_noise B"
  obtain ni nr where n: "StartClient B V E t c' nc = Inr (newParams t c' (NsConn (ClientWithNegotiation (fresh_net ec) ni ?app)))"
    "StartServer B W F s' ns ((X, u, Inr (fresh_net es)) # as) =
      Inr [newParams u s' (NsConn (ServerWithNegotiation (fresh_net es) nr ?app))]"
    "build_config ni = buildNoise25519Config E c'" "app_data ni = str_bytes (cf_NegotiationData c)" "proposed ni = cf_Protocol c"
    "fallback ni = splitList (cf_NSFallback c)" "build_config nr = buildNoise25519Config F s'"
    "supported nr = splitList (cf_NSSupport s)" "policy nr = cf_NSPolicy s"
    "buildNoise25519Config E c' (cf_Protocol c) True = Inr nc" "cf_Protocol c \<noteq> []" "CHR '';'' \<notin> set (cf_Protocol c)"
    by (rule ns_started [OF assms(1-5) flags(1-5) network])
  note q = configured_plain [OF flags(10)]
  have "\<exists>a b. ns_Handshake ?L (ClientWithNegotiation (fresh_net ec) ni ?app) = (a, None) \<and>
    ns_Handshake ?L (ServerWithNegotiation (fresh_net es) nr ?app) = (b, None) \<and>
    ns_peers_at ?L R x y a b \<and> ns_Fingerprint ?L a = ns_Fingerprint ?L b"
    by (rule ns_switch_both [OF lib(1-3), of "cf_Protocol c" ni nr q qs neg0 sw nc ?app h0 h0' x0 cr ci])
      (use n(3-12) q flags messages lib wire in simp_all)
  with n(1,2) ns_started_ready [of B ec ni ?app _ es nr _ R x y] show ?thesis by blast
qed

text \<open>An instance: a client and a server with another protocol than the default one in their lists.\<close>

definition ex_q :: string where
  "ex_q = ''Noise_NN_25519_ChaChaPoly_SHA256''"

definition ex_ns_caller :: config where
  "ex_ns_caller = default_config\<lparr>cf_Transport := ''noisesocket'', cf_NSFallback := ex_q\<rparr>"

definition ex_ns_chooser :: "string \<Rightarrow> config" where
  "ex_ns_chooser pol = default_config\<lparr>cf_Transport := ''noisesocket'', cf_Listen := True, cf_NSSupport := ex_q, cf_NSPolicy := pol\<rparr>"

definition ex_offers :: "config \<Rightarrow> bool" where
  "ex_offers c \<longleftrightarrow> ex_ns_ready c \<and> list_all (\<lambda>i. case buildNoise25519Config ex_env (fst (ParseConfig ex_env c)) ex_q i of
     Inl e \<Rightarrow> False | Inr n \<Rightarrow> pat_messages (cfg_pattern n) = Suc (Suc 0)) [True, False]"

lemma ex_offers_all: "ex_offers ex_ns_caller" "ex_offers (ex_ns_chooser ''retry'')" "ex_offers (ex_ns_chooser ''switch'')"
  by code_simp+

lemma ex_offersD:
  assumes "ex_offers c"
  obtains c' nc n1 n2 where "ParseConfig ex_env c = (c', Inr (Some nc))" "pat_messages (cfg_pattern nc) = Suc (Suc 0)"
    "resolveTransport c' = Inr NsTransport" "\<not> cf_Daemon c'" "buildNoise25519Config ex_env c' ex_q True = Inr n1"
    "pat_messages (cfg_pattern n1) = Suc (Suc 0)" "buildNoise25519Config ex_env c' ex_q False = Inr n2"
    "pat_messages (cfg_pattern n2) = Suc (Suc 0)"
proof -
  from assms obtain c' nc where p: "ParseConfig ex_env c = (c', Inr (Some nc))" "pat_messages (cfg_pattern nc) = Suc (Suc 0)"
    "resolveTransport c' = Inr NsTransport" "\<not> cf_Daemon c'" using ex_ns_readyD [of c] by (auto simp: ex_offers_def)
  with assms show ?thesis using that by (auto simp: ex_offers_def split: sum.splits)
qed

lemma ex_q_facts: "\<not> supports default_proto (splitList ex_q)" "splitList ex_q = ex_q # []" "ex_q \<in> set (splitList ex_q)" "ex_q \<noteq> []"
  by code_simp+

lemma ex_q_lengths: "length (encodeProposal ex_q []) \<le> MaxMessageLen" "length (encodeResponse actRetry ex_q []) \<le> MaxMessageLen"
  "length (encodeResponse actSwitch ex_q []) \<le> MaxMessageLen"
  by (simp_all add: encodeProposal_def encodeResponse_def ex_q_def negVersion_def actRetry_def actSwitch_def MaxMessageLen_def)

lemma ex_chooser_fields:
  "\<not> cf_Listen ex_ns_caller" "cf_NSFallback ex_ns_caller = ex_q" "cf_Protocol ex_ns_caller = default_proto" "cf_NegotiationData ex_ns_caller = []"
  "cf_Listen (ex_ns_chooser pol)" "cf_NSSupport (ex_ns_chooser pol) = ex_q" "cf_NSPolicy (ex_ns_chooser pol) = pol"
  "cf_Prologue (ex_ns_chooser pol) = cf_Prologue ex_ns_caller"
  by (simp_all add: ex_ns_caller_def ex_ns_chooser_def default_config_def)

text \<open>A network that delivers \<open>es\<close> to the client.\<close>

definition ex_wire_to :: "read_event list \<Rightarrow> byte net_env" where
  "ex_wire_to es = ex_V\<lparr>dial_tcp := (\<lambda>_ _ _ _. Inr (fresh_net es))\<rparr>"

lemma ex_wire_to_net:
  obtains la where "local_addr (ex_wire_to es) {[]} n (JoinHostPort h p) = Inr la"
    "dial_tcp (ex_wire_to es) t la n a = Inr (fresh_net es)" "listen_tcp (ex_wire_to es) m b = Inr ()"
proof -
  obtain la where "local_addr (ex_wire_to es) {[]} n (JoinHostPort h p) = Inr la"
    by (cases "JoinHostPort h p = []") (simp_all add: local_addr_def ex_V_def ex_wire_to_def)
  then show ?thesis by (rule that) (simp_all add: ex_wire_to_def ex_V_def)
qed

lemma ex_new_any: "pat_messages (cfg_pattern x) = Suc (Suc 0) \<Longrightarrow> new_handshake ex_lib (x\<lparr>cfg_prologue := p\<rparr>) = Inr (Suc (Suc 0))"
  by (simp add: ex_lib_def)

theorem netcat_ns_retried_witness:
  "\<exists>c' nc s' ns V es cl0 cl sv0 sv. ParseConfig ex_env ex_ns_caller = (c', Inr (Some nc)) \<and>
     ParseConfig ex_env (ex_ns_chooser ''retry'') = (s', Inr (Some ns)) \<and>
     StartClient ex_libs V ex_env 0 c' nc = Inr (newParams 0 c' (NsConn cl0)) \<and>
     StartServer ex_libs V ex_env s' ns [(V, 0, Inr (fresh_net es))] = Inr [newParams 0 s' (NsConn sv0)] \<and>
     ns_Handshake ex_lib cl0 = (cl, None) \<and> ns_Handshake ex_lib sv0 = (sv, None) \<and> ns_peers ex_lib (=) cl sv"
proof -
  obtain c' nc c1 c2 where c: "ParseConfig ex_env ex_ns_caller = (c', Inr (Some nc))" "pat_messages (cfg_pattern nc) = Suc (Suc 0)"
    "resolveTransport c' = Inr NsTransport" "\<not> cf_Daemon c'" "buildNoise25519Config ex_env c' ex_q True = Inr c1"
    "pat_messages (cfg_pattern c1) = Suc (Suc 0)" "buildNoise25519Config ex_env c' ex_q False = Inr c2"
    "pat_messages (cfg_pattern c2) = Suc (Suc 0)" by (rule ex_offersD [OF ex_offers_all(1)])
  obtain s' ns s1 s2 where s: "ParseConfig ex_env (ex_ns_chooser ''retry'') = (s', Inr (Some ns))" "pat_messages (cfg_pattern ns) = Suc (Suc 0)"
    "resolveTransport s' = Inr NsTransport" "\<not> cf_Daemon s'" "buildNoise25519Config ex_env s' ex_q True = Inr s1"
    "pat_messages (cfg_pattern s1) = Suc (Suc 0)" "buildNoise25519Config ex_env s' ex_q False = Inr s2"
    "pat_messages (cfg_pattern s2) = Suc (Suc 0)" by (rule ex_offersD [OF ex_offers_all(2)])
  let ?neg0 = "encodeProposal default_proto []" and ?neg1 = "encodeProposal ex_q []" and ?r = "encodeResponse actRetry ex_q []"
  let ?ec = "[Data (frameBytes ?r [] @ frameBytes [] [1])]" and ?es = "[Data (frameBytes ?neg0 [1]), Data (frameBytes ?neg1 [1])]"
  have b: "lib_noise ex_libs = ex_lib" by (simp add: ex_libs_def)
  have sb: "str_bytes [] = []" by (simp add: str_bytes_def)
  have P: "ex_pair (Suc (Suc 0)) (Suc (Suc 0)) (Suc (Suc 0))" by (simp add: ex_pair_def)
  have w: "hs_write ex_lib (Suc (Suc 0)) = (Suc 0, Inr ([1], None))" "length [1 :: byte] \<le> MaxMessageLen"
    by (simp_all add: ex_lib_def MaxMessageLen_def)
  obtain la where v: "local_addr (ex_wire_to ?ec) {[]} (network c') (JoinHostPort (cf_SrcHost c') (cf_SrcPort c')) = Inr la"
    "dial_tcp (ex_wire_to ?ec) (seconds (cf_TimeoutSeconds c')) la (network c') (JoinHostPort (cf_DstHost c') (cf_DstPort c')) = Inr (fresh_net ?ec)"
    "listen_tcp (ex_wire_to ?ec) (network s') (JoinHostPort (cf_SrcHost s') (cf_SrcPort s')) = Inr ()" by (rule ex_wire_to_net)
  have "\<exists>cl0 cl sv0 sv. StartClient ex_libs (ex_wire_to ?ec) ex_env 0 c' nc = Inr (newParams 0 c' (NsConn cl0)) \<and>
    StartServer ex_libs (ex_wire_to ?ec) ex_env s' ns ((ex_wire_to ?ec, 0, Inr (fresh_net ?es)) # []) = Inr [newParams 0 s' (NsConn sv0)] \<and>
    any_ready ex_libs (=) [] [] (NsConn cl0) (NsConn sv0) (NsConn cl) (NsConn sv) \<and>
    ns_Fingerprint ex_lib cl = ns_Fingerprint ex_lib sv"
    by (rule netcat_ns_retried [OF c(1) s(1) c(3) s(3,4), where B = ex_libs and R = "(=)" and q = ex_q and qs = "[]" and x = "[]" and y = "[]",
        unfolded b ex_chooser_fields(2-4,6,7) sb, OF ex_chooser_fields(1) _ ex_chooser_fields(5) _ ex_chooser_fields(8) ex_q_facts(1) refl ex_q_facts(2,3) c(5) s(7) refl
        ex_ns_proposal(2) refl ex_q_lengths(2) refl ex_q_lengths(1) refl ex_handshake_pair ex_cipher_pair P ex_new_any [OF c(2)] w
        ex_new_any [OF c(6)] ex_new_any [OF s(8)] c(6) s(8) v])
      (simp_all add: ex_honest2 ex_q_facts(4) del: honest.simps)
  with c(1) s(1) show ?thesis
    unfolding any_ready_def any_Handshake.simps any_peers_at.simps apfst_conn_iff b by blast
qed

theorem netcat_ns_switched_witness:
  "\<exists>c' nc s' ns V es cl0 cl sv0 sv. ParseConfig ex_env ex_ns_caller = (c', Inr (Some nc)) \<and>
     ParseConfig ex_env (ex_ns_chooser ''switch'') = (s', Inr (Some ns)) \<and>
     StartClient ex_libs V ex_env 0 c' nc = Inr (newParams 0 c' (NsConn cl0)) \<and>
     StartServer ex_libs V ex_env s' ns [(V, 0, Inr (fresh_net es))] = Inr [newParams 0 s' (NsConn sv0)] \<and>
     ns_Handshake ex_lib cl0 = (cl, None) \<and> ns_Handshake ex_lib sv0 = (sv, None) \<and> ns_peers ex_lib (=) cl sv"
proof -
  obtain c' nc c1 c2 where c: "ParseConfig ex_env ex_ns_caller = (c', Inr (Some nc))" "pat_messages (cfg_pattern nc) = Suc (Suc 0)"
    "resolveTransport c' = Inr NsTransport" "\<not> cf_Daemon c'" "buildNoise25519Config ex_env c' ex_q True = Inr c1"
    "pat_messages (cfg_pattern c1) = Suc (Suc 0)" "buildNoise25519Config ex_env c' ex_q False = Inr c2"
    "pat_messages (cfg_pattern c2) = Suc (Suc 0)" by (rule ex_offersD [OF ex_offers_all(1)])
  obtain s' ns s1 s2 where s: "ParseConfig ex_env (ex_ns_chooser ''switch'') = (s', Inr (Some ns))" "pat_messages (cfg_pattern ns) = Suc (Suc 0)"
    "resolveTransport s' = Inr NsTransport" "\<not> cf_Daemon s'" "buildNoise25519Config ex_env s' ex_q True = Inr s1"
    "pat_messages (cfg_pattern s1) = Suc (Suc 0)" "buildNoise25519Config ex_env s' ex_q False = Inr s2"
    "pat_messages (cfg_pattern s2) = Suc (Suc 0)" by (rule ex_offersD [OF ex_offers_all(3)])
  let ?neg0 = "encodeProposal default_proto []" and ?r = "encodeResponse actSwitch ex_q []"
  let ?ec = "[Data (frameBytes ?r [1])]" and ?es = "[Data (frameBytes ?neg0 [1]), Data (frameBytes [] [1])]"
  have b: "lib_noise ex_libs = ex_lib" by (simp add: ex_libs_def)
  have sb: "str_bytes [] = []" by (simp add: str_bytes_def)
  have P: "ex_pair (Suc (Suc 0)) (Suc (Suc 0)) (Suc (Suc 0))" by (simp add: ex_pair_def)
  have w: "hs_write ex_lib (Suc (Suc 0)) = (Suc 0, Inr ([1], None))" "length [1 :: byte] \<le> MaxMessageLen"
    by (simp_all add: ex_lib_def MaxMessageLen_def)
  obtain la where v: "local_addr (ex_wire_to ?ec) {[]} (network c') (JoinHostPort (cf_SrcHost c') (cf_SrcPort c')) = Inr la"
    "dial_tcp (ex_wire_to ?ec) (seconds (cf_TimeoutSeconds c')) la (network c') (JoinHostPort (cf_DstHost c') (cf_DstPort c')) = Inr (fresh_net ?ec)"
    "listen_tcp (ex_wire_to ?ec) (network s') (JoinHostPort (cf_SrcHost s') (cf_SrcPort s')) = Inr ()" by (rule ex_wire_to_net)
  have "\<exists>cl0 cl sv0 sv. StartClient ex_libs (ex_wire_to ?ec) ex_env 0 c' nc = Inr (newParams 0 c' (NsConn cl0)) \<and>
    StartServer ex_libs (ex_wire_to ?ec) ex_env s' ns ((ex_wire_to ?ec, 0, Inr (fresh_net ?es)) # []) = Inr [newParams 0 s' (NsConn sv0)] \<and>
    any_ready ex_libs (=) [] [] (NsConn cl0) (NsConn sv0) (NsConn cl) (NsConn sv) \<and>
    ns_Fingerprint ex_lib cl = ns_Fingerprint ex_lib sv"
    by (rule netcat_ns_switched [OF c(1) s(1) c(3) s(3,4), where B = ex_libs and R = "(=)" and q = ex_q and qs = "[]" and x = "[]" and y = "[]",
        unfolded b ex_chooser_fields(2-4,6,7) sb, OF ex_chooser_fields(1) _ ex_chooser_fields(5) _ ex_chooser_fields(8) ex_q_facts(1) refl ex_q_facts(2,3) s(5) c(7) refl
        ex_ns_proposal(2) refl ex_q_lengths(3) ex_handshake_pair ex_cipher_pair P ex_new_any [OF c(2)] w
        ex_new_any [OF s(6)] ex_new_any [OF c(8)] s(6) c(8) v])
      (simp_all add: ex_honest2 ex_q_facts(4) del: honest.simps)
  with c(1) s(1) show ?thesis
    unfolding any_ready_def any_Handshake.simps any_peers_at.simps apfst_conn_iff b by blast
qed

section \<open>WhatsApp between two programs\<close>

lemma parsed_hosts:
  assumes "ParseConfig E c = (c', Inr (Some nc))"
  shows "cf_DstHost c' = cf_DstHost c \<and> cf_DstPort c' = cf_DstPort c"
proof -
  from ParseConfig_Inr(2) [OF assms] show ?thesis
    by (cases rule: parseNoise_cases) (simp_all add: set_protocol_def)
qed

text \<open>
  C31. From the flags to a WhatsApp session between two programs: a client with a host and a port, and a
  server, both with valid key pairs (from their key files or fresh), exchange three frames. On a network
  that connects them and carries each other's frames in any chunks, with any data \<open>x\<close>, \<open>y\<close> behind them,
  the client's runner is started on a connection whose handshake is complete and the server's on one that
  completes it at its first use; the two are then ready for data, each with exactly the bytes behind the
  handshake left to receive, and each names the other's static key.
\<close>

theorem netcat_wa_session:
  assumes "ParseConfig E c = (c', Inr (Some nc))" "ParseConfig F s = (s', Inr (Some ns))"
    and "resolveTransport c' = Inr wa_New" "resolveTransport s' = Inr wa_New" "\<not> cf_Daemon s'"
    and lib: "crypto_ok (lib_crypto B)" "wa_dh_ok (lib_dh B)"
    and keys: "keypairFromConfig (lib_dh B) (Some nc) rv = (Inr ke # rc, Inr kc)" "wa_keypair (lib_dh B) kc" "length ke = 32"
      "keypairFromConfig (lib_dh B) (Some ns) rw = (Inr kf # rs, Inr ks)" "wa_keypair (lib_dh B) ks" "length kf = 32"
    and target: "cf_DstHost c \<noteq> []" "\<forall>x \<in> set (cf_DstHost c). x \<notin> set ''[]''" "\<forall>x \<in> set (cf_DstPort c). x \<notin> set ''[:]''"
    and listens: "listen_tcp W (network s') (JoinHostPort (cf_SrcHost s') (cf_SrcPort s')) = Inr ()"
  shows "\<exists>f1 f2 f3. \<forall>V X ec es x y. rand_x V = rv \<and> rand_x X = rw \<and>
      (\<forall>la. dial_tcp V (wa_timeout (seconds (cf_TimeoutSeconds c'))) la (network c') (JoinHostPort (cf_DstHost c) (cf_DstPort c)) =
        Inr (fresh_net ec)) \<and> all_data ec \<and> avail ec = f2 @ x \<and> all_data es \<and> avail es = f1 @ f3 @ y \<longrightarrow>
    (\<exists>cl sv0 sv. StartClient B V E t c' nc = Inr (newParams t c' (WaConn cl)) \<and>
      StartServer B W F s' ns ((X, u, Inr (fresh_net es)) # as) = Inr [newParams u s' (WaConn sv0)] \<and>
      any_ready B R x y (WaConn cl) (WaConn sv0) (WaConn cl) (WaConn sv) \<and>
      PeerStaticKey cl = Some (kp_pub ks) \<and> PeerStaticKey sv = Some (kp_pub kc))"
proof -
  let ?C = "lib_crypto B" and ?D = "lib_dh B"
  obtain f1 f2 f3 where f: "\<And>ec es x y. all_data ec \<and> avail ec = f2 @ x \<and> all_data es \<and> avail es = f1 @ f3 @ y \<Longrightarrow>
    \<exists>c hc s. clientHandshake ?C ?D (lib_xed B) (lib_now B) kc [] None (newClientFramedConn (fresh_net ec), Inr ke # rc) = ((c, rc), Inr hc) \<and>
      ensureHandshake ?C ?D (newDeferredServerConn (serverFramed (fresh_net es)) ks (Inr kf # rs)) = (s, None) \<and>
      tx (f_net c) = [f1, f3] \<and> tx (wa_net s) = [f2] \<and> wa_peers_at ?C x y (newConn c hc rc) s \<and>
      PeerStaticKey (newConn c hc rc) = Some (kp_pub ks) \<and> PeerStaticKey s = Some (kp_pub kc)"
    by (rule wa_session_both [OF lib keys(3,6,2,5), of "[]" "lib_xed B" "lib_now B" rc rs]) auto
  from parsed_hosts [OF assms(1)] have h: "cf_DstHost c' = cf_DstHost c" "cf_DstPort c' = cf_DstPort c" by simp_all
  have sp: "SplitHostPort (JoinHostPort (cf_DstHost c) (cf_DstPort c)) = Inr (cf_DstHost c, cf_DstPort c)"
    using target(2,3) by (intro split_join_host) auto
  have o: "o_dial_timeout (transportOptions E c') = seconds (cf_TimeoutSeconds c')" by (simp add: transportOptions_def Let_def)
  have "\<exists>cl sv0 sv. StartClient B V E t c' nc = Inr (newParams t c' (WaConn cl)) \<and>
      StartServer B W F s' ns ((X, u, Inr (fresh_net es)) # as) = Inr [newParams u s' (WaConn sv0)] \<and>
      any_ready B R x y (WaConn cl) (WaConn sv0) (WaConn cl) (WaConn sv) \<and>
      PeerStaticKey cl = Some (kp_pub ks) \<and> PeerStaticKey sv = Some (kp_pub kc)"
    if r: "rand_x V = rv" "rand_x X = rw"
      and d: "\<forall>la. dial_tcp V (wa_timeout (seconds (cf_TimeoutSeconds c'))) la (network c') (JoinHostPort (cf_DstHost c) (cf_DstPort c)) =
        Inr (fresh_net ec)"
      and e: "all_data ec \<and> avail ec = f2 @ x \<and> all_data es \<and> avail es = f1 @ f3 @ y" for V X ec es x y
  proof -
    from f [OF e] obtain a hc b where ab:
      "clientHandshake ?C ?D (lib_xed B) (lib_now B) kc [] None (newClientFramedConn (fresh_net ec), Inr ke # rc) = ((a, rc), Inr hc)"
      "ensureHandshake ?C ?D (newDeferredServerConn (serverFramed (fresh_net es)) ks (Inr kf # rs)) = (b, None)"
      "wa_peers_at ?C x y (newConn a hc rc) b" "PeerStaticKey (newConn a hc rc) = Some (kp_pub ks)" "PeerStaticKey b = Some (kp_pub kc)"
      by blast
    have "StartClient B V E t c' nc = Inr (newParams t c' (WaConn (newConn a hc rc)))"
      unfolding StartClient_def assms(3) wrap.simps attempt.simps Let_def wa_New_def any_Dial.simps wa_Dial_def r(1) keys(1) prod.case sum.case h sp o dialPeer_def
      by (simp add: target(1) d wa_client_over_def ab(1))
    moreover have "StartServer B W F s' ns ((X, u, Inr (fresh_net es)) # as) =
        Inr [newParams u s' (WaConn (newDeferredServerConn (serverFramed (fresh_net es)) ks (Inr kf # rs)))]"
      unfolding StartServer_def assms(4) wrap.simps attempt.simps Let_def wa_New_def any_Listen.simps wa_Listen_def
      by (simp add: listens assms(5) any_Accept_def wa_Accept_def r(2) keys(4) serverFramed_def)
    moreover have "tx (wa_net (newDeferredServerConn (serverFramed (fresh_net es)) ks (Inr kf # rs))) = []"
      by (simp add: newDeferredServerConn_def serverFramed_def wa_net_def fresh_net_def)
    ultimately show ?thesis using wa_ready [OF ab(3,2)] ab(4,5) by blast
  qed
  then show ?thesis by blast
qed

definition ex_wa_client :: config where
  "ex_wa_client = default_config\<lparr>cf_Transport := ''whatsapp'', cf_DstHost := ''peer'', cf_DstPort := ''4444''\<rparr>"

definition ex_wa_server :: config where
  "ex_wa_server = default_config\<lparr>cf_Transport := ''whatsapp'', cf_Listen := True\<rparr>"

text \<open>An environment whose key generation yields a pair of the example curve.\<close>

definition ex_wa_env :: "byte \<Rightarrow> cat_env" where
  "ex_wa_env x = ex_env\<lparr>env_genkey := (\<lambda>_. Inr \<lparr>dh_private = replicate 32 x, dh_public = replicate 32 x\<rparr>)\<rparr>"

definition ex_wa_ready :: "byte \<Rightarrow> config \<Rightarrow> bool" where
  "ex_wa_ready x c = (let r = ParseConfig (ex_wa_env x) c in gives_noise r \<and>
     static_keypair (the_noise r) = \<lparr>dh_private = replicate 32 x, dh_public = replicate 32 x\<rparr> \<and>
     resolveTransport (fst r) = Inr wa_New \<and> \<not> cf_Daemon (fst r))"

lemma ex_wa_ready_both: "ex_wa_ready 3 ex_wa_client" "ex_wa_ready 7 ex_wa_server"
  by code_simp+

lemma ex_wa_readyD:
  assumes "ex_wa_ready x c"
  shows "\<exists>c' nc. ParseConfig (ex_wa_env x) c = (c', Inr (Some nc)) \<and> resolveTransport c' = Inr wa_New \<and> \<not> cf_Daemon c' \<and>
    keypairFromConfig ex_wa (Some nc) r = (r, Inr (ex_keypair x))"
proof -
  have "gives_noise (ParseConfig (ex_wa_env x) c)" using assms by (simp add: ex_wa_ready_def Let_def)
  from gives_noiseE [OF this] obtain c' nc where "ParseConfig (ex_wa_env x) c = (c', Inr (Some nc))" by blast
  with assms show ?thesis by (simp add: ex_wa_ready_def Let_def keypairFromConfig_def ex_keypair_def)
qed

theorem netcat_wa_session_witness:
  "\<exists>c' nc s' ns V W es cl sv0 sv. ParseConfig (ex_wa_env 3) ex_wa_client = (c', Inr (Some nc)) \<and>
     ParseConfig (ex_wa_env 7) ex_wa_server = (s', Inr (Some ns)) \<and>
     StartClient ex_libs V (ex_wa_env 3) 0 c' nc = Inr (newParams 0 c' (WaConn cl)) \<and>
     StartServer ex_libs ex_V (ex_wa_env 7) s' ns [(W, 0, Inr (fresh_net es))] = Inr [newParams 0 s' (WaConn sv0)] \<and>
     ensureHandshake ex_crypto ex_wa sv0 = (sv, None) \<and> wa_peers ex_crypto cl sv \<and> PeerStaticKey sv = Some (replicate 32 3)"
proof -
  let ?rv = "[Inr (replicate 32 4)] :: (string + bytes) list" and ?rw = "[Inr (replicate 32 6)] :: (string + bytes) list"
  obtain c' nc where c: "ParseConfig (ex_wa_env 3) ex_wa_client = (c', Inr (Some nc))" "resolveTransport c' = Inr wa_New"
    "keypairFromConfig ex_wa (Some nc) ?rv = (?rv, Inr (ex_keypair 3))" using ex_wa_readyD [OF ex_wa_ready_both(1), of ?rv] by blast
  obtain s' ns where s: "ParseConfig (ex_wa_env 7) ex_wa_server = (s', Inr (Some ns))" "resolveTransport s' = Inr wa_New" "\<not> cf_Daemon s'"
    "keypairFromConfig ex_wa (Some ns) ?rw = (?rw, Inr (ex_keypair 7))" using ex_wa_readyD [OF ex_wa_ready_both(2), of ?rw] by blast
  have l: "lib_crypto ex_libs = ex_crypto" "lib_dh ex_libs = ex_wa" by (simp_all add: ex_libs_def)
  have n: "length (replicate 32 x) = 32" for x :: byte by simp
  have t: "cf_DstHost ex_wa_client \<noteq> []" "\<forall>x \<in> set (cf_DstHost ex_wa_client). x \<notin> set ''[]''" "\<forall>x \<in> set (cf_DstPort ex_wa_client). x \<notin> set ''[:]''"
    by (simp_all add: ex_wa_client_def)
  have v: "listen_tcp ex_V w a = Inr ()" for w a by (simp add: ex_V_def)
  from netcat_wa_session [OF c(1) s(1) c(2) s(2,3), where B = ex_libs and W = ex_V and t = 0 and u = 0 and as = "[]" and R = "(=)", unfolded l,
      OF ex_crypto_ok ex_wa_ok c(3) ex_keypair_ok n s(4) ex_keypair_ok n t v]
  obtain f1 f2 f3 where f: "\<And>V X ec es x y. rand_x V = ?rv \<and> rand_x X = ?rw \<and>
      (\<forall>la. dial_tcp V (wa_timeout (seconds (cf_TimeoutSeconds c'))) la (network c') (JoinHostPort (cf_DstHost ex_wa_client) (cf_DstPort ex_wa_client)) =
        Inr (fresh_net ec)) \<and> all_data ec \<and> avail ec = f2 @ x \<and> all_data es \<and> avail es = f1 @ f3 @ y \<Longrightarrow>
    \<exists>cl sv0 sv. StartClient ex_libs V (ex_wa_env 3) 0 c' nc = Inr (newParams 0 c' (WaConn cl)) \<and>
      StartServer ex_libs ex_V (ex_wa_env 7) s' ns [(X, 0, Inr (fresh_net es))] = Inr [newParams 0 s' (WaConn sv0)] \<and>
      any_ready ex_libs (=) x y (WaConn cl) (WaConn sv0) (WaConn cl) (WaConn sv) \<and>
      PeerStaticKey cl = Some (kp_pub (ex_keypair 7)) \<and> PeerStaticKey sv = Some (kp_pub (ex_keypair 3))" by blast
  have "kp_pub (ex_keypair 3) = replicate 32 3" by (simp add: ex_keypair_def)
  with f [of "ex_V\<lparr>rand_x := ?rv, dial_tcp := (\<lambda>_ _ _ _. Inr (fresh_net [Data f2]))\<rparr>" "ex_V\<lparr>rand_x := ?rw\<rparr>" "[Data f2]" "[]" "[Data (f1 @ f3)]" "[]"]
  obtain V W es cl sv0 sv where "StartClient ex_libs V (ex_wa_env 3) 0 c' nc = Inr (newParams 0 c' (WaConn cl))"
    "StartServer ex_libs ex_V (ex_wa_env 7) s' ns [(W, 0, Inr (fresh_net es))] = Inr [newParams 0 s' (WaConn sv0)]"
    "ensureHandshake ex_crypto ex_wa sv0 = (sv, None)" "wa_peers ex_crypto cl sv" "PeerStaticKey sv = Some (replicate 32 3)" by (auto simp: any_ready_def l)
  with c(1) s(1) show ?thesis by blast
qed

end
