(* ===== verification/Prologue.thy ===== *)
theory Prologue
  imports Netcat_Props
begin

text \<open>
  Where the \<open>-prologue\<close> of the flags goes: which prologues the handshakes of the raw, UDP and
  NoiseSocket transports start the Noise library with, in every role and through the whole
  negotiation; and that BOLT-8 and WhatsApp do not look at it.
\<close>

section \<open>The library with other handshakes\<close>

text \<open>
  A library that starts its handshakes with \<open>h\<close> and is \<open>L\<close> in everything else: the loops over
  the messages do not see the difference.
\<close>

abbreviation starting :: "('hs, 'cs) noise_lib \<Rightarrow> (noise_config \<Rightarrow> noise_err + 'hs) \<Rightarrow> ('hs, 'cs) noise_lib" where
  "starting L h \<equiv> L\<lparr>new_handshake := h\<rparr>"

lemma raw_hs_loop_starting [simp]: "raw_hs_loop (starting L h) m w n hs cs = raw_hs_loop L m w n hs cs"
  by (induction m arbitrary: w n hs cs) (simp_all add: Let_def split: prod.split sum.split option.split)

lemma ns_hs_loop_starting [simp]: "ns_hs_loop (starting L h) m w first hs c = ns_hs_loop L m w first hs c"
  by (induction m arbitrary: w first hs c) (auto simp: Let_def split: prod.split sum.split option.split)

lemma driveFrom_loop_starting [simp]: "driveFrom_loop (starting L h) m i ini hs pend c = driveFrom_loop L m i ini hs pend c"
  by (induction m arbitrary: i hs pend c) (simp_all split: prod.split sum.split)

lemma driveFrom_starting [simp]: "driveFrom (starting L h) hs m ini i pend c = driveFrom L hs m ini i pend c"
  by (simp add: driveFrom_def)

section \<open>raw and the Accept-only NoiseSocket handshake\<close>

lemma raw_Handshake_starting:
  assumes "h (r_config c) = new_handshake L (r_config c)"
  shows "raw_Handshake (starting L h) c = raw_Handshake L c"
  unfolding raw_Handshake_def raw_hs_loop_starting using assms by simp

lemma raw_Handshake_refused:
  assumes "new_handshake L (r_config c) = Inl e" "\<not> r_complete c"
  shows "snd (raw_Handshake L c) \<noteq> None"
  using assms by (simp add: raw_Handshake_def)

lemma ns_accept_starting:
  assumes "\<And>cfg. cfg_prologue cfg = buildPrologue (s_neg_data c) (s_prologue c) \<Longrightarrow> h cfg = new_handshake L cfg"
  shows "ns_handshake_accept (starting L h) cfg c = ns_handshake_accept L cfg c"
  unfolding ns_handshake_accept_def ns_hs_loop_starting using assms by (simp add: Let_def)

lemma ns_accept_refused:
  assumes "\<And>cfg. cfg_prologue cfg = buildPrologue (s_neg_data c) (s_prologue c) \<Longrightarrow> \<exists>e. new_handshake L cfg = Inl e"
  shows "snd (ns_handshake_accept L cfg c) \<noteq> None"
  using assms [of "cfg\<lparr>cfg_prologue := buildPrologue (s_neg_data c) (s_prologue c)\<rparr>"]
  by (auto simp: ns_handshake_accept_def Let_def)

section \<open>The negotiation\<close>

text \<open>The prologues of every attempt: some negotiation data, the application prologue and a transcript.\<close>

definition chained_prologue :: "bytes \<Rightarrow> bytes \<Rightarrow> bool" where
  "chained_prologue p q \<longleftrightarrow> (\<exists>n t. q = buildPrologue n p @ t)"

lemma chained_with [simp]: "chained_prologue (s_prologue c) (prologueWith c n t)"
  by (auto simp: chained_prologue_def prologueWith_def)

lemma newHS_starting:
  assumes "\<And>cfg. chained_prologue (s_prologue c) (cfg_prologue cfg) \<Longrightarrow> h cfg = new_handshake L cfg"
  shows "newHS (starting L h) cfg (prologueWith c n t) = newHS L cfg (prologueWith c n t)"
  using assms [of "cfg\<lparr>cfg_prologue := prologueWith c n t\<rparr>"] by (simp add: newHS_def)

lemma newHS_refused:
  assumes "\<And>cfg. chained_prologue (s_prologue c) (cfg_prologue cfg) \<Longrightarrow> \<exists>e. new_handshake L cfg = Inl e"
  shows "\<exists>e. newHS L cfg (prologueWith c n t) = Inl e"
  using assms [of "cfg\<lparr>cfg_prologue := prologueWith c n t\<rparr>"] by (auto simp: newHS_def)

lemma writeFrame_prologue: "writeFrameAndRecord neg msg c = (c', r) \<Longrightarrow> s_prologue c' = s_prologue c"
  by (auto simp: writeFrameAndRecord_def Let_def split: if_splits prod.splits option.splits)

lemma resp_policy_prologue: "resp_policy L neg p rf t c = Inr (c', t') \<Longrightarrow> s_prologue c' = s_prologue c"
  by (auto simp: resp_policy_def Let_def split: if_splits sum.splits prod.splits option.splits dest: writeFrame_prologue)

lemma init_react_starting:
  assumes "\<And>cfg. chained_prologue (s_prologue c) (cfg_prologue cfg) \<Longrightarrow> h cfg = new_handshake L cfg"
  shows "init_react (starting L h) neg k hs sf rn rm t c = init_react L neg k hs sf rn rm t c"
proof -
  have n: "newHS (starting L h) cfg (prologueWith c i t') = newHS L cfg (prologueWith c i t')" for cfg i t'
    using newHS_starting assms by blast
  show ?thesis unfolding init_react_def n driveFrom_starting ..
qed

lemma initiator_starting:
  assumes "\<And>cfg. chained_prologue p (cfg_prologue cfg) \<Longrightarrow> h cfg = new_handshake L cfg"
  shows "s_prologue c = p \<Longrightarrow> negotiateInitiator_loop (starting L h) neg a pr t c = negotiateInitiator_loop L neg a pr t c"
proof (induction a arbitrary: pr t c)
  case (Suc a)
  then have n: "newHS (starting L h) cfg (prologueWith c i t) = newHS L cfg (prologueWith c i t)" for cfg i
    using newHS_starting assms by blast
  have r: "init_react (starting L h) neg k hs sf rn rm t (c'\<lparr>s_net := x\<rparr>) = init_react L neg k hs sf rn rm t (c'\<lparr>s_net := x\<rparr>)"
    "negotiateInitiator_loop (starting L h) neg a pr' t' (c'\<lparr>s_net := x\<rparr>) = negotiateInitiator_loop L neg a pr' t' (c'\<lparr>s_net := x\<rparr>)"
    if "writeFrameAndRecord i m c = (c', y)" for i m c' y k hs sf rn rm x pr' t'
  proof -
    from writeFrame_prologue [OF that] Suc.prems have s: "s_prologue (c'\<lparr>s_net := x\<rparr>) = p" by simp
    show "init_react (starting L h) neg k hs sf rn rm t (c'\<lparr>s_net := x\<rparr>) = init_react L neg k hs sf rn rm t (c'\<lparr>s_net := x\<rparr>)"
      by (rule init_react_starting) (use s assms in simp)
    show "negotiateInitiator_loop (starting L h) neg a pr' t' (c'\<lparr>s_net := x\<rparr>) = negotiateInitiator_loop L neg a pr' t' (c'\<lparr>s_net := x\<rparr>)"
      using Suc.IH [OF s] .
  qed
  show ?case
  proof (cases "BuildConfig neg pr True")
    case (Inr cfg)
    obtain g where g: "newHS L cfg (prologueWith c (encodeProposal pr (app_data neg)) t) = g" by simp
    show ?thesis
    proof (cases g)
      case (Inr hs)
      obtain hs' w where w: "hs_write L hs = (hs', w)" by fastforce
      show ?thesis
      proof (cases w)
        case (Inr mc)
        obtain m cs where m: "mc = (m, cs)" by (cases mc)
        obtain c' y where y: "writeFrameAndRecord (encodeProposal pr (app_data neg)) m c = (c', y)" by fastforce
        note r' = r [OF y]
        from \<open>BuildConfig neg pr True = Inr cfg\<close> g \<open>g = Inr hs\<close> w Inr m y show ?thesis
          by (cases cs; cases y; cases "readHandshakeFrame (s_net c')") (simp_all add: n r' Let_def split: sum.split)
      qed (use \<open>BuildConfig neg pr True = Inr cfg\<close> g \<open>g = Inr hs\<close> w in \<open>simp add: n Let_def\<close>)
    qed (use \<open>BuildConfig neg pr True = Inr cfg\<close> g in \<open>simp add: n Let_def\<close>)
  qed simp
qed simp

lemma resp_policy_starting:
  assumes "\<And>cfg. chained_prologue (s_prologue c) (cfg_prologue cfg) \<Longrightarrow> h cfg = new_handshake L cfg"
  shows "resp_policy (starting L h) neg p rf t c = resp_policy L neg p rf t c"
proof -
  have n: "newHS (starting L h) cfg (prologueWith c i t') = newHS L cfg (prologueWith c i t')" for cfg i t'
    using newHS_starting assms by blast
  have w: "hs_write (starting L h) = hs_write L" by simp
  show ?thesis unfolding resp_policy_def n driveFrom_starting w ..
qed

lemma responder_starting:
  assumes "\<And>cfg. chained_prologue p (cfg_prologue cfg) \<Longrightarrow> h cfg = new_handshake L cfg"
  shows "s_prologue c = p \<Longrightarrow> negotiateResponder_loop (starting L h) neg a t c = negotiateResponder_loop L neg a t c"
proof (induction a arbitrary: t c)
  case (Suc a)
  have n: "newHS (starting L h) cfg (prologueWith (c\<lparr>s_net := x\<rparr>) i t) = newHS L cfg (prologueWith (c\<lparr>s_net := x\<rparr>) i t)"
    "resp_policy (starting L h) neg pr rf t (c\<lparr>s_net := x\<rparr>) = resp_policy L neg pr rf t (c\<lparr>s_net := x\<rparr>)" for cfg i x pr rf
    by (rule newHS_starting resp_policy_starting, use assms Suc.prems in simp)+
  have n': "newHS (starting L h) cfg (prologueWith c i t) = newHS L cfg (prologueWith c i t)" for cfg i
    by (rule newHS_starting) (use assms Suc.prems in simp)
  have r: "negotiateResponder_loop (starting L h) neg a t' c' = negotiateResponder_loop L neg a t' c'"
    if "resp_policy L neg pr rf t (c\<lparr>s_net := x\<rparr>) = Inr (c', t')" for pr rf x c' t'
    using Suc.IH [of c'] resp_policy_prologue [OF that] Suc.prems by simp
  show ?case
    by (auto simp: n n' r Let_def split: sum.split prod.split)
qed simp

lemma negotiated_starting:
  assumes "\<And>cfg. chained_prologue (s_prologue c) (cfg_prologue cfg) \<Longrightarrow> h cfg = new_handshake L cfg"
  shows "handshakeNegotiated (starting L h) neg c = handshakeNegotiated L neg c"
proof -
  have "negotiateInitiator_loop (starting L h) neg a pr [] c = negotiateInitiator_loop L neg a pr [] c"
    "negotiateResponder_loop (starting L h) neg a [] c = negotiateResponder_loop L neg a [] c" for a pr
    by (rule initiator_starting [where p = "s_prologue c"] responder_starting [where p = "s_prologue c"], use assms in simp_all)+
  then show ?thesis by (simp add: handshakeNegotiated_def negotiateInitiator_def negotiateResponder_def)
qed

lemma resp_policy_refused:
  assumes "\<And>cfg. chained_prologue (s_prologue c) (cfg_prologue cfg) \<Longrightarrow> \<exists>e. new_handshake L cfg = Inl e"
  shows "resp_policy L neg p rf t c = Inl (c', e) \<Longrightarrow> e \<noteq> None"
proof -
  have n: "newHS L cfg (prologueWith c i t') \<noteq> Inr x" for cfg i t' x
    using newHS_refused [of c L cfg i t'] assms by auto
  show "resp_policy L neg p rf t c = Inl (c', e) \<Longrightarrow> e \<noteq> None"
    by (auto simp: resp_policy_def n Let_def split: if_splits sum.splits prod.splits)
qed

lemma responder_refused:
  assumes "\<And>cfg. chained_prologue p (cfg_prologue cfg) \<Longrightarrow> \<exists>e. new_handshake L cfg = Inl e"
  shows "s_prologue c = p \<Longrightarrow> snd (negotiateResponder_loop L neg a t c) \<noteq> None"
proof (induction a arbitrary: t c)
  case (Suc a)
  have n: "newHS L cfg (prologueWith (c\<lparr>s_net := x\<rparr>) i t) \<noteq> Inr y" "newHS L cfg (prologueWith c i t) \<noteq> Inr y" for cfg x i y
    using newHS_refused [of "c\<lparr>s_net := x\<rparr>" L cfg i t] newHS_refused [of c L cfg i t] assms Suc.prems by fastforce+
  have q: "resp_policy L neg pr rf t (c\<lparr>s_net := x\<rparr>) = Inl z \<Longrightarrow> snd z \<noteq> None" for pr rf x z
    using resp_policy_refused [of "c\<lparr>s_net := x\<rparr>" L neg pr rf t "fst z" "snd z"] assms Suc.prems by simp
  have r: "resp_policy L neg pr rf t (c\<lparr>s_net := x\<rparr>) = Inr z \<Longrightarrow> snd (negotiateResponder_loop L neg a (snd z) (fst z)) \<noteq> None" for pr rf x z
    using Suc.IH [of "fst z" "snd z"] resp_policy_prologue [of L neg pr rf t "c\<lparr>s_net := x\<rparr>" "fst z" "snd z"] Suc.prems by simp
  obtain x m where f: "readHandshakeFrame (s_net c) = (x, m)" by fastforce
  show ?case
  proof (cases m)
    case (Inr b)
    obtain i j where b: "b = (i, j)" by (cases b)
    show ?thesis
    proof (cases "parseNeg i")
      case pm: (Inr pm)
      show ?thesis
      proof (cases "resp_policy L neg (Proto pm) (frameBytes i j) t (c\<lparr>s_net := x\<rparr>)")
        case (Inl z)
        from q [OF this] f \<open>m = Inr b\<close> b pm Inl show ?thesis by (auto simp: n Let_def split: sum.split)
      next
        case (Inr z)
        from r [OF this] f \<open>m = Inr b\<close> b pm Inr show ?thesis by (auto simp: n Let_def split: sum.split prod.split)
      qed
    qed (use f Inr b in \<open>simp add: Let_def\<close>)
  qed (use f in simp)
qed simp

lemma negotiated_refused:
  assumes "\<And>cfg. chained_prologue (s_prologue c) (cfg_prologue cfg) \<Longrightarrow> \<exists>e. new_handshake L cfg = Inl e"
  shows "snd (handshakeNegotiated L neg c) \<noteq> None"
proof (cases "s_client c")
  case True
  obtain k where k: "maxNegAttempts = Suc k" by (simp add: maxNegAttempts_def)
  have n: "newHS L cfg (prologueWith c i t') \<noteq> Inr x" for cfg i t' x
    using newHS_refused [of c L cfg i t'] assms by auto
  have "snd (negotiateInitiator_loop L neg maxNegAttempts (proposed neg) [] c) \<noteq> None"
    unfolding k by (simp add: n Let_def split: sum.split)
  with True show ?thesis by (simp add: handshakeNegotiated_def negotiateInitiator_def)
next
  case False
  have "snd (negotiateResponder_loop L neg maxNegAttempts [] c) \<noteq> None"
    by (rule responder_refused [where p = "s_prologue c"]) (use assms in simp_all)
  with False show ?thesis by (simp add: handshakeNegotiated_def negotiateResponder_def)
qed

section \<open>The connections of the three transports\<close>

text \<open>The prologues with which the handshake of a fresh connection may start the library.\<close>

fun starts_with :: "('hs, 'cs, 'sk, 'pk) any_conn \<Rightarrow> bytes \<Rightarrow> bool" where
  "starts_with (RawConn c) q \<longleftrightarrow> \<not> r_complete c \<and> q = cfg_prologue (r_config c)"
| "starts_with (NsConn c) q \<longleftrightarrow> \<not> s_done c \<and>
     (case s_neg c of Some _ \<Rightarrow> chained_prologue (s_prologue c) q | None \<Rightarrow> q = buildPrologue (s_neg_data c) (s_prologue c))"
| "starts_with _ q \<longleftrightarrow> False"

abbreviation starting_libs :: "('hs, 'cs, 'sk, 'pk, 'fe) libs \<Rightarrow> (noise_config \<Rightarrow> noise_err + 'hs) \<Rightarrow> ('hs, 'cs, 'sk, 'pk, 'fe) libs" where
  "starting_libs B h \<equiv> B\<lparr>lib_noise := starting (lib_noise B) h\<rparr>"

lemma any_Handshake_starting:
  assumes "\<And>cfg. starts_with x (cfg_prologue cfg) \<Longrightarrow> h cfg = new_handshake (lib_noise B) cfg"
  shows "any_Handshake (starting_libs B h) x = any_Handshake B x"
proof (cases x)
  case (RawConn c)
  show ?thesis
  proof (cases "r_complete c")
    case False
    with RawConn assms have "h (r_config c) = new_handshake (lib_noise B) (r_config c)" by simp
    from raw_Handshake_starting [where h = h, OF this] RawConn show ?thesis by simp
  qed (simp add: RawConn raw_Handshake_def)
next
  case (NsConn c)
  have "ns_Handshake (starting (lib_noise B) h) c = ns_Handshake (lib_noise B) c" if "\<not> s_done c"
  proof (cases "s_neg c")
    case None
    have "ns_handshake_accept (starting (lib_noise B) h) cfg c = ns_handshake_accept (lib_noise B) cfg c" for cfg
      by (rule ns_accept_starting) (use NsConn None that assms in simp)
    with None show ?thesis by (simp add: ns_Handshake_def split: option.split)
  next
    case (Some n)
    have "handshakeNegotiated (starting (lib_noise B) h) n c = handshakeNegotiated (lib_noise B) n c"
      by (rule negotiated_starting) (use NsConn Some that assms in simp)
    with Some show ?thesis by (simp add: ns_Handshake_def)
  qed
  moreover have "ns_Handshake L c = (c, None)" if "s_done c" for L :: "('a, 'b) noise_lib"
    using that by (simp add: ns_Handshake_def)
  ultimately show ?thesis by (cases "s_done c") (simp_all add: NsConn)
qed simp_all

lemma any_Handshake_refused:
  assumes "\<And>cfg. starts_with x (cfg_prologue cfg) \<Longrightarrow> \<exists>e. new_handshake (lib_noise B) cfg = Inl e" "\<exists>q. starts_with x q"
  shows "snd (any_Handshake B x) \<noteq> None"
proof (cases x)
  case (RawConn c)
  with assms(2) have c: "\<not> r_complete c" by simp
  with RawConn assms(1) obtain e where "new_handshake (lib_noise B) (r_config c) = Inl e" by auto
  from raw_Handshake_refused [OF this c] RawConn show ?thesis by (simp add: split_beta)
next
  case (NsConn c)
  with assms(2) have d: "\<not> s_done c" by auto
  have "snd (ns_Handshake (lib_noise B) c) \<noteq> None"
  proof (cases "s_neg c")
    case None
    have "snd (ns_handshake_accept (lib_noise B) cfg c) \<noteq> None" for cfg
      by (rule ns_accept_refused) (use NsConn None d assms(1) in simp)
    with None d show ?thesis by (simp add: ns_Handshake_def split: option.split)
  next
    case (Some n)
    have "snd (handshakeNegotiated (lib_noise B) n c) \<noteq> None"
      by (rule negotiated_refused) (use NsConn Some d assms(1) in simp)
    with Some d show ?thesis by (simp add: ns_Handshake_def)
  qed
  with NsConn show ?thesis by simp
qed (use assms(2) in auto)

section \<open>From the flags\<close>

text \<open>
  What the flags \<open>c\<close> and \<open>-prologue p\<close> mix into a handshake over \<open>tp\<close>: exactly \<open>p\<close> over raw and
  UDP; over NoiseSocket the prologue of the specification, which ends in \<open>p\<close>; with negotiation that of some
  message's negotiation data, with the transcript of the dead attempts behind it.
\<close>

definition mixed_prologue :: "string \<Rightarrow> config \<Rightarrow> transport \<Rightarrow> bytes \<Rightarrow> bool" where
  "mixed_prologue p c tp q \<longleftrightarrow>
     (if tp = NsTransport then
        if negotiationEnabled c then chained_prologue (str_bytes p) q
        else q = buildPrologue (str_bytes (cf_NegotiationData c)) (str_bytes p)
      else q = str_bytes p)"

lemma mixed_exists: "\<exists>q. mixed_prologue p c tp q"
  by (auto simp: mixed_prologue_def chained_prologue_def)

lemma option_fields:
  "o_negotiation_data (transportOptions E c) = str_bytes (cf_NegotiationData c)"
  "(o_negotiation (transportOptions E c) = None) = (\<not> (cf_Transport c = ''noisesocket'' \<and> negotiationEnabled c))"
  by (simp_all add: transportOptions_def Let_def)

lemma dialled_starts:
  assumes "cfg_prologue nc = []" "o_prologue (transportOptions E c) = str_bytes p" "tp = NsTransport \<longrightarrow> cf_Transport c = ''noisesocket''"
  shows "any_Dial B V NsTransport nw addr la (Some nc) (transportOptions E c) = Inr x \<Longrightarrow> tp = NsTransport \<Longrightarrow>
      starts_with x = mixed_prologue p c tp"
    and "any_Listen B V tp nw addr (Some nc) (transportOptions E c) = Inr l \<Longrightarrow> any_Accept B W l a = Inr y \<Longrightarrow>
      tp \<in> {RawTransport, NsTransport, UdpTransport} \<Longrightarrow> starts_with y = mixed_prologue p c tp"
proof -
  let ?o = "transportOptions E c"
  have neg: "(case o_negotiation ?o of None \<Rightarrow> f | Some n \<Rightarrow> g n) = (if negotiationEnabled c then g (the (o_negotiation ?o)) else f)"
    if "tp = NsTransport" for f g
    using option_fields(2) [of E c] assms(3) that by (cases "o_negotiation ?o") auto
  show "starts_with x = mixed_prologue p c tp"
    if "any_Dial B V NsTransport nw addr la (Some nc) ?o = Inr x" "tp = NsTransport"
    using that(1) assms(2)
    by (auto simp: that(2) fun_eq_iff ns_Dial_def neg [OF that(2)] ns_Client_def ClientWithNegotiation_def ns_new_def
        mixed_prologue_def option_fields(1))
  show "starts_with y = mixed_prologue p c tp"
    if l: "any_Listen B V tp nw addr (Some nc) ?o = Inr l" "any_Accept B W l a = Inr y"
      and tp: "tp \<in> {RawTransport, NsTransport, UdpTransport}"
  proof -
    consider "tp = RawTransport" | "tp = NsTransport" | "tp = UdpTransport" using tp by blast
    then show ?thesis
    proof cases
      case 1
      with l show ?thesis unfolding 1 listen_raw_prologue [OF assms(1)]
        by (auto simp: any_Accept_def raw_Server_def raw_new_def fun_eq_iff mixed_prologue_def assms(2))
    next
      case 2
      with l show ?thesis
        by (auto simp: any_Accept_def ns_Listen_def ns_Accept_def neg [OF 2] ns_Server_def ServerWithNegotiation_def ns_new_def fun_eq_iff
            mixed_prologue_def option_fields(1) assms(2))
    next
      case 3
      with l show ?thesis
        by (auto simp: any_Accept_def udp_Listen_def udp_prologue_set [OF assms(1)] udp_Accept_def raw_Server_def raw_new_def fun_eq_iff
            mixed_prologue_def assms(2))
    qed
  qed
qed

text \<open>The dialers of raw and UDP run the handshake themselves.\<close>

lemma dial_starting:
  assumes "cfg_prologue nc = []" "h (nc\<lparr>cfg_prologue := o_prologue opts\<rparr>) = new_handshake (lib_noise B) (nc\<lparr>cfg_prologue := o_prologue opts\<rparr>)"
    and "tp \<in> {RawTransport, UdpTransport}"
  shows "any_Dial (starting_libs B h) V tp nw addr la (Some nc) opts = any_Dial B V tp nw addr la (Some nc) opts"
proof -
  have r: "raw_Handshake (starting (lib_noise B) h) (raw_Client n (nc\<lparr>cfg_prologue := o_prologue opts\<rparr>)) =
      raw_Handshake (lib_noise B) (raw_Client n (nc\<lparr>cfg_prologue := o_prologue opts\<rparr>))" for n
    by (rule raw_Handshake_starting) (simp add: raw_Client_def raw_new_def assms(2))
  have "any_Dial (starting_libs B h) V RawTransport nw addr la (Some nc) opts = any_Dial B V RawTransport nw addr la (Some nc) opts"
    unfolding dial_raw_prologue [OF assms(1)] by (simp add: DialWithDialer_def r)
  moreover have "any_Dial (starting_libs B h) V UdpTransport nw addr la (Some nc) opts = any_Dial B V UdpTransport nw addr la (Some nc) opts"
    by (simp add: udp_Dial_def udp_prologue_set [OF assms(1)] r)
  ultimately show ?thesis using assms(3) by blast
qed

lemma dial_refused:
  assumes "cfg_prologue nc = []" "new_handshake (lib_noise B) (nc\<lparr>cfg_prologue := o_prologue opts\<rparr>) = Inl e"
    and "tp \<in> {RawTransport, UdpTransport}"
  shows "any_Dial B V tp nw addr la (Some nc) opts \<noteq> Inr x"
proof -
  have r: "raw_Handshake (lib_noise B) (raw_Client n (nc\<lparr>cfg_prologue := o_prologue opts\<rparr>)) \<noteq> (d, None)" for n d
    using raw_Handshake_refused [of "lib_noise B" "raw_Client n (nc\<lparr>cfg_prologue := o_prologue opts\<rparr>)" e]
    by (auto simp: raw_Client_def raw_new_def assms(2))
  have "any_Dial B V RawTransport nw addr la (Some nc) opts \<noteq> Inr x"
    unfolding dial_raw_prologue [OF assms(1)] DialWithDialer_def
    by (auto simp: abandon_def Let_def r split: prod.splits option.splits if_splits)
  moreover have "any_Dial B V UdpTransport nw addr la (Some nc) opts \<noteq> Inr x"
    by (auto simp: udp_Dial_def udp_prologue_set [OF assms(1)] abandon_def r split: prod.splits option.splits)
  ultimately show ?thesis using assms(3) by blast
qed

text \<open>Their connections have the handshake behind them.\<close>

lemma raw_Handshake_done: "snd (raw_Handshake L c) = None \<Longrightarrow> r_complete (fst (raw_Handshake L c))"
  by (auto simp: raw_Handshake_def Let_def split: if_splits sum.splits prod.splits)

lemma dialled_done:
  assumes "cfg_prologue nc = []" "tp \<in> {RawTransport, UdpTransport}" "any_Dial B V tp nw addr la (Some nc) opts = Inr x"
  shows "\<not> starts_with x q"
proof -
  have "\<not> starts_with x q" if "any_Dial B V RawTransport nw addr la (Some nc) opts = Inr x"
    using that unfolding dial_raw_prologue [OF assms(1)] DialWithDialer_def
    by (auto simp: abandon_def Let_def split_beta raw_Handshake_done split: option.splits if_splits)
  moreover have "\<not> starts_with x q" if "any_Dial B V UdpTransport nw addr la (Some nc) opts = Inr x"
    using that by (auto simp: udp_Dial_def udp_prologue_set [OF assms(1)] abandon_def split_beta raw_Handshake_done split: option.splits)
  ultimately show ?thesis using assms(2,3) by blast
qed

text \<open>UDP never comes with BOLT-8.\<close>

lemma udp_not_bolt:
  assumes "ParseConfig E c = (c', Inr (Some nc))" "cf_DHFunc c' \<noteq> NOISE_DH_SECP256K1" "cf_UDP c'"
  shows "cf_Transport c' \<noteq> ''bolt8''"
proof -
  have u: "cf_UDP c \<longrightarrow> cf_Transport c \<in> {[], ''raw''}"
    using ParseConfig_Inr(1) [OF assms(1)] by (cases "SplitHostPort (cf_Proxy c)") (auto simp: check_flags_def split: if_splits)
  show ?thesis
  proof (rule parsed_fields [OF assms(1)])
    fix r
    assume "cf_DHFunc c' = pp_dh r" "cf_UDP c' = cf_UDP c"
      "cf_Transport c' = (if pp_dh r = NOISE_DH_SECP256K1 \<and> cf_Transport c \<in> {[], ''raw''} then ''bolt8'' else cf_Transport c)"
    with u assms(2,3) show "cf_Transport c' \<noteq> ''bolt8''" by auto
  qed
qed

text \<open>
  C40. The \<open>-prologue\<close> of the flags is what the handshakes over raw, UDP and NoiseSocket mix in, of the
  dialer and of every accepted connection. First, they start the Noise library with no other prologue:
  with a library that does anything else for any other prologue, the dial and the handshakes, through
  all attempts of a negotiation, give the same results. Second, none completes without it: with a library
  that refuses these prologues the raw and UDP dials fail, and so does every handshake.
\<close>

theorem prologue_reaches_handshake:
  assumes "ParseConfig E c = (c', Inr (Some nc))" "resolveTransport c' = Inr tp" "tp \<in> {RawTransport, NsTransport, UdpTransport}"
  shows "let opts = transportOptions E c'; mixed = (\<lambda>cfg. mixed_prologue (cf_Prologue c) c' tp (cfg_prologue cfg)) in
    (\<forall>h. (\<forall>cfg. mixed cfg \<longrightarrow> h cfg = new_handshake (lib_noise B) cfg) \<longrightarrow>
      any_Dial (starting_libs B h) V tp nw addr la (Some nc) opts = any_Dial B V tp nw addr la (Some nc) opts \<and>
      (\<forall>x. any_Dial B V tp nw addr la (Some nc) opts = Inr x \<longrightarrow> any_Handshake (starting_libs B h) x = any_Handshake B x) \<and>
      (\<forall>l a y. any_Listen B V tp nw addr (Some nc) opts = Inr l \<and> any_Accept B W l a = Inr y \<longrightarrow>
        any_Handshake (starting_libs B h) y = any_Handshake B y)) \<and>
    ((\<forall>cfg. mixed cfg \<longrightarrow> (\<exists>e. new_handshake (lib_noise B) cfg = Inl e)) \<longrightarrow>
      (\<forall>x. any_Dial B V tp nw addr la (Some nc) opts = Inr x \<longrightarrow> tp = NsTransport \<and> snd (any_Handshake B x) \<noteq> None) \<and>
      (\<forall>l a y. any_Listen B V tp nw addr (Some nc) opts = Inr l \<and> any_Accept B W l a = Inr y \<longrightarrow> snd (any_Handshake B y) \<noteq> None))"
proof -
  let ?o = "transportOptions E c'" and ?m = "\<lambda>cfg. mixed_prologue (cf_Prologue c) c' tp (cfg_prologue cfg)"
  from assms(2,3) have t: "cf_DHFunc c' \<noteq> NOISE_DH_SECP256K1" "tp = NsTransport \<longrightarrow> cf_Transport c' = ''noisesocket''"
    "cf_Transport c' \<noteq> ''bolt8'' \<or> cf_UDP c'"
    by (auto simp: resolveTransport_def wa_New_def Let_def NOISE_DH_SECP256K1_def NOISE_DH_CURVE25519_def split: if_splits)
  have u: "cf_Transport c' \<noteq> ''bolt8''" using udp_not_bolt [OF assms(1) t(1)] t(3) by blast
  from parsed_noise_config [OF assms(1) t(1)] u
  have p: "cfg_prologue nc = []" "o_prologue ?o = str_bytes (cf_Prologue c)" by blast+
  note listen = dialled_starts(2) [OF p t(2) _ _ assms(3)]
  note dial = dialled_starts(1) [where tp = tp, OF p t(2)]
  have own: "?m (nc\<lparr>cfg_prologue := o_prologue ?o\<rparr>)" "tp \<in> {RawTransport, UdpTransport}" if "tp \<noteq> NsTransport"
    using that p(2) assms(3) by (simp_all add: mixed_prologue_def)
  have one: "any_Dial (starting_libs B h) V tp nw addr la (Some nc) ?o = any_Dial B V tp nw addr la (Some nc) ?o"
    "any_Dial B V tp nw addr la (Some nc) ?o = Inr x \<Longrightarrow> any_Handshake (starting_libs B h) x = any_Handshake B x"
    "any_Listen B V tp nw addr (Some nc) ?o = Inr l \<Longrightarrow> any_Accept B W l a = Inr y \<Longrightarrow>
      any_Handshake (starting_libs B h) y = any_Handshake B y"
    if h: "\<forall>cfg. ?m cfg \<longrightarrow> h cfg = new_handshake (lib_noise B) cfg" for h x l a y
  proof -
    show "any_Dial (starting_libs B h) V tp nw addr la (Some nc) ?o = any_Dial B V tp nw addr la (Some nc) ?o"
    proof (cases "tp = NsTransport")
      case False
      from dial_starting [where h = h, OF p(1) _ own(2) [OF False]] h own(1) [OF False] show ?thesis by blast
    qed simp
    show "any_Handshake (starting_libs B h) x = any_Handshake B x" if d: "any_Dial B V tp nw addr la (Some nc) ?o = Inr x"
    proof (cases "tp = NsTransport")
      case True
      have "starts_with x = mixed_prologue (cf_Prologue c) c' tp" by (rule dial [OF _ True]) (use d True in simp)
      with h show ?thesis by (intro any_Handshake_starting) simp
    next
      case False
      from dialled_done [OF p(1) own(2) [OF False] d] show ?thesis by (intro any_Handshake_starting) blast
    qed
    show "any_Handshake (starting_libs B h) y = any_Handshake B y"
      if "any_Listen B V tp nw addr (Some nc) ?o = Inr l" "any_Accept B W l a = Inr y"
      by (rule any_Handshake_starting) (use h listen [OF that] in simp)
  qed
  have none: "tp = NsTransport \<and> snd (any_Handshake B x) \<noteq> None" if r: "\<forall>cfg. ?m cfg \<longrightarrow> (\<exists>e. new_handshake (lib_noise B) cfg = Inl e)"
    and d: "any_Dial B V tp nw addr la (Some nc) ?o = Inr x" for x
  proof -
    from r own(1) dial_refused [OF p(1) _ own(2)] d have n: "tp = NsTransport" by blast
    have s: "starts_with x = mixed_prologue (cf_Prologue c) c' tp" by (rule dial [OF _ n]) (use d n in simp)
    have "snd (any_Handshake B x) \<noteq> None" by (rule any_Handshake_refused) (use r s mixed_exists in simp_all)
    with n show ?thesis by blast
  qed
  have served: "snd (any_Handshake B y) \<noteq> None" if r: "\<forall>cfg. ?m cfg \<longrightarrow> (\<exists>e. new_handshake (lib_noise B) cfg = Inl e)"
    and "any_Listen B V tp nw addr (Some nc) ?o = Inr l" "any_Accept B W l a = Inr y" for l a y
    by (rule any_Handshake_refused) (use r listen [OF that(2,3)] mixed_exists in simp_all)
  show ?thesis unfolding Let_def using one none served by blast
qed

text \<open>A client with a prologue, and libraries that start handshakes only with it and only without it.\<close>

definition ex_prologue :: config where
  "ex_prologue = default_config\<lparr>cf_Prologue := ''p''\<rparr>"

definition ex_only :: "bool \<Rightarrow> noise_config \<Rightarrow> noise_err + nat" where
  "ex_only with_p cfg = (if (cfg_prologue cfg = str_bytes ''p'') = with_p then new_handshake ex_lib cfg else Inl (NoiseErr ''refused''))"

definition ex_dial :: "(nat, nat, byte, byte, bytes) libs \<Rightarrow> (nat, nat, byte, byte) any_conn dialed" where
  "ex_dial B = (let r = ParseConfig ex_env ex_prologue in
     any_Dial B ex_V RawTransport ''tcp'' ''a:1'' '':0'' (Some (the_noise r)) (transportOptions ex_env (fst r)))"

lemma ex_dial_ok: "\<not> isl (ex_dial ex_libs)"
proof -
  define r where "r = ParseConfig ex_env ex_prologue"
  have "cfg_prologue (the_noise (ParseConfig ex_env ex_prologue)) = [] \<and> peer_static (the_noise (ParseConfig ex_env ex_prologue)) = None \<and>
      pat_messages (cfg_pattern (the_noise (ParseConfig ex_env ex_prologue))) = 2" by code_simp
  then have n: "cfg_prologue (the_noise r) = []" "peer_static (the_noise r) = None" "pat_messages (cfg_pattern (the_noise r)) = Suc 1"
    by (simp_all add: r_def)
  define q where "q = (the_noise r)\<lparr>cfg_prologue := o_prologue (transportOptions ex_env (fst r))\<rparr>"
  have q: "new_handshake ex_lib q = Inr 2" "pat_messages (cfg_pattern q) = Suc 1"
    "peer_static q = None \<or> (\<exists>x. peer_static q = Some x \<and> length x = 32)"
    by (simp_all add: q_def n ex_lib_def)
  have p: "ex_pair (Suc 1) 2 2" "raw_frame [1] = [0, 1, 1]" by (simp_all add: ex_pair_def raw_frame_def put16_eq)
  from raw_handshake_both [OF ex_handshake_pair ex_cipher_pair q(1,1) p(1) q(2,2,3,3), of "[Data [0], Data [1, 1]]" "[]" "[Data [0, 1], Data [1]]" "[]", unfolded ex_honest]
  obtain cl where c: "raw_Handshake ex_lib (raw_Client (fresh_net [Data [0], Data [1, 1]]) q) = (cl, None)"
    by (auto simp: p(2))
  have v: "dial_tcp ex_V t a n x = Inr (fresh_net [Data [0], Data [1, 1]])" "\<not> timer_first ex_V" for t a n x
    by (simp_all add: ex_V_def)
  have l: "lib_noise ex_libs = ex_lib" by (simp add: ex_libs_def)
  have "ex_dial ex_libs = Inr (RawConn cl)"
    unfolding ex_dial_def r_def [symmetric] Let_def dial_raw_prologue [OF n(1)] q_def [symmetric] DialWithDialer_def
    by (simp add: v c l local_addr_def)
  then show ?thesis by simp
qed

theorem prologue_reaches_handshake_witness:
  "\<not> isl (ex_dial ex_libs) \<and> ex_dial (starting_libs ex_libs (ex_only True)) = ex_dial ex_libs \<and>
     isl (ex_dial (starting_libs ex_libs (ex_only False)))"
proof -
  have "gives_noise (ParseConfig ex_env ex_prologue)" by code_simp
  then obtain c' nc where p: "ParseConfig ex_env ex_prologue = (c', Inr (Some nc))" using gives_noiseE by blast
  have "resolveTransport (fst (ParseConfig ex_env ex_prologue)) = Inr RawTransport" by code_simp
  with p have t: "resolveTransport c' = Inr RawTransport" by simp
  have q: "mixed_prologue (cf_Prologue ex_prologue) c' RawTransport b \<longleftrightarrow> b = str_bytes ''p''" for b
    by (simp add: mixed_prologue_def ex_prologue_def)
  have d: "ex_dial B = any_Dial B ex_V RawTransport ''tcp'' ''a:1'' '':0'' (Some nc) (transportOptions ex_env c')" for B
    by (simp add: ex_dial_def p)
  have l: "lib_noise ex_libs = ex_lib" by (simp add: ex_libs_def)
  have h: "\<forall>cfg. cfg_prologue cfg = str_bytes ''p'' \<longrightarrow> ex_only True cfg = new_handshake (lib_noise ex_libs) cfg"
    by (simp add: ex_only_def l)
  have "ex_dial (starting_libs ex_libs (ex_only True)) = ex_dial ex_libs"
    unfolding d using prologue_reaches_handshake [OF p t, of ex_libs ex_V "''tcp''" "''a:1''" "'':0''" ex_V, unfolded Let_def q] h by blast
  moreover
  let ?B = "starting_libs ex_libs (ex_only False)"
  have r: "\<forall>cfg. cfg_prologue cfg = str_bytes ''p'' \<longrightarrow> (\<exists>e. new_handshake (lib_noise ?B) cfg = Inl e)"
    by (simp add: ex_only_def)
  have "\<forall>x. ex_dial ?B \<noteq> Inr x"
    unfolding d using prologue_reaches_handshake [OF p t, of ?B ex_V "''tcp''" "''a:1''" "'':0''" ex_V, unfolded Let_def q] r by blast
  then have "isl (ex_dial ?B)" by (cases "ex_dial ?B") simp_all
  moreover have "\<not> isl (ex_dial ex_libs)" by (rule ex_dial_ok)
  ultimately show ?thesis by blast
qed

section \<open>BOLT-8 and WhatsApp\<close>

text \<open>
  BOLT-8 and WhatsApp mix in constants of their own: their dials and listeners are the same for every
  other prologue in the options, so that two ends with different \<open>-prologue\<close> still meet.
\<close>

lemma bolt_wa_ignore_prologue:
  assumes "tp \<in> {BoltTransport, WaTransport k}"
  shows "any_Dial B V tp nw addr la cfg (opts\<lparr>o_prologue := q\<rparr>) = any_Dial B V tp nw addr la cfg opts \<and>
    any_Listen B V tp nw addr cfg (opts\<lparr>o_prologue := q\<rparr>) = any_Listen B V tp nw addr cfg opts"
proof -
  have t: "o_dial_timeout (opts\<lparr>o_prologue := q\<rparr>) = o_dial_timeout opts" by simp
  have "any_Dial B V BoltTransport nw addr la cfg (opts\<lparr>o_prologue := q\<rparr>) = any_Dial B V BoltTransport nw addr la cfg opts"
    "any_Dial B V (WaTransport k) nw addr la cfg (opts\<lparr>o_prologue := q\<rparr>) = any_Dial B V (WaTransport k) nw addr la cfg opts"
    "any_Listen B V (WaTransport k) nw addr cfg (opts\<lparr>o_prologue := q\<rparr>) = any_Listen B V (WaTransport k) nw addr cfg opts"
    unfolding any_Dial.simps any_Listen.simps bolt_Dial_def wa_Dial_def wa_Listen_def t by (rule refl)+
  with assms show ?thesis by auto
qed

end
