(* ===== verification/Deadlines.thy ===== *)
theory Deadlines
  imports Netcat_Props
begin

text \<open>
  The deadline of the connection below, which the rest of the development sees only as a read or a
  write that fails: who sets it, and which one is in force while a call waits for the peer. It is
  set by the idle timeout (pkg/noisecat/timeout.go) through the \<open>SetDeadline\<close> of the transport, which
  forwards it, and by the deferred handshake of the WhatsApp transport (whatsapp/conn.go).
\<close>

section \<open>Setting the deadline\<close>

text \<open>A connection with its deadline in nanoseconds; \<open>None\<close> is the zero time, no deadline.\<close>

record 'c timed =
  t_conn :: 'c
  t_deadline :: "int option"

definition net_SetDeadline :: "int option \<Rightarrow> 'c timed \<Rightarrow> 'c timed" where
  "net_SetDeadline t c = c\<lparr>t_deadline := t\<rparr>"

text \<open>The \<open>SetDeadline\<close> of each transport's connection: it is that of the connection below.\<close>

definition raw_SetDeadline :: "int option \<Rightarrow> ('hs, 'cs) raw_conn timed \<Rightarrow> ('hs, 'cs) raw_conn timed" where
  "raw_SetDeadline t c = net_SetDeadline t c"

definition ns_SetDeadline :: "int option \<Rightarrow> ('hs, 'cs) ns_conn timed \<Rightarrow> ('hs, 'cs) ns_conn timed" where
  "ns_SetDeadline t c = net_SetDeadline t c"

definition bolt_SetDeadline :: "int option \<Rightarrow> ('sk, 'pk) bolt_conn timed \<Rightarrow> ('sk, 'pk) bolt_conn timed" where
  "bolt_SetDeadline t c = net_SetDeadline t c"

definition wa_SetDeadline :: "int option \<Rightarrow> wa_conn timed \<Rightarrow> wa_conn timed" where
  "wa_SetDeadline t c = net_SetDeadline t c"

text \<open>The method of the interface, dispatched on the connection.\<close>

definition timed_as :: "('c \<Rightarrow> 'd) \<Rightarrow> 'c timed \<Rightarrow> 'd timed" where
  "timed_as f c = \<lparr>t_conn = f (t_conn c), t_deadline = t_deadline c\<rparr>"

definition any_SetDeadline :: "int option \<Rightarrow> ('hs, 'cs, 'sk, 'pk) any_conn timed \<Rightarrow> ('hs, 'cs, 'sk, 'pk) any_conn timed" where
  "any_SetDeadline t c =
     (case t_conn c of
        RawConn x \<Rightarrow> timed_as RawConn (raw_SetDeadline t \<lparr>t_conn = x, t_deadline = t_deadline c\<rparr>)
      | NsConn x \<Rightarrow> timed_as NsConn (ns_SetDeadline t \<lparr>t_conn = x, t_deadline = t_deadline c\<rparr>)
      | BoltConn x \<Rightarrow> timed_as BoltConn (bolt_SetDeadline t \<lparr>t_conn = x, t_deadline = t_deadline c\<rparr>)
      | WaConn x \<Rightarrow> timed_as WaConn (wa_SetDeadline t \<lparr>t_conn = x, t_deadline = t_deadline c\<rparr>))"

text \<open>
  \<open>ensureHandshake\<close> with its deadlines: a handshake that runs now has \<open>hsTimeout\<close> to complete, and
  its success removes the deadline.
\<close>

definition ensureHandshake_timed :: "crypto \<Rightarrow> wa_dh \<Rightarrow> int \<Rightarrow> int \<Rightarrow> wa_conn timed \<Rightarrow> wa_conn timed \<times> err option" where
  "ensureHandshake_timed C D hsTimeout now c =
     (case w_hsFn (t_conn c) of
        None \<Rightarrow> (c, None)
      | Some _ \<Rightarrow>
          if w_hsOnce (t_conn c) then (c, w_hsErr (t_conn c))
          else
            let c1 = (if 0 < hsTimeout then net_SetDeadline (Some (now + hsTimeout)) c else c) in
            case ensureHandshake C D (t_conn c1) of
              (w, Some e) \<Rightarrow> (c1\<lparr>t_conn := w\<rparr>, Some e)
            | (w, None) \<Rightarrow>
                let c2 = c1\<lparr>t_conn := w\<rparr> in
                (if 0 < hsTimeout then net_SetDeadline None c2 else c2, None))"

text \<open>The deadline under which a call that starts at \<open>now\<close> waits for the peer once its handshake is through.\<close>

definition waits_until :: "('hs, 'cs, 'sk, 'pk, 'fe) libs \<Rightarrow> int \<Rightarrow> int \<Rightarrow> ('hs, 'cs, 'sk, 'pk) any_conn timed \<Rightarrow> int option" where
  "waits_until B hsTimeout now c =
     (case t_conn c of
        WaConn w \<Rightarrow> t_deadline (fst (ensureHandshake_timed (lib_crypto B) (lib_dh B) hsTimeout now \<lparr>t_conn = w, t_deadline = t_deadline c\<rparr>))
      | _ \<Rightarrow> t_deadline c)"

text \<open>
  A call on the connection inside the idle wrapper: it starts at \<open>t0\<close>, returns at \<open>t1\<close> and is a \<open>Read\<close>
  with a buffer of \<open>k\<close> bytes or a \<open>Write\<close>. Where bytes moved, the wrapper's \<open>bump\<close> calls the \<open>SetDeadline\<close> of the
  transport's connection; \<open>bumped\<close> is the deadline of the connection below after it.
\<close>

datatype call = CallRead int int nat | CallWrite int int bytes

definition bumped :: "('hs, 'cs, 'sk, 'pk) any_conn idle_conn \<Rightarrow> int option \<Rightarrow> int option" where
  "bumped ic d = t_deadline (any_SetDeadline (Some (i_deadline ic)) \<lparr>t_conn = i_conn ic, t_deadline = d\<rparr>)"

definition moved :: "bytes res \<Rightarrow> bool" where
  "moved r = (case r of Inl _ \<Rightarrow> False | Inr b \<Rightarrow> b \<noteq> [])"

fun do_call :: "('hs, 'cs, 'sk, 'pk, 'fe) libs \<Rightarrow> int \<Rightarrow> call \<Rightarrow> ('hs, 'cs, 'sk, 'pk) any_conn idle_conn \<times> int option \<Rightarrow>
    (('hs, 'cs, 'sk, 'pk) any_conn idle_conn \<times> int option) \<times> bool" where
  "do_call B hsTimeout (CallRead t0 t1 k) (ic, d) =
     (let w = (if k = 0 then d else waits_until B hsTimeout t0 \<lparr>t_conn = i_conn ic, t_deadline = d\<rparr>) in
      case idle_Read (any_Read B k) t1 ic of
        (ic', r) \<Rightarrow> ((ic', if moved r then bumped ic' w else w), moved r))"
| "do_call B hsTimeout (CallWrite t0 t1 p) (ic, d) =
     (let w = waits_until B hsTimeout t0 \<lparr>t_conn = i_conn ic, t_deadline = d\<rparr> in
      case idle_Write (any_Write B p) t1 ic of
        (ic', n, e) \<Rightarrow> ((ic', if 0 < n then bumped ic' w else w), 0 < n))"

fun called_at :: "call \<Rightarrow> int" where
  "called_at (CallRead t0 t1 k) = t0"
| "called_at (CallWrite t0 t1 p) = t0"

fun returned_at :: "call \<Rightarrow> int" where
  "returned_at (CallRead t0 t1 k) = t1"
| "returned_at (CallWrite t0 t1 p) = t1"

text \<open>A sequence of calls, with the times at which bytes moved, the last one first.\<close>

fun do_calls :: "('hs, 'cs, 'sk, 'pk, 'fe) libs \<Rightarrow> int \<Rightarrow> call list \<Rightarrow>
    ('hs, 'cs, 'sk, 'pk) any_conn idle_conn \<times> int option \<Rightarrow> int list \<Rightarrow>
    (('hs, 'cs, 'sk, 'pk) any_conn idle_conn \<times> int option) \<times> int list" where
  "do_calls B hsTimeout [] s acts = (s, acts)"
| "do_calls B hsTimeout (a # as) s acts =
     (case do_call B hsTimeout a s of (s', m) \<Rightarrow> do_calls B hsTimeout as s' (if m then returned_at a # acts else acts))"

definition last_active :: "int \<Rightarrow> int list \<Rightarrow> int" where
  "last_active now acts = (case acts of [] \<Rightarrow> now | t # _ \<Rightarrow> t)"

section \<open>The idle deadline\<close>

lemma bumped_eq: "bumped ic d = Some (i_deadline ic)"
  by (cases "i_conn ic") (simp_all add: bumped_def any_SetDeadline_def timed_as_def raw_SetDeadline_def ns_SetDeadline_def
      bolt_SetDeadline_def wa_SetDeadline_def net_SetDeadline_def)

text \<open>Connections whose next call runs no deferred handshake under a deadline of its own; and the outcome of the deferred handshake
  that has been run.\<close>

fun handshake_behind :: "('hs, 'cs, 'sk, 'pk) any_conn \<Rightarrow> bool" where
  "handshake_behind (WaConn c) \<longleftrightarrow> w_hsFn c = None \<or> w_hsOnce c"
| "handshake_behind _ \<longleftrightarrow> True"

fun handshake_err :: "('hs, 'cs, 'sk, 'pk) any_conn \<Rightarrow> err option" where
  "handshake_err (WaConn c) = w_hsErr c"
| "handshake_err _ = None"

lemma waits_until_behind: "handshake_behind (t_conn c) \<Longrightarrow> waits_until B hsTimeout now c = t_deadline c"
  by (cases "t_conn c") (auto simp: waits_until_def ensureHandshake_timed_def split: option.split)

lemma ensureHandshake_run:
  assumes "ensureHandshake C D c = (c', e)" "w_hsFn c \<noteq> None" "\<not> w_hsOnce c"
  shows "w_hsFn c' \<noteq> None \<and> w_hsOnce c' \<and> (w_hsErr c = None \<longrightarrow> w_hsErr c' = e)"
  using assms by (auto simp: ensureHandshake_def Let_def split: option.splits prod.splits sum.splits)

lemma ensureHandshake_again: "w_hsFn c = None \<or> w_hsOnce c \<Longrightarrow> fst (ensureHandshake C D c) = c"
  by (auto simp: ensureHandshake_def split: option.split)

lemma wa_write_loop_keeps:
  "wa_write_loop C n p c = (c', m, e) \<Longrightarrow> w_hsFn c' = w_hsFn c \<and> w_hsOnce c' = w_hsOnce c \<and> w_hsErr c' = w_hsErr c"
proof (induction C n p c arbitrary: c' m e rule: wa_write_loop.induct)
  case (1 C n p c)
  show ?case
  proof (cases "p = [] \<or> w_writeKey c = None")
    case True
    with "1.prems" show ?thesis by (auto simp: wa_write_loop.simps [of C n p c] Let_def split: if_splits)
  next
    case False
    then obtain key where k: "p \<noteq> []" "w_writeKey c = Some key" by auto
    obtain f err where w: "writeFrame (c_seal C key (generateIV (w_writeCounter c)) [] (take (min (length p) wa_maxPlain) p)) (w_framed c) = (f, err)"
      by fastforce
    show ?thesis
    proof (cases err)
      case None
      with "1.prems" k w "1.IH" [OF k(1) refl k(2) refl refl] show ?thesis
        by (auto simp: wa_write_loop.simps [of C n p c] Let_def)
    next
      case (Some x)
      with "1.prems" k w show ?thesis by (auto simp: wa_write_loop.simps [of C n p c] Let_def)
    qed
  qed
qed

text \<open>What a call leaves of the handshake's state is what \<open>ensureHandshake\<close> leaves of it.\<close>

definition hs_state :: "wa_conn \<Rightarrow> dhKeypair option \<times> bool \<times> err option" where
  "hs_state c = (w_hsFn c, w_hsOnce c, w_hsErr c)"

lemma wa_Write_state: "wa_Write C D p c = (c', n, e) \<Longrightarrow> hs_state c' = hs_state (fst (ensureHandshake C D c))"
  by (auto simp: wa_Write_def hs_state_def split: prod.splits option.splits dest!: wa_write_loop_keeps)

lemma wa_Read_state: "wa_Read C D k c = (c', r) \<Longrightarrow> k \<noteq> 0 \<Longrightarrow> hs_state c' = hs_state (fst (ensureHandshake C D c))"
  by (auto simp: wa_Read_def wa_read_frame_def hs_state_def split: prod.splits option.splits sum.splits if_splits)

text \<open>
  The two kinds of call as one: a step from a connection to another under which \<open>w\<close> is the deadline while it waits.
\<close>

definition hs_call :: "('hs, 'cs, 'sk, 'pk, 'fe) libs \<Rightarrow> int \<Rightarrow> int \<Rightarrow> ('hs, 'cs, 'sk, 'pk) any_conn \<Rightarrow> int option \<Rightarrow>
    ('hs, 'cs, 'sk, 'pk) any_conn \<Rightarrow> int option \<Rightarrow> bool \<Rightarrow> bool" where
  "hs_call B hsTimeout t0 c d c' w m \<longleftrightarrow>
     (handshake_behind c \<longrightarrow> handshake_behind c' \<and> handshake_err c' = handshake_err c \<and> w = d) \<and>
     (\<not> handshake_behind c \<and> handshake_err c = None \<longrightarrow>
        c' = c \<and> w = d \<and> \<not> m \<or>
        handshake_behind c' \<and> w = (if hsTimeout \<le> 0 then d else if handshake_err c' = None then None else Some (t0 + hsTimeout)))"

lemma timed_run:
  assumes "w_hsFn c = Some k" "\<not> w_hsOnce c"
  shows "waits_until B hsTimeout t0 \<lparr>t_conn = WaConn c, t_deadline = d\<rparr> =
    (if hsTimeout \<le> 0 then d else if snd (ensureHandshake (lib_crypto B) (lib_dh B) c) = None then None else Some (t0 + hsTimeout))"
  using assms by (auto simp: waits_until_def ensureHandshake_timed_def net_SetDeadline_def Let_def split: prod.split option.split)

lemma wa_call:
  assumes "hs_state w' = hs_state (fst (ensureHandshake (lib_crypto B) (lib_dh B) w))"
  shows "hs_call B hsTimeout t0 (WaConn w) d (WaConn w') (waits_until B hsTimeout t0 \<lparr>t_conn = WaConn w, t_deadline = d\<rparr>) m"
proof (cases "w_hsFn w = None \<or> w_hsOnce w")
  case True
  with ensureHandshake_again [OF this, of "lib_crypto B" "lib_dh B"] assms
    waits_until_behind [of "\<lparr>t_conn = WaConn w, t_deadline = d\<rparr>" B hsTimeout t0] show ?thesis
    by (auto simp: hs_call_def hs_state_def)
next
  case False
  then obtain k where k: "w_hsFn w = Some k" "\<not> w_hsOnce w" by auto
  obtain v e where v: "ensureHandshake (lib_crypto B) (lib_dh B) w = (v, e)" by fastforce
  from ensureHandshake_run [OF v] k assms v show ?thesis
    by (auto simp: hs_call_def hs_state_def timed_run [OF k])
qed

lemma any_Write_call:
  "any_Write B p c = (c', n, e) \<Longrightarrow> hs_call B hsTimeout t0 c d c' (waits_until B hsTimeout t0 \<lparr>t_conn = c, t_deadline = d\<rparr>) m"
proof (cases c)
  case (WaConn w)
  assume "any_Write B p c = (c', n, e)"
  with WaConn obtain w' where "c' = WaConn w'" "wa_Write (lib_crypto B) (lib_dh B) p w = (w', n, e)"
    by (auto simp: apfst_def map_prod_def split: prod.splits)
  with wa_call [OF wa_Write_state [OF this(2)]] WaConn show ?thesis by simp
qed (auto simp: hs_call_def waits_until_def apfst_def map_prod_def split: prod.splits)

lemma any_Read_call:
  assumes "any_Read B k c = (c', r)"
  shows "hs_call B hsTimeout t0 c d c' (if k = 0 then d else waits_until B hsTimeout t0 \<lparr>t_conn = c, t_deadline = d\<rparr>) (moved r)"
proof (cases c)
  case (WaConn w)
  with assms obtain w' where w: "c' = WaConn w'" "wa_Read (lib_crypto B) (lib_dh B) k w = (w', r)"
    by (auto simp: apfst_def map_prod_def split: prod.splits)
  show ?thesis
  proof (cases "k = 0")
    case True
    with w WaConn show ?thesis by (auto simp: hs_call_def wa_Read_def moved_def)
  next
    case False
    with wa_call [OF wa_Read_state [OF w(2) False]] w(1) WaConn show ?thesis by simp
  qed
qed (use assms in \<open>auto simp: hs_call_def waits_until_def apfst_def map_prod_def split: prod.splits\<close>)

lemma do_call_step:
  assumes "do_call B hsTimeout a (ic, d) = ((ic', d'), m)"
  shows "\<exists>w. hs_call B hsTimeout (called_at a) (i_conn ic) d (i_conn ic') w m \<and> i_idle ic' = i_idle ic \<and>
    i_deadline ic' = (if m then returned_at a + i_idle ic else i_deadline ic) \<and> d' = (if m then Some (i_deadline ic') else w)"
proof (cases a)
  case (CallRead t0 t1 k)
  obtain c r where c: "any_Read B k (i_conn ic) = (c, r)" by fastforce
  from any_Read_call [OF c, of hsTimeout t0 d] assms CallRead c show ?thesis
    by (auto simp: idle_Read_def Let_def moved_def bump_def bumped_eq split: sum.splits if_splits)
next
  case (CallWrite t0 t1 p)
  obtain c n e where c: "any_Write B p (i_conn ic) = (c, n, e)" by (metis prod_cases3)
  from any_Write_call [OF c, of hsTimeout t0 d m] assms CallWrite c show ?thesis
    by (auto simp: idle_Write_def Let_def bump_def bumped_eq split: if_splits)
qed

text \<open>
  The invariant of a sequence of calls on a connection that was \<open>c\<close> at the start; \<open>T\<close> are the times of the calls so far.
\<close>

definition idle_inv :: "('hs, 'cs, 'sk, 'pk) any_conn \<Rightarrow> int \<Rightarrow> int \<Rightarrow> int \<Rightarrow> int set \<Rightarrow>
    ('hs, 'cs, 'sk, 'pk) any_conn idle_conn \<Rightarrow> int option \<Rightarrow> int list \<Rightarrow> bool" where
  "idle_inv c hsTimeout now idle T ic d acts \<longleftrightarrow>
     i_idle ic = idle \<and> i_deadline ic = last_active now acts + idle \<and>
     (handshake_behind c \<longrightarrow> handshake_behind (i_conn ic)) \<and>
     (\<not> handshake_behind (i_conn ic) \<longrightarrow> acts = [] \<and> handshake_err (i_conn ic) = None) \<and>
     (if handshake_behind c \<or> acts \<noteq> [] \<or> \<not> handshake_behind (i_conn ic) \<or> hsTimeout \<le> 0 then d = Some (i_deadline ic)
      else if handshake_err (i_conn ic) = None then d = None else (\<exists>t \<in> T. d = Some (t + hsTimeout)))"

lemma do_call_inv:
  assumes "idle_inv c hsTimeout now idle T ic d acts" "do_call B hsTimeout a (ic, d) = ((ic', d'), m)"
  shows "idle_inv c hsTimeout now idle (insert (called_at a) T) ic' d' (if m then returned_at a # acts else acts)"
proof -
  from do_call_step [OF assms(2)] obtain w where s: "hs_call B hsTimeout (called_at a) (i_conn ic) d (i_conn ic') w m"
    "i_idle ic' = i_idle ic" "i_deadline ic' = (if m then returned_at a + i_idle ic else i_deadline ic)"
    "d' = (if m then Some (i_deadline ic') else w)" by blast
  show ?thesis
  proof (cases m)
    case True
    with s assms(1) show ?thesis by (auto simp: idle_inv_def hs_call_def last_active_def)
  next
    case False
    with s assms(1) show ?thesis
      by (cases "handshake_behind (i_conn ic)") (auto simp: idle_inv_def hs_call_def split: if_splits)
  qed
qed

lemma do_calls_inv:
  "idle_inv c hsTimeout now idle T ic d acts \<Longrightarrow> do_calls B hsTimeout as (ic, d) acts = ((ic', d'), acts') \<Longrightarrow>
    idle_inv c hsTimeout now idle (T \<union> set (map called_at as)) ic' d' acts'"
proof (induction as arbitrary: ic d acts T)
  case (Cons a as)
  obtain ic1 d1 m where s: "do_call B hsTimeout a (ic, d) = ((ic1, d1), m)" by (metis prod.collapse)
  with Cons.prems(2) have "do_calls B hsTimeout as (ic1, d1) (if m then returned_at a # acts else acts) = ((ic', d'), acts')" by simp
  from Cons.IH [OF do_call_inv [OF Cons.prems(1) s] this] show ?case by simp
qed simp

text \<open>No connection that was just opened has run its deferred handshake.\<close>

lemma wa_opened:
  "wa_client_over C k root r n = Inr w \<Longrightarrow> w_hsFn w = None" "wa_Accept D r cfg acc = Inr w \<Longrightarrow> w_hsErr w = None"
  by (auto simp: wa_client_over_def abandon_def newConn_def split: prod.splits sum.splits)
    (cases "keypairFromConfig D cfg r"; cases "snd (keypairFromConfig D cfg r)"; auto simp: wa_Accept_def abandon_def newDeferredServerConn_def)

lemma opened_unrun:
  "any_Dial B V tp nw addr la cfg opts = Inr c \<Longrightarrow> handshake_behind c"
  "any_Accept B V l acc = Inr c \<Longrightarrow> handshake_behind c \<or> handshake_err c = None"
proof -
  assume d: "any_Dial B V tp nw addr la cfg opts = Inr c"
  show "handshake_behind c"
  proof (cases tp)
    case (WaTransport k)
    with d show ?thesis
      by (auto simp: wa_Dial_def dialBackend_def dialPeer_def Let_def dest: wa_opened(1) split: prod.splits sum.splits if_splits)
  next
    case BoltTransport
    with d show ?thesis
      by (cases "peer_static (the cfg)"; cases "parse_pub (lib_curve B) (the (peer_static (the cfg)))") (auto simp: bolt_Dial_def)
  next
    case UdpTransport
    with d obtain r where "c = RawConn r" by (auto simp: udp_Dial_def abandon_def split_beta split: option.splits)
    then show ?thesis by simp
  qed (use d in \<open>auto simp: raw_Dial_def ns_Dial_def split: if_splits\<close>)
next
  assume "any_Accept B V l acc = Inr c"
  then show "handshake_behind c \<or> handshake_err c = None"
    by (cases c; cases l; auto simp: any_Accept_def dest: wa_opened(2))
qed

text \<open>
  C38. The idle timeout \<open>-w\<close>, over any transport and for every sequence of reads and writes: the deadline in force
  on the connection below after the calls - set by the wrapper through the transport's \<open>SetDeadline\<close> - is the time at which bytes last moved, or
  the start of the connection, plus the idle time. There is one exception, exactly described: a connection with a handshake
  deferred under its own time limit (an accepted WhatsApp connection) on which the handshake has been run and no byte has moved since. There the handshake has
  replaced the idle deadline: there is none when it succeeded, and the handshake's own when it failed. A call that finds the handshake run waits for the peer under the deadline so described.
  (The second hypothesis holds of every connection that Dial or Accept returns, \<open>opened_unrun\<close>.)
\<close>

theorem idle_deadline_in_force:
  assumes "newIdleConn now c idle = Idle ic0" "handshake_behind c \<or> handshake_err c = None"
    and "do_calls B hsTimeout as (ic0, bumped ic0 d0) [] = ((ic, d), acts)"
  shows "(handshake_behind c \<or> acts \<noteq> [] \<or> \<not> handshake_behind (i_conn ic) \<or> hsTimeout \<le> 0 \<longrightarrow>
      d = Some (last_active now acts + idle)) \<and>
    (\<not> handshake_behind c \<and> acts = [] \<and> handshake_behind (i_conn ic) \<and> 0 < hsTimeout \<longrightarrow>
      (if handshake_err (i_conn ic) = None then d = None else (\<exists>t \<in> set (map called_at as). d = Some (t + hsTimeout)))) \<and>
    (handshake_behind (i_conn ic) \<longrightarrow> waits_until B hsTimeout t \<lparr>t_conn = i_conn ic, t_deadline = d\<rparr> = d)"
proof -
  from assms(1) have i: "ic0 = \<lparr>i_conn = c, i_idle = idle, i_deadline = now + idle\<rparr>"
    by (auto simp: newIdleConn_def bump_def split: if_splits)
  have "idle_inv c hsTimeout now idle {} ic0 (bumped ic0 d0) []" using assms(2) by (auto simp: idle_inv_def i bumped_eq last_active_def)
  from do_calls_inv [OF this assms(3)] have "idle_inv c hsTimeout now idle (set (map called_at as)) ic d acts" by simp
  then show ?thesis using waits_until_behind [of "\<lparr>t_conn = i_conn ic, t_deadline = d\<rparr>"] by (auto simp: idle_inv_def split: if_splits)
qed

theorem idle_deadline_in_force_witness:
  "\<exists>ic d. do_calls ex_libs 20 [CallWrite 3 4 [7, 8]] (\<lparr>i_conn = WaConn ex_wa_conn, i_idle = 5, i_deadline = 5\<rparr>, Some 5) [] = ((ic, d), [4]) \<and>
     d = Some 9 \<and> waits_until ex_libs 20 6 \<lparr>t_conn = i_conn ic, t_deadline = d\<rparr> = Some 9"
proof -
  let ?ic = "\<lparr>i_conn = WaConn ex_wa_conn, i_idle = 5, i_deadline = 5\<rparr> :: (nat, nat, byte, byte) any_conn idle_conn"
  have l: "lib_crypto ex_libs = ex_crypto" "lib_dh ex_libs = ex_wa" by (simp_all add: ex_libs_def)
  have n: "newIdleConn 0 (WaConn ex_wa_conn) 5 = Idle ?ic" by (simp add: newIdleConn_def bump_def)
  have h: "handshake_behind (WaConn ex_wa_conn :: (nat, nat, byte, byte) any_conn)" by (simp add: ex_wa_conn_def newConn_def)
  have b: "bumped ?ic None = Some 5" by (simp add: bumped_eq)
  obtain ic d where c: "do_calls ex_libs 20 [CallWrite 3 4 [7, 8]] (?ic, Some 5) [] = ((ic, d), [4])" "handshake_behind (i_conn ic)"
    by (simp add: idle_Write_def l ex_wa_write Let_def bump_def) (simp add: ex_wa_conn_def newConn_def)
  from idle_deadline_in_force [OF n disjI1 [OF h], of ex_libs 20 "[CallWrite 3 4 [7, 8]]" None ic d "[4]" 6] b c
  show ?thesis by (auto simp: last_active_def)
qed

text \<open>
  The exception: on an accepted WhatsApp connection the first Read runs the deferred handshake, whose
  success removes the deadline, also the one the idle timeout had set, so that this Read
  waits for the peer's first frame without any.
\<close>

lemma wa_handshake_drops_idle_deadline:
  assumes "w_hsFn w = Some k" "\<not> w_hsOnce w" "0 < hsTimeout" "ensureHandshake (lib_crypto B) (lib_dh B) w = (w', None)"
    and "newIdleConn now (WaConn w) idle = Idle ic"
  shows "waits_until B hsTimeout t \<lparr>t_conn = i_conn ic, t_deadline = Some (i_deadline ic)\<rparr> = None"
proof -
  from assms(5) have "i_conn ic = WaConn w" by (auto simp: newIdleConn_def bump_def split: if_splits)
  with assms(1-4) show ?thesis by (simp add: waits_until_def ensureHandshake_timed_def net_SetDeadline_def)
qed

text \<open>The connection, not its deadline, is what \<open>ensureHandshake\<close> makes of it.\<close>

lemma ensureHandshake_timed_conn:
  "map_prod t_conn id (ensureHandshake_timed C D hsTimeout now c) = ensureHandshake C D (t_conn c)"
proof (cases "w_hsFn (t_conn c) = None \<or> w_hsOnce (t_conn c)")
  case True
  then show ?thesis by (cases "w_hsFn (t_conn c)") (auto simp: ensureHandshake_timed_def ensureHandshake_def)
next
  case False
  obtain w e where "ensureHandshake C D (t_conn c) = (w, e)" by fastforce
  with False show ?thesis by (cases e) (auto simp: ensureHandshake_timed_def net_SetDeadline_def Let_def)
qed

end
