(* ===== verification/Daemon.thy ===== *)
theory Daemon
  imports Netcat_Props "HOL-Library.Sublist"
begin

text \<open>
  The daemon of pkg/noisecat/net.go (\<open>StartServer\<close> with \<open>-k\<close>): the accept loop, one goroutine per
  connection, the goroutine that closes the listener at a signal, and the wait for all connections. The
  goroutines interleave, so the daemon is a step relation; the sequential \<open>accept_loop\<close> of Netcat is its
  specification.
\<close>

section \<open>The steps\<close>

datatype phase = Accepting | Draining | Finished

text \<open>
  \<open>dm_accepts\<close> is what the operating system's accepts will return, with the time and the entropy of each
  connection; \<open>dm_held\<close> is a connection between its \<open>Accept\<close> and the start of its goroutine; \<open>dm_running\<close> are the
  connections, by their number, whose runner has not returned: the counter of the wait group is the number of them.
  \<open>dm_signal\<close>: the signal has come; \<open>dm_open\<close>: the listener has not been closed.
\<close>

record ('sk, 'c) daemon =
  dm_phase :: phase
  dm_open :: bool
  dm_signal :: bool
  dm_accepts :: "('sk net_env \<times> int \<times> net res) list"
  dm_held :: "(int \<times> 'c) option"
  dm_started :: "'c params list"
  dm_running :: "nat set"

definition daemon_start :: "('sk net_env \<times> int \<times> net res) list \<Rightarrow> ('sk, 'c) daemon" where
  "daemon_start as = \<lparr>dm_phase = Accepting, dm_open = True, dm_signal = False, dm_accepts = as, dm_held = None, dm_started = [],
     dm_running = {}\<rparr>"

text \<open>
  \<open>accepted\<close>: \<open>Accept\<close> returns a connection; \<open>serve\<close>: its goroutine is started; \<open>refuse\<close>: an error of \<open>Accept\<close> ends the loop,
  and so does a closed listener; \<open>signalled\<close>: the signal comes; \<open>shut\<close>: the goroutine that received it closes
  the listener; \<open>returned\<close>: a runner returns; \<open>leave\<close>: the wait for the runners is over.
\<close>

inductive dstep :: "('hs, 'cs, 'sk, 'pk, 'fe) libs \<Rightarrow> config \<Rightarrow> 'sk any_listener \<Rightarrow>
    ('sk, ('hs, 'cs, 'sk, 'pk) any_conn) daemon \<Rightarrow> ('sk, ('hs, 'cs, 'sk, 'pk) any_conn) daemon \<Rightarrow> bool"
  for B :: "('hs, 'cs, 'sk, 'pk, 'fe) libs" and c l where
  accepted: "dm_phase s = Accepting \<Longrightarrow> dm_held s = None \<Longrightarrow> dm_open s \<Longrightarrow> dm_accepts s = (V, now, a) # as \<Longrightarrow>
    any_Accept B V l a = Inr conn \<Longrightarrow> dstep B c l s (s\<lparr>dm_accepts := as, dm_held := Some (now, conn)\<rparr>)"
| serve: "dm_phase s = Accepting \<Longrightarrow> dm_held s = Some (now, conn) \<Longrightarrow>
    dstep B c l s (s\<lparr>dm_held := None, dm_started := dm_started s @ [newParams now c conn],
      dm_running := insert (length (dm_started s)) (dm_running s)\<rparr>)"
| refuse: "dm_phase s = Accepting \<Longrightarrow> dm_held s = None \<Longrightarrow> dm_open s \<Longrightarrow> dm_accepts s = (V, now, a) # as \<Longrightarrow>
    any_Accept B V l a = Inl e \<Longrightarrow> dstep B c l s (s\<lparr>dm_accepts := as, dm_phase := Draining\<rparr>)"
| closed: "dm_phase s = Accepting \<Longrightarrow> dm_held s = None \<Longrightarrow> \<not> dm_open s \<Longrightarrow> dstep B c l s (s\<lparr>dm_phase := Draining\<rparr>)"
| signalled: "dm_phase s \<noteq> Finished \<Longrightarrow> \<not> dm_signal s \<Longrightarrow> dstep B c l s (s\<lparr>dm_signal := True\<rparr>)"
| shut: "dm_phase s \<noteq> Finished \<Longrightarrow> dm_signal s \<Longrightarrow> dm_open s \<Longrightarrow> dstep B c l s (s\<lparr>dm_open := False\<rparr>)"
| returned: "i \<in> dm_running s \<Longrightarrow> dstep B c l s (s\<lparr>dm_running := dm_running s - {i}\<rparr>)"
| leave: "dm_phase s = Draining \<Longrightarrow> dm_running s = {} \<Longrightarrow> dstep B c l s (s\<lparr>dm_phase := Finished, dm_open := False\<rparr>)"

inductive dreach :: "('hs, 'cs, 'sk, 'pk, 'fe) libs \<Rightarrow> config \<Rightarrow> 'sk any_listener \<Rightarrow>
    ('sk, ('hs, 'cs, 'sk, 'pk) any_conn) daemon \<Rightarrow> ('sk, ('hs, 'cs, 'sk, 'pk) any_conn) daemon \<Rightarrow> bool"
  for B :: "('hs, 'cs, 'sk, 'pk, 'fe) libs" and c l s where
  here: "dreach B c l s s"
| further: "dreach B c l s t \<Longrightarrow> dstep B c l t u \<Longrightarrow> dreach B c l s u"

section \<open>The invariant\<close>

text \<open>\<open>W\<close> are the connections of the sequential accept loop; \<open>held_params\<close> is what the one that was accepted last will be
  started with.\<close>

definition held_params :: "config \<Rightarrow> ('sk, 'c) daemon \<Rightarrow> 'c params list" where
  "held_params c s = (case dm_held s of None \<Rightarrow> [] | Some (now, conn) \<Rightarrow> [newParams now c conn])"

definition dinv :: "('hs, 'cs, 'sk, 'pk, 'fe) libs \<Rightarrow> config \<Rightarrow> 'sk any_listener \<Rightarrow> ('hs, 'cs, 'sk, 'pk) any_conn params list \<Rightarrow>
    ('sk, ('hs, 'cs, 'sk, 'pk) any_conn) daemon \<Rightarrow> bool" where
  "dinv B c l W s \<longleftrightarrow>
     (dm_phase s = Accepting \<longrightarrow> dm_started s @ held_params c s @ accept_loop B c l (dm_accepts s) = W) \<and>
     prefix (dm_started s) W \<and> (dm_phase s \<noteq> Accepting \<longrightarrow> dm_held s = None) \<and>
     (dm_phase s \<noteq> Accepting \<and> (\<not> dm_signal s \<or> dm_open s) \<longrightarrow> dm_started s = W) \<and>
     (\<not> dm_signal s \<and> dm_phase s \<noteq> Finished \<longrightarrow> dm_open s) \<and>
     dm_running s \<subseteq> {..< length (dm_started s)} \<and> (dm_phase s = Finished \<longrightarrow> dm_running s = {} \<and> \<not> dm_open s)"

lemma dinv_start: "dinv B c l (accept_loop B c l as) (daemon_start as)"
  by (simp add: dinv_def daemon_start_def held_params_def)

lemma dstep_dinv: "dstep B c l s t \<Longrightarrow> dinv B c l W s \<Longrightarrow> dinv B c l W t"
proof (induction rule: dstep.induct)
  case (accepted s V now a as conn)
  then have "dm_started s @ newParams now c conn # accept_loop B c l as = W" by (simp add: dinv_def held_params_def)
  with accepted show ?case by (auto simp: dinv_def held_params_def)
next
  case (serve s now conn)
  then have "dm_started s @ newParams now c conn # accept_loop B c l (dm_accepts s) = W" by (simp add: dinv_def held_params_def)
  with serve show ?case by (auto simp: dinv_def held_params_def)
next
  case (refuse s V now a as e)
  then have "dm_started s = W" by (simp add: dinv_def held_params_def)
  with refuse show ?case by (auto simp: dinv_def)
qed (auto simp: dinv_def held_params_def)

lemma dreach_dinv: "dreach B c l s t \<Longrightarrow> dinv B c l W s \<Longrightarrow> dinv B c l W t"
  by (induction rule: dreach.induct) (auto intro: dstep_dinv)

section \<open>Progress and termination\<close>


text \<open>Every step decreases it.\<close>

definition dweight :: "('sk, 'c) daemon \<Rightarrow> nat" where
  "dweight s = (case dm_phase s of Accepting \<Rightarrow> 2 | Draining \<Rightarrow> 1 | Finished \<Rightarrow> 0) + 3 * length (dm_accepts s) +
     (if dm_held s = None then 0 else 2) + card (dm_running s) + (if dm_signal s then 0 else 1) + (if dm_open s then 1 else 0)"

lemma dstep_weight: "dstep B c l s t \<Longrightarrow> finite (dm_running s) \<Longrightarrow> finite (dm_running t) \<and> dweight t < dweight s"
proof (induction rule: dstep.induct)
  case (returned i s)
  then have "card (dm_running s - {i}) < card (dm_running s)" using card_Diff1_less by metis
  with returned show ?case by (simp add: dweight_def)
next
  case (serve s now conn)
  have "card (insert (length (dm_started s)) (dm_running s)) \<le> Suc (card (dm_running s))" by (rule card_insert_le_m1) simp_all
  with serve show ?case by (simp add: dweight_def)
qed (auto simp: dweight_def split: phase.split)

lemma run_weight:
  assumes "finite (dm_running (f 0))" "\<forall>i < n. dstep B c l (f i) (f (Suc i))"
  shows "n \<le> dweight (f 0)"
proof -
  have "finite (dm_running (f k)) \<and> k + dweight (f k) \<le> dweight (f 0)" if "k \<le> n" for k
    using that
  proof (induction k)
    case (Suc k)
    then have "finite (dm_running (f k)) \<and> k + dweight (f k) \<le> dweight (f 0)" "dstep B c l (f k) (f (Suc k))" using assms(2) by auto
    with dstep_weight [of B c l "f k" "f (Suc k)"] show ?case by linarith
  qed (use assms(1) in simp)
  from this [of n] show ?thesis by simp
qed

lemma dweight_start: "dweight (daemon_start as) = 3 * length as + 4"
  by (simp add: dweight_def daemon_start_def)

lemma dreach_weight:
  "dreach B c l (daemon_start as) s \<Longrightarrow> finite (dm_running s) \<and> dweight s \<le> 3 * length as + 4"
proof (induction rule: dreach.induct)
  case here
  show ?case by (simp only: dweight_start order_refl) (simp add: daemon_start_def)
next
  case (further t u)
  with dstep_weight [of B c l t u] show ?case by linarith
qed

text \<open>
  A daemon that was signalled or whose loop has ended goes on: on its own, without another signal or
  connection, except that while draining it waits for its runners.
\<close>

lemma drains_on:
  assumes "dinv B c l W s" "dm_signal s \<or> dm_phase s = Draining" "dm_phase s \<noteq> Finished"
    and "dm_phase s = Draining \<longrightarrow> dm_running s = {}"
  shows "\<exists>t. dstep B c l s t \<and> dm_signal t = dm_signal s \<and> dm_accepts t = dm_accepts s"
proof (cases "dm_phase s")
  case Accepting
  show ?thesis
  proof (cases "dm_held s")
    case None
    show ?thesis
    proof (cases "dm_open s")
      case True
      with Accepting assms(2) shut [of s B c l] show ?thesis by fastforce
    next
      case False
      with closed [OF Accepting None] show ?thesis by fastforce
    qed
  next
    case (Some x)
    obtain now conn where "x = (now, conn)" by (cases x)
    with serve [of s now conn B c l] Accepting Some show ?thesis by fastforce
  qed
next
  case Draining
  with leave [OF Draining] assms(4) show ?thesis by fastforce
qed (use assms(3) in simp)

lemma stuck_finished:
  assumes "dinv B c l W s" "dm_signal s \<or> dm_phase s = Draining" "\<nexists>t. dstep B c l s t"
  shows "dm_phase s = Finished"
proof (rule ccontr)
  assume n: "dm_phase s \<noteq> Finished"
  have "dm_running s = {}" using assms(3) returned [of _ s B c l] by blast
  with drains_on [OF assms(1,2) n] assms(3) show False by blast
qed

text \<open>A closed listener stays closed, and only the connection that is held is still started.\<close>

lemma closed_step:
  "dstep B c l s t \<Longrightarrow> \<not> dm_open s \<Longrightarrow> \<not> dm_open t \<and> dm_started t @ held_params c t = dm_started s @ held_params c s"
  by (induction rule: dstep.induct) (auto simp: held_params_def)

lemma closed_reach:
  "dreach B c l s t \<Longrightarrow> \<not> dm_open s \<Longrightarrow> \<not> dm_open t \<and> dm_started t @ held_params c t = dm_started s @ held_params c s"
proof (induction rule: dreach.induct)
  case (further t u)
  with closed_step [OF further(2)] show ?case by simp
qed simp

lemma started_grows: "dreach B c l s t \<Longrightarrow> prefix (dm_started s) (dm_started t)"
proof (induction rule: dreach.induct)
  case (further t u)
  from further(2) have "prefix (dm_started t) (dm_started u)" by (cases rule: dstep.cases) auto
  with further.IH show ?case by (rule prefix_order.trans)
qed simp

lemma closed_starts:
  assumes "dreach B c l s t" "\<not> dm_open s"
  shows "dm_started t = dm_started s \<or> dm_started t = dm_started s @ held_params c s"
proof -
  from started_grows [OF assms(1)] obtain z where z: "dm_started t = dm_started s @ z" by (auto simp: prefix_def)
  with closed_reach [OF assms] have "z @ held_params c t = held_params c s" by simp
  then have "z = [] \<or> z = held_params c s"
    by (cases z) (auto simp: held_params_def split: option.splits prod.splits)
  with z show ?thesis by auto
qed

text \<open>
  C34. The daemon serves and drains. For every interleaving of the accept loop, the signal, the goroutine that closes the listener and
  the runners: the connections served are a beginning of those of the sequential accept loop, in its order, each with
  one runner - all of them when the loop was ended by an error of \<open>Accept\<close> and not by the signal's closing of the
  listener. A connection may still be accepted and started after the signal has come; but once the listener is closed at most one
  more is started, the one that had been accepted before. The daemon returns only after every runner has. After the signal or the end of the loop
  it is never stuck before that, waiting for nothing but (when the loop is over) its runners; so, if its runners return, it does return:
  the number of steps is bounded, and a run that cannot go on has finished.
\<close>

theorem daemon_serves_and_drains:
  assumes "dreach B c l (daemon_start as) s"
  shows "prefix (dm_started s) (accept_loop B c l as) \<and>
    (dm_phase s \<noteq> Accepting \<and> (\<not> dm_signal s \<or> dm_open s) \<longrightarrow> dm_started s = accept_loop B c l as) \<and>
    (\<not> dm_open s \<longrightarrow> (\<forall>t. dreach B c l s t \<longrightarrow> dm_started t = dm_started s \<or>
      (\<exists>now conn. dm_held s = Some (now, conn) \<and> dm_started t = dm_started s @ [newParams now c conn]))) \<and>
    (dm_phase s = Finished \<longrightarrow> dm_running s = {} \<and> dm_held s = None \<and> \<not> dm_open s) \<and>
    ((dm_signal s \<or> dm_phase s = Draining) \<and> dm_phase s \<noteq> Finished \<and> (dm_phase s = Draining \<longrightarrow> dm_running s = {}) \<longrightarrow>
      (\<exists>t. dstep B c l s t \<and> dm_signal t = dm_signal s \<and> dm_accepts t = dm_accepts s)) \<and>
    ((dm_signal s \<or> dm_phase s = Draining) \<and> (\<nexists>t. dstep B c l s t) \<longrightarrow> dm_phase s = Finished) \<and>
    (\<forall>f n. f 0 = s \<and> (\<forall>i < n. dstep B c l (f i) (f (Suc i))) \<longrightarrow> n \<le> 3 * length as + 4)"
proof -
  let ?W = "accept_loop B c l as"
  from dreach_dinv [OF assms dinv_start] have i: "dinv B c l ?W s" .
  note w = dreach_weight [OF assms]
  have n: "n \<le> 3 * length as + 4" if f: "f 0 = s" "\<forall>i < n. dstep B c l (f i) (f (Suc i))" for f n
  proof -
    from w f(1) have "finite (dm_running (f 0))" by simp
    from run_weight [OF this f(2)] w f(1) show ?thesis by simp
  qed
  have "dm_started t = dm_started s \<or> (\<exists>now conn. dm_held s = Some (now, conn) \<and> dm_started t = dm_started s @ [newParams now c conn])"
    if "\<not> dm_open s" "dreach B c l s t" for t
    using closed_starts [OF that(2,1)] by (auto simp: held_params_def split: option.splits prod.splits)
  moreover from i have "prefix (dm_started s) ?W"
    "dm_phase s \<noteq> Accepting \<and> (\<not> dm_signal s \<or> dm_open s) \<longrightarrow> dm_started s = ?W"
    "dm_phase s = Finished \<longrightarrow> dm_running s = {} \<and> dm_held s = None \<and> \<not> dm_open s" by (simp_all add: dinv_def)
  ultimately show ?thesis using n drains_on [OF i] stuck_finished [OF i] by blast
qed

text \<open>The connection is accepted, then the signal comes and the listener is closed, and then its goroutine is started.\<close>

theorem daemon_serves_and_drains_witness:
  "\<exists>s t. dreach ex_libs default_config (RawListener (ex_config False)) (daemon_start [(ex_V, 0, Inr (fresh_net []))]) s \<and>
     dm_signal s \<and> \<not> dm_open s \<and> length (dm_started s) = 1 \<and> dm_running s = {0} \<and>
     dstep ex_libs default_config (RawListener (ex_config False)) s t \<and> dm_signal t \<and> dm_accepts t = []"
proof -
  let ?l = "RawListener (ex_config False) :: byte any_listener" and ?B = ex_libs and ?as = "[(ex_V, 0 :: int, Inr (fresh_net []) :: net res)]"
  let ?conn = "RawConn (raw_Server (fresh_net []) (ex_config False)) :: (nat, nat, byte, byte) any_conn"
  let ?s0 = "daemon_start ?as :: (byte, (nat, nat, byte, byte) any_conn) daemon"
  let ?s1 = "\<lparr>dm_phase = Accepting, dm_open = True, dm_signal = False, dm_accepts = [], dm_held = Some (0, ?conn), dm_started = [], dm_running = {}\<rparr>
    :: (byte, (nat, nat, byte, byte) any_conn) daemon"
  let ?s2 = "?s1\<lparr>dm_signal := True\<rparr>"
  let ?s3 = "?s2\<lparr>dm_open := False\<rparr>"
  let ?s4 = "?s3\<lparr>dm_held := None, dm_started := [newParams 0 default_config ?conn], dm_running := {0}\<rparr>"
  have 1: "dstep ?B default_config ?l ?s0 ?s1"
    using accepted [of ?s0 ex_V 0 "Inr (fresh_net [])" "[]" ?B ?l ?conn default_config] by (simp add: daemon_start_def any_Accept_def)
  have 2: "dstep ?B default_config ?l ?s1 ?s2" using signalled [of ?s1 ?B default_config ?l] by simp
  have 3: "dstep ?B default_config ?l ?s2 ?s3" using shut [of ?s2 ?B default_config ?l] by simp
  have 4: "dstep ?B default_config ?l ?s3 ?s4" using serve [of ?s3 0 ?conn ?B default_config ?l] by simp
  have r: "dreach ?B default_config ?l ?s0 ?s4" by (rule further [OF further [OF further [OF further [OF here 1] 2] 3] 4])
  have "(dm_signal ?s4 \<or> dm_phase ?s4 = Draining) \<and> dm_phase ?s4 \<noteq> Finished \<and> (dm_phase ?s4 = Draining \<longrightarrow> dm_running ?s4 = {}) \<longrightarrow>
      (\<exists>t. dstep ?B default_config ?l ?s4 t \<and> dm_signal t = dm_signal ?s4 \<and> dm_accepts t = dm_accepts ?s4)"
    using daemon_serves_and_drains [OF r] by blast
  moreover have "(dm_signal ?s4 \<or> dm_phase ?s4 = Draining) \<and> dm_phase ?s4 \<noteq> Finished \<and> (dm_phase ?s4 = Draining \<longrightarrow> dm_running ?s4 = {})" by simp
  ultimately have "\<exists>t. dstep ?B default_config ?l ?s4 t \<and> dm_signal t = dm_signal ?s4 \<and> dm_accepts t = dm_accepts ?s4" by (rule mp)
  then obtain t where t: "dstep ?B default_config ?l ?s4 t" "dm_signal t" "dm_accepts t = []" by auto
  have "dm_signal ?s4" "\<not> dm_open ?s4" "dm_running ?s4 = {0}" "length (dm_started ?s4) = 1" by simp_all
  with r t show ?thesis by blast
qed

end
