(* ===== verification/Cli.thy ===== *)
theory Cli
  imports Netcat
begin

text \<open>
  cmd/noisecat/main.go: the positional arguments left by the flag package and the choice of what the
  program does, prints and exits with. Parsing of the flags themselves is the standard library's; its result is the
  configuration (\<open>default_config\<close> when no flag is given) and the remaining arguments.
\<close>

definition positional :: "config \<Rightarrow> string list \<Rightarrow> string + config" where
  "positional c args =
     (if cf_Keygen c \<or> cf_Validate c \<noteq> [] then Inr c
      else if \<not> cf_Listen c then
        if cf_Transport c = ''whatsapp'' then
          (case args of
             [] \<Rightarrow> Inr c
           | [host, port] \<Rightarrow> Inr (c\<lparr>cf_DstHost := host, cf_DstPort := port\<rparr>)
           | _ \<Rightarrow> Inl ''noisecat: -transport whatsapp takes either no address (real backend) or host+port (peer-to-peer)'')
        else
          (case args of
             [host, port] \<Rightarrow> Inr (c\<lparr>cf_DstHost := host, cf_DstPort := port\<rparr>)
           | _ \<Rightarrow> Inl [])
      else if args \<noteq> [] then Inl ''noisecat: positional arguments are not used with -l''
      else Inr c)"

text \<open>
  What \<open>main\<close> does: print a message and the usage (exit status 2), report a fatal error (1), print
  something (0), or start the client or the server with the configuration pointer it has.
\<close>

datatype action =
    Usage string
  | Fatal err
  | PrintOK
  | PrintKey bytes
  | RunClient config "noise_config option"
  | RunServer config "noise_config option"

definition keygen :: "cat_env \<Rightarrow> config \<Rightarrow> bytes res" where
  "keygen E c =
     (if cf_DHFunc c = NOISE_DH_SECP256K1 then GenerateSecp256k1Keypair E
      else GenerateKeypair E (cf_DHFunc c) (cf_CipherFunc c) (cf_HashFunc c))"

definition main_program :: "cat_env \<Rightarrow> config \<Rightarrow> string list \<Rightarrow> action" where
  "main_program E flags args =
     (case positional flags args of
        Inl m \<Rightarrow> Usage m
      | Inr c \<Rightarrow>
          if cf_Validate c \<noteq> [] then
            (case ValidateStaticKeyForProtocol E (cf_Validate c) (cf_Protocol c) of
               Inl e \<Rightarrow> Fatal (Wrapf ''invalid key: %s'' [] e) | Inr _ \<Rightarrow> PrintOK)
          else
            (case ParseConfig E c of
               (c', Inl e) \<Rightarrow> Fatal e
             | (c', Inr nc) \<Rightarrow>
                 if cf_Keygen c' then (case keygen E c' of Inl e \<Rightarrow> Fatal e | Inr k \<Rightarrow> PrintKey k)
                 else if \<not> cf_Listen c' then RunClient c' nc
                 else RunServer c' nc))"

section \<open>What is printed\<close>

text \<open>
  A piece of output and where it goes: fmt prints to standard output, package log, \<open>Errf\<close> and the
  defaults of package flag to standard error. \<open>newline\<close> is the line feed.
\<close>

datatype printed = StdOut string | StdErr string

definition newline :: string where
  "newline = [CHR 0x0A]"

text \<open>The \<open>Verbose\<close> logger; the line of \<open>Verb\<close> is the one package log makes of format and arguments.\<close>

definition Verb :: "bool \<Rightarrow> string \<Rightarrow> printed list" where
  "Verb l line = (if l then [StdErr line] else [])"

definition Errf :: "string \<Rightarrow> printed list" where
  "Errf line = [StdErr (''noisecat: '' @ line @ newline)]"

definition Fatalf :: "string \<Rightarrow> printed list \<times> nat" where
  "Fatalf line = (Errf line, 1)"

definition showBanner :: "string \<Rightarrow> string" where
  "showBanner version = newline @ ''noisecat '' @ version @ '' - the noise swiss army knife'' @ newline @
     '' (c) Gerardo Di Giacomo 2018'' @ newline"

text \<open>\<open>listDetails\<close> on the names of a map in the order in which Go iterates over it; \<open>n\<close> is their number.\<close>

fun listDetails_loop :: "nat \<Rightarrow> nat \<Rightarrow> string list \<Rightarrow> string" where
  "listDetails_loop n i [] = []"
| "listDetails_loop n i (v # vs) =
     '' '' @ v @ (if (i + 1) mod 5 = 0 \<or> Suc i = n then newline @ '' '' else if Suc i < n then '','' else []) @
     listDetails_loop n (i + 1) vs"

definition listDetails :: "string list \<Rightarrow> string" where
  "listDetails names = '' '' @ listDetails_loop (length names) 0 names @ newline"

definition listSupportedProtocols :: "string list \<Rightarrow> string list \<Rightarrow> string list \<Rightarrow> string list \<Rightarrow> string" where
  "listSupportedProtocols patterns dhs ciphers hashes =
     newline @ ''Protocol name format: Noise_PT_DH_CP_HS'' @ newline @ newline @
     ''Where:'' @ newline @ ''  PT: Handshake pattern'' @ newline @ ''  DH: Diffie-Hellman handshake function'' @ newline @
     ''  CP: Cipher function'' @ newline @ ''  HS: Hash function'' @ newline @ newline @
     ''  e.g. Noise_NN_25519_AESGCM_SHA256'' @ newline @ newline @
     ''Available handshake patterns:'' @ newline @ listDetails patterns @
     ''Available DH functions:'' @ newline @ listDetails dhs @
     ''Available Cipher functions:'' @ newline @ listDetails ciphers @
     ''Available Hash functions:'' @ newline @ listDetails hashes @
     ''Available transports:'' @ newline @ ''  raw, noisesocket, bolt8, whatsapp'' @ newline @
     newline @ ''  bolt8 is auto-selected when -proto uses secp256k1 (Lightning BOLT-8).'' @ newline @
     ''  whatsapp (no address) connects to WhatsApp's real backend (handshake +'' @ newline @
     ''  certificate verification; no login). With -l or a host+port it peers two'' @ newline @
     ''  noisecat instances over the WhatsApp wire protocol (e.g. -l -e /bin/sh).'' @ newline"

text \<open>The environment of \<open>usage\<close>: the name of the program, the version, the flags' defaults and the orders of the maps.\<close>

record usage_env =
  arg0 :: string
  version :: string
  flag_defaults :: string
  map_orders :: "string list \<times> string list \<times> string list \<times> string list"

definition usage :: "usage_env \<Rightarrow> printed list" where
  "usage U =
     (case map_orders U of
        (patterns, dhs, ciphers, hashes) \<Rightarrow>
          [StdOut (showBanner (version U)),
           StdOut (newline @ ''Usage: '' @ arg0 U @ '' [options] [address] [port]'' @ newline @ newline),
           StdOut (''Options:'' @ newline), StdErr (flag_defaults U),
           StdOut (listSupportedProtocols patterns dhs ciphers hashes)])"

text \<open>What the program prints for an action other than running, with its exit status; \<open>msg\<close> renders an error.\<close>

fun report_action :: "usage_env \<Rightarrow> (err \<Rightarrow> string) \<Rightarrow> action \<Rightarrow> (printed list \<times> nat) option" where
  "report_action U msg (Usage m) = Some ((if m = [] then [] else [StdErr (m @ newline)]) @ usage U, 2)"
| "report_action U msg (Fatal e) = Some (Fatalf (msg e))"
| "report_action U msg PrintOK = Some ([StdOut (''OK'' @ newline)], 0)"
| "report_action U msg (PrintKey k) = Some ([StdOut (bytes_str k @ newline)], 0)"
| "report_action U msg (RunClient c nc) = None"
| "report_action U msg (RunServer c nc) = None"

text \<open>The orders of the maps: each is an enumeration of the names of its table.\<close>

definition orders_ok :: "usage_env \<Rightarrow> bool" where
  "orders_ok U \<longleftrightarrow> (case map_orders U of (patterns, dhs, ciphers, hashes) \<Rightarrow>
     distinct patterns \<and> set patterns = fst ` set PatternStrByte \<and> distinct dhs \<and> set dhs = fst ` set DHStrByte \<and>
     distinct ciphers \<and> set ciphers = fst ` set CipherStrByte \<and> distinct hashes \<and> set hashes = fst ` set HashStrByte)"

text \<open>
  Whatever the orders, a name put together from the listed parts is one the parser accepts: the
  usage advertises only what the program speaks.
\<close>

lemma usage_advertises_supported:
  assumes "orders_ok U" "map_orders U = (patterns, dhs, ciphers, hashes)"
    and "p \<in> set patterns" "d \<in> set dhs" "c \<in> set ciphers" "h \<in> set hashes" "k \<in> psk_digits"
  shows "\<exists>r. parseProtocolName (format_name p k d c h) = (r, None)"
proof -
  have m: "\<exists>b. map_of t x = Some b" if "x \<in> fst ` set t" for x and t :: "(string \<times> byte) list"
    using that by (induction t) auto
  from assms obtain pb db cb hb where "map_of PatternStrByte p = Some pb" "map_of DHStrByte d = Some db"
    "map_of CipherStrByte c = Some cb" "map_of HashStrByte h = Some hb"
    using m [of p PatternStrByte] m [of d DHStrByte] m [of c CipherStrByte] m [of h HashStrByte] by (auto simp: orders_ok_def)
  with assms(7) show ?thesis
    by (intro exI [of _ "\<lparr>pp_pattern = pb, pp_dh = db, pp_cipher = cb, pp_hash = hb, pp_psk = (if k = [] then noPSK else digits_val k)\<rparr>"]
        parse_format) simp_all
qed

section \<open>What is started\<close>

lemma ParseConfig_None: "ParseConfig E c = (c', Inr None) \<Longrightarrow> cf_Keygen c'"
  by (auto simp: ParseConfig_def set_protocol_def split: if_splits prod.splits option.splits sum.splits)

text \<open>The fields \<open>ParseConfig\<close> leaves as they are.\<close>

lemma parseNoise_fields:
  assumes "parseNoise E c = (c', Inr nc)"
  shows "cf_Listen c' = cf_Listen c \<and> cf_DstHost c' = cf_DstHost c \<and> cf_DstPort c' = cf_DstPort c"
  using assms by (cases rule: parseNoise_cases) (simp_all add: set_protocol_def)

lemma ParseConfig_fields:
  assumes "ParseConfig E c = (c', Inr (Some nc))"
  shows "cf_Listen c' = cf_Listen c \<and> cf_DstHost c' = cf_DstHost c \<and> cf_DstPort c' = cf_DstPort c \<and> cfg_initiator nc = (\<not> cf_Listen c)"
  using parseNoise_fields [OF ParseConfig_Inr(2) [OF assms]] parseNoise_role [OF ParseConfig_Inr(2) [OF assms]]
  by (auto split: if_splits)

lemma positional_Inr:
  assumes "positional flags args = Inr c"
  shows "cf_Listen c = cf_Listen flags \<and> cf_Keygen c = cf_Keygen flags \<and> cf_Validate c = cf_Validate flags \<and>
    cf_Transport c = cf_Transport flags \<and>
    (cf_Keygen flags \<or> cf_Validate flags \<noteq> [] \<or> cf_Listen flags \<and> args = [] \<or>
      \<not> cf_Listen flags \<and> (args = [] \<and> cf_Transport flags = ''whatsapp'' \<or> args = [cf_DstHost c, cf_DstPort c]))"
  using assms by (auto simp: positional_def split: if_splits list.splits)

text \<open>
  The program never starts a client or a server without a Noise configuration: when main starts one, the
  configuration parsed, its Noise configuration is there with the matching role, a server has no positional
  arguments, and a client connects to the host and port of its two arguments - or has none and uses the WhatsApp transport.
\<close>

theorem main_runs_configured:
  "case main_program E flags args of
     RunClient c nc \<Rightarrow> (\<exists>n. nc = Some n \<and> cfg_initiator n) \<and> \<not> cf_Listen flags \<and>
       (args = [cf_DstHost c, cf_DstPort c] \<or> args = [] \<and> cf_Transport flags = ''whatsapp'')
   | RunServer c nc \<Rightarrow> (\<exists>n. nc = Some n \<and> \<not> cfg_initiator n) \<and> cf_Listen flags \<and> args = []
   | _ \<Rightarrow> True"
proof (cases "positional flags args")
  case (Inr c)
  note pos = positional_Inr [OF Inr]
  show ?thesis
  proof (cases "cf_Validate c = []")
    case True
    obtain c' r where pc: "ParseConfig E c = (c', r)" by (cases "ParseConfig E c")
    show ?thesis
    proof (cases r)
      case (Inl e)
      with Inr True pc show ?thesis by (simp add: main_program_def)
    next
      case res: (Inr n)
      show ?thesis
      proof (cases n)
        case None
        with pc res ParseConfig_None [of E c c'] have "cf_Keygen c'" by simp
        with Inr True pc res show ?thesis by (simp add: main_program_def split: sum.split)
      next
        case (Some nc)
        with pc res have p: "ParseConfig E c = (c', Inr (Some nc))" by simp
        have "\<not> cf_Keygen c" using p by (auto simp: ParseConfig_def split: prod.splits option.splits)
        with pos True have "cf_Listen flags \<and> args = [] \<or>
            \<not> cf_Listen flags \<and> (args = [] \<and> cf_Transport flags = ''whatsapp'' \<or> args = [cf_DstHost c, cf_DstPort c])" by auto
        with ParseConfig_fields [OF p] pos Inr True p show ?thesis
          by (auto simp: main_program_def split: sum.split)
      qed
    qed
  next
    case False
    with Inr show ?thesis by (simp add: main_program_def split: sum.split)
  qed
qed (simp add: main_program_def)

end
