(* ===== verification/Spec2Isabelle.thy ===== *)
theory Spec2Isabelle
  imports Prelude Net_IO Noise_Lib Channel Calls Raw NS_Guarantees Bolt8_Handshake WA_Conn Config_Props Netcat_Props Runners
    Any_Conn No_Panic Session Netcat_Sessions Prologue Deadlines Daemon Cli
begin

text \<open>
  \<^bold>\<open>noisecat\<close>: a netcat whose connections are secured by protocols of the Noise family.

  \<^bold>\<open>The program.\<close> cmd/noisecat/main.go parses the flags into a \<open>Config\<close>, takes the positional
  host and port, and either runs one of the helpers (key generation, key validation) or hands the
  configuration to pkg/noisecat. There \<open>ParseConfig\<close> (conf.go) checks the combination of flags and
  builds the Noise configuration with its keys (protocols.go, noise.go, secp256k1_keys.go); net.go
  resolves the transport and its options and starts a client or a server; runners.go moves data
  between the established connection and the terminal, a command or another host. A transport
  (pkg/transport) turns a TCP, UDP or websocket connection into a secured one: \<open>raw\<close> and
  \<open>noisesocket\<close> run a handshake of the third-party Noise library, \<open>noisesocket\<close> may first negotiate
  the protocol in clear and binds that negotiation to the handshake through the prologue; \<open>bolt8\<close>
  and \<open>whatsapp\<close> implement their own handshakes over cryptographic primitives; \<open>udp\<close> runs the raw
  transport over KCP.

  \<^bold>\<open>Theories.\<close>
  \<^item> Prelude: bytes, Go errors as values (\<open>err\<close>, \<open>'a res\<close>; a run-time panic is the value \<open>Panic\<close>),
    length headers, chunks. Go_Strings, Go_Net: what is used of package strings, base64, strconv and
    net. Net_IO: a connection of the operating system, and \<open>readBytes\<close> and \<open>io.ReadFull\<close>, which
    interpret one locale \<open>exact_reader\<close>.
  \<^item> Noise_Lib, Crypto_Lib: the libraries as parameters, with the named laws the code relies on;
    Example_Lib: a concrete library that satisfies them, for the witnesses.
  \<^item> Channel: the session of two connections (\<open>duplex\<close>) and the locales \<open>stream_conn\<close>,
    \<open>live_conn\<close>, \<open>framed_conn\<close> and \<open>live_framed_conn\<close>: the contract between a transport's record
    layer and its Write and Read, when they succeed and when they fail. Every transport interprets one of
    the last two, and the locale \<open>fragment_writer\<close> for the loop inside its Write. Calls: what one end does
    with its connection, as a sequence of calls over its own script, each direction until it fails, with the
    lemmas of the last two locales for two such ends; a handshake that is deferred to the first call is part
    of the script.
  \<^item> Raw (raw/conn.go): \<open>raw_conn\<close>, handshake, Write, Read, Close.
  \<^item> Negotiation (noisesocket/negotiation.go), Noisesocket (noisesocket/conn.go), NS_Handshake
    (noisesocket/handshake_neg.go): messages, record layer, Accept-only and negotiated handshakes;
    NS_Conn, NS_Agreement, NS_Safety, NS_Guarantees: their lemmas.
  \<^item> Bolt8 (bolt8/primitives.go, handshake.go, conn.go), with the lemmas in Bolt8_Conn and
    Bolt8_Handshake.
  \<^item> WA_Proto (whatsapp/proto.go), WA_Framing (framing.go), WA_Cert (cert.go), WA_Noise
    (handshake.go), WA_Conn (conn.go), with WA_Handshake for the two ends of the handshake.
  \<^item> Transports (transport.go, raw.go, the end of raw/conn.go, noisesocket.go, bolt8.go, whatsapp.go,
    udp.go, noisenet/conn.go): Dial, Listen and Accept of every transport and their dispatch.
  \<^item> Protocols (protocols.go, utils.go), Config (conf.go, noise.go, secp256k1_keys.go, validate.go)
    and Config_Props; Netcat (net.go, timeout.go) and Netcat_Props; Runners (runners.go); Cli
    (cmd/noisecat/main.go, the logger of utils.go).
  \<^item> Compositions: Any_Conn (the connections of all transports behind \<open>net.Conn\<close>, with the stream
    contract \<open>stream_conn\<close> of their dispatch), No_Panic (well-formed connections), Session (two
    programs copying over one secured connection, from the connections that Dial and Accept return), Netcat_Sessions (from the flags of two programs to
    two peers), Prologue (from \<open>-prologue\<close> to the prologues the handshakes start with), Deadlines (who sets the
    deadline of a connection, and which is in force), Daemon (the goroutines of the accept loop).

  \<^bold>\<open>Correspondence of state.\<close> A Go struct is a record with the struct's fields (\<open>raw_conn\<close>,
  \<open>ns_conn\<close>, \<open>bolt_conn\<close>, \<open>wa_conn\<close>, \<open>wa_nh\<close>, \<open>framed\<close>, \<open>config\<close>, \<open>options\<close>, \<open>negotiation\<close>), a
  method is a function from the record to the new record and the results, and a nil pointer is
  \<open>None\<close>. Counters keep their width (the 64-bit nonces of bolt8, the 32-bit counters of whatsapp,
  the 64-bit durations). A mutex makes a method atomic on the fields it guards, so the order of
  operations is a sequence of steps; what remains of concurrency is in two step relations: \<open>hstep\<close>, the two
  copying goroutines of \<open>handleIO\<close> with the main goroutine and the timer, and \<open>dstep\<close>, the goroutines of the daemon.

  \<^bold>\<open>Environment, bounds and fuel.\<close> The connection below (\<open>net\<close>) is the script of what its reads
  deliver (data in chunks of any sizes, or an error) and of which writes fail, with the bytes written
  so far; a deadline that expires is an error in that script. A Dial or Accept that fails returns with
  its error the connection it had opened, which it has closed. Entropy is a script of values and
  failures. In \<open>handleIO\<close> a read and a write are each a call that blocks until it can return, and the endpoints
  say whether closing them wakes it up. Loops over a buffer recurse on the bytes left and terminate by a measure. The loops of
  the negotiation recurse on the attempts left, at most \<open>maxNegAttempts\<close> as in the code, so no fuel
  is added; loops over handshake messages recurse on the message list. \<open>handleIO\<close> terminates
  because every step decreases a measure on its state, and the theorem on it says which states have
  no step left.

  \<^bold>\<open>What the lemmas show.\<close>
  \<^item> Streams: for every transport what is read is a prefix of what the peer wrote, and all of it
    where the transport is live; the counts that Write returns are
    exact, also when it fails; manipulated frames are errors.
    Raw is only a \<open>framed_conn\<close>: its Read can lose buffered data at an error, so its stream is in order up to
    and including the first Read that fails.
  \<^item> Handshakes: the two ends of every transport, run against each other, end with matching ciphers;
    a certificate chain or an act that is not the peer's is refused; the WhatsApp handshake runs once.
  \<^item> Negotiation: only allowed or supported protocols are ever configured, the attempts are bounded,
    the prologue determines the transcript, both ends agree after an acceptance, a retry, a switch
    (the server then starts the Noise handshake) and a rejection.
  \<^item> Encodings: negotiation messages and protobuf messages are read back as they were written; the
    field parser is bounded; protocol names are exactly the well-formed ones.
  \<^item> Schedules: key rotation of bolt8 over any sequence of calls, failed Writes included (no key seals twice with
    one nonce; 500 messages to a key); nonces of whatsapp up to the wrap of the counter.
  \<^item> Configuration: what a successful parse guarantees, the completeness of the Noise configuration
    for the pattern, what \<open>-validate\<close> predicts, which transport is chosen, which timeouts result; over raw, UDP and
    NoiseSocket the handshakes start with the prologue of \<open>-prologue\<close> and with no other, while BOLT-8 and WhatsApp ignore it.
  \<^item> Absence of panics: the connections that Dial and Accept return are well-formed, every call keeps
    them so, and no sequence of calls ends in a nil pointer or an index out of range, but for the first supported
    protocol of an accepted NoiseSocket connection whose list is empty under the policy retry or switch.
  \<^item> \<open>handleIO\<close>: an undisturbed call that returns has delivered both directions completely and closed all three
    endpoints. Once one source has ended and the writes of that direction do not stall, it is never stuck before
    the return and needs a bounded number of steps, if closing the endpoints wakes up what is blocked in them;
    without that it can hang, on a terminal or on a write that stalls before anything has ended.
  \<^item> Composition: client and server configurations over raw, NoiseSocket (accepted, retried or switched),
    BOLT-8 and WhatsApp give two connections that become peers, by Dial and Accept or by the first call on
    each, with exactly the bytes that arrived behind the handshake left to read (\<open>any_ready\<close>). That is the
    premise of the end-to-end theorems: two programs copying over such connections deliver at each side a
    prefix of what went in at the other, at every moment, whatever fails in the copying and at whatever byte
    a Write fails; and over all transports but raw everything, when the copying is undisturbed, no Write
    fails and each end has read to the end of what was sent.
  \<^item> The daemon: for every interleaving of its goroutines it serves a beginning of what the sequential accept loop
    serves, and all of it when an error of \<open>Accept\<close> ends the loop; the signal, the closing of the listener, an \<open>Accept\<close> and the start of
    its goroutine are steps of their own, so a connection can still start after the signal, and one after the
    closing; it waits for its runners and returns when they have.
  \<^item> The idle timeout: the deadline in force, as the transports' \<open>SetDeadline\<close> forward it, is the last activity plus the
    idle time, except on an accepted WhatsApp connection between its deferred handshake and the first bytes moved.

  \<^bold>\<open>Not modelled.\<close> Verbose log lines inside the operations, which change no state. Parsing of flags
  (package flag), JSON, the file system, the Noise library, the cryptographic primitives, KCP, the
  websocket library, os/exec and the shell word parser are parameters. The accessors of addresses
  only forward to the connection below; \<open>tuneSession\<close> only calls KCP's setters. Simplified: \<open>quote\<close> escapes
  every byte beyond ASCII where \<open>%q\<close> keeps printable runes, \<open>splitList\<close> trims ASCII white space only,
  \<open>raw_applyPrologue\<close> returns the changed configuration where the code assigns through the caller's pointer, and the outcome of a
  key generation (\<open>env_genkey\<close>) is the same each time a configuration is built.

  \<^bold>\<open>Plan.\<close> Deadlines during Dial.
\<close>

end
